(* ===== verification/CD_Prelude.thy ===== *)
theory CD_Prelude
  imports Main "HOL-Library.Word"
begin

unbundle bit_operations_syntax

text \<open>
  Shared vocabulary of the development: the machine integer types of the runtime
  (\<open>uint32_t\<close>, \<open>uint64_t\<close>, \<open>int64_t\<close>), the outcome of a call
  that may trip a \<open>CD_ASSERT\<close> or read a null pointer, and the facts on words, lists and
  outcomes that several components use.  The collection \<open>flag_simps\<close> gathers the
  equations that evaluate flag words.
\<close>

section \<open>Machine integers\<close>

type_synonym uint16 = "16 word"
type_synonym uint32 = "32 word"
type_synonym uint64 = "64 word"

named_theorems flag_simps "equations that evaluate flag words"
named_theorems outcome_simps "equations for outcomes of runtime calls"

section \<open>Outcomes\<close>

text \<open>
  \<open>CD_ASSERT\<close>, \<open>CD_ASSERT_STR\<close> and \<open>ERROR_MESSAGE\<close> stop the process; a
  dereference of a null pointer is undefined in C++.  Both are kept as values, so that each
  is a branch of the model.
\<close>

datatype cd_abort =
    AssertFailed string   \<comment> \<open>\<open>CD_ASSERT\<close> or \<open>assert\<close>\<close>
  | ErrorMessage string   \<comment> \<open>\<open>ERROR_MESSAGE\<close>\<close>
  | NullDeref string      \<comment> \<open>a null pointer is dereferenced\<close>
  | OutOfRange string     \<comment> \<open>\<open>std::vector::at\<close> throws\<close>
  | DivByZero string      \<comment> \<open>integer division or remainder by zero traps\<close>
  | Unmodelled string     \<comment> \<open>a branch this development leaves out\<close>
  | Blocked string        \<comment> \<open>the call waits for another thread, or a loop does not end\<close>

type_synonym 'a outcome = "cd_abort + 'a"

definition bind_out :: "'a outcome \<Rightarrow> ('a \<Rightarrow> 'b outcome) \<Rightarrow> 'b outcome" where
  "bind_out m f = (case m of Inl e \<Rightarrow> Inl e | Inr x \<Rightarrow> f x)"

definition assert_out :: "string \<Rightarrow> bool \<Rightarrow> unit outcome" where
  "assert_out msg b = (if b then Inr () else Inl (AssertFailed msg))"

definition deref :: "string \<Rightarrow> 'a option \<Rightarrow> 'a outcome" where
  "deref msg p = (case p of None \<Rightarrow> Inl (NullDeref msg) | Some x \<Rightarrow> Inr x)"

lemma bind_out_simps [simp, outcome_simps]:
  "bind_out (Inl e) f = Inl e"
  "bind_out (Inr x) f = f x"
  by (simp_all add: bind_out_def)

lemma bind_out_Inr_iff [outcome_simps]:
  "bind_out m f = Inr y \<longleftrightarrow> (\<exists>x. m = Inr x \<and> f x = Inr y)"
  by (cases m) auto

lemma bind_out_assoc: "bind_out (bind_out m f) g = bind_out m (\<lambda>x. bind_out (f x) g)"
  by (cases m) auto

lemma assert_out_simps [simp, outcome_simps]:
  "assert_out msg True = Inr ()"
  "assert_out msg False = Inl (AssertFailed msg)"
  by (simp_all add: assert_out_def)

lemma assert_out_Inr_iff [simp]: "assert_out msg b = Inr u \<longleftrightarrow> b"
  by (simp add: assert_out_def)

lemma deref_simps [simp, outcome_simps]:
  "deref msg None = Inl (NullDeref msg)"
  "deref msg (Some x) = Inr x"
  by (simp_all add: deref_def)

lemma deref_Inr_iff [simp]: "deref msg p = Inr x \<longleftrightarrow> p = Some x"
  by (cases p) auto

section \<open>Words\<close>

lemma and_eq_iff_bits:
  fixes x y :: "'a::len word"
  shows "x AND y = y \<longleftrightarrow> (\<forall>n < LENGTH('a). bit y n \<longrightarrow> bit x n)"
  by (auto simp: bit_eq_iff bit_and_iff dest: bit_imp_le_length)

lemma bit_power2_word:
  "bit (2 ^ k :: 'a::len word) n \<longleftrightarrow> n = k \<and> k < LENGTH('a)"
  by (auto simp: bit_exp_iff possible_bit_def)

lemma and_1_neq_0_iff: "x AND 1 \<noteq> 0 \<longleftrightarrow> bit x 0" for x :: "'a::len word"
  by (simp add: and_one_eq bit_0 even_iff_mod_2_eq_zero)

lemma less_power_no_bit:
  fixes x :: "'a::len word"
  assumes "unat x < 2 ^ k" and "k \<le> n"
  shows "\<not> bit x n"
proof -
  have "take_bit k (unat x) = unat x"
    using assms(1) by (simp add: take_bit_nat_eq_self)
  then have "\<not> bit (unat x) n"
    using assms(2) by (metis bit_take_bit_iff not_less)
  then show ?thesis
    by (simp add: bit_unsigned_iff)
qed

section \<open>Lists\<close>

lemma foldr_or_bit:
  fixes f :: "'a \<Rightarrow> 'b::len word"
  shows "bit (foldr (\<lambda>t m. f t OR m) ts 0) n \<longleftrightarrow> (\<exists>t \<in> set ts. bit (f t) n)"
  by (induction ts) (auto simp: bit_or_iff)

end
