(* ===== verification/CD_Flags.thy ===== *)
theory CD_Flags
  imports CD_Prelude
begin

text \<open>
  The enumerations and flag macros of \<open>cd_def_common.h\<close>, \<open>cd_def_interface.h\<close>,
  \<open>cd_def_internal.h\<close> and \<open>cd_global.h\<close>, and the two \<open>GetMedium\<close>
  functions that print and read the name of a preservation medium.  An enumeration is a
  \<^theory_text>\<open>datatype\<close> with the constructors of the source and a function that gives the bit pattern
  the source assigns; aliases of the source (\<open>kDRAM\<close>, \<open>kPFS\<close>, \<dots>) are
  abbreviations.
\<close>

section \<open>Bit constants\<close>

definition BIT :: "nat \<Rightarrow> uint64" where
  "BIT n = push_bit n 1"

definition CD_BIT :: "nat \<Rightarrow> uint32" where
  "CD_BIT n = push_bit n 1"

lemma bit_BIT: "n < 64 \<Longrightarrow> bit (BIT n) k \<longleftrightarrow> k = n"
  by (auto simp: BIT_def bit_power2_word)

lemma bit_CD_BIT: "n < 32 \<Longrightarrow> bit (CD_BIT n) k \<longleftrightarrow> k = n"
  by (auto simp: CD_BIT_def bit_power2_word)

section \<open>Kinds of containment domains, media and preservation\<close>

datatype CDType = kStrict | kRelaxed | kDefaultCD

fun CDType_val :: "CDType \<Rightarrow> uint32" where
  "CDType_val kStrict = CD_BIT 0"
| "CDType_val kRelaxed = CD_BIT 1"
| "CDType_val kDefaultCD = 5"

datatype PrvMediumT = kUndefined | kLocalMemory | kRemoteMemory | kLocalDisk | kGlobalDisk

abbreviation kDRAM :: PrvMediumT where "kDRAM \<equiv> kLocalMemory"
abbreviation kHDD :: PrvMediumT where "kHDD \<equiv> kLocalDisk"
abbreviation kSSD :: PrvMediumT where "kSSD \<equiv> kLocalDisk"
abbreviation kPFS :: PrvMediumT where "kPFS \<equiv> kGlobalDisk"

fun PrvMediumT_val :: "PrvMediumT \<Rightarrow> uint32" where
  "PrvMediumT_val kUndefined = 0"
| "PrvMediumT_val kLocalMemory = CD_BIT 2"
| "PrvMediumT_val kRemoteMemory = CD_BIT 3"
| "PrvMediumT_val kLocalDisk = CD_BIT 4"
| "PrvMediumT_val kGlobalDisk = CD_BIT 5"

datatype CDPrvType = kCopy | kRef | kRegen | kCoop | kSerdes | kIgnore | kModify | kOutput

fun CDPrvType_bit :: "CDPrvType \<Rightarrow> nat" where
  "CDPrvType_bit kCopy = 8"
| "CDPrvType_bit kRef = 9"
| "CDPrvType_bit kRegen = 10"
| "CDPrvType_bit kCoop = 11"
| "CDPrvType_bit kSerdes = 12"
| "CDPrvType_bit kIgnore = 13"
| "CDPrvType_bit kModify = 14"
| "CDPrvType_bit kOutput = 15"

definition CDPrvType_val :: "CDPrvType \<Rightarrow> uint32" where
  "CDPrvType_val t = CD_BIT (CDPrvType_bit t)"

datatype PreserveUseT = kUnsure | kReadOnly | kReadWrite

fun PreserveUseT_val :: "PreserveUseT \<Rightarrow> uint32" where
  "PreserveUseT_val kUnsure = CD_BIT 16"
| "PreserveUseT_val kReadOnly = CD_BIT 17"
| "PreserveUseT_val kReadWrite = CD_BIT 18"

datatype CtxtPrvMode = kExcludeStack | kIncludeStack

fun CtxtPrvMode_val :: "CtxtPrvMode \<Rightarrow> uint32" where
  "CtxtPrvMode_val kExcludeStack = CD_BIT 19"
| "CtxtPrvMode_val kIncludeStack = CD_BIT 20"

datatype CDOpState = kBegin | kComplete | kCreate | kDestroy | kPreserve | kNoop

datatype CDExecMode = kExecution | kReexecution | kRecreated | kSuspension

datatype CDErrT = kOK | kAlreadyInit | kError | kExecutionModeError | kOutOfMemory
  | kFileOpenError | kFailedMakeFileDir | kAppError | kCompleteError

section \<open>System error names and locations\<close>

datatype SysErrNameT = kNoHWError | kSoftMem | kDegradedMem | kSoftComm | kDegradedComm
  | kSoftComp | kDegradedResource | kHardResource | kFileSys

fun SysErrNameT_val :: "SysErrNameT \<Rightarrow> uint64" where
  "SysErrNameT_val kNoHWError = 0"
| "SysErrNameT_val kSoftMem = BIT 0"
| "SysErrNameT_val kDegradedMem = BIT 1"
| "SysErrNameT_val kSoftComm = BIT 2"
| "SysErrNameT_val kDegradedComm = BIT 3"
| "SysErrNameT_val kSoftComp = BIT 4"
| "SysErrNameT_val kDegradedResource = BIT 5"
| "SysErrNameT_val kHardResource = BIT 6"
| "SysErrNameT_val kFileSys = BIT 7"

datatype SysErrLocT = kNoSysErr | kIntraCore | kCore | kProc | kNode | kModule | kCabinet
  | kCabinetGroup | kSystem

fun SysErrLocT_val :: "SysErrLocT \<Rightarrow> uint64" where
  "SysErrLocT_val kNoSysErr = 0"
| "SysErrLocT_val kIntraCore = BIT 16"
| "SysErrLocT_val kCore = BIT 17"
| "SysErrLocT_val kProc = BIT 18"
| "SysErrLocT_val kNode = BIT 19"
| "SysErrLocT_val kModule = BIT 20"
| "SysErrLocT_val kCabinet = BIT 21"
| "SysErrLocT_val kCabinetGroup = BIT 22"
| "SysErrLocT_val kSystem = BIT 23"

section \<open>Events\<close>

datatype CDEventT = kNoEvent | kAllPause | kAllResume | kAllReexecute | kAllEscalate
  | kEntrySend | kReserved | kEntrySearch | kErrorOccurred | kEscalationDetected

fun CDEventT_val :: "CDEventT \<Rightarrow> uint32" where
  "CDEventT_val kNoEvent = 0"
| "CDEventT_val kAllPause = CD_BIT 0"
| "CDEventT_val kAllResume = CD_BIT 1"
| "CDEventT_val kAllReexecute = CD_BIT 2"
| "CDEventT_val kAllEscalate = CD_BIT 3"
| "CDEventT_val kEntrySend = CD_BIT 4"
| "CDEventT_val kReserved = CD_BIT 5"
| "CDEventT_val kEntrySearch = CD_BIT 6"
| "CDEventT_val kErrorOccurred = CD_BIT 7"
| "CDEventT_val kEscalationDetected = CD_BIT 8"

definition event2str :: "uint32 \<Rightarrow> string" where
  "event2str event =
     (if event = CDEventT_val kNoEvent then ''kNoEvent''
      else if event = CDEventT_val kAllPause then ''kAllPause''
      else if event = CDEventT_val kAllResume then ''kAllResume''
      else if event = CDEventT_val kAllReexecute then ''kAllReexecute''
      else if event = CDEventT_val kAllEscalate then ''kAllEscalate''
      else if event = CDEventT_val kEntrySend then ''kEntrySend''
      else if event = CDEventT_val kReserved then ''kReserved''
      else if event = CDEventT_val kEntrySearch then ''kEntrySearch''
      else if event = CDEventT_val kErrorOccurred then ''kErrorOccurred''
      else if event = CDEventT_val kEscalationDetected then ''kEscalationDetected''
      else ''UNDEFINED EVENT'')"

section \<open>Flag macros\<close>

definition CHECK_TYPE :: "uint32 \<Rightarrow> uint32 \<Rightarrow> bool" where
  "CHECK_TYPE x y \<longleftrightarrow> x AND y = y"

definition CHECK_ANY :: "uint32 \<Rightarrow> uint32 \<Rightarrow> bool" where
  "CHECK_ANY x y \<longleftrightarrow> x AND y \<noteq> 0"

definition CHECK_EVENT :: "uint32 \<Rightarrow> uint32 \<Rightarrow> bool" where
  "CHECK_EVENT x y \<longleftrightarrow> x AND y = y"

definition CHECK_NO_EVENT :: "uint32 \<Rightarrow> bool" where
  "CHECK_NO_EVENT x \<longleftrightarrow> x = 0"

definition SET_EVENT :: "uint32 \<Rightarrow> uint32 \<Rightarrow> uint32" where
  "SET_EVENT x y = x OR y"

definition MASK_CDTYPE :: "uint32 \<Rightarrow> uint32" where
  "MASK_CDTYPE x = x AND 0x03"

definition MASK_MEDIUM :: "uint32 \<Rightarrow> uint32" where
  "MASK_MEDIUM x = x AND 0xFC"

section \<open>Names of preservation media\<close>

text \<open>
  \<open>common::GetMedium\<close> of \<open>phase_tree.cc\<close> prints a medium (\<open>tuning_off\<close>
  stands for \<open>CD_TUNING_ENABLED == 0 && CD_RUNTIME_ENABLED == 1\<close>, where an undefined
  medium is a fatal error); \<open>GetMedium\<close> of \<open>sys_err_t.cc\<close> reads the name back from
  the configuration file.
\<close>

fun GetMedium :: "bool \<Rightarrow> PrvMediumT \<Rightarrow> string outcome" where
  "GetMedium tuning_off kLocalMemory = Inr ''LocalMemory''"
| "GetMedium tuning_off kRemoteMemory = Inr ''RemoteMemory''"
| "GetMedium tuning_off kLocalDisk = Inr ''LocalDisk''"
| "GetMedium tuning_off kGlobalDisk = Inr ''GlobalDisk''"
| "GetMedium tuning_off kUndefined =
     (if tuning_off then Inl (ErrorMessage ''Undefined medium'') else Inr ''Undefined'')"

definition GetMedium_key :: "string \<Rightarrow> PrvMediumT outcome" where
  "GetMedium_key key =
     (if key = ''LocalMemory'' then Inr kLocalMemory
      else if key = ''Local Memory'' then Inr kLocalMemory
      else if key = ''RemoteMemory'' then Inr kRemoteMemory
      else if key = ''Remote Memory'' then Inr kRemoteMemory
      else if key = ''LocalDisk'' then Inr kLocalDisk
      else if key = ''Local Disk'' then Inr kLocalDisk
      else if key = ''GlobalDisk'' then Inr kGlobalDisk
      else if key = ''Global Disk'' then Inr kGlobalDisk
      else Inl (ErrorMessage ''Undefined medium in input''))"

section \<open>Facts about masks\<close>

lemma CDPrvType_bit_less: "CDPrvType_bit t < 32"
  by (cases t) simp_all

lemma CDPrvType_bit_inj [simp]: "CDPrvType_bit s = CDPrvType_bit t \<longleftrightarrow> s = t"
  by (cases s; cases t) simp_all

lemma bit_CDPrvType_val: "bit (CDPrvType_val t) k \<longleftrightarrow> k = CDPrvType_bit t"
  by (simp add: CDPrvType_val_def bit_CD_BIT CDPrvType_bit_less)

lemma CHECK_TYPE_iff_bit: "CHECK_TYPE x (CDPrvType_val t) \<longleftrightarrow> bit x (CDPrvType_bit t)"
  by (auto simp: CHECK_TYPE_def and_eq_iff_bits bit_CDPrvType_val CDPrvType_bit_less)

definition prv_mask :: "CDPrvType list \<Rightarrow> uint32" where
  "prv_mask ts = foldr (\<lambda>t m. CDPrvType_val t OR m) ts 0"

lemma CHECK_TYPE_prv_mask: "CHECK_TYPE (prv_mask ts) (CDPrvType_val t) \<longleftrightarrow> t \<in> set ts"
  by (auto simp: CHECK_TYPE_iff_bit prv_mask_def foldr_or_bit bit_CDPrvType_val)

text \<open>
  Preservation masks are read back exactly: a mask built by or-ing preservation types
  (for instance \<open>kCopy | kCoop\<close>, possibly together with any usage or context flag outside
  the preservation bits) passes \<open>CHECK_TYPE\<close> for a type if and only if that type was
  put in.
\<close>

theorem CHECK_TYPE_exact:
  assumes "\<forall>t. \<not> bit other (CDPrvType_bit t)"
  shows "CHECK_TYPE (prv_mask ts OR other) (CDPrvType_val t) \<longleftrightarrow> t \<in> set ts"
  using assms CHECK_TYPE_prv_mask [of ts t]
  by (simp add: CHECK_TYPE_iff_bit bit_or_iff)

theorem CHECK_TYPE_exact_witness:
  "CHECK_TYPE (prv_mask [kCopy, kCoop] OR PreserveUseT_val kReadOnly) (CDPrvType_val kCoop)
   \<and> \<not> CHECK_TYPE (prv_mask [kCopy, kCoop] OR PreserveUseT_val kReadOnly) (CDPrvType_val kRef)"
proof -
  have "\<forall>t. \<not> bit (PreserveUseT_val kReadOnly) (CDPrvType_bit t)"
  proof
    fix t show "\<not> bit (PreserveUseT_val kReadOnly) (CDPrvType_bit t)"
      by (cases t) (simp_all add: bit_CD_BIT)
  qed
  from CHECK_TYPE_exact [OF this, of "[kCopy, kCoop]"] show ?thesis by simp
qed

lemma MASK_split: "MASK_CDTYPE x OR MASK_MEDIUM x = x AND 0xFF"
  by (simp add: MASK_CDTYPE_def MASK_MEDIUM_def flip: bit.conj_disj_distrib)

lemma CDType_val_simps [flag_simps]:
  "CDType_val kStrict = 1" "CDType_val kRelaxed = 2"
  by (simp_all add: CD_BIT_def)

lemma PrvMediumT_val_simps [flag_simps]:
  "PrvMediumT_val kUndefined = 0" "PrvMediumT_val kLocalMemory = 4"
  "PrvMediumT_val kRemoteMemory = 8" "PrvMediumT_val kLocalDisk = 16"
  "PrvMediumT_val kGlobalDisk = 32"
  by (simp_all add: CD_BIT_def)

text \<open>
  The type argument of \<open>Create\<close> packs the strictness of the domain and the medium in one
  word: the two masks give back exactly the strictness and exactly the medium, for every
  combination, and the default argument \<open>kDefaultCD\<close> is the strict, local-memory one.
\<close>

theorem cd_type_roundtrip:
  "MASK_MEDIUM (CDType_val ty OR PrvMediumT_val m) =
     (if ty = kDefaultCD then PrvMediumT_val kDRAM OR PrvMediumT_val m else PrvMediumT_val m)
   \<and> MASK_CDTYPE (CDType_val ty OR PrvMediumT_val m) =
     (if ty = kDefaultCD then CDType_val kStrict else CDType_val ty)
   \<and> CDType_val kDefaultCD = CDType_val kStrict OR PrvMediumT_val kDRAM"
  by (cases ty; cases m)
    (simp_all add: MASK_MEDIUM_def MASK_CDTYPE_def CD_BIT_def)

text \<open>
  The names of media written to the configuration file are read back to the same
  medium; the only name that the printer can produce and the reader rejects is that of an
  undefined medium.
\<close>

theorem GetMedium_roundtrip:
  "bind_out (GetMedium tuning_off m) GetMedium_key = Inr m \<longleftrightarrow> m \<noteq> kUndefined"
  by (cases m) (simp_all add: GetMedium_key_def)

end
