(* ===== verification/CD_Ident.thy ===== *)
theory CD_Ident
  imports CD_Flags
begin

text \<open>
  Identifiers of containment domains: \<open>CDNameT\<close> (\<open>cd_name_t.h/.cc\<close>), \<open>NodeID\<close>
  (\<open>node_id.h/.cc\<close>), \<open>CDID\<close> (\<open>cd_id.h/.cc\<close>) and the message tags derived
  from them, with the scan of \<open>internal::Initialize\<close> (\<open>cd_internal.cc\<close>) that sizes the
  tag fields.  \<open>ColorT\<close> and \<open>GroupT\<close> are the opaque task-group handles (\<open>int\<close> in
  the single-task build).
\<close>

type_synonym ColorT = int
type_synonym GroupT = int

section \<open>CDNameT\<close>

record CDNameT =
  cn_level :: uint32
  cn_phase :: uint32
  cn_rank_in_level :: uint32
  cn_size :: uint32

definition CDNameT_default :: CDNameT where
  "CDNameT_default = \<lparr>cn_level = 0, cn_phase = 0, cn_rank_in_level = 0, cn_size = 0\<rparr>"

definition CDNameT_of :: "uint64 \<Rightarrow> uint64 \<Rightarrow> uint64 \<Rightarrow> uint64 \<Rightarrow> CDNameT" where
  "CDNameT_of level phase rank_in_level sz =
     \<lparr>cn_level = ucast level, cn_phase = ucast phase, cn_rank_in_level = ucast rank_in_level,
      cn_size = ucast sz\<rparr>"

text \<open>The constructor used by \<open>Create\<close>: the name of child number \<open>color\<close> of a domain.\<close>

definition CDNameT_child :: "CDNameT \<Rightarrow> uint32 \<Rightarrow> uint32 \<Rightarrow> CDNameT" where
  "CDNameT_child parent_cdname num_children color =
     \<lparr>cn_level = cn_level parent_cdname + 1,
      cn_phase = -1,
      cn_rank_in_level = num_children * cn_rank_in_level parent_cdname + color,
      cn_size = num_children\<rparr>"

definition IncLevel :: "CDNameT \<Rightarrow> CDNameT" where
  "IncLevel n = n\<lparr>cn_level := cn_level n + 1\<rparr>"

definition CDNameT_copy :: "CDNameT \<Rightarrow> CDNameT \<Rightarrow> CDNameT" where
  "CDNameT_copy this that =
     this\<lparr>cn_level := cn_level that, cn_phase := cn_phase that,
          cn_rank_in_level := cn_rank_in_level that, cn_size := cn_size that\<rparr>"

definition CDNameT_eq :: "CDNameT \<Rightarrow> CDNameT \<Rightarrow> bool" where
  "CDNameT_eq this that \<longleftrightarrow>
     cn_level this = cn_level that \<and> cn_phase this = cn_phase that \<and>
     cn_rank_in_level this = cn_rank_in_level that \<and> cn_size this = cn_size that"

definition CDTag :: "CDNameT \<Rightarrow> uint32" where
  "CDTag n = push_bit 16 (cn_level n) OR cn_rank_in_level n"

lemma CDNameT_eq_iff: "CDNameT_eq a b \<longleftrightarrow> a = b"
  by (auto simp: CDNameT_eq_def)

lemma CDNameT_copy_eq [simp]: "CDNameT_copy a b = b"
  by (simp add: CDNameT_copy_def)

section \<open>NodeID\<close>

record NodeID =
  nid_task_in_color :: int
  nid_head :: int
  nid_size :: int
  nid_color_id :: int
  nid_color :: ColorT
  nid_task_group :: GroupT

record TaskInfo =
  ti_color_id :: int
  ti_task_in_color :: int
  ti_head :: int
  ti_size :: int

text \<open>
  The constructors; \<open>task_group_\<close> is left uninitialised by the first two, so its value is an
  argument.  \<open>null_color\<close> is \<open>MPI_COMM_NULL\<close> in the MPI build and \<open>-1\<close> otherwise.
\<close>

definition NodeID_head :: "GroupT \<Rightarrow> ColorT \<Rightarrow> int \<Rightarrow> NodeID" where
  "NodeID_head grp null_color head =
     \<lparr>nid_task_in_color = -1, nid_head = head, nid_size = -1, nid_color_id = -1,
      nid_color = null_color, nid_task_group = grp\<rparr>"

definition NodeID_of :: "GroupT \<Rightarrow> ColorT \<Rightarrow> int \<Rightarrow> int \<Rightarrow> int \<Rightarrow> NodeID" where
  "NodeID_of grp color task head sz =
     \<lparr>nid_task_in_color = task, nid_head = head, nid_size = sz, nid_color_id = -1,
      nid_color = color, nid_task_group = grp\<rparr>"

definition NodeID_eq :: "NodeID \<Rightarrow> NodeID \<Rightarrow> bool" where
  "NodeID_eq this that \<longleftrightarrow>
     nid_color this = nid_color that \<and> nid_task_in_color this = nid_task_in_color that \<and>
     nid_size this = nid_size that"

definition IsHead :: "NodeID \<Rightarrow> bool" where
  "IsHead n \<longleftrightarrow> nid_head n = nid_task_in_color n"

definition set_head :: "NodeID \<Rightarrow> int \<Rightarrow> NodeID" where
  "set_head n head = n\<lparr>nid_head := head\<rparr>"

text \<open>
  \<open>init_node_id\<close>; \<open>mpi\<close> says whether the MPI build is meant, where
  \<open>comm_group\<close> stands for \<open>MPI_Comm_group\<close>.  \<open>INVALID_HEAD_ID\<close> is \<open>-1\<close>.
\<close>

definition init_node_id ::
  "bool \<Rightarrow> (ColorT \<Rightarrow> GroupT) \<Rightarrow> NodeID \<Rightarrow> ColorT \<Rightarrow> int \<Rightarrow> GroupT \<Rightarrow> int \<Rightarrow> int \<Rightarrow> NodeID" where
  "init_node_id mpi comm_group n color task_in_color grp head sz =
     n\<lparr>nid_color := color,
       nid_task_group := (if mpi then (if color \<noteq> 0 then comm_group color else nid_task_group n)
                       else grp),
       nid_task_in_color := task_in_color,
       nid_head := (if head = -1 then 0 else head),
       nid_size := sz\<rparr>"

definition NodeID_Serialize :: "NodeID \<Rightarrow> TaskInfo" where
  "NodeID_Serialize n =
     \<lparr>ti_color_id = nid_color_id n, ti_task_in_color = nid_task_in_color n, ti_head = nid_head n,
      ti_size = nid_size n\<rparr>"

text \<open>
  \<open>NodeID::Deserialize\<close> assigns every field of the received object to itself: the
  object and the receiver both stay as they are.
\<close>

definition NodeID_Deserialize :: "NodeID \<Rightarrow> TaskInfo \<Rightarrow> NodeID \<times> TaskInfo" where
  "NodeID_Deserialize n taskinfo =
     (n, taskinfo\<lparr>ti_color_id := ti_color_id taskinfo,
                  ti_task_in_color := ti_task_in_color taskinfo,
                  ti_head := ti_head taskinfo,
                  ti_size := ti_size taskinfo\<rparr>)"

section \<open>CDID\<close>

record CDID =
  cid_cd_name :: CDNameT
  cid_node_id :: NodeID
  cid_domain_id :: uint32
  cid_object_id :: uint32
  cid_sequential_id :: uint32

definition CDID_of :: "CDNameT \<Rightarrow> NodeID \<Rightarrow> CDID" where
  "CDID_of cd_name new_node_id =
     \<lparr>cid_cd_name = cd_name, cid_node_id = new_node_id, cid_domain_id = 0, cid_object_id = 0,
      cid_sequential_id = 0\<rparr>"

text \<open>The copy constructor resets \<open>object_id_\<close>; the assignment operator copies it.\<close>

definition CDID_copy_ctor :: "CDID \<Rightarrow> CDID" where
  "CDID_copy_ctor that =
     \<lparr>cid_cd_name = cid_cd_name that, cid_node_id = cid_node_id that, cid_domain_id = cid_domain_id that,
      cid_object_id = 0, cid_sequential_id = cid_sequential_id that\<rparr>"

definition CDID_assign :: "CDID \<Rightarrow> CDID \<Rightarrow> CDID" where
  "CDID_assign this that =
     this\<lparr>cid_domain_id := cid_domain_id that, cid_sequential_id := cid_sequential_id that,
          cid_cd_name := cid_cd_name that, cid_node_id := cid_node_id that,
          cid_object_id := cid_object_id that\<rparr>"

definition CDID_eq :: "CDID \<Rightarrow> CDID \<Rightarrow> bool" where
  "CDID_eq this that \<longleftrightarrow>
     NodeID_eq (cid_node_id this) (cid_node_id that) \<and> CDNameT_eq (cid_cd_name this) (cid_cd_name that) \<and>
     cid_sequential_id this = cid_sequential_id that"

definition SetCDID :: "CDID \<Rightarrow> NodeID \<Rightarrow> CDID" where
  "SetCDID i n = i\<lparr>cid_node_id := n\<rparr>"

definition SetSequentialID :: "CDID \<Rightarrow> uint32 \<Rightarrow> CDID" where
  "SetSequentialID i seq_id = i\<lparr>cid_sequential_id := seq_id\<rparr>"

section \<open>Message tags\<close>

text \<open>
  The field widths \<open>max_tag_bit\<close>, \<open>max_tag_rank_bit\<close>, \<open>max_tag_task_bit\<close> are
  global variables set once at start-up.
\<close>

record tag_bits =
  max_tag_bit :: nat
  max_tag_level_bit :: nat
  max_tag_rank_bit :: nat
  max_tag_task_bit :: nat

text \<open>
  The scan for the highest set bit of \<open>MPI_TAG_UB + 1\<close> starts with a shift by 64, which
  C++ leaves undefined for a 64-bit operand; \<open>ub\<close> is the value the platform gives.
\<close>

definition shr64 :: "(uint64 \<Rightarrow> nat \<Rightarrow> uint64) \<Rightarrow> uint64 \<Rightarrow> nat \<Rightarrow> uint64" where
  "shr64 ub x n = (if n < 64 then drop_bit n x else ub x n)"

fun scan_tag_bit :: "(uint64 \<Rightarrow> nat \<Rightarrow> uint64) \<Rightarrow> uint64 \<Rightarrow> nat \<Rightarrow> nat option" where
  "scan_tag_bit ub x 0 = (if shr64 ub x 0 AND 1 \<noteq> 0 then Some 0 else None)"
| "scan_tag_bit ub x (Suc cnt) =
     (if shr64 ub x (Suc cnt) AND 1 \<noteq> 0 then Some (Suc cnt) else scan_tag_bit ub x cnt)"

text \<open>
  When no bit is found the globals keep their initial value \<open>0\<close>.  MPI guarantees a tag
  bound of at least 32767, so that \<open>max_tag_bit\<close> is at least 15 and the subtractions do not
  go below zero.
\<close>

definition init_tag_bits :: "(uint64 \<Rightarrow> nat \<Rightarrow> uint64) \<Rightarrow> uint64 \<Rightarrow> tag_bits" where
  "init_tag_bits ub predefined_max_tag_bits =
     (let b = (case scan_tag_bit ub predefined_max_tag_bits 64 of None \<Rightarrow> 0 | Some c \<Rightarrow> c);
          r = b - 6 - 1
      in \<lparr>max_tag_bit = b, max_tag_level_bit = 6, max_tag_rank_bit = r,
          max_tag_task_bit = r div 2\<rparr>)"

definition TAG_MASK :: "nat \<Rightarrow> uint32" where
  "TAG_MASK x = push_bit (x - 1) 2 - 1"

definition GenMsgTag :: "tag_bits \<Rightarrow> uint64 \<Rightarrow> uint32" where
  "GenMsgTag tb tag = ucast tag AND TAG_MASK (max_tag_bit tb)"

definition GenMsgTagForSameCD :: "tag_bits \<Rightarrow> CDNameT \<Rightarrow> uint32 \<Rightarrow> uint32" where
  "GenMsgTagForSameCD tb name task_in_color =
     (((push_bit (max_tag_rank_bit tb) (cn_level name)
        OR push_bit (max_tag_task_bit tb) (cn_rank_in_level name)
        OR task_in_color)
       AND TAG_MASK (max_tag_bit tb))
      OR push_bit (max_tag_bit tb - 1) 1)"

section \<open>Facts about names and identifiers\<close>

lemma unat_mult_add_no_wrap:
  fixes a b c :: "'a::len word"
  assumes "unat a * unat b + unat c < 2 ^ LENGTH('a)"
  shows "unat (a * b + c) = unat a * unat b + unat c"
  using assms by (simp add: unat_word_ariths mod_add_left_eq)

lemma mixed_radix_unique:
  fixes n p q c d :: nat
  assumes "c < n" and "d < n"
  shows "n * p + c = n * q + d \<longleftrightarrow> p = q \<and> c = d"
proof
  assume eq: "n * p + c = n * q + d"
  then have "(n * p + c) div n = (n * q + d) div n" by simp
  with assms have "p = q" by simp
  with eq show "p = q \<and> c = d" by simp
qed simp

lemma rank_in_level_child:
  assumes "unat n * unat (cn_rank_in_level p) + unat color < 2 ^ 32"
  shows "unat (cn_rank_in_level (CDNameT_child p n color)) =
         unat n * unat (cn_rank_in_level p) + unat color"
  using assms by (simp add: CDNameT_child_def unat_mult_add_no_wrap)

text \<open>
  Names of children are unique in their level: two domains of one level that each split
  into \<open>n\<close> children give two children the same name only if they are the same child of the
  same parent, as long as the rank computation does not wrap around 32 bits.
\<close>

theorem child_names_unique:
  assumes "color < n" "color' < n" "cn_level p = cn_level q"
    and "unat n * unat (cn_rank_in_level p) + unat color < 2 ^ 32"
    and "unat n * unat (cn_rank_in_level q) + unat color' < 2 ^ 32"
  shows "CDNameT_eq (CDNameT_child p n color) (CDNameT_child q n color') \<longleftrightarrow>
         cn_rank_in_level p = cn_rank_in_level q \<and> color = color'"
proof -
  have "CDNameT_eq (CDNameT_child p n color) (CDNameT_child q n color') \<longleftrightarrow>
        unat (cn_rank_in_level (CDNameT_child p n color)) =
        unat (cn_rank_in_level (CDNameT_child q n color'))"
    using assms(3) by (simp add: CDNameT_eq_def CDNameT_child_def flip: word_unat_eq_iff)
  also have "\<dots> \<longleftrightarrow> unat (cn_rank_in_level p) = unat (cn_rank_in_level q) \<and> unat color = unat color'"
    using assms(1,2) rank_in_level_child [OF assms(4)] rank_in_level_child [OF assms(5)]
      mixed_radix_unique [of "unat color" "unat n" "unat color'"]
    by (simp add: word_less_nat_alt)
  finally show ?thesis by (simp flip: word_unat_eq_iff)
qed

theorem child_names_unique_witness:
  "\<not> CDNameT_eq (CDNameT_child (CDNameT_of 1 0 2 4) 8 3) (CDNameT_child (CDNameT_of 1 0 1 4) 8 3)"
  using child_names_unique
    [of 3 8 3 "CDNameT_of 1 0 2 4" "CDNameT_of 1 0 1 4"]
  by (simp add: CDNameT_of_def)

lemma NodeID_eq_sym: "NodeID_eq a b \<longleftrightarrow> NodeID_eq b a"
  by (auto simp: NodeID_eq_def)

lemma CDID_eq_copy: "CDID_eq (CDID_copy_ctor i) i"
  by (simp add: CDID_eq_def CDID_copy_ctor_def NodeID_eq_def CDNameT_eq_def)

lemma CDID_eq_refl [simp]: "CDID_eq i i"
  by (simp add: CDID_eq_def NodeID_eq_def CDNameT_eq_def)

section \<open>Facts about message tags\<close>

lemma TAG_MASK_eq_mask: "0 < m \<Longrightarrow> TAG_MASK m = mask m"
  by (cases m) (simp_all add: TAG_MASK_def mask_eq_exp_minus_1 push_bit_eq_mult mult.commute)

lemma scan_tag_bit_Some:
  assumes "bit x c" and "c \<le> k" and "\<And>i. c < i \<Longrightarrow> i \<le> k \<Longrightarrow> \<not> bit x i"
    and "k < 64"
  shows "scan_tag_bit ub x k = Some c"
  using assms
proof (induction k)
  case 0
  then show ?case by (simp add: shr64_def and_1_neq_0_iff)
next
  case (Suc k)
  have odd_iff: "shr64 ub x (Suc k) AND 1 \<noteq> 0 \<longleftrightarrow> bit x (Suc k)"
    using Suc.prems(4) by (simp add: shr64_def and_1_neq_0_iff bit_drop_bit_eq)
  show ?case
  proof (cases "c = Suc k")
    case True
    with Suc.prems(1) odd_iff show ?thesis by simp
  next
    case False
    with Suc.prems odd_iff Suc.IH show ?thesis by simp
  qed
qed

text \<open>
  The start-up scan sizes the tag fields by the highest set bit of the tag bound, provided
  that the out-of-range shift of its first iteration yields an even value.
\<close>

theorem init_tag_bits_highest:
  assumes "bit x c" and "\<And>i. bit x i \<Longrightarrow> i \<le> c" and "\<not> bit (ub x 64) 0"
  shows "max_tag_bit (init_tag_bits ub x) = c"
proof -
  have "c < 64" using assms(1) by (auto dest: bit_imp_le_length)
  have "scan_tag_bit ub x 63 = Some c"
    using assms(1,2) \<open>c < 64\<close> by (intro scan_tag_bit_Some) (auto simp flip: not_less)
  moreover have "shr64 ub x 64 AND 1 = 0"
    using assms(3) and_1_neq_0_iff [of "ub x 64"] by (simp add: shr64_def)
  ultimately have "scan_tag_bit ub x 64 = Some c"
    using scan_tag_bit.simps(2) [of ub x 63] by simp
  then show ?thesis by (simp add: init_tag_bits_def Let_def)
qed

theorem init_tag_bits_highest_witness:
  "max_tag_bit (init_tag_bits (\<lambda>x n. drop_bit (n mod 64) x) 0x20000000) = 29"
proof -
  have x: "(0x20000000 :: uint64) = 2 ^ 29" by simp
  show ?thesis
    unfolding x
  proof (rule init_tag_bits_highest)
    show "bit (2 ^ 29 :: uint64) 29" by (subst bit_power2_word) simp
    show "\<not> bit (drop_bit (64 mod 64) (2 ^ 29 :: uint64)) 0" by simp
    show "i \<le> 29" if "bit (2 ^ 29 :: uint64) i" for i
      using that by (subst (asm) bit_power2_word) simp
  qed
qed

lemma bit_GenMsgTagForSameCD:
  assumes "0 < max_tag_bit tb" "max_tag_bit tb \<le> 32" and "n < 32"
  shows "bit (GenMsgTagForSameCD tb name task) n \<longleftrightarrow>
    n < max_tag_bit tb \<and>
      (max_tag_rank_bit tb \<le> n \<and> bit (cn_level name) (n - max_tag_rank_bit tb) \<or>
       max_tag_task_bit tb \<le> n \<and> bit (cn_rank_in_level name) (n - max_tag_task_bit tb) \<or>
       bit task n)
    \<or> n = max_tag_bit tb - 1"
  using assms
  by (auto simp: GenMsgTagForSameCD_def TAG_MASK_eq_mask bit_or_iff bit_and_iff bit_mask_iff
      bit_push_bit_iff bit_power2_word possible_bit_def)

definition tag_fits :: "tag_bits \<Rightarrow> CDNameT \<Rightarrow> uint32 \<Rightarrow> bool" where
  "tag_fits tb name task \<longleftrightarrow>
     unat (cn_level name) < 2 ^ max_tag_level_bit tb \<and>
     unat (cn_rank_in_level name) < 2 ^ (max_tag_rank_bit tb - max_tag_task_bit tb) \<and>
     unat task < 2 ^ max_tag_task_bit tb"

definition tag_layout :: "tag_bits \<Rightarrow> bool" where
  "tag_layout tb \<longleftrightarrow>
     max_tag_bit tb \<le> 32 \<and> max_tag_rank_bit tb + max_tag_level_bit tb + 1 = max_tag_bit tb \<and>
     max_tag_task_bit tb \<le> max_tag_rank_bit tb"

lemma bit_level_less:
  "tag_fits tb name task \<Longrightarrow> bit (cn_level name) n \<Longrightarrow> n < max_tag_level_bit tb"
  by (meson tag_fits_def less_power_no_bit not_less)

lemma bit_rank_less:
  "tag_fits tb name task \<Longrightarrow> bit (cn_rank_in_level name) n \<Longrightarrow>
   n < max_tag_rank_bit tb - max_tag_task_bit tb"
  by (meson tag_fits_def less_power_no_bit not_less)

lemma bit_task_less:
  "tag_fits tb name task \<Longrightarrow> bit task n \<Longrightarrow> n < max_tag_task_bit tb"
  by (meson tag_fits_def less_power_no_bit not_less)

lemmas tag_field_bits = bit_level_less bit_rank_less bit_task_less

lemma tag_task_bits:
  assumes "tag_layout tb" "tag_fits tb name task" "n < max_tag_task_bit tb"
  shows "bit (GenMsgTagForSameCD tb name task) n \<longleftrightarrow> bit task n"
  using assms by (subst bit_GenMsgTagForSameCD) (auto simp: tag_layout_def)

lemma tag_rank_bits:
  assumes "tag_layout tb" "tag_fits tb name task" "n < max_tag_rank_bit tb - max_tag_task_bit tb"
  shows "bit (GenMsgTagForSameCD tb name task) (n + max_tag_task_bit tb)
         \<longleftrightarrow> bit (cn_rank_in_level name) n"
  using assms
  by (subst bit_GenMsgTagForSameCD) (auto simp: tag_layout_def dest: bit_task_less)

lemma tag_level_bits:
  assumes "tag_layout tb" "tag_fits tb name task" "n < max_tag_level_bit tb"
  shows "bit (GenMsgTagForSameCD tb name task) (n + max_tag_rank_bit tb) \<longleftrightarrow> bit (cn_level name) n"
  using assms
  by (subst bit_GenMsgTagForSameCD)
    (auto simp: tag_layout_def dest: bit_task_less bit_rank_less)

text \<open>
  Message tags do not collide: with the field widths the start-up code computes, two tags
  for levels, ranks and tasks that fit their fields are equal only if level, rank and task
  agree.
\<close>

theorem GenMsgTagForSameCD_inj:
  assumes "tag_layout tb" "tag_fits tb a s" "tag_fits tb b t"
    and "GenMsgTagForSameCD tb a s = GenMsgTagForSameCD tb b t"
  shows "cn_level a = cn_level b \<and> cn_rank_in_level a = cn_rank_in_level b \<and> s = t"
proof (intro conjI bit_eqI)
  fix n
  show "bit (cn_level a) n \<longleftrightarrow> bit (cn_level b) n"
    using assms tag_level_bits [of tb a s n] tag_level_bits [of tb b t n]
    by (metis bit_level_less)
  show "bit (cn_rank_in_level a) n \<longleftrightarrow> bit (cn_rank_in_level b) n"
    using assms tag_rank_bits [of tb a s n] tag_rank_bits [of tb b t n]
    by (metis bit_rank_less)
  show "bit s n \<longleftrightarrow> bit t n"
    using assms tag_task_bits [of tb a s n] tag_task_bits [of tb b t n]
    by (metis bit_task_less)
qed

theorem GenMsgTagForSameCD_inj_witness:
  "GenMsgTagForSameCD (init_tag_bits (\<lambda>x n. drop_bit (n mod 64) x) 0x20000000)
     (CDNameT_of 3 0 5 8) 7
   \<noteq> GenMsgTagForSameCD (init_tag_bits (\<lambda>x n. drop_bit (n mod 64) x) 0x20000000)
     (CDNameT_of 3 0 6 8) 7"
proof -
  let ?tb = "\<lparr>max_tag_bit = 29, max_tag_level_bit = 6, max_tag_rank_bit = 22, max_tag_task_bit = 11\<rparr>"
  have "init_tag_bits (\<lambda>x n. drop_bit (n mod 64) x) 0x20000000 = ?tb"
    by code_simp
  moreover have "tag_layout ?tb" "tag_fits ?tb (CDNameT_of 3 0 5 8) 7"
    "tag_fits ?tb (CDNameT_of 3 0 6 8) 7"
    by (simp_all add: tag_layout_def tag_fits_def CDNameT_of_def)
  ultimately show ?thesis
    using GenMsgTagForSameCD_inj [of ?tb "CDNameT_of 3 0 5 8" 7 "CDNameT_of 3 0 6 8" 7]
    by (auto simp: CDNameT_of_def)
qed

end
