(* ===== verification/CD_Split.thy ===== *)
theory CD_Split
  imports CD_Prelude "HOL-Library.Signed_Division"
begin

text \<open>
  Splitting the task group of a domain among its children (\<open>SplitCD_1D\<close>, \<open>SplitCD_3D\<close>
  and \<open>CDHandle::SelectHead\<close> of \<open>cd_handle.cc\<close>).  \<open>RegisterSplitMethod\<close> lets an
  application install its own method; what the runtime relies on is the interface
  \<open>split_method\<close> below, interpreted on the two methods of the source.  \<open>int\<close>
  division truncates (\<open>sdiv\<close>, \<open>smod\<close>).
\<close>

section \<open>The split methods of the source\<close>

definition SplitCD_1D :: "int \<Rightarrow> int \<Rightarrow> int \<Rightarrow> (int \<times> int) outcome" where
  "SplitCD_1D my_task_id my_size num_children =
     (if num_children = 0 then Inl (DivByZero ''SplitCD_1D'')
      else if my_size smod num_children \<noteq> 0 then Inl (ErrorMessage ''Cannot evenly split'')
      else (let new_size = my_size sdiv num_children in
        if new_size = 0 then Inl (DivByZero ''SplitCD_1D'')
        else Inr (my_task_id sdiv new_size, my_task_id smod new_size)))"

text \<open>
  \<open>round(pow(n, 1/3.))\<close> is the integer nearest to the cube root: the least \<open>k\<close> with
  \<open>8 n < (2 k + 1)\<^sup>3\<close>, found by counting up.
\<close>

function cube_root_from :: "int \<Rightarrow> int \<Rightarrow> int" where
  "cube_root_from k n =
     (if 0 \<le> k \<and> (2 * k + 1) ^ 3 \<le> 8 * n then cube_root_from (k + 1) n else k)"
  by pat_completeness auto
termination
proof (relation "measure (\<lambda>(k, n). nat (8 * n + 1 - k))", goal_cases)
  case (2 k n)
  then have "0 \<le> k" and "(2 * k + 1) ^ 3 \<le> 8 * n" by auto
  have "(2 * k + 1) ^ 1 \<le> (2 * k + 1) ^ 3"
    using \<open>0 \<le> k\<close> by (intro power_increasing) auto
  then have "k < 8 * n + 1" using \<open>0 \<le> k\<close> \<open>(2 * k + 1) ^ 3 \<le> 8 * n\<close> by simp
  then show ?case by simp
qed simp

declare cube_root_from.simps [simp del]

definition round_cbrt :: "int \<Rightarrow> int" where
  "round_cbrt n = cube_root_from 0 n"

definition SplitCD_3D :: "int \<Rightarrow> int \<Rightarrow> int \<Rightarrow> (int \<times> int) outcome" where
  "SplitCD_3D my_task_id my_size num_children =
     (if num_children < 1 then Inl (AssertFailed ''num_children'') else
      let new_size = my_size sdiv num_children;
          num_x = round_cbrt my_size;
          num_children_x = (if num_children > 1 then round_cbrt num_children else 1)
      in if num_children_x = 0 then Inl (DivByZero ''SplitCD_3D'') else
      let new_num_x = num_x sdiv num_children_x
      in if num_x * num_x * num_x \<noteq> my_size
            \<or> num_children_x * num_children_x * num_children_x \<noteq> num_children
            \<or> new_num_x * new_num_x * new_num_x \<noteq> new_size
            \<or> num_x = 0 \<or> new_num_x = 0
         then Inl (AssertFailed ''SplitCD_3D'')
         else
           let sz = num_x * num_x;
               Z = my_task_id sdiv sz;
               tmp = my_task_id smod sz;
               Y = tmp sdiv num_x;
               X = tmp smod num_x
           in Inr (X sdiv new_num_x + (Y sdiv new_num_x) * num_children_x
                     + (Z sdiv new_num_x) * (num_children_x * num_children_x),
                   X smod new_num_x + (Y smod new_num_x) * new_num_x
                     + (Z smod new_num_x) * (new_num_x * new_num_x)))"

text \<open>The head of a child at level \<open>level + 1\<close>.\<close>

definition SelectHead :: "nat \<Rightarrow> nat \<Rightarrow> nat outcome" where
  "SelectHead level task_size =
     bind_out (assert_out ''SelectHead'' (task_size \<noteq> 0))
       (\<lambda>_. Inr ((level + 1) mod task_size))"

section \<open>The interface of a split method\<close>

text \<open>
  \<open>ok size n\<close> says when the method may be used to split \<open>size\<close> tasks into \<open>n\<close>
  children; then it answers for every task, and the answers number the tasks of the children
  without gaps or overlaps.
\<close>

locale split_method =
  fixes split :: "int \<Rightarrow> int \<Rightarrow> int \<Rightarrow> (int \<times> int) outcome"
    and ok :: "int \<Rightarrow> int \<Rightarrow> bool"
  assumes ok_children: "ok sz n \<Longrightarrow> 0 < n \<and> 0 < sz \<and> n dvd sz"
    and answers: "ok sz n \<Longrightarrow> 0 \<le> t \<Longrightarrow> t < sz \<Longrightarrow> \<exists>r. split t sz n = Inr r"
    and numbering: "ok sz n \<Longrightarrow>
      bij_betw (\<lambda>t. projr (split t sz n)) {0..<sz} ({0..<n} \<times> {0..<sz div n})"
begin

lemma answer_range:
  assumes "ok sz n" "0 \<le> t" "t < sz" "split t sz n = Inr (color, task)"
  shows "0 \<le> color \<and> color < n \<and> 0 \<le> task \<and> task < sz div n"
proof -
  have "projr (split t sz n) \<in> {0..<n} \<times> {0..<sz div n}"
    using bij_betwE [OF numbering [OF assms(1)]] assms(2,3) by auto
  with assms(4) show ?thesis by simp
qed

lemma answer_inj:
  assumes "ok sz n" "0 \<le> t" "t < sz" "0 \<le> u" "u < sz" "split t sz n = split u sz n"
  shows "t = u"
  using bij_betw_imp_inj_on [OF numbering [OF assms(1)]] assms(2-)
  by (auto simp: inj_on_def)

text \<open>Every child gets the same number of tasks.\<close>

lemma child_card:
  assumes "ok sz n" "0 \<le> color" "color < n"
  shows "card {t \<in> {0..<sz}. fst (projr (split t sz n)) = color} = nat (sz div n)"
proof -
  let ?f = "\<lambda>t. projr (split t sz n)"
  have "bij_betw ?f {t \<in> {0..<sz}. fst (?f t) = color} ({color} \<times> {0..<sz div n})"
  proof (rule bij_betw_subset [OF numbering [OF assms(1)]])
    show "?f ` {t \<in> {0..<sz}. fst (?f t) = color} = {color} \<times> {0..<sz div n}"
    proof (intro equalityI subsetI)
      fix p assume "p \<in> ?f ` {t \<in> {0..<sz}. fst (?f t) = color}"
      then show "p \<in> {color} \<times> {0..<sz div n}"
        using bij_betwE [OF numbering [OF assms(1)]] by fastforce
    next
      fix p assume p: "p \<in> {color} \<times> {0..<sz div n}"
      then have "p \<in> ?f ` {0..<sz}"
        using assms(2,3) bij_betw_imp_surj_on [OF numbering [OF assms(1)]] by auto
      then obtain t where "t \<in> {0..<sz}" "p = ?f t" by blast
      with p show "p \<in> ?f ` {t \<in> {0..<sz}. fst (?f t) = color}" by force
    qed
  qed auto
  from bij_betw_same_card [OF this] show ?thesis by (simp add: card_cartesian_product)
qed

end

section \<open>The one-dimensional split\<close>

lemma sdiv_nonneg [simp]: "0 \<le> a \<Longrightarrow> 0 \<le> b \<Longrightarrow> a sdiv b = a div b" for a b :: int
  by (cases "a = 0"; cases "b = 0") (auto simp: signed_divide_int_def)

lemma smod_nonneg [simp]: "0 \<le> a \<Longrightarrow> 0 \<le> b \<Longrightarrow> a smod b = a mod b" for a b :: int
  by (cases "a = 0") (auto simp: signed_modulo_int_def minus_div_mult_eq_mod sgn_if)

lemma div_less_of_less_mult: "0 < m \<Longrightarrow> t < n * m \<Longrightarrow> t div m < n" for t m n :: int
proof (rule ccontr)
  assume "0 < m" "t < n * m" "\<not> t div m < n"
  then have "n * m \<le> t div m * m" by (intro mult_right_mono) auto
  also have "\<dots> \<le> t" using \<open>0 < m\<close> pos_mod_sign [of m t] div_mult_mod_eq [of t m] by linarith
  finally show False using \<open>t < n * m\<close> by simp
qed

definition split1D_ok :: "int \<Rightarrow> int \<Rightarrow> bool" where
  "split1D_ok sz n \<longleftrightarrow> 0 < n \<and> 0 < sz \<and> n dvd sz"

lemma SplitCD_1D_eq:
  assumes "split1D_ok sz n" "0 \<le> t"
  shows "SplitCD_1D t sz n = Inr (t div (sz div n), t mod (sz div n))"
proof -
  have "0 < sz div n"
    using assms(1) by (auto simp: split1D_ok_def elim!: dvdE simp: zero_less_mult_iff)
  then show ?thesis
    using assms by (simp add: SplitCD_1D_def split1D_ok_def Let_def)
qed

lemma div_mod_bij:
  fixes n m :: int
  assumes "0 < n" "0 < m"
  shows "bij_betw (\<lambda>t. (t div m, t mod m)) {0..<n * m} ({0..<n} \<times> {0..<m})"
proof (rule bij_betw_byWitness [where f' = "\<lambda>(c, r). c * m + r"])
  have lt: "c * m + r < n * m" if "c < n" "r < m" for c r
  proof -
    have "c * m + r < (c + 1) * m" using that(2) by (simp add: algebra_simps)
    also have "\<dots> \<le> n * m" using that(1) assms(2) by (intro mult_right_mono) auto
    finally show ?thesis .
  qed
  show "(\<lambda>(c, r). c * m + r) ` ({0..<n} \<times> {0..<m}) \<subseteq> {0..<n * m}"
    using assms(2) lt by auto
  show "(\<lambda>t. (t div m, t mod m)) ` {0..<n * m} \<subseteq> {0..<n} \<times> {0..<m}"
    using assms(2) by (auto simp: pos_imp_zdiv_nonneg_iff div_less_of_less_mult)
qed (use assms in auto)

interpretation s1: split_method SplitCD_1D split1D_ok
proof
  fix sz n t :: int
  assume ok: "split1D_ok sz n"
  then show "0 < n \<and> 0 < sz \<and> n dvd sz" by (simp add: split1D_ok_def)
  show "\<exists>r. SplitCD_1D t sz n = Inr r" if "0 \<le> t" "t < sz"
    using SplitCD_1D_eq [OF ok that(1)] by simp
  obtain m where m: "sz = n * m" "0 < n" "0 < m"
    using ok by (auto simp: split1D_ok_def elim!: dvdE simp: zero_less_mult_iff)
  have "bij_betw (\<lambda>t. (t div m, t mod m)) {0..<sz} ({0..<n} \<times> {0..<m})"
    using div_mod_bij m by simp
  moreover have "projr (SplitCD_1D t sz n) = (t div m, t mod m)" if "t \<in> {0..<sz}" for t
    using that m SplitCD_1D_eq [OF ok, of t] by simp
  ultimately show "bij_betw (\<lambda>t. projr (SplitCD_1D t sz n)) {0..<sz} ({0..<n} \<times> {0..<sz div n})"
    using m bij_betw_cong [of "{0..<sz}" "\<lambda>t. projr (SplitCD_1D t sz n)" "\<lambda>t. (t div m, t mod m)"]
    by simp
qed

text \<open>
  The default split numbers the tasks of the children without gaps or overlaps: whenever
  the number of children divides the number of tasks, the pairs of child and task number in
  the child are in bijection with the tasks of the parent, and every child gets the same
  number of tasks.
\<close>

theorem SplitCD_1D_numbering:
  assumes "0 < n" "0 < sz" "n dvd sz"
  shows "bij_betw (\<lambda>t. projr (SplitCD_1D t sz n)) {0..<sz} ({0..<n} \<times> {0..<sz div n})
         \<and> (\<forall>color. 0 \<le> color \<longrightarrow> color < n \<longrightarrow>
              card {t \<in> {0..<sz}. fst (projr (SplitCD_1D t sz n)) = color} = nat (sz div n))"
  using assms s1.numbering [of sz n] s1.child_card [of sz n] by (simp add: split1D_ok_def)

theorem SplitCD_1D_numbering_witness:
  "card {t \<in> {0..<12::int}. fst (projr (SplitCD_1D t 12 3)) = 2} = 4"
  using SplitCD_1D_numbering [of 3 12] by simp

section \<open>The three-dimensional split\<close>

lemma cube_root_from_cube:
  assumes "0 \<le> j" "j \<le> k"
  shows "cube_root_from j (k ^ 3) = k"
  using assms
proof (induction "nat (k - j)" arbitrary: j)
  case 0
  then have "j = k" by simp
  have "8 * k ^ 3 = (2 * k) ^ 3" by (simp add: power_mult_distrib)
  also have "\<dots> < (2 * k + 1) ^ 3" using 0 by (intro power_strict_mono) auto
  finally show ?case using \<open>j = k\<close> by (simp add: cube_root_from.simps [of k])
next
  case (Suc d)
  have "(2 * j + 1) ^ 3 \<le> (2 * k) ^ 3" using Suc by (intro power_mono) auto
  also have "\<dots> = 8 * k ^ 3" by (simp add: power_mult_distrib)
  finally have "cube_root_from j (k ^ 3) = cube_root_from (j + 1) (k ^ 3)"
    using Suc.prems by (simp add: cube_root_from.simps [of j])
  then show ?case using Suc by simp
qed

lemma round_cbrt_cube [simp]: "0 \<le> k \<Longrightarrow> round_cbrt (k ^ 3) = k"
  by (simp add: round_cbrt_def cube_root_from_cube)

text \<open>Coordinates in a cube of side \<open>b\<close>, the first one fastest.\<close>

definition enc3 :: "int \<Rightarrow> int \<times> int \<times> int \<Rightarrow> int" where
  "enc3 b = (\<lambda>(x, y, z). x + y * b + z * (b * b))"

definition dec3 :: "int \<Rightarrow> int \<Rightarrow> int \<times> int \<times> int" where
  "dec3 b t = (t mod (b * b) mod b, t mod (b * b) div b, t div (b * b))"

definition digits3 :: "int \<Rightarrow> int \<times> int \<times> int \<Rightarrow> bool" where
  "digits3 b = (\<lambda>(x, y, z). x \<in> {0..<b} \<and> y \<in> {0..<b} \<and> z \<in> {0..<b})"

lemma two_digits_less: "0 \<le> x \<Longrightarrow> x < b \<Longrightarrow> 0 \<le> y \<Longrightarrow> y < c \<Longrightarrow> x + y * b < c * b" for x y b c :: int
proof -
  assume "0 \<le> x" "x < b" "0 \<le> y" "y < c"
  then have "x + y * b < (y + 1) * b" by (simp add: algebra_simps)
  also have "\<dots> \<le> c * b" using \<open>y < c\<close> \<open>0 \<le> x\<close> \<open>x < b\<close> by (intro mult_right_mono) auto
  finally show ?thesis .
qed

lemma dec3_enc3: "digits3 b d \<Longrightarrow> dec3 b (enc3 b d) = d"
proof (cases d)
  fix x y z assume "digits3 b d" "d = (x, y, z)"
  then have r: "0 \<le> x" "x < b" "0 \<le> y" "y < b" by (auto simp: digits3_def)
  have "0 \<le> x + y * b" "x + y * b < b * b" using r two_digits_less [of x b y b] by auto
  then have "(x + y * b + z * (b * b)) mod (b * b) = x + y * b"
    "(x + y * b + z * (b * b)) div (b * b) = z"
    using r by simp_all
  then show ?thesis using r \<open>d = (x, y, z)\<close> by (simp add: dec3_def enc3_def)
qed

lemma enc3_dec3 [simp]: "enc3 b (dec3 b t) = t"
  by (simp add: enc3_def dec3_def) (metis add.commute div_mult_mod_eq)

lemma enc3_range: "digits3 b d \<Longrightarrow> 0 \<le> enc3 b d \<and> enc3 b d < b * b * b"
  using two_digits_less [of "fst d" b "fst (snd d)" b]
    two_digits_less [of "fst d + fst (snd d) * b" "b * b" "snd (snd d)" b]
  by (auto simp: enc3_def digits3_def mult.assoc)

lemma dec3_range: "0 < b \<Longrightarrow> 0 \<le> t \<Longrightarrow> t < b * b * b \<Longrightarrow> digits3 b (dec3 b t)"
  by (auto simp: digits3_def dec3_def pos_imp_zdiv_nonneg_iff mult.assoc intro!: div_less_of_less_mult)

definition map3 :: "(int \<Rightarrow> int) \<Rightarrow> int \<times> int \<times> int \<Rightarrow> int \<times> int \<times> int" where
  "map3 f = (\<lambda>(x, y, z). (f x, f y, f z))"

definition zip3 :: "int \<Rightarrow> int \<times> int \<times> int \<Rightarrow> int \<times> int \<times> int \<Rightarrow> int \<times> int \<times> int" where
  "zip3 m = (\<lambda>(a, b, c) (x, y, z). (a * m + x, b * m + y, c * m + z))"

lemma map3_digits:
  assumes "0 < m" "digits3 (c * m) d"
  shows "digits3 c (map3 (\<lambda>x. x div m) d)" "digits3 m (map3 (\<lambda>x. x mod m) d)"
  using assms by (auto simp: digits3_def map3_def pos_imp_zdiv_nonneg_iff intro: div_less_of_less_mult)

lemma zip3_digits:
  "0 < m \<Longrightarrow> digits3 c d \<Longrightarrow> digits3 m e \<Longrightarrow> digits3 (c * m) (zip3 m d e)"
  using two_digits_less [of _ m _ c] by (auto simp: digits3_def zip3_def add.commute)

lemma map3_zip3:
  "0 < m \<Longrightarrow> digits3 m e \<Longrightarrow> map3 (\<lambda>x. x div m) (zip3 m d e) = d"
  "0 < m \<Longrightarrow> digits3 m e \<Longrightarrow> map3 (\<lambda>x. x mod m) (zip3 m d e) = e"
  by (auto simp: digits3_def zip3_def map3_def split: prod.splits)

lemma zip3_map3: "zip3 m (map3 (\<lambda>x. x div m) d) (map3 (\<lambda>x. x mod m) d) = d"
  by (auto simp: zip3_def map3_def split: prod.splits)

definition split3D_ok :: "int \<Rightarrow> int \<Rightarrow> bool" where
  "split3D_ok sz n \<longleftrightarrow>
     (let c = round_cbrt n; N = round_cbrt sz
      in 0 < n \<and> 0 < sz \<and> 0 < c \<and> 0 < N \<and> c ^ 3 = n \<and> N ^ 3 = sz \<and> c dvd N)"

lemma split3D_okE:
  assumes "split3D_ok sz n"
  obtains c m where "0 < c" "0 < m" "n = c ^ 3" "sz = (c * m) ^ 3"
proof -
  obtain m where m: "round_cbrt sz = round_cbrt n * m"
    using assms by (auto simp: split3D_ok_def Let_def)
  show thesis
    using assms m by (intro that [of "round_cbrt n" m])
      (auto simp: split3D_ok_def Let_def zero_less_mult_iff)
qed

lemma SplitCD_3D_eq:
  assumes "0 < c" "0 < m" "0 \<le> t"
  shows "SplitCD_3D t ((c * m) ^ 3) (c ^ 3) =
    Inr (enc3 c (map3 (\<lambda>x. x div m) (dec3 (c * m) t)), enc3 m (map3 (\<lambda>x. x mod m) (dec3 (c * m) t)))"
proof -
  have pos: "0 < c * m" using assms by simp
  have size: "(c * m) ^ 3 div c ^ 3 = m ^ 3"
    using assms(1) by (simp add: power_mult_distrib)
  have cx: "(if c ^ 3 > 1 then round_cbrt (c ^ 3) else 1) = c"
  proof (cases "c = 1")
    case False
    then have "1 ^ 3 < c ^ 3" using assms(1) by (intro power_strict_mono) auto
    then show ?thesis using assms(1) by simp
  qed simp
  have cubes: "c * m * (c * m) * (c * m) = (c * m) ^ 3" "c * c * c = c ^ 3" "m * m * m = m ^ 3"
    by (simp_all add: power3_eq_cube)
  have "0 \<le> t div (c * m * (c * m))" "0 \<le> t mod (c * m * (c * m)) div (c * m)"
    using assms pos by (simp_all add: pos_imp_zdiv_nonneg_iff mult_pos_pos)
  moreover have "\<not> c ^ 3 < 1" using assms(1) by (simp add: not_less int_one_le_iff_zero_less)
  ultimately show ?thesis
    using assms pos size cubes
    by (simp add: SplitCD_3D_def cx Let_def enc3_def dec3_def map3_def mult_pos_pos)
qed

lemma split3_bij:
  fixes c m :: int
  assumes "0 < c" "0 < m"
  shows "bij_betw (\<lambda>t. (enc3 c (map3 (\<lambda>x. x div m) (dec3 (c * m) t)),
                       enc3 m (map3 (\<lambda>x. x mod m) (dec3 (c * m) t))))
           {0..<(c * m) ^ 3} ({0..<c ^ 3} \<times> {0..<m ^ 3})"
proof (rule bij_betw_byWitness [where f' = "\<lambda>(a, b). enc3 (c * m) (zip3 m (dec3 c a) (dec3 m b))"])
  let ?f = "\<lambda>t. (enc3 c (map3 (\<lambda>x. x div m) (dec3 (c * m) t)),
                 enc3 m (map3 (\<lambda>x. x mod m) (dec3 (c * m) t)))"
  let ?g = "\<lambda>(a, b). enc3 (c * m) (zip3 m (dec3 c a) (dec3 m b))"
  have pos: "0 < c * m" using assms by simp
  have cube: "b ^ 3 = b * b * b" for b :: int by (simp add: power3_eq_cube)
  have dg: "digits3 (c * m) (dec3 (c * m) t)" if "t \<in> {0..<(c * m) ^ 3}" for t
    using that pos dec3_range [of "c * m" t] unfolding cube by auto
  note dgs = map3_digits [OF assms(2) dg]
  show "\<forall>t \<in> {0..<(c * m) ^ 3}. ?g (?f t) = t"
  proof
    fix t assume "t \<in> {0..<(c * m) ^ 3}"
    note d = dgs [OF this]
    show "?g (?f t) = t" by (simp add: dec3_enc3 [OF d(1)] dec3_enc3 [OF d(2)] zip3_map3)
  qed
  have dc: "digits3 c (dec3 c a)" if "a \<in> {0..<c ^ 3}" for a
    using that assms(1) dec3_range [of c a] unfolding cube by auto
  have dm: "digits3 m (dec3 m b)" if "b \<in> {0..<m ^ 3}" for b
    using that assms(2) dec3_range [of m b] unfolding cube by auto
  have gf: "digits3 (c * m) (zip3 m (dec3 c a) (dec3 m b))"
    "?f (?g (a, b)) = (a, b)" if "a \<in> {0..<c ^ 3}" "b \<in> {0..<m ^ 3}" for a b
  proof -
    show z: "digits3 (c * m) (zip3 m (dec3 c a) (dec3 m b))"
      using zip3_digits [OF assms(2) dc dm] that by blast
    show "?f (?g (a, b)) = (a, b)"
      by (simp add: dec3_enc3 [OF z] map3_zip3 [OF assms(2) dm [OF that(2)]])
  qed
  then show "\<forall>p \<in> {0..<c ^ 3} \<times> {0..<m ^ 3}. ?f (?g p) = p" by blast
  show "?f ` {0..<(c * m) ^ 3} \<subseteq> {0..<c ^ 3} \<times> {0..<m ^ 3}"
  proof (rule image_subsetI)
    fix t assume "t \<in> {0..<(c * m) ^ 3}"
    note d = dgs [OF this]
    show "?f t \<in> {0..<c ^ 3} \<times> {0..<m ^ 3}"
      using enc3_range [OF d(1)] enc3_range [OF d(2)] by (simp add: cube)
  qed
  show "?g ` ({0..<c ^ 3} \<times> {0..<m ^ 3}) \<subseteq> {0..<(c * m) ^ 3}"
  proof (rule image_subsetI)
    fix p assume "p \<in> {0..<c ^ 3} \<times> {0..<m ^ 3}"
    then obtain a b where p: "p = (a, b)" "a \<in> {0..<c ^ 3}" "b \<in> {0..<m ^ 3}" by blast
    show "?g p \<in> {0..<(c * m) ^ 3}"
      using enc3_range [OF gf(1) [OF p(2,3)]] p(1) by (simp add: cube)
  qed
qed

interpretation s3: split_method SplitCD_3D split3D_ok
proof
  fix sz n t :: int
  assume ok: "split3D_ok sz n"
  then obtain c m where cm: "0 < c" "0 < m" "n = c ^ 3" "sz = (c * m) ^ 3"
    by (rule split3D_okE)
  then show "0 < n \<and> 0 < sz \<and> n dvd sz" by (simp add: power_mult_distrib)
  show "\<exists>r. SplitCD_3D t sz n = Inr r" if "0 \<le> t" "t < sz"
    using SplitCD_3D_eq [OF cm(1,2) that(1)] cm by simp
  have div: "sz div n = m ^ 3" using cm by (simp add: power_mult_distrib)
  show "bij_betw (\<lambda>t. projr (SplitCD_3D t sz n)) {0..<sz} ({0..<n} \<times> {0..<sz div n})"
    unfolding div
    by (rule iffD2 [OF bij_betw_cong])
      (use SplitCD_3D_eq [OF cm(1,2)] split3_bij [OF cm(1,2)] cm in auto)
qed

text \<open>
  C39.  The three-dimensional split, too, numbers the tasks of the children without gaps or
  overlaps, when the side of the cube of children divides the side of the cube of tasks.
\<close>

theorem SplitCD_3D_numbering:
  assumes "0 < c" "0 < m"
  shows "bij_betw (\<lambda>t. projr (SplitCD_3D t ((c * m) ^ 3) (c ^ 3)))
           {0..<(c * m) ^ 3} ({0..<c ^ 3} \<times> {0..<m ^ 3})
         \<and> (\<forall>t \<in> {0..<(c * m) ^ 3}. \<exists>r. SplitCD_3D t ((c * m) ^ 3) (c ^ 3) = Inr r)"
proof -
  have pos: "0 < c ^ 3" "0 < (c * m) ^ 3" using assms by simp_all
  have "split3D_ok ((c * m) ^ 3) (c ^ 3)"
    using assms pos by (simp add: split3D_ok_def Let_def)
  moreover have "(c * m) ^ 3 div c ^ 3 = m ^ 3" using assms by (simp add: power_mult_distrib)
  ultimately show ?thesis
    using s3.numbering [of "(c * m) ^ 3" "c ^ 3"] s3.answers [of "(c * m) ^ 3" "c ^ 3"]
    by simp
qed

theorem SplitCD_3D_numbering_witness:
  "bij_betw (\<lambda>t. projr (SplitCD_3D t 64 8)) {0..<64} ({0..<8} \<times> {0..<8})"
  using SplitCD_3D_numbering [of 2 2] by simp

text \<open>
  The assertions of the three-dimensional split do not rule out uneven splits: with 125
  tasks and 64 children all of them hold, and the tasks 4 and 5 both become task 0 of child 4.
\<close>

theorem SplitCD_3D_collision:
  "SplitCD_3D 4 125 64 = Inr (4, 0) \<and> SplitCD_3D 5 125 64 = Inr (4, 0)"
  by code_simp

text \<open>
  The head of a new child is one of its tasks.
\<close>

lemma SelectHead_range: "task_size \<noteq> 0 \<Longrightarrow> \<exists>h. SelectHead level task_size = Inr h \<and> h < task_size"
  by (simp add: SelectHead_def)

end
