(* ===== verification/Std_Map.thy ===== *)
theory Std_Map
  imports CD_Prelude "HOL-Library.Char_ord" "HOL-Library.List_Lexorder"
begin

text \<open>
  \<open>std::map\<close> as the runtime uses it: an association list with strictly increasing keys, so
  that iteration order is key order.  \<open>sm_find\<close> is \<open>find\<close>, \<open>sm_put\<close> is
  \<open>m[k] = v\<close>, and \<open>sm_modify d k f\<close> is an update of \<open>m[k]\<close> that first
  default-constructs a missing entry with \<open>d\<close>.  The interface \<open>std_map\<close> states what
  clients rely on and is interpreted on these operations.  Keys of type \<open>string\<close> are ordered
  lexicographically by character code, as \<open>std::string\<close> is.
\<close>

section \<open>Interface\<close>

locale std_map =
  fixes emp :: "'m"
    and find :: "'m \<Rightarrow> 'k \<Rightarrow> 'v option"
    and put :: "'k \<Rightarrow> 'v \<Rightarrow> 'm \<Rightarrow> 'm"
    and invar :: "'m \<Rightarrow> bool"
  assumes find_emp: "find emp k = None"
    and find_put: "invar m \<Longrightarrow> find (put k v m) j = (if j = k then Some v else find m j)"
    and invar_emp: "invar emp"
    and invar_put: "invar m \<Longrightarrow> invar (put k v m)"
begin

lemma put_fold:
  "invar m \<Longrightarrow>
   invar (fold (\<lambda>(k, v). put k v) kvs m) \<and>
   find (fold (\<lambda>(k, v). put k v) kvs m) j = (find m ++ map_of (rev kvs)) j"
proof (induction kvs arbitrary: m)
  case Nil
  then show ?case by simp
next
  case (Cons kv kvs)
  obtain k v where kv: "kv = (k, v)" by force
  have IH: "find (fold (\<lambda>(k, v). put k v) kvs (put k v m)) j =
            (find (put k v m) ++ map_of (rev kvs)) j"
    using Cons by (simp add: invar_put)
  show ?case
    using Cons IH kv by (auto simp: invar_put find_put map_add_def map_of_append split: option.splits)
qed

lemma put_same [simp]: "invar m \<Longrightarrow> find (put k v m) k = Some v"
  by (simp add: find_put)

lemma put_other [simp]: "invar m \<Longrightarrow> j \<noteq> k \<Longrightarrow> find (put k v m) j = find m j"
  by (simp add: find_put)

end

section \<open>Ordered association lists\<close>

type_synonym ('k, 'v) smap = "('k \<times> 'v) list"

definition sm_sorted :: "('k::linorder, 'v) smap \<Rightarrow> bool" where
  "sm_sorted m \<longleftrightarrow> sorted_wrt (<) (map fst m)"

abbreviation sm_find :: "('k, 'v) smap \<Rightarrow> 'k \<Rightarrow> 'v option" where
  "sm_find \<equiv> map_of"

fun sm_modify :: "'v \<Rightarrow> 'k::linorder \<Rightarrow> ('v \<Rightarrow> 'v) \<Rightarrow> ('k, 'v) smap \<Rightarrow> ('k, 'v) smap" where
  "sm_modify d k f [] = [(k, f d)]"
| "sm_modify d k f ((k', v) # m) =
     (if k < k' then (k, f d) # (k', v) # m
      else if k = k' then (k', f v) # m
      else (k', v) # sm_modify d k f m)"

definition sm_put :: "'k::linorder \<Rightarrow> 'v \<Rightarrow> ('k, 'v) smap \<Rightarrow> ('k, 'v) smap" where
  "sm_put k v m = sm_modify v k (\<lambda>_. v) m"

lemma sm_sorted_Cons [simp]:
  "sm_sorted ((k, v) # m) \<longleftrightarrow> (\<forall>j \<in> fst ` set m. k < j) \<and> sm_sorted m"
  by (auto simp: sm_sorted_def)

lemma sm_sorted_Nil [simp]: "sm_sorted []"
  by (simp add: sm_sorted_def)

lemma sm_find_less: "\<forall>j \<in> fst ` set m. k < j \<Longrightarrow> sm_find m k = None"
  for m :: "('k::linorder, 'v) smap"
  by (metis less_irrefl map_of_eq_None_iff)

lemma fst_set_sm_modify: "fst ` set (sm_modify d k f m) = insert k (fst ` set m)"
  by (induction d k f m rule: sm_modify.induct) (simp_all add: insert_commute)

lemma sm_sorted_modify: "sm_sorted m \<Longrightarrow> sm_sorted (sm_modify d k f m)"
  by (induction d k f m rule: sm_modify.induct)
    (auto simp: fst_set_sm_modify simp del: set_map intro: less_trans)

lemma sm_find_modify:
  "sm_sorted m \<Longrightarrow>
   sm_find (sm_modify d k f m) j =
     (if j = k then Some (f (case sm_find m k of None \<Rightarrow> d | Some v \<Rightarrow> v)) else sm_find m j)"
proof (induction m)
  case Nil
  then show ?case by simp
next
  case (Cons p m)
  obtain k' v where p: "p = (k', v)" by force
  have "sm_find m k = None" if "k < k'"
    using Cons.prems p that by (intro sm_find_less) fastforce
  then show ?case using Cons p by auto
qed

interpretation sm: std_map "[] :: ('k::linorder, 'v) smap" sm_find sm_put sm_sorted
proof
  fix k j :: 'k and v :: 'v and m :: "('k, 'v) smap"
  show "sm_find [] k = (None :: 'v option)" by simp
  show "sm_sorted ([] :: ('k, 'v) smap)" by simp
  assume m: "sm_sorted m"
  show "sm_find (sm_put k v m) j = (if j = k then Some v else sm_find m j)"
    unfolding sm_put_def sm_find_modify [OF m] by simp
  show "sm_sorted (sm_put k v m)"
    unfolding sm_put_def by (rule sm_sorted_modify [OF m])
qed

text \<open>Sums over the values of a map.\<close>

definition sm_sum :: "('v \<Rightarrow> 'a::comm_monoid_add) \<Rightarrow> ('k, 'v) smap \<Rightarrow> 'a" where
  "sm_sum g m = sum_list (map (g \<circ> snd) m)"

lemma sm_sum_simps [simp]: "sm_sum g [] = 0" "sm_sum g ((k, v) # m) = g v + sm_sum g m"
  by (simp_all add: sm_sum_def)

lemma sm_sum_modify:
  fixes g :: "'v \<Rightarrow> 'a::ab_group_add"
  assumes "g d = 0" and "\<And>v. g (f v) = g v + c"
  shows "sm_sum g (sm_modify d k f m) = sm_sum g m + c"
  by (induction m) (use assms in \<open>auto simp: algebra_simps\<close>)

end
