(* ===== verification/Runtime_Info.thy ===== *)
theory Runtime_Info
  imports Complex_Main Std_Map CD_Flags
begin

text \<open>
  The run-time profile of a phase, from \<open>runtime_info.h\<close> and \<open>runtime_info.cc\<close>,
  with the process-wide timers of \<open>cd_handle.cc\<close> that it updates.  A \<open>double\<close> or
  \<open>float\<close> of seconds is a \<^typ>\<open>real\<close> (rounding is not modelled, except where an integer
  counter is converted), \<open>CD_CLOCK()\<close> is the argument \<open>now\<close> of an operation, and
  the timers \<open>cd::X_elapsed_time\<close>, \<open>cd::X_elapsed_smpl\<close> and \<open>X_trace\<close> are
  indexed by a datatype of timer names.
\<close>

section \<open>Preservation entries\<close>

record PrvProfEntry =
  pe_size :: uint64
  pe_count :: uint32
  pe_type :: uint32

definition PrvProfEntry_init :: PrvProfEntry where
  "PrvProfEntry_init = \<lparr>pe_size = 0, pe_count = 0, pe_type = 0\<rparr>"

definition PrvProfEntry_Update :: "uint64 \<Rightarrow> uint32 \<Rightarrow> PrvProfEntry \<Rightarrow> PrvProfEntry" where
  "PrvProfEntry_Update len type e =
     e\<lparr>pe_size := pe_size e + len, pe_count := pe_count e + 1, pe_type := type\<rparr>"

text \<open>\<open>None\<close> is a value that is not finite (a division of doubles by a zero count).\<close>

definition GetVolume :: "bool \<Rightarrow> PrvProfEntry \<Rightarrow> real option" where
  "GetVolume is_avg e =
     (if pe_type e \<noteq> CDPrvType_val kRef then
        if is_avg then
          if pe_count e = 0 then None
          else Some (real (unat (pe_size e)) / real (unat (pe_count e)))
        else Some (real (unat (pe_size e)))
      else Some 0)"

type_synonym prof_map = "(string, PrvProfEntry) smap"

text \<open>
  \<open>MergeMaps\<close> walks both maps in key order; the right value wins on equal keys, and what is
  left of the right map is inserted at the end.
\<close>

fun MergeMaps :: "('k::linorder, 'v) smap \<Rightarrow> ('k, 'v) smap \<Rightarrow> ('k, 'v) smap" where
  "MergeMaps ((lk, lv) # lhs) ((rk, rv) # rhs) =
     (if rk < lk then (rk, rv) # MergeMaps ((lk, lv) # lhs) rhs
      else if rk = lk then (lk, rv) # MergeMaps lhs rhs
      else (lk, lv) # MergeMaps lhs ((rk, rv) # rhs))"
| "MergeMaps lhs [] = lhs"
| "MergeMaps [] rhs = rhs"

section \<open>Overheads of the runtime\<close>

record CDOverhead =
  ov_prv_elapsed_time :: real
  ov_max_prv_elapsed_time :: real
  ov_max_cdrt_elapsed_time :: real
  ov_rst_elapsed_time :: real
  ov_create_elapsed_time :: real
  ov_destroy_elapsed_time :: real
  ov_begin_elapsed_time :: real
  ov_compl_elapsed_time :: real
  ov_advance_elapsed_time :: real

definition CDOverhead_ctor :: CDOverhead where
  "CDOverhead_ctor =
     \<lparr>ov_prv_elapsed_time = 0,
      ov_max_prv_elapsed_time = 0,
      ov_max_cdrt_elapsed_time = 0,
      ov_rst_elapsed_time = 0,
      ov_create_elapsed_time = 0,
      ov_destroy_elapsed_time = 0,
      ov_begin_elapsed_time = 0,
      ov_compl_elapsed_time = 0,
      ov_advance_elapsed_time = 0\<rparr>"

definition CopyCDOverhead ::
  "'a CDOverhead_scheme \<Rightarrow> 'b CDOverhead_scheme \<Rightarrow> 'a CDOverhead_scheme" where
  "CopyCDOverhead self record1 = self
     \<lparr>ov_prv_elapsed_time := ov_prv_elapsed_time record1,
      ov_max_prv_elapsed_time := ov_max_prv_elapsed_time record1,
      ov_max_cdrt_elapsed_time := ov_max_cdrt_elapsed_time record1,
      ov_rst_elapsed_time := ov_rst_elapsed_time record1,
      ov_create_elapsed_time := ov_create_elapsed_time record1,
      ov_destroy_elapsed_time := ov_destroy_elapsed_time record1,
      ov_begin_elapsed_time := ov_begin_elapsed_time record1,
      ov_compl_elapsed_time := ov_compl_elapsed_time record1,
      ov_advance_elapsed_time := ov_advance_elapsed_time record1\<rparr>"

definition MergeCDOverhead ::
  "'a CDOverhead_scheme \<Rightarrow> 'b CDOverhead_scheme \<Rightarrow> 'a CDOverhead_scheme" where
  "MergeCDOverhead self info = self
     \<lparr>ov_prv_elapsed_time := ov_prv_elapsed_time self + ov_prv_elapsed_time info,
      ov_max_prv_elapsed_time := ov_max_prv_elapsed_time self + ov_max_prv_elapsed_time info,
      ov_max_cdrt_elapsed_time := ov_max_cdrt_elapsed_time self + ov_max_cdrt_elapsed_time info,
      ov_rst_elapsed_time := ov_rst_elapsed_time self + ov_rst_elapsed_time info,
      ov_create_elapsed_time := ov_create_elapsed_time self + ov_create_elapsed_time info,
      ov_destroy_elapsed_time := ov_destroy_elapsed_time self + ov_destroy_elapsed_time info,
      ov_begin_elapsed_time := ov_begin_elapsed_time self + ov_begin_elapsed_time info,
      ov_compl_elapsed_time := ov_compl_elapsed_time self + ov_compl_elapsed_time info,
      ov_advance_elapsed_time := ov_advance_elapsed_time self + ov_advance_elapsed_time info\<rparr>"

definition GetCDRTOverheadLocal :: "'a CDOverhead_scheme \<Rightarrow> real \<Rightarrow> real" where
  "GetCDRTOverheadLocal self create_time =
     (let rtovhd = ov_destroy_elapsed_time self + ov_begin_elapsed_time self
                 + ov_compl_elapsed_time self + ov_advance_elapsed_time self
      in rtovhd + create_time)"

definition GetCDRTOverhead :: "'a CDOverhead_scheme \<Rightarrow> real \<Rightarrow> real" where
  "GetCDRTOverhead self create_time =
     (let rtovhd = ov_destroy_elapsed_time self + ov_begin_elapsed_time self
                 + ov_compl_elapsed_time self + ov_advance_elapsed_time self;
          rtovhd = (if ov_max_cdrt_elapsed_time self > rtovhd
                    then ov_max_cdrt_elapsed_time self else rtovhd)
      in rtovhd + create_time)"

definition GetCDRTOverheadAll :: "'a CDOverhead_scheme \<Rightarrow> real" where
  "GetCDRTOverheadAll self =
     ov_create_elapsed_time self + ov_destroy_elapsed_time self + ov_begin_elapsed_time self
   + ov_compl_elapsed_time self + ov_advance_elapsed_time self"

definition GetPreserveTime :: "'a CDOverhead_scheme \<Rightarrow> real" where
  "GetPreserveTime self =
     (if ov_max_prv_elapsed_time self > ov_prv_elapsed_time self
      then ov_max_prv_elapsed_time self else ov_prv_elapsed_time self)"

definition GetOverheadAll :: "'a CDOverhead_scheme \<Rightarrow> real \<Rightarrow> real" where
  "GetOverheadAll self parent_create_time =
     GetPreserveTime self + GetCDRTOverhead self parent_create_time"

section \<open>Records gathered across tasks\<close>

record RTInfoInt =
  rti_exec_cnt :: uint64
  rti_reex_cnt :: uint64
  rti_prv_copy :: uint64
  rti_prv_ref :: uint64
  rti_restore :: uint64
  rti_msg_logging :: uint64

record RTInfoFloat =
  rtf_total_time :: real
  rtf_reex_time :: real
  rtf_sync_time :: real
  rtf_prv_elapsed_time :: real
  rtf_max_prv_elapsed_time :: real
  rtf_max_cdrt_elapsed_time :: real
  rtf_rst_elapsed_time :: real
  rtf_create_elapsed_time :: real
  rtf_destroy_elapsed_time :: real
  rtf_begin_elapsed_time :: real
  rtf_compl_elapsed_time :: real
  rtf_advance_elapsed_time :: real

record RTInfo =
  rt_exec_cnt :: real
  rt_reex_cnt :: real
  rt_prv_copy :: real
  rt_prv_ref :: real
  rt_restore :: real
  rt_msg_logging :: real
  rt_total_time :: real
  rt_reex_time :: real
  rt_sync_time :: real
  rt_prv_elapsed_time :: real
  rt_max_prv_elapsed_time :: real
  rt_max_cdrt_elapsed_time :: real
  rt_rst_elapsed_time :: real
  rt_create_elapsed_time :: real
  rt_destroy_elapsed_time :: real
  rt_begin_elapsed_time :: real
  rt_compl_elapsed_time :: real
  rt_advance_elapsed_time :: real

section \<open>The profile of a phase\<close>

record RuntimeInfo = CDOverhead +
  ri_id :: uint32
  ri_exec_cnt :: uint32
  ri_reex_cnt :: uint32
  ri_prv_copy :: uint64
  ri_input :: prof_map
  ri_output :: prof_map
  ri_prv_ref :: uint64
  ri_restore :: uint64
  ri_msg_logging :: uint64
  ri_sys_err_vec :: uint64
  ri_total_time :: real
  ri_reex_time :: real
  ri_sync_time :: real
  ri_prsv_time_smpl :: real
  ri_cdrt_time_smpl :: real
  ri_exec_trace :: "real list"
  ri_prsv_trace :: "real list"
  ri_max_prsv :: "real list"
  ri_max_cdrt :: "real list"
  ri_cdrt_trace :: "real list"
  ri_exec_clk :: real
  ri_reex_clk :: real

definition RuntimeInfo_ctor :: "uint32 \<Rightarrow> RuntimeInfo" where
  "RuntimeInfo_ctor i = CDOverhead.extend CDOverhead_ctor
     (RuntimeInfo.fields i 0 0 0 [] [] 0 0 0 0 0 0 0 0 0 [] [] [] [] [] 0 0)"

definition RuntimeInfo_Copy :: "RuntimeInfo \<Rightarrow> RuntimeInfo \<Rightarrow> RuntimeInfo" where
  "RuntimeInfo_Copy self record1 = CopyCDOverhead (self
     \<lparr>ri_exec_cnt := ri_exec_cnt record1,
      ri_reex_cnt := ri_reex_cnt record1,
      ri_prv_copy := ri_prv_copy record1,
      ri_prv_ref := ri_prv_ref record1,
      ri_msg_logging := ri_msg_logging record1,
      ri_sys_err_vec := ri_sys_err_vec record1,
      ri_total_time := ri_total_time record1,
      ri_reex_time := ri_reex_time record1,
      ri_sync_time := ri_sync_time record1,
      ri_input := ri_input record1,
      ri_output := ri_output record1\<rparr>) record1"

definition RuntimeInfo_Merge :: "RuntimeInfo \<Rightarrow> RuntimeInfo \<Rightarrow> RuntimeInfo" where
  "RuntimeInfo_Merge self info = MergeCDOverhead (self
     \<lparr>ri_exec_cnt := ri_exec_cnt self + ri_exec_cnt info,
      ri_reex_cnt := ri_reex_cnt self + ri_reex_cnt info,
      ri_prv_copy := ri_prv_copy self + ri_prv_copy info,
      ri_prv_ref := ri_prv_ref self + ri_prv_ref info,
      ri_msg_logging := ri_msg_logging self + ri_msg_logging info,
      ri_sys_err_vec := ri_sys_err_vec self OR ri_sys_err_vec info,
      ri_total_time := ri_total_time self + ri_total_time info,
      ri_reex_time := ri_reex_time self + ri_reex_time info,
      ri_sync_time := ri_sync_time self + ri_sync_time info,
      ri_input := MergeMaps (ri_input self) (ri_input info),
      ri_output := MergeMaps (ri_output self) (ri_output info)\<rparr>) info"

text \<open>
  Conversion of a counter to \<open>double\<close> rounds to 53 significant bits (to nearest, ties to
  even), and the conversion back truncates.
\<close>

definition round_bits :: "nat \<Rightarrow> nat \<Rightarrow> nat" where
  "round_bits e n =
     (let q = n div 2 ^ e; r = n mod 2 ^ e in
      if 2 * r > 2 ^ e \<or> (2 * r = 2 ^ e \<and> odd q) then (q + 1) * 2 ^ e else q * 2 ^ e)"

fun double_exp :: "nat \<Rightarrow> nat \<Rightarrow> nat" where
  "double_exp 0 n = 0"
| "double_exp (Suc k) n = (if n < 2 ^ (53 + k) then double_exp k n else Suc k)"

definition to_double :: "'a::len word \<Rightarrow> real" where
  "to_double w = real (round_bits (double_exp 11 (unat w)) (unat w))"

definition of_double :: "real \<Rightarrow> 'a::len word" where
  "of_double x = word_of_int (floor x)"

definition GetRTInfo :: "RuntimeInfo \<Rightarrow> RTInfo" where
  "GetRTInfo self =
     \<lparr>rt_exec_cnt = to_double (ri_exec_cnt self),
      rt_reex_cnt = to_double (ri_reex_cnt self),
      rt_prv_copy = to_double (ri_prv_copy self),
      rt_prv_ref = to_double (ri_prv_ref self),
      rt_restore = to_double (ri_restore self),
      rt_msg_logging = to_double (ri_msg_logging self),
      rt_total_time = ri_total_time self,
      rt_reex_time = ri_reex_time self,
      rt_sync_time = ri_sync_time self,
      rt_prv_elapsed_time = ov_prv_elapsed_time self,
      rt_max_prv_elapsed_time = ov_max_prv_elapsed_time self,
      rt_max_cdrt_elapsed_time = ov_max_cdrt_elapsed_time self,
      rt_rst_elapsed_time = ov_rst_elapsed_time self,
      rt_create_elapsed_time = ov_create_elapsed_time self,
      rt_destroy_elapsed_time = ov_destroy_elapsed_time self,
      rt_begin_elapsed_time = ov_begin_elapsed_time self,
      rt_compl_elapsed_time = ov_compl_elapsed_time self,
      rt_advance_elapsed_time = ov_advance_elapsed_time self\<rparr>"

definition GetRTInfoInt :: "RuntimeInfo \<Rightarrow> RTInfoInt" where
  "GetRTInfoInt self =
     \<lparr>rti_exec_cnt = ucast (ri_exec_cnt self),
      rti_reex_cnt = ucast (ri_reex_cnt self),
      rti_prv_copy = ri_prv_copy self,
      rti_prv_ref = ri_prv_ref self,
      rti_restore = ri_restore self,
      rti_msg_logging = ri_msg_logging self\<rparr>"

definition GetRTInfoFloat :: "RuntimeInfo \<Rightarrow> RTInfoFloat" where
  "GetRTInfoFloat self =
     \<lparr>rtf_total_time = ri_total_time self,
      rtf_reex_time = ri_reex_time self,
      rtf_sync_time = ri_sync_time self,
      rtf_prv_elapsed_time = ov_prv_elapsed_time self,
      rtf_max_prv_elapsed_time = ov_max_prv_elapsed_time self,
      rtf_max_cdrt_elapsed_time = ov_max_cdrt_elapsed_time self,
      rtf_rst_elapsed_time = ov_rst_elapsed_time self,
      rtf_create_elapsed_time = ov_create_elapsed_time self,
      rtf_destroy_elapsed_time = ov_destroy_elapsed_time self,
      rtf_begin_elapsed_time = ov_begin_elapsed_time self,
      rtf_compl_elapsed_time = ov_compl_elapsed_time self,
      rtf_advance_elapsed_time = ov_advance_elapsed_time self\<rparr>"

definition SetRTInfo :: "RTInfo \<Rightarrow> RuntimeInfo \<Rightarrow> RuntimeInfo" where
  "SetRTInfo rt_info self = self
     \<lparr>ri_exec_cnt := of_double (rt_exec_cnt rt_info),
      ri_reex_cnt := of_double (rt_reex_cnt rt_info),
      ri_prv_copy := of_double (rt_prv_copy rt_info),
      ri_prv_ref := of_double (rt_prv_ref rt_info),
      ri_restore := of_double (rt_restore rt_info),
      ri_msg_logging := of_double (rt_msg_logging rt_info),
      ri_total_time := rt_total_time rt_info,
      ri_reex_time := rt_reex_time rt_info,
      ri_sync_time := rt_sync_time rt_info,
      ov_prv_elapsed_time := rt_prv_elapsed_time rt_info,
      ov_max_prv_elapsed_time := rt_max_prv_elapsed_time rt_info,
      ov_max_cdrt_elapsed_time := rt_max_cdrt_elapsed_time rt_info,
      ov_rst_elapsed_time := rt_rst_elapsed_time rt_info,
      ov_create_elapsed_time := rt_create_elapsed_time rt_info,
      ov_destroy_elapsed_time := rt_destroy_elapsed_time rt_info,
      ov_begin_elapsed_time := rt_begin_elapsed_time rt_info,
      ov_compl_elapsed_time := rt_compl_elapsed_time rt_info,
      ov_advance_elapsed_time := rt_advance_elapsed_time rt_info\<rparr>"

definition SetRTInfoInt :: "RTInfoInt \<Rightarrow> RuntimeInfo \<Rightarrow> RuntimeInfo" where
  "SetRTInfoInt rt_info self = self
     \<lparr>ri_exec_cnt := ucast (rti_exec_cnt rt_info),
      ri_reex_cnt := ucast (rti_reex_cnt rt_info),
      ri_prv_copy := rti_prv_copy rt_info,
      ri_prv_ref := rti_prv_ref rt_info,
      ri_restore := rti_restore rt_info,
      ri_msg_logging := rti_msg_logging rt_info\<rparr>"

definition SetRTInfoFloat :: "RTInfoFloat \<Rightarrow> RuntimeInfo \<Rightarrow> RuntimeInfo" where
  "SetRTInfoFloat rt_info self = self
     \<lparr>ri_total_time := rtf_total_time rt_info,
      ri_reex_time := rtf_reex_time rt_info,
      ri_sync_time := rtf_sync_time rt_info,
      ov_prv_elapsed_time := rtf_prv_elapsed_time rt_info,
      ov_max_prv_elapsed_time := rtf_max_prv_elapsed_time rt_info,
      ov_max_cdrt_elapsed_time := rtf_max_cdrt_elapsed_time rt_info,
      ov_rst_elapsed_time := rtf_rst_elapsed_time rt_info,
      ov_create_elapsed_time := rtf_create_elapsed_time rt_info,
      ov_destroy_elapsed_time := rtf_destroy_elapsed_time rt_info,
      ov_begin_elapsed_time := rtf_begin_elapsed_time rt_info,
      ov_compl_elapsed_time := rtf_compl_elapsed_time rt_info,
      ov_advance_elapsed_time := rtf_advance_elapsed_time rt_info\<rparr>"


text \<open>\<open>GetPrvVolume\<close> of \<open>runtime_info.cc\<close>: the sum over the entries of one map.\<close>

fun prv_volume :: "bool \<Rightarrow> prof_map \<Rightarrow> real option" where
  "prv_volume is_avg [] = Some 0"
| "prv_volume is_avg ((_, e) # m) =
     (case (GetVolume is_avg e, prv_volume is_avg m) of
        (Some v, Some t) \<Rightarrow> Some (v + t)
      | _ \<Rightarrow> None)"

definition GetPrvVolume :: "bool \<Rightarrow> bool \<Rightarrow> RuntimeInfo \<Rightarrow> real option" where
  "GetPrvVolume is_input is_avg self =
     (if is_input then prv_volume is_avg (ri_input self) else prv_volume is_avg (ri_output self))"

section \<open>Process-wide timers\<close>

datatype timer = t_body | t_reex | t_normal_sync | t_reexec_sync | t_recovery_sync | t_prv | t_rst
  | t_create | t_destroy | t_begin | t_compl | t_advance | t_mailbox

record cd_globals =
  g_begin_clk :: real
  g_end_clk :: real
  g_prof_sync_clk :: real
  g_is_error_free :: bool
  g_time :: "timer \<Rightarrow> real"
  g_smpl :: "timer \<Rightarrow> real"
  g_trace :: "timer \<Rightarrow> real list"
  g_profile_counter :: uint64

definition cd_globals_init :: cd_globals where
  "cd_globals_init =
     \<lparr>g_begin_clk = 0, g_end_clk = 0, g_prof_sync_clk = 0, g_is_error_free = False,
      g_time = (\<lambda>_. 0), g_smpl = (\<lambda>_. 0), g_trace = (\<lambda>_. []), g_profile_counter = 0\<rparr>"

definition add_time :: "timer \<Rightarrow> real \<Rightarrow> cd_globals \<Rightarrow> cd_globals" where
  "add_time t x g = g\<lparr>g_time := (g_time g)(t := g_time g t + x)\<rparr>"

definition add_smpl :: "timer \<Rightarrow> real \<Rightarrow> cd_globals \<Rightarrow> cd_globals" where
  "add_smpl t x g = g\<lparr>g_smpl := (g_smpl g)(t := g_smpl g t + x)\<rparr>"

text \<open>
  \<open>cd_update_profile\<close> moves every sample to its trace; the sample of re-execution time is
  reset and has no trace.
\<close>

definition cd_update_profile :: "cd_globals \<Rightarrow> cd_globals" where
  "cd_update_profile g = g
     \<lparr>g_profile_counter := g_profile_counter g + 1,
      g_trace := (\<lambda>t. if t = t_reex then g_trace g t else g_trace g t @ [g_smpl g t]),
      g_smpl := (\<lambda>_. 0)\<rparr>"

section \<open>Recording operations\<close>

type_synonym prof_state = "cd_globals \<times> RuntimeInfo"

definition RecordData ::
  "real \<Rightarrow> string \<Rightarrow> uint64 \<Rightarrow> uint32 \<Rightarrow> bool \<Rightarrow> prof_state \<Rightarrow> prof_state outcome" where
  "RecordData now entry_str len type is_reexec s =
     (let (g, p) = s;
          elapsed = now - g_begin_clk g;
          p = p\<lparr>ri_prsv_time_smpl := ri_prsv_time_smpl p + elapsed\<rparr> in
      if \<not> is_reexec then
        let g = add_smpl t_prv elapsed (add_time t_prv elapsed g);
            p = p\<lparr>ov_prv_elapsed_time := ov_prv_elapsed_time p + elapsed\<rparr> in
        if CHECK_TYPE type (CDPrvType_val kCopy) then
          Inr (g, p\<lparr>ri_prv_copy := ri_prv_copy p + len,
                    ri_input := sm_modify PrvProfEntry_init entry_str
                                  (PrvProfEntry_Update len type) (ri_input p)\<rparr>)
        else if CHECK_TYPE type (CDPrvType_val kRef) then
          Inr (g, p\<lparr>ri_prv_ref := ri_prv_ref p + len\<rparr>)
        else if CHECK_TYPE type (CDPrvType_val kOutput) then
          Inr (g, p\<lparr>ri_output := sm_modify PrvProfEntry_init entry_str
                                   (PrvProfEntry_Update len type) (ri_output p)\<rparr>)
        else Inl (AssertFailed ''RecordData'')
      else
        Inr (add_smpl t_rst elapsed (add_time t_rst elapsed g),
             p\<lparr>ov_rst_elapsed_time := ov_rst_elapsed_time p + elapsed,
               ri_restore := ri_restore p + len\<rparr>))"

definition RecordBegin :: "real \<Rightarrow> bool \<Rightarrow> bool \<Rightarrow> prof_state \<Rightarrow> prof_state" where
  "RecordBegin now is_reexec need_sync s =
     (let (g, p) = s;
          elapsed = now - g_begin_clk g;
          g = add_smpl t_begin elapsed (add_time t_begin elapsed g);
          p = p\<lparr>ov_begin_elapsed_time := ov_begin_elapsed_time p + elapsed,
                ri_cdrt_time_smpl := ri_cdrt_time_smpl p + elapsed\<rparr>;
          p = (if need_sync then p\<lparr>ri_sync_time := ri_sync_time p + (now - g_prof_sync_clk g)\<rparr> else p);
          p = (if is_reexec then
                 p\<lparr>ri_reex_cnt := ri_reex_cnt p + 1,
                   ri_reex_clk := (if ri_reex_clk p = 0 then now else ri_reex_clk p)\<rparr>
               else p\<lparr>ri_reex_clk := 0\<rparr>);
          p = p\<lparr>ri_exec_clk := (if ri_exec_clk p = 0 then now else ri_exec_clk p)\<rparr>
      in (g, p))"

definition RecordComplete :: "real \<Rightarrow> bool \<Rightarrow> bool \<Rightarrow> prof_state \<Rightarrow> prof_state outcome" where
  "RecordComplete now is_reexec lowest_level s =
     (let (g, p) = s;
          elapsed = now - g_begin_clk g;
          g = add_smpl t_compl elapsed (add_time t_compl elapsed g);
          p = p\<lparr>ov_compl_elapsed_time := ov_compl_elapsed_time p + elapsed,
                ri_cdrt_time_smpl := ri_cdrt_time_smpl p + elapsed\<rparr>;
          cd_total_time = now - ri_exec_clk p;
          p = p\<lparr>ri_total_time := ri_total_time p + cd_total_time\<rparr>;
          g = (if lowest_level
               then add_smpl t_body (now - ri_exec_clk p) (add_time t_body (now - ri_exec_clk p) g)
               else g);
          p = p\<lparr>ri_exec_cnt := ri_exec_cnt p + 1, ri_exec_clk := 0\<rparr>;
          (g, p) = (if ri_reex_clk p \<noteq> 0
                    then (add_smpl t_reex (now - ri_reex_clk p) g,
                          p\<lparr>ri_reex_time := ri_reex_time p + (now - ri_reex_clk p),
                            ri_reex_clk := 0\<rparr>)
                    else (g, p)) in
      if \<not> is_reexec then
        Inr (g, p\<lparr>ri_exec_trace := ri_exec_trace p @ [cd_total_time],
                  ri_prsv_trace := ri_prsv_trace p @ [ri_prsv_time_smpl p],
                  ri_cdrt_trace := ri_cdrt_trace p @ [ri_cdrt_time_smpl p + ri_prsv_time_smpl p],
                  ri_prsv_time_smpl := 0,
                  ri_cdrt_time_smpl := 0\<rparr>)
      else if \<not> g_is_error_free g then Inr (g, p)
      else Inl (AssertFailed ''is_error_free == false''))"

definition RecordRollback :: "real \<Rightarrow> bool \<Rightarrow> CDOpState \<Rightarrow> prof_state \<Rightarrow> prof_state outcome" where
  "RecordRollback now is_first op s =
     (let (g, p) = s in
      bind_out
        (if is_first then
           let g = g\<lparr>g_end_clk := now\<rparr>;
               elapsed = now - g_begin_clk g in
           case op of
             kComplete \<Rightarrow>
               Inr (add_smpl t_compl elapsed (add_time t_compl elapsed g),
                    p\<lparr>ov_compl_elapsed_time := ov_compl_elapsed_time p + elapsed,
                      ri_cdrt_time_smpl := ri_cdrt_time_smpl p + elapsed\<rparr>)
           | kBegin \<Rightarrow>
               Inr (add_smpl t_begin elapsed (add_time t_begin elapsed g),
                    p\<lparr>ov_begin_elapsed_time := ov_begin_elapsed_time p + elapsed,
                      ri_cdrt_time_smpl := ri_cdrt_time_smpl p + elapsed\<rparr>)
           | kCreate \<Rightarrow>
               Inr (add_time t_create elapsed g,
                    p\<lparr>ov_create_elapsed_time := ov_create_elapsed_time p + elapsed\<rparr>)
           | _ \<Rightarrow> Inl (AssertFailed ''RecordRollback'')
         else Inr (g, p\<lparr>ri_sync_time := ri_sync_time p + (now - g_prof_sync_clk g)\<rparr>))
        (\<lambda>(g, p). Inr (g\<lparr>g_prof_sync_clk := now\<rparr>, p)))"

definition RecordRecoveryComplete :: "real \<Rightarrow> prof_state \<Rightarrow> prof_state" where
  "RecordRecoveryComplete now s =
     (let (g, p) = s in
      (add_smpl t_reex (now - ri_reex_clk p) g,
       p\<lparr>ri_reex_time := ri_reex_time p + (now - ri_reex_clk p),
         ri_reex_cnt := ri_reex_cnt p + 1\<rparr>))"

definition RecordCreate :: "real \<Rightarrow> prof_state \<Rightarrow> prof_state" where
  "RecordCreate elapsed s =
     (let (g, p) = s in
      (add_smpl t_create elapsed (add_time t_create elapsed g),
       p\<lparr>ov_create_elapsed_time := ov_create_elapsed_time p + elapsed\<rparr>))"

definition RecordDestory :: "real \<Rightarrow> prof_state \<Rightarrow> prof_state" where
  "RecordDestory elapsed s =
     (let (g, p) = s in
      (add_smpl t_destroy elapsed (add_time t_destroy elapsed g),
       p\<lparr>ov_destroy_elapsed_time := ov_destroy_elapsed_time p + elapsed,
         ri_cdrt_time_smpl := ri_cdrt_time_smpl p + elapsed\<rparr>))"

text \<open>
  \<open>PrintTraces\<close> writes the five traces as JSON arrays; \<open>fmt\<close> is \<open>printf\<close>'s \<open>%f\<close>.
\<close>

definition PrintTrace :: "(real \<Rightarrow> string) \<Rightarrow> string \<Rightarrow> string \<Rightarrow> real list \<Rightarrow> string \<Rightarrow> string" where
  "PrintTrace fmt indent name xs tail =
     indent @ name @ ''['' @
     (case xs of [] \<Rightarrow> ''0'' | x # xs' \<Rightarrow> fmt x @ concat (map (\<lambda>y. '','' @ fmt y) xs')) @ tail"

definition PrintTraces :: "(real \<Rightarrow> string) \<Rightarrow> string \<Rightarrow> RuntimeInfo \<Rightarrow> string" where
  "PrintTraces fmt indent p =
     PrintTrace fmt indent (CHR 0x22 # ''exec_trace'' @ CHR 0x22 # ''    : '') (ri_exec_trace p) ('']'' @ '','' @ [CHR 0x0A]) @
     PrintTrace fmt indent (CHR 0x22 # ''cdrt_trace'' @ CHR 0x22 # ''    : '') (ri_cdrt_trace p) ('']'' @ '','' @ [CHR 0x0A]) @
     PrintTrace fmt indent (CHR 0x22 # ''prsv_trace'' @ CHR 0x22 # ''    : '') (ri_prsv_trace p) ('']'' @ '','' @ [CHR 0x0A]) @
     PrintTrace fmt indent (CHR 0x22 # ''max_prsv'' @ CHR 0x22 # ''    : '') (ri_max_prsv p) ('']'' @ '','' @ [CHR 0x0A]) @
     PrintTrace fmt indent (CHR 0x22 # ''max_cdrt'' @ CHR 0x22 # ''    : '') (ri_max_cdrt p) ('']'' @ [CHR 0x0A])"


section \<open>Sequences of recording operations\<close>

text \<open>
  One entry per call that the runtime makes on a profile; \<open>OpClock\<close> is the assignment
  \<open>cd::begin_clk = CD_CLOCK()\<close> of \<open>CDPrologue\<close>, and \<open>OpUpdate\<close> is
  \<open>cd_update_profile\<close>.
\<close>

datatype prof_op =
    OpClock real
  | OpUpdate
  | OpData real string uint64 uint32 bool
  | OpBegin real bool bool
  | OpComplete real bool bool
  | OpRollback real bool CDOpState
  | OpCreate real
  | OpDestroy real

fun run_op :: "prof_op \<Rightarrow> prof_state \<Rightarrow> prof_state outcome" where
  "run_op (OpClock now) (g, p) = Inr (g\<lparr>g_begin_clk := now\<rparr>, p)"
| "run_op OpUpdate (g, p) = Inr (cd_update_profile g, p)"
| "run_op (OpData now str len type rx) s = RecordData now str len type rx s"
| "run_op (OpBegin now rx sync) s = Inr (RecordBegin now rx sync s)"
| "run_op (OpComplete now rx lowest) s = RecordComplete now rx lowest s"
| "run_op (OpRollback now first op) s = RecordRollback now first op s"
| "run_op (OpCreate elapsed) s = Inr (RecordCreate elapsed s)"
| "run_op (OpDestroy elapsed) s = Inr (RecordDestory elapsed s)"

fun run_ops :: "prof_op list \<Rightarrow> prof_state \<Rightarrow> prof_state outcome" where
  "run_ops [] s = Inr s"
| "run_ops (op # ops) s = bind_out (run_op op s) (run_ops ops)"

text \<open>
  The profiles of all phases, as \<open>cd::phaseNodeCache\<close> reaches them: a call names the phase
  whose profile it updates, and a phase with no node is a null pointer.
\<close>

type_synonym prof_sys = "cd_globals \<times> (uint32, RuntimeInfo) smap"

definition sys_op :: "uint32 \<Rightarrow> prof_op \<Rightarrow> prof_sys \<Rightarrow> prof_sys outcome" where
  "sys_op phase op s =
     (let (g, m) = s in
      bind_out (deref ''phaseNodeCache'' (sm_find m phase)) (\<lambda>p.
      bind_out (run_op op (g, p)) (\<lambda>(g', p').
        Inr (g', sm_put phase p' m))))"

fun sys_ops :: "(uint32 \<times> prof_op) list \<Rightarrow> prof_sys \<Rightarrow> prof_sys outcome" where
  "sys_ops [] s = Inr s"
| "sys_ops ((phase, op) # ops) s = bind_out (sys_op phase op s) (sys_ops ops)"

fun ledger :: "timer \<Rightarrow> RuntimeInfo \<Rightarrow> real" where
  "ledger t_prv p = ov_prv_elapsed_time p"
| "ledger t_rst p = ov_rst_elapsed_time p"
| "ledger t_create p = ov_create_elapsed_time p"
| "ledger t_destroy p = ov_destroy_elapsed_time p"
| "ledger t_begin p = ov_begin_elapsed_time p"
| "ledger t_compl p = ov_compl_elapsed_time p"
| "ledger _ p = 0"

definition ledger_timers :: "timer set" where
  "ledger_timers = {t_prv, t_rst, t_create, t_destroy, t_begin, t_compl}"

text \<open>The bytes that a sequence of calls copies in normal execution.\<close>

fun op_copied :: "prof_op \<Rightarrow> nat" where
  "op_copied (OpData now str len type rx) =
     (if \<not> rx \<and> CHECK_TYPE type (CDPrvType_val kCopy) then unat len else 0)"
| "op_copied _ = 0"

fun op_restored :: "prof_op \<Rightarrow> nat" where
  "op_restored (OpData now str len type rx) = (if rx then unat len else 0)"
| "op_restored _ = 0"

section \<open>Facts about the maps\<close>

lemma keys_MergeMaps: "fst ` set (MergeMaps l r) = fst ` set l \<union> fst ` set r"
  by (induction l r rule: MergeMaps.induct) auto

lemma sm_sorted_MergeMaps: "sm_sorted l \<Longrightarrow> sm_sorted r \<Longrightarrow> sm_sorted (MergeMaps l r)"
proof (induction l r rule: MergeMaps.induct)
  case (1 lk lv lhs rk rv rhs)
  then show ?case by (auto simp: keys_MergeMaps simp del: set_map)
qed simp_all

lemma sm_find_MergeMaps:
  "sm_sorted l \<Longrightarrow> sm_sorted r \<Longrightarrow> sm_find (MergeMaps l r) = sm_find l ++ sm_find r"
proof (induction l r rule: MergeMaps.induct)
  case (1 lk lv lhs rk rv rhs)
  have "sm_find rhs rk = None" "sm_find lhs lk = None"
    using "1.prems" by (auto intro!: sm_find_less)
  moreover have "sm_find rhs lk = None" if "lk < rk"
    using "1.prems" that by (intro sm_find_less) (auto dest: less_trans)
  ultimately show ?case
    using 1 by (auto simp: map_add_def fun_eq_iff split: option.splits)
qed (simp_all add: map_add_def fun_eq_iff)

lemma sm_sum_put:
  fixes g :: "'v \<Rightarrow> real"
  assumes "sm_find m k = Some v" "sm_sorted m"
  shows "sm_sum g (sm_put k w m) = sm_sum g m - g v + g w"
  using assms
proof (induction m)
  case (Cons q m)
  obtain j u where q: "q = (j, u)" by force
  have "sm_find m k = None" if "k < j"
    using Cons.prems q that by (intro sm_find_less) fastforce
  then show ?case using Cons q by (auto simp: sm_put_def split: if_splits)
qed simp

section \<open>Facts about the recording operations\<close>

lemmas record_defs = RecordData_def RecordBegin_def RecordComplete_def RecordRollback_def
  RecordCreate_def RecordDestory_def cd_update_profile_def add_time_def add_smpl_def

lemma run_op_ledger:
  assumes "run_op op (g, p) = Inr (g', p')" "t \<in> ledger_timers"
  shows "g_time g' t - ledger t p' = g_time g t - ledger t p"
  using assms
  by (cases op; cases t)
    (auto simp: ledger_timers_def record_defs Let_def bind_out_Inr_iff
          split: if_splits CDOpState.splits prod.splits)


lemma run_op_trace:
  assumes "run_op op (g, p) = Inr (g', p')" "t \<noteq> t_reex" "t \<noteq> t_create"
    and "sum_list (g_trace g t) + g_smpl g t = g_time g t"
  shows "sum_list (g_trace g' t) + g_smpl g' t = g_time g' t"
  using assms
  by (cases op)
    (auto simp: record_defs Let_def bind_out_Inr_iff
          split: if_splits CDOpState.splits prod.splits)

lemma run_op_sorted:
  assumes "run_op op (g, p) = Inr (g', p')" "sm_sorted (ri_input p)" "sm_sorted (ri_output p)"
  shows "sm_sorted (ri_input p') \<and> sm_sorted (ri_output p')"
  using assms
  by (cases op)
    (auto simp: record_defs Let_def bind_out_Inr_iff sm_sorted_modify
          split: if_splits CDOpState.splits prod.splits)

lemma run_op_exec_clk:
  assumes "run_op op (g, p) = Inr (g', p')" "ri_exec_clk p \<noteq> 0"
    and "\<not> (\<exists>now rx low. op = OpComplete now rx low)"
  shows "ri_exec_clk p' = ri_exec_clk p \<and> ri_total_time p' = ri_total_time p \<and>
         ri_exec_cnt p' = ri_exec_cnt p"
  using assms
  by (cases op)
    (auto simp: record_defs Let_def bind_out_Inr_iff
          split: if_splits CDOpState.splits prod.splits)

lemma sys_op_ledger:
  assumes "sys_op phase op (g, m) = Inr (g', m')" "t \<in> ledger_timers" "sm_sorted m"
  shows "sm_sorted m' \<and> g_time g' t - sm_sum (ledger t) m' = g_time g t - sm_sum (ledger t) m"
proof -
  from assms(1) obtain p p' where p: "sm_find m phase = Some p"
    and r: "run_op op (g, p) = Inr (g', p')" and m': "m' = sm_put phase p' m"
    by (auto simp: sys_op_def Let_def bind_out_Inr_iff split: prod.splits)
  then show ?thesis
    using run_op_ledger [OF r assms(2)] sm_sum_put [OF p assms(3), of "ledger t" p']
      sm.invar_put [OF assms(3)] by simp
qed


lemma sys_op_trace:
  assumes "sys_op phase op (g, m) = Inr (g', m')" "t \<noteq> t_reex" "t \<noteq> t_create"
    and "sum_list (g_trace g t) + g_smpl g t = g_time g t"
  shows "sum_list (g_trace g' t) + g_smpl g' t = g_time g' t"
  using assms run_op_trace
  by (fastforce simp: sys_op_def Let_def bind_out_Inr_iff split: prod.splits)

lemma run_ops_append: "run_ops (xs @ ys) s = bind_out (run_ops xs s) (run_ops ys)"
  by (induction xs arbitrary: s) (auto simp: bind_out_def split: sum.splits)

fun is_complete :: "prof_op \<Rightarrow> bool" where
  "is_complete (OpComplete _ _ _) = True"
| "is_complete _ = False"

fun is_first_begin :: "prof_op \<Rightarrow> bool" where
  "is_first_begin (OpBegin _ rx _) = (\<not> rx)"
| "is_first_begin _ = False"

lemma is_complete_iff: "is_complete op \<longleftrightarrow> (\<exists>now rx low. op = OpComplete now rx low)"
  by (cases op) simp_all

lemma run_ops_exec_clk:
  assumes "run_ops ops (g, p) = Inr (g', p')" "ri_exec_clk p \<noteq> 0" "\<not> list_ex is_complete ops"
  shows "ri_exec_clk p' = ri_exec_clk p \<and> ri_total_time p' = ri_total_time p \<and>
         ri_exec_cnt p' = ri_exec_cnt p"
  using assms
proof (induction ops arbitrary: g p)
  case (Cons op ops)
  from Cons.prems(1) obtain g1 p1 where r: "run_op op (g, p) = Inr (g1, p1)"
    and rs: "run_ops ops (g1, p1) = Inr (g', p')" by (auto simp: bind_out_Inr_iff)
  have "\<not> (\<exists>now rx low. op = OpComplete now rx low)"
    using Cons.prems(3) by (auto simp: is_complete_iff)
  note one = run_op_exec_clk [OF r Cons.prems(2) this]
  then show ?case using Cons.IH [OF rs] Cons.prems(2,3) by simp
qed simp

lemma run_op_reex_clk:
  assumes "run_op op (g, p) = Inr (g', p')" "ri_reex_clk p \<noteq> 0"
    and "\<not> is_complete op" "\<not> is_first_begin op"
  shows "ri_reex_clk p' = ri_reex_clk p \<and> ri_reex_time p' = ri_reex_time p"
  using assms
  by (cases op)
    (auto simp: record_defs Let_def bind_out_Inr_iff
          split: if_splits CDOpState.splits prod.splits)

lemma run_ops_reex_clk:
  assumes "run_ops ops (g, p) = Inr (g', p')" "ri_reex_clk p \<noteq> 0"
    and "\<not> list_ex is_complete ops" "\<not> list_ex is_first_begin ops"
  shows "ri_reex_clk p' = ri_reex_clk p \<and> ri_reex_time p' = ri_reex_time p"
  using assms
proof (induction ops arbitrary: g p)
  case (Cons op ops)
  from Cons.prems(1) obtain g1 p1 where r: "run_op op (g, p) = Inr (g1, p1)"
    and rs: "run_ops ops (g1, p1) = Inr (g', p')" by (auto simp: bind_out_Inr_iff)
  have "\<not> is_complete op" "\<not> is_first_begin op" using Cons.prems(3,4) by simp_all
  note one = run_op_reex_clk [OF r Cons.prems(2) this]
  then show ?case using Cons.IH [OF rs] Cons.prems(2-4) by simp
qed simp

text \<open>The bytes of the copied entries, as a volume.\<close>

lemma prv_volume_total:
  assumes "\<forall>e \<in> snd ` set m. pe_type e \<noteq> CDPrvType_val kRef"
  shows "prv_volume False m = Some (sm_sum (\<lambda>e. real (unat (pe_size e))) m)"
  using assms by (induction m) (auto simp: GetVolume_def)

lemma snd_set_sm_modify: "snd ` set (sm_modify d k f m) \<subseteq> insert (f d) (snd ` set m \<union> f ` snd ` set m)"
  by (induction d k f m rule: sm_modify.induct) auto

lemma sm_sum_nat_modify_le:
  fixes f :: "'v \<Rightarrow> 'v" and g :: "'v \<Rightarrow> nat"
  assumes "g d = 0" "\<And>v. v \<in> insert d (snd ` set m) \<Longrightarrow> g (f v) = g v + c"
  shows "sm_sum g (sm_modify d k f m) = sm_sum g m + c"
  using assms(2)
proof (induction m)
  case (Cons q m)
  have "sm_sum g (sm_modify d k f m) = sm_sum g m + c"
    by (rule Cons.IH) (use Cons.prems in auto)
  then show ?case using Cons.prems [of d] Cons.prems [of "snd q"] assms(1) by (cases q) simp
qed (simp add: assms(1))

lemma sm_sum_nat_ge: "v \<in> snd ` set m \<Longrightarrow> g v \<le> (sm_sum g m :: nat)"
proof (induction m)
  case (Cons q m)
  then show ?case by (cases q) (auto simp: image_iff intro: trans_le_add2)
qed simp

lemma copy_not_ref:
  assumes "CHECK_TYPE type (CDPrvType_val kCopy)"
  shows "type \<noteq> CDPrvType_val kRef"
  using assms by (auto simp: CHECK_TYPE_iff_bit bit_CDPrvType_val)

definition copied_ok :: "nat \<Rightarrow> RuntimeInfo \<Rightarrow> bool" where
  "copied_ok n p \<longleftrightarrow>
     sm_sum (\<lambda>e. unat (pe_size e)) (ri_input p) = n \<and>
     unat (ri_prv_copy p) = n \<and>
     (\<forall>e \<in> snd ` set (ri_input p). pe_type e \<noteq> CDPrvType_val kRef)"

lemma unat_add_less: "unat a + unat b < 2 ^ LENGTH('a) \<Longrightarrow> unat (a + b) = unat a + unat b"
  for a b :: "'a::len word"
  by (simp add: unat_word_ariths)

lemma copied_ok_update:
  fixes len :: uint64 and type :: uint32
  assumes ok: "copied_ok n p" and b: "n + unat len < 2 ^ 64"
    and ty: "CHECK_TYPE type (CDPrvType_val kCopy)"
  shows "copied_ok (n + unat len)
     (p\<lparr>ri_prv_copy := ri_prv_copy p + len,
        ri_input := sm_modify PrvProfEntry_init str (PrvProfEntry_Update len type) (ri_input p)\<rparr>)"
proof -
  let ?g = "\<lambda>e. unat (pe_size e)"
  have "?g (PrvProfEntry_Update len type v) = ?g v + unat len"
    if "v \<in> insert PrvProfEntry_init (snd ` set (ri_input p))" for v
  proof -
    have "?g v \<le> n"
      using that sm_sum_nat_ge [of v "ri_input p" ?g] ok
      by (auto simp: copied_ok_def PrvProfEntry_init_def)
    then show ?thesis using b by (simp add: PrvProfEntry_Update_def unat_add_less)
  qed
  then have "sm_sum ?g (sm_modify PrvProfEntry_init str (PrvProfEntry_Update len type) (ri_input p))
    = sm_sum ?g (ri_input p) + unat len"
    by (intro sm_sum_nat_modify_le) (simp_all add: PrvProfEntry_init_def)
  moreover have "pe_type e \<noteq> CDPrvType_val kRef"
    if "e \<in> snd ` set (sm_modify PrvProfEntry_init str (PrvProfEntry_Update len type) (ri_input p))" for e
    using subsetD [OF snd_set_sm_modify that] copy_not_ref [OF ty] ok
    by (auto simp: copied_ok_def PrvProfEntry_Update_def)
  ultimately show ?thesis
    using ok b by (auto simp: copied_ok_def unat_add_less)
qed

lemma copied_ok_cong:
  "ri_input p' = ri_input p \<Longrightarrow> ri_prv_copy p' = ri_prv_copy p \<Longrightarrow> copied_ok n p' = copied_ok n p"
  by (simp add: copied_ok_def)

fun is_copy :: "prof_op \<Rightarrow> bool" where
  "is_copy (OpData now str len type rx) = (\<not> rx \<and> CHECK_TYPE type (CDPrvType_val kCopy))"
| "is_copy _ = False"

lemma run_op_not_copied:
  assumes "run_op op (g, p) = Inr (g', p')" "\<not> is_copy op"
  shows "ri_input p' = ri_input p \<and> ri_prv_copy p' = ri_prv_copy p \<and> op_copied op = 0"
  using assms
  by (cases op)
    (auto simp: record_defs Let_def bind_out_Inr_iff
          split: if_splits CDOpState.splits prod.splits)

lemma run_op_copied:
  assumes r: "run_op op (g, p) = Inr (g', p')" and ok: "copied_ok n p"
    and b: "n + op_copied op < 2 ^ 64"
  shows "copied_ok (n + op_copied op) p'"
proof (cases "is_copy op")
  case True
  then obtain now str len type where op: "op = OpData now str len type False"
    and ty: "CHECK_TYPE type (CDPrvType_val kCopy)" by (cases op) auto
  have "n + unat len < 2 ^ 64" using b op ty by simp
  note upd = copied_ok_update [OF ok this ty, of str]
  have "ri_prv_copy p' = ri_prv_copy p + len"
    "ri_input p' = sm_modify PrvProfEntry_init str (PrvProfEntry_Update len type) (ri_input p)"
    using r by (auto simp: op ty RecordData_def Let_def)
  then have "copied_ok (n + unat len) p'"
    using upd by (simp add: copied_ok_def)
  then show ?thesis using op ty by simp
next
  case False
  then show ?thesis using run_op_not_copied [OF r False] ok copied_ok_cong [of p' p n] by simp
qed

lemma run_ops_copied:
  assumes "run_ops ops (g, p) = Inr (g', p')" "copied_ok n p"
    and "n + sum_list (map op_copied ops) < 2 ^ 64"
  shows "copied_ok (n + sum_list (map op_copied ops)) p'"
  using assms
proof (induction ops arbitrary: g p n)
  case (Cons op ops)
  from Cons.prems(1) obtain g1 p1 where r: "run_op op (g, p) = Inr (g1, p1)"
    and rs: "run_ops ops (g1, p1) = Inr (g', p')" by (auto simp: bind_out_Inr_iff)
  have "copied_ok (n + op_copied op) p1"
    using run_op_copied [OF r Cons.prems(2)] Cons.prems(3) by simp
  from Cons.IH [OF rs this] show ?case using Cons.prems(3) by (simp add: add.assoc)
qed simp


section \<open>Properties\<close>


definition ledger_example :: "prof_sys outcome" where
  "ledger_example = sys_ops
     [(1, OpClock 10), (1, OpCreate 2), (2, OpBegin 13 False False),
      (2, OpData 14 ''x'' 8 (CDPrvType_val kCopy) False), (2, OpComplete 19 False True)]
     (cd_globals_init, [(1, RuntimeInfo_ctor 1), (2, RuntimeInfo_ctor 2)])"

lemmas prof_eval = ledger_example_def sys_op_def sm_put_def record_defs Let_def
  RuntimeInfo_ctor_def CDOverhead_ctor_def cd_globals_init_def CDOverhead.defs RuntimeInfo.defs
  CHECK_TYPE_def CDPrvType_val_def CD_BIT_def PrvProfEntry_Update_def PrvProfEntry_init_def

lemma ledger_example_runs: "\<exists>g m. ledger_example = Inr (g, m)"
  by (simp add: prof_eval)


text \<open>
  Sampling loses nothing: for every timer except the re-execution and creation timers, the
  samples moved to the trace by \<open>cd_update_profile\<close> plus the pending sample equal the total,
  over any sequence of recording calls and updates.
\<close>

theorem samples_add_up:
  assumes "sys_ops ops (g, m) = Inr (g', m')"
    and "t \<noteq> t_reex" and "t \<noteq> t_create"
    and "sum_list (g_trace g t) + g_smpl g t = g_time g t"
  shows "sum_list (g_trace g' t) + g_smpl g' t = g_time g' t"
  using assms
proof (induction ops arbitrary: g m)
  case (Cons pop ops)
  obtain phase op where pop: "pop = (phase, op)" by force
  from Cons.prems(1) obtain g1 m1 where r: "sys_op phase op (g, m) = Inr (g1, m1)"
    and rs: "sys_ops ops (g1, m1) = Inr (g', m')" by (auto simp: pop bind_out_Inr_iff)
  show ?case
    by (rule Cons.IH [OF rs Cons.prems(2,3) sys_op_trace [OF r Cons.prems(2-4)]])
qed simp

theorem samples_add_up_witness:
  "\<exists>g' m'. ledger_example = Inr (g', m') \<and>
           sum_list (g_trace g' t_begin) + g_smpl g' t_begin = g_time g' t_begin"
proof -
  obtain g' m' where r: "ledger_example = Inr (g', m')"
    using ledger_example_runs by blast
  have "sum_list (g_trace g' t_begin) + g_smpl g' t_begin = g_time g' t_begin"
    by (rule samples_add_up [OF r [unfolded ledger_example_def]])
      (simp_all add: cd_globals_init_def)
  then show ?thesis using r by blast
qed

text \<open>
  The creation timer is the exception: a rollback reported while a domain is created
  (\<open>RecordRollback(true, kCreate)\<close>) adds to the total and not to the sample, so the trace
  no longer adds up.
\<close>

theorem rollback_in_create_unsampled:
  "\<exists>g' p'. run_op (OpRollback 5 True kCreate) (cd_globals_init, RuntimeInfo_ctor 1) = Inr (g', p') \<and>
           sum_list (g_trace g' t_create) + g_smpl g' t_create \<noteq> g_time g' t_create"
  by (simp add: prof_eval)

text \<open>
  \<open>total_time_\<close> measures from the very beginning to the end: when a phase whose execution
  clock is unset begins at \<open>t0\<close> and completes at \<open>t1\<close>, whatever preservations,
  rollbacks and re-execution begins happen in between, exactly \<open>t1 - t0\<close> is added, the
  execution is counted once and the clock is unset again.
\<close>

theorem total_time_begin_to_complete:
  assumes "ri_exec_clk p = 0" and "t0 \<noteq> 0"
    and "\<not> list_ex is_complete ops"
    and "run_ops (OpBegin t0 rx sync # ops @ [OpComplete t1 rx' low]) (g, p) = Inr (g', p')"
  shows "ri_total_time p' = ri_total_time p + (t1 - t0) \<and>
         ri_exec_cnt p' = ri_exec_cnt p + 1 \<and> ri_exec_clk p' = 0"
proof -
  obtain g1 p1 where b: "RecordBegin t0 rx sync (g, p) = (g1, p1)" by force
  from assms(4) b obtain g2 p2 where o: "run_ops ops (g1, p1) = Inr (g2, p2)"
    and c: "RecordComplete t1 rx' low (g2, p2) = Inr (g', p')"
    by (auto simp: run_ops_append bind_out_Inr_iff)
  have p1: "ri_exec_clk p1 = t0" "ri_total_time p1 = ri_total_time p" "ri_exec_cnt p1 = ri_exec_cnt p"
    using b assms(1) by (auto simp: RecordBegin_def Let_def)
  from run_ops_exec_clk [OF o _ assms(3)] p1 assms(2)
  have p2: "ri_exec_clk p2 = t0" "ri_total_time p2 = ri_total_time p" "ri_exec_cnt p2 = ri_exec_cnt p"
    by simp_all
  show ?thesis
    using c p2 by (auto simp: RecordComplete_def Let_def split: if_splits prod.splits)
qed


theorem total_time_begin_to_complete_witness:
  "\<exists>g' p'.
     run_ops (OpBegin 10 False False # [OpRollback 12 True kComplete, OpBegin 13 True True] @
              [OpComplete 20 False True]) (cd_globals_init, RuntimeInfo_ctor 1) = Inr (g', p') \<and>
     ri_total_time p' = 10"
proof -
  let ?s = "(cd_globals_init, RuntimeInfo_ctor 1)"
  let ?ops = "[OpRollback 12 True kComplete, OpBegin 13 True True]"
  obtain g' p' where r: "run_ops (OpBegin 10 False False # ?ops @ [OpComplete 20 False True]) ?s = Inr (g', p')"
    by (simp add: prof_eval)
  have "ri_exec_clk (RuntimeInfo_ctor 1) = 0" "ri_total_time (RuntimeInfo_ctor 1) = 0"
    by (simp_all add: prof_eval)
  then show ?thesis
    using total_time_begin_to_complete [OF _ _ _ r] r by auto
qed

text \<open>
  \<open>reex_time_\<close> measures from the first re-execution begin of a failed phase to its
  completion: rollbacks, preservations and further re-execution begins in between do not move
  the start, and the time from the error itself to that begin is not part of it.
\<close>

theorem reex_time_from_reexec_begin:
  assumes "ri_reex_clk p = 0" and "t2 \<noteq> 0"
    and "\<not> list_ex is_complete ops" and "\<not> list_ex is_first_begin ops"
    and "run_ops (OpBegin t2 True sync # ops @ [OpComplete t3 rx' low]) (g, p) = Inr (g', p')"
  shows "ri_reex_time p' = ri_reex_time p + (t3 - t2) \<and> ri_reex_clk p' = 0"
proof -
  obtain g1 p1 where b: "RecordBegin t2 True sync (g, p) = (g1, p1)" by force
  from assms(5) b obtain g2 p2 where o: "run_ops ops (g1, p1) = Inr (g2, p2)"
    and c: "RecordComplete t3 rx' low (g2, p2) = Inr (g', p')"
    by (auto simp: run_ops_append bind_out_Inr_iff)
  have p1: "ri_reex_clk p1 = t2" "ri_reex_time p1 = ri_reex_time p"
    using b assms(1) by (auto simp: RecordBegin_def Let_def)
  from run_ops_reex_clk [OF o _ assms(3,4)] p1 assms(2)
  have p2: "ri_reex_clk p2 = t2" "ri_reex_time p2 = ri_reex_time p" by simp_all
  show ?thesis
    using c p2 assms(2) by (auto simp: RecordComplete_def Let_def split: if_splits prod.splits)
qed

theorem reex_time_from_reexec_begin_witness:
  "\<exists>g' p'.
     run_ops (OpBegin 13 True True # [OpData 14 ''x'' 8 0 True] @ [OpComplete 20 False True])
             (cd_globals_init, RuntimeInfo_ctor 1) = Inr (g', p') \<and>
     ri_reex_time p' = 7"
proof -
  let ?s = "(cd_globals_init, RuntimeInfo_ctor 1)"
  obtain g' p' where r: "run_ops (OpBegin 13 True True # [OpData 14 ''x'' 8 0 True] @
                           [OpComplete 20 False True]) ?s = Inr (g', p')"
    by (simp add: prof_eval)
  have "ri_reex_clk (RuntimeInfo_ctor 1) = 0" "ri_reex_time (RuntimeInfo_ctor 1) = 0"
    by (simp_all add: prof_eval)
  then show ?thesis
    using reex_time_from_reexec_begin [OF _ _ _ _ r] r by auto
qed

text \<open>
  The copied volume is exact: on a fresh profile, after any sequence of recording calls that
  copies fewer than \<open>2^64\<close> bytes in normal execution, \<open>GetPrvVolume(true, false)\<close> and
  \<open>prv_copy_\<close> are both the number of bytes copied, however many entries they went to.
\<close>

theorem prv_volume_counts_copied:
  assumes "run_ops ops (g, RuntimeInfo_ctor i) = Inr (g', p')"
    and "sum_list (map op_copied ops) < 2 ^ 64"
  shows "GetPrvVolume True False p' = Some (real (sum_list (map op_copied ops))) \<and>
         unat (ri_prv_copy p') = sum_list (map op_copied ops)"
proof -
  have "copied_ok 0 (RuntimeInfo_ctor i)"
    by (simp add: copied_ok_def RuntimeInfo_ctor_def CDOverhead.defs RuntimeInfo.defs)
  from run_ops_copied [OF assms(1) this] assms(2)
  have ok: "copied_ok (sum_list (map op_copied ops)) p'" by simp
  have "sm_sum (\<lambda>e. real (unat (pe_size e))) m = real (sm_sum (\<lambda>e. unat (pe_size e)) m)"
    for m :: prof_map
    by (induction m) auto
  then show ?thesis
    using ok prv_volume_total [of "ri_input p'"] by (simp add: copied_ok_def GetPrvVolume_def)
qed

theorem prv_volume_counts_copied_witness:
  "\<exists>g' p'.
     run_ops [OpData 1 ''x'' 8 (CDPrvType_val kCopy) False, OpData 2 ''y'' 16 (CDPrvType_val kCopy) False,
              OpData 3 ''x'' 8 (CDPrvType_val kCopy) False]
             (cd_globals_init, RuntimeInfo_ctor 1) = Inr (g', p') \<and>
     GetPrvVolume True False p' = Some 32"
proof -
  let ?ops = "[OpData 1 ''x'' 8 (CDPrvType_val kCopy) False, OpData 2 ''y'' 16 (CDPrvType_val kCopy) False,
              OpData 3 ''x'' 8 (CDPrvType_val kCopy) False]"
  obtain g' p' where r: "run_ops ?ops (cd_globals_init, RuntimeInfo_ctor 1) = Inr (g', p')"
    by (simp add: prof_eval)
  have "sum_list (map op_copied ?ops) = 32" by (simp add: prof_eval)
  then show ?thesis using prv_volume_counts_copied [OF r] r by simp
qed

text \<open>
  \<open>MergeMaps\<close> implements the override of one map by another and keeps the keys in
  strictly increasing order: a lookup finds the right value when the key is in the right map
  and the left value otherwise.
\<close>

theorem MergeMaps_refines_override:
  fixes l r :: "('k::linorder, 'v) smap"
  assumes "sm_sorted l" and "sm_sorted r"
  shows "sm_find (MergeMaps l r) = sm_find l ++ sm_find r \<and> sm_sorted (MergeMaps l r)"
  using assms sm_find_MergeMaps sm_sorted_MergeMaps by blast

theorem MergeMaps_refines_override_witness:
  "sm_find (MergeMaps [(1 :: nat, ''a''), (3, ''b'')] [(2, ''c''), (3, ''d'')]) 3 = Some ''d'' \<and>
   sm_sorted (MergeMaps [(1 :: nat, ''a''), (3, ''b'')] [(2, ''c''), (3, ''d'')])"
  using MergeMaps_refines_override [of "[(1 :: nat, ''a''), (3, ''b'')]" "[(2, ''c''), (3, ''d'')]"]
  by simp

text \<open>
  \<open>Merge\<close> adds the copied bytes of the two profiles but overrides the entries they share,
  so on two profiles that preserved the same entry the volume per entry no longer matches
  \<open>prv_copy_\<close>.
\<close>

theorem Merge_loses_entry_volume:
  "\<exists>g p. run_op (OpData 1 ''x'' 8 (CDPrvType_val kCopy) False) (cd_globals_init, RuntimeInfo_ctor 1) = Inr (g, p) \<and>
         ri_prv_copy (RuntimeInfo_Merge p p) = 16 \<and>
         GetPrvVolume True False (RuntimeInfo_Merge p p) = Some 8"
  by (simp add: prof_eval RuntimeInfo_Merge_def MergeCDOverhead_def GetPrvVolume_def GetVolume_def)


lemma of_double_to_double:
  fixes w :: "'a::len word"
  assumes "unat w < 2 ^ 53"
  shows "of_double (to_double w) = w"
proof -
  have "double_exp k n = 0" if "n < 2 ^ 53" for k n
    using that
  proof (induction k)
    case (Suc k)
    have "(2::nat) ^ 53 \<le> 2 ^ (53 + k)" by (rule power_increasing) simp_all
    then show ?case using Suc by simp
  qed simp
  then have "to_double w = real (unat w)"
    using assms by (simp add: to_double_def round_bits_def)
  then show ?thesis
    unfolding of_double_def by (simp only: floor_of_nat) simp
qed

lemma unat_32_less_53: "unat (w :: uint32) < 2 ^ 53"
  using unsigned_less [of w] by (rule order.strict_trans) simp

text \<open>
  The record gathered across tasks round-trips: writing back the values that
  \<open>GetRTInfo\<close> read leaves the profile as it was, for byte counters below \<open>2^53\<close>
  (above, a \<open>double\<close> no longer holds them exactly); the 32-bit execution counts always survive.
\<close>

theorem SetRTInfo_GetRTInfo:
  assumes "unat (ri_prv_copy p) < 2 ^ 53" and "unat (ri_prv_ref p) < 2 ^ 53"
    and "unat (ri_restore p) < 2 ^ 53" and "unat (ri_msg_logging p) < 2 ^ 53"
  shows "SetRTInfo (GetRTInfo p) p = p"
  unfolding SetRTInfo_def GetRTInfo_def
  by (simp add: of_double_to_double [OF assms(1)] of_double_to_double [OF assms(2)]
      of_double_to_double [OF assms(3)] of_double_to_double [OF assms(4)]
      of_double_to_double [OF unat_32_less_53])

theorem SetRTInfo_GetRTInfo_witness:
  "SetRTInfo (GetRTInfo ((RuntimeInfo_ctor 7)\<lparr>ri_prv_copy := 4096\<rparr>))
     ((RuntimeInfo_ctor 7)\<lparr>ri_prv_copy := 4096\<rparr>) = (RuntimeInfo_ctor 7)\<lparr>ri_prv_copy := 4096\<rparr>"
  by (rule SetRTInfo_GetRTInfo)
    (simp_all add: RuntimeInfo_ctor_def CDOverhead.defs RuntimeInfo.defs)

end
