(* ===== verification/Phase_Tree.thy ===== *)
theory Phase_Tree
  imports Runtime_Info
begin

text \<open>
  The phase tree of \<open>phase_tree.h\<close> and \<open>phase_tree.cc\<close>.  Nodes live in a heap, a
  list that only grows: a pointer is an index, \<open>new PhaseNode\<close> appends, and the null pointer
  is \<open>None\<close>.  The two trees of the program, \<open>cd::phaseTree\<close> and
  \<open>tuned::phaseTree\<close>, never share nodes and have a heap each; both take phase numbers from
  the static counter \<open>PhaseNode::phase_gen\<close>.  A recursion along the links of the heap takes
  the size of the heap as its bound and gives \<open>None\<close> when the links are cyclic.
\<close>

section \<open>Nodes\<close>

type_synonym ptr = nat

record PhaseNode =
  pn_level :: uint32
  pn_phase :: uint32
  pn_sibling_id :: uint32
  pn_sibling_size :: uint32
  pn_task_id :: uint32
  pn_task_size :: uint32
  pn_seq_begin :: uint64
  pn_seq_end :: uint64
  pn_seq_max :: uint64
  pn_seq_acc :: uint64
  pn_seq_acc_rb :: uint64
  pn_state :: CDExecMode
  pn_count :: "64 word"
  pn_interval :: "64 word"
  pn_errortype :: "64 word"
  pn_parent :: "ptr option"
  pn_left :: "ptr option"
  pn_right :: "ptr option"
  pn_children :: "ptr list"
  pn_label :: string
  pn_medium :: PrvMediumT
  pn_profile :: RuntimeInfo

type_synonym node_heap = "PhaseNode list"

definition modify_node :: "ptr \<Rightarrow> (PhaseNode \<Rightarrow> PhaseNode) \<Rightarrow> node_heap \<Rightarrow> node_heap" where
  "modify_node p f h = h[p := f (h ! p)]"

definition AddChild :: "ptr \<Rightarrow> ptr \<Rightarrow> node_heap \<Rightarrow> node_heap" where
  "AddChild this child h = modify_node this (\<lambda>n. n\<lparr>pn_children := pn_children n @ [child]\<rparr>) h"

text \<open>
  \<open>Init\<close> links a new node \<open>n\<close>, allocated at the end of the heap; the sequence number
  taken over from the left sibling passes through a \<open>uint32_t\<close>.
\<close>

definition PhaseNode_Init :: "ptr option \<Rightarrow> PhaseNode \<Rightarrow> node_heap \<Rightarrow> node_heap" where
  "PhaseNode_Init parent n h =
     (let this = length h;
          n = n\<lparr>pn_seq_begin := 0, pn_seq_end := 0\<rparr> in
      case parent of
        None \<Rightarrow> h @ [n\<lparr>pn_parent := None, pn_left := None, pn_right := None\<rparr>]
      | Some q \<Rightarrow>
          if pn_children (h ! q) = [] then
            AddChild q this (h @ [n\<lparr>pn_parent := Some q, pn_left := None, pn_right := None\<rparr>])
          else
            let prev = last (pn_children (h ! q));
                last_seq_id = (ucast (pn_seq_end (h ! prev)) :: uint32);
                h = modify_node prev (\<lambda>m. m\<lparr>pn_right := Some this\<rparr>) h in
            AddChild q this
              (h @ [n\<lparr>pn_parent := Some q, pn_left := Some prev, pn_right := None,
                      pn_seq_begin := ucast last_seq_id, pn_seq_end := ucast last_seq_id\<rparr>]))"

definition PhaseNode_fresh :: "uint32 \<Rightarrow> string \<Rightarrow> CDExecMode \<Rightarrow> uint32 \<Rightarrow> PhaseNode" where
  "PhaseNode_fresh level label state gen =
     \<lparr>pn_level = level, pn_phase = gen, pn_sibling_id = 0, pn_sibling_size = 1, pn_task_id = 0,
      pn_task_size = 1, pn_seq_begin = 0, pn_seq_end = 0, pn_seq_max = 0, pn_seq_acc = 0,
      pn_seq_acc_rb = 0, pn_state = state, pn_count = 0, pn_interval = - 1, pn_errortype = - 1,
      pn_parent = None, pn_left = None, pn_right = None, pn_children = [], pn_label = label,
      pn_medium = kUndefined, pn_profile = RuntimeInfo_ctor gen\<rparr>"

text \<open>The two constructors; each consumes a number of \<open>phase_gen\<close>.\<close>

definition PhaseNode_ctor ::
  "ptr option \<Rightarrow> uint32 \<Rightarrow> string \<Rightarrow> CDExecMode \<Rightarrow> uint32 \<times> node_heap \<Rightarrow> (uint32 \<times> node_heap) \<times> ptr" where
  "PhaseNode_ctor parent level label state gh =
     (let (gen, h) = gh in
      ((gen + 1, PhaseNode_Init parent (PhaseNode_fresh level label state gen) h), length h))"

definition PhaseNode_ctor_tuned ::
  "ptr option \<Rightarrow> uint32 \<Rightarrow> uint32 \<Rightarrow> uint32 \<times> node_heap \<Rightarrow> ((uint32 \<times> node_heap) \<times> ptr) outcome" where
  "PhaseNode_ctor_tuned parent level phase gh =
     (let (gen, h) = gh in
      bind_out (assert_out ''PhaseNode phase'' (phase = gen)) (\<lambda>_.
        Inr ((gen + 1, PhaseNode_Init parent (PhaseNode_fresh level ''Undefined'' kExecution gen) h),
             length h)))"

definition UpdateTaskInfo ::
  "uint32 \<Rightarrow> uint32 \<Rightarrow> uint32 \<Rightarrow> uint32 \<Rightarrow> ptr \<Rightarrow> node_heap \<Rightarrow> node_heap" where
  "UpdateTaskInfo rank_in_level sibling_count task_in_color task_count this h =
     modify_node this (\<lambda>n. n\<lparr>pn_sibling_id := rank_in_level, pn_sibling_size := sibling_count,
                            pn_task_id := task_in_color, pn_task_size := task_count\<rparr>) h"

definition GetRuntimeOverhead :: "bool \<Rightarrow> ptr \<Rightarrow> node_heap \<Rightarrow> real" where
  "GetRuntimeOverhead include_prv_time this h =
     (let create_time = (case pn_parent (h ! this) of
                           Some q \<Rightarrow> ov_create_elapsed_time (pn_profile (h ! q)) | None \<Rightarrow> 0);
          prv_time = (if include_prv_time then GetPreserveTime (pn_profile (h ! this)) else 0)
      in GetCDRTOverhead (pn_profile (h ! this)) (create_time + prv_time))"

definition GetRuntimeOverheadLocal :: "bool \<Rightarrow> ptr \<Rightarrow> node_heap \<Rightarrow> real" where
  "GetRuntimeOverheadLocal include_prv_time this h =
     (let create_time = (case pn_parent (h ! this) of
                           Some q \<Rightarrow> ov_create_elapsed_time (pn_profile (h ! q)) | None \<Rightarrow> 0);
          prv_time = (if include_prv_time then GetPreserveTime (pn_profile (h ! this)) else 0)
      in GetCDRTOverheadLocal (pn_profile (h ! this)) (create_time + prv_time))"

definition GetPrvBW :: "bool \<Rightarrow> ptr \<Rightarrow> node_heap \<Rightarrow> real option" where
  "GetPrvBW is_input this h =
     (let ovh = GetRuntimeOverhead True this h in
      if ovh = 0 then None
      else map_option (\<lambda>v. v / ovh) (GetPrvVolume is_input False (pn_profile (h ! this))))"

section \<open>Navigation\<close>

definition GetNextNode :: "string \<Rightarrow> ptr \<Rightarrow> node_heap \<Rightarrow> ptr outcome" where
  "GetNextNode label this h =
     (if pn_label (h ! this) = label then Inr this
      else case find (\<lambda>c. pn_label (h ! c) = label) (rev (pn_children (h ! this))) of
             Some next \<Rightarrow> Inr next
           | None \<Rightarrow> Inl (AssertFailed ''next''))"

fun GetLeftMostNode_n :: "nat \<Rightarrow> node_heap \<Rightarrow> ptr \<Rightarrow> ptr option" where
  "GetLeftMostNode_n 0 h this = None"
| "GetLeftMostNode_n (Suc k) h this =
     (case pn_left (h ! this) of
        Some l \<Rightarrow> if pn_interval (h ! l) = 0
                  then if l \<noteq> this then GetLeftMostNode_n k h l else None
                  else Some this
      | None \<Rightarrow> Some this)"

definition GetLeftMostNode :: "ptr \<Rightarrow> node_heap \<Rightarrow> ptr option" where
  "GetLeftMostNode this h = GetLeftMostNode_n (length h) h this"

fun GetRightMostNode_n :: "nat \<Rightarrow> node_heap \<Rightarrow> ptr \<Rightarrow> ptr option" where
  "GetRightMostNode_n 0 h this = None"
| "GetRightMostNode_n (Suc k) h this =
     (case pn_right (h ! this) of
        Some r \<Rightarrow> if pn_interval (h ! r) = 0 then GetRightMostNode_n k h r else Some this
      | None \<Rightarrow> Some this)"

definition GetRightMostNode :: "ptr \<Rightarrow> node_heap \<Rightarrow> ptr option" where
  "GetRightMostNode this h = GetRightMostNode_n (length h) h this"

fun GetPhasePath_n :: "nat \<Rightarrow> node_heap \<Rightarrow> ptr \<Rightarrow> string option" where
  "GetPhasePath_n 0 h this = None"
| "GetPhasePath_n (Suc k) h this =
     (case pn_parent (h ! this) of
        Some q \<Rightarrow> map_option (\<lambda>s. s @ ''_'' @ pn_label (h ! this)) (GetPhasePath_n k h q)
      | None \<Rightarrow> Some (pn_label (h ! this)))"

definition GetPhasePath :: "ptr \<Rightarrow> node_heap \<Rightarrow> string option" where
  "GetPhasePath this h = GetPhasePath_n (length h) h this"

definition GetPhasePath_label :: "string \<Rightarrow> ptr \<Rightarrow> node_heap \<Rightarrow> string option" where
  "GetPhasePath_label label this h =
     (case pn_parent (h ! this) of
        Some _ \<Rightarrow> map_option (\<lambda>s. s @ ''_'' @ label) (GetPhasePath this h)
      | None \<Rightarrow> Some label)"

section \<open>Recovery and sequence numbers\<close>

definition set_state :: "CDExecMode \<Rightarrow> PhaseNode \<Rightarrow> PhaseNode" where
  "set_state st n = n\<lparr>pn_state := st\<rparr>"

fun ResetToExec_n :: "nat \<Rightarrow> ptr \<Rightarrow> node_heap \<Rightarrow> node_heap option" where
  "ResetToExec_n 0 this h = None"
| "ResetToExec_n (Suc k) this h =
     foldl (\<lambda>m c. case m of Some h' \<Rightarrow> ResetToExec_n k c h' | None \<Rightarrow> None)
       (Some (modify_node this (set_state kExecution) h)) (pn_children (h ! this))"

definition ResetToExec :: "ptr \<Rightarrow> node_heap \<Rightarrow> node_heap option" where
  "ResetToExec this h = ResetToExec_n (length h) this h"

fun FinishRecovery_n :: "nat \<Rightarrow> ptr \<Rightarrow> node_heap \<Rightarrow> node_heap outcome" where
  "FinishRecovery_n 0 this h = Inl (NullDeref ''FinishRecovery'')"
| "FinishRecovery_n (Suc k) this h =
     bind_out (assert_out ''state_ == kReexecution'' (pn_state (h ! this) = kReexecution)) (\<lambda>_.
       case pn_parent (h ! this) of
         Some q \<Rightarrow> if pn_state (h ! q) \<noteq> kReexecution
                   then deref ''ResetToExec'' (ResetToExec this h)
                   else FinishRecovery_n k q h
       | None \<Rightarrow> deref ''ResetToExec'' (ResetToExec this h))"

definition FinishRecovery :: "ptr \<Rightarrow> node_heap \<Rightarrow> node_heap outcome" where
  "FinishRecovery this h = FinishRecovery_n (length h) this h"

definition MarkSeqID :: "ptr \<Rightarrow> node_heap \<Rightarrow> node_heap" where
  "MarkSeqID this h =
     (case pn_left (h ! this) of
        None \<Rightarrow> modify_node this (\<lambda>n. n\<lparr>pn_seq_begin := 0, pn_seq_end := 0\<rparr>) h
      | Some l \<Rightarrow> modify_node this
          (\<lambda>n. n\<lparr>pn_seq_begin := pn_seq_begin (h ! l), pn_seq_end := pn_seq_begin (h ! l)\<rparr>) h)"

definition IncSeqID_node :: "bool \<Rightarrow> PhaseNode \<Rightarrow> PhaseNode" where
  "IncSeqID_node err_free_exec n =
     (let n = (if err_free_exec
               then n\<lparr>pn_seq_end := pn_seq_end n + 1, pn_seq_acc := pn_seq_acc n + 1\<rparr> else n);
          n = n\<lparr>pn_seq_acc_rb := pn_seq_acc_rb n + 1\<rparr>
      in n\<lparr>pn_seq_max := (if pn_seq_end n > pn_seq_max n then pn_seq_end n else pn_seq_max n)\<rparr>)"

definition IncSeqID :: "bool \<Rightarrow> ptr \<Rightarrow> node_heap \<Rightarrow> node_heap" where
  "IncSeqID err_free_exec this h = modify_node this (IncSeqID_node err_free_exec) h"

definition ResetSeqID_node :: "uint32 \<Rightarrow> PhaseNode \<Rightarrow> PhaseNode" where
  "ResetSeqID_node rollback_lv n =
     (if rollback_lv < pn_level n then n\<lparr>pn_seq_end := pn_seq_begin n\<rparr> else n)"

definition ResetSeqID :: "uint32 \<Rightarrow> ptr \<Rightarrow> node_heap \<Rightarrow> node_heap" where
  "ResetSeqID rollback_lv this h = modify_node this (ResetSeqID_node rollback_lv) h"

section \<open>The tree, its path index and its node cache\<close>

record phase_tree =
  pt_heap :: node_heap
  pt_root :: "ptr option"
  pt_current :: "ptr option"
  pt_path :: "(string, uint32) smap"
  pt_cache :: "(uint32, ptr option) smap"

definition phase_tree_empty :: phase_tree where
  "phase_tree_empty = \<lparr>pt_heap = [], pt_root = None, pt_current = None, pt_path = [], pt_cache = []\<rparr>"

record phase_world =
  w_gen :: uint32
  w_max_phase :: uint32
  w_cd :: phase_tree
  w_tuned :: phase_tree
  w_runtime_activated :: bool

definition PhaseTree_Init :: "uint32 \<Rightarrow> string \<Rightarrow> phase_world \<Rightarrow> phase_world \<times> uint32" where
  "PhaseTree_Init level label w =
     (let t = w_cd w;
          ((gen, h), p) = PhaseNode_ctor None level label kExecution (w_gen w, pt_heap t);
          phase = pn_phase (h ! p)
      in (w\<lparr>w_runtime_activated := True, w_gen := gen,
            w_cd := t\<lparr>pt_heap := h, pt_root := Some p, pt_current := Some p,
                      pt_cache := sm_put phase (Some p) (pt_cache t)\<rparr>\<rparr>,
          phase))"

definition PhaseTree_ReInit :: "phase_world \<Rightarrow> (phase_world \<times> uint32) outcome" where
  "PhaseTree_ReInit w =
     (let t = w_cd w in
      bind_out (deref ''root_'' (pt_root t)) (\<lambda>r.
        Inr (w\<lparr>w_cd := t\<lparr>pt_current := pt_root t\<rparr>\<rparr>, pn_phase (pt_heap t ! r))))"

text \<open>
  \<open>GetPhaseNode\<close>.  \<open>phaseNodeCache[k]\<close> inserts a null pointer when the key is missing.
  \<open>tuning_off\<close> stands for \<open>CD_TUNING_ENABLED == 0 && CD_RUNTIME_ENABLED == 1\<close>.
\<close>

definition cache_at :: "uint32 \<Rightarrow> (uint32, ptr option) smap \<Rightarrow> (uint32, ptr option) smap \<times> ptr option" where
  "cache_at k m = (case sm_find m k of Some p \<Rightarrow> (m, p) | None \<Rightarrow> (sm_put k None m, None))"

definition get_or_new_phase ::
  "ptr \<Rightarrow> uint32 \<Rightarrow> string \<Rightarrow> string \<Rightarrow> phase_world \<Rightarrow> (phase_world \<times> uint32) outcome" where
  "get_or_new_phase this level label phase_path w =
     (let t = w_cd w; st = pn_state (pt_heap t ! this) in
      case sm_find (pt_path t) phase_path of
        None \<Rightarrow>
          bind_out (assert_out ''state_ == kExecution'' (st = kExecution)) (\<lambda>_.
            let ((gen, h), p) = PhaseNode_ctor (pt_current t) level label st (w_gen w, pt_heap t);
                phase = pn_phase (h ! p)
            in Inr (w\<lparr>w_gen := gen,
                      w_cd := t\<lparr>pt_heap := h, pt_current := Some p,
                                pt_path := sm_put phase_path phase (pt_path t),
                                pt_cache := sm_put phase (Some p) (pt_cache t)\<rparr>\<rparr>, phase))
      | Some phase \<Rightarrow>
          let (cache, cur) = cache_at phase (pt_cache t);
              t = t\<lparr>pt_cache := cache, pt_current := cur\<rparr> in
          bind_out (if st = kReexecution
                    then bind_out (deref ''phaseTree.current_'' cur) (\<lambda>p.
                           Inr (t\<lparr>pt_heap := modify_node p (set_state kReexecution) (pt_heap t)\<rparr>))
                    else Inr t)
            (\<lambda>t. Inr (w\<lparr>w_cd := t\<rparr>, phase)))"

fun find_label :: "string \<Rightarrow> node_heap \<Rightarrow> (uint32, ptr option) smap \<Rightarrow> ptr option outcome" where
  "find_label label h [] = Inr None"
| "find_label label h ((_, p) # cache) =
     bind_out (deref ''phaseNodeCache'' p) (\<lambda>q.
       if pn_label (h ! q) = label then Inr (Some q) else find_label label h cache)"

definition apply_config :: "string \<Rightarrow> PrvMediumT \<Rightarrow> uint64 \<Rightarrow> phase_world \<Rightarrow> phase_world outcome" where
  "apply_config label medium_from_api error_vec_from_api w =
     (let t = w_cd w; th = pt_heap (w_tuned w) in
      bind_out (find_label label th (pt_cache (w_tuned w))) (\<lambda>pt.
      bind_out (deref ''phaseTree.current_'' (pt_current t)) (\<lambda>p.
        let (err, med) = (case pt of
                            Some q \<Rightarrow> (pn_errortype (th ! q), pn_medium (th ! q))
                          | None \<Rightarrow> (error_vec_from_api, medium_from_api))
        in Inr (w\<lparr>w_cd := t\<lparr>pt_heap := modify_node p
                     (\<lambda>n. n\<lparr>pn_errortype := err, pn_medium := med\<rparr>) (pt_heap t)\<rparr>\<rparr>))))"

definition GetPhaseNode ::
  "bool \<Rightarrow> int \<Rightarrow> ptr \<Rightarrow> uint32 \<Rightarrow> string \<Rightarrow> PrvMediumT \<Rightarrow> uint64 \<Rightarrow> phase_world \<Rightarrow>
   (phase_world \<times> uint32) outcome" where
  "GetPhaseNode tuning_off myTaskID this level label medium_from_api error_vec_from_api w =
     bind_out (deref ''GetPhasePath'' (GetPhasePath_label label this (pt_heap (w_cd w)))) (\<lambda>phase_path.
     bind_out (assert_out ''0'' (\<not> (myTaskID = 0 \<and> phase_path = ''Root_MainLoop_CalcPos''))) (\<lambda>_.
     bind_out (get_or_new_phase this level label phase_path w) (\<lambda>(w, phase).
       if tuning_off
       then bind_out (apply_config label medium_from_api error_vec_from_api w) (\<lambda>w. Inr (w, phase))
       else Inr (w, phase))))"


section \<open>Well-formed heaps\<close>

definition node_wf :: "node_heap \<Rightarrow> ptr \<Rightarrow> bool" where
  "node_wf h i \<longleftrightarrow>
     (case pn_parent (h ! i) of None \<Rightarrow> i = 0 | Some q \<Rightarrow> q < i \<and> i \<in> set (pn_children (h ! q))) \<and>
     (\<forall>c \<in> set (pn_children (h ! i)). i < c \<and> c < length h \<and> pn_parent (h ! c) = Some i) \<and>
     distinct (pn_children (h ! i))"

definition heap_wf :: "node_heap \<Rightarrow> bool" where
  "heap_wf h \<longleftrightarrow> (\<forall>i < length h. node_wf h i)"

definition links :: "PhaseNode \<Rightarrow> ptr option \<times> ptr list \<times> string" where
  "links n = (pn_parent n, pn_children n, pn_label n)"

lemma links_eqD:
  "links m = links n \<Longrightarrow> pn_parent m = pn_parent n \<and> pn_children m = pn_children n \<and> pn_label m = pn_label n"
  by (simp add: links_def)

lemma heap_wfD: "heap_wf h \<Longrightarrow> i < length h \<Longrightarrow> node_wf h i"
  by (simp add: heap_wf_def)

lemma heap_wf_parent:
  assumes "heap_wf h" "i < length h" "pn_parent (h ! i) = Some q"
  shows "q < i \<and> q < length h \<and> i \<in> set (pn_children (h ! q))"
  using heap_wfD [OF assms(1,2)] assms(2,3) by (simp add: node_wf_def)

lemma heap_wf_root:
  assumes "heap_wf h" "i < length h" "pn_parent (h ! i) = None"
  shows "i = 0"
  using heap_wfD [OF assms(1,2)] assms(3) by (simp add: node_wf_def)

lemma heap_wf_child:
  assumes "heap_wf h" "i < length h" "c \<in> set (pn_children (h ! i))"
  shows "i < c \<and> c < length h \<and> pn_parent (h ! c) = Some i"
  using heap_wfD [OF assms(1,2)] assms(3) by (simp add: node_wf_def)

lemma node_wf_cong:
  assumes "length h = length h'" "i < length h" "heap_wf h"
    and l: "\<And>j. j < length h \<Longrightarrow> links (h' ! j) = links (h ! j)"
  shows "node_wf h' i"
proof -
  have L: "pn_parent (h' ! j) = pn_parent (h ! j)" "pn_children (h' ! j) = pn_children (h ! j)"
    if "j < length h" for j
    using links_eqD [OF l [OF that]] by simp_all
  have par: "case pn_parent (h' ! i) of None \<Rightarrow> i = 0 | Some q \<Rightarrow> q < i \<and> i \<in> set (pn_children (h' ! q))"
    using heap_wf_parent [OF assms(3,2)] heap_wf_root [OF assms(3,2)] L assms(2)
    by (auto split: option.splits)
  have "i < c \<and> c < length h' \<and> pn_parent (h' ! c) = Some i" if "c \<in> set (pn_children (h' ! i))" for c
    using heap_wf_child [OF assms(3,2), of c] that L assms(1,2) by simp
  moreover have "distinct (pn_children (h' ! i))"
    using heap_wfD [OF assms(3,2)] L assms(2) by (simp add: node_wf_def)
  ultimately show ?thesis using par by (simp add: node_wf_def)
qed

lemma heap_wf_cong:
  assumes "map links h' = map links h" "heap_wf h"
  shows "heap_wf h'"
proof -
  have len: "length h = length h'" using map_eq_imp_length_eq [OF assms(1)] by simp
  have "links (h' ! j) = links (h ! j)" if "j < length h" for j
    using that assms(1) len by (metis nth_map)
  then show ?thesis
    using node_wf_cong [OF len _ assms(2)] len by (simp add: heap_wf_def)
qed

lemma map_links_modify:
  "(\<And>n. links (f n) = links n) \<Longrightarrow> map links (modify_node p f h) = map links h"
  by (cases "p < length h") (simp_all add: modify_node_def map_update list_update_beyond list_update_same_conv)

lemma length_modify_node [simp]: "length (modify_node p f h) = length h"
  by (simp add: modify_node_def)

lemma nth_modify_node:
  "i < length h \<Longrightarrow> modify_node p f h ! i = (if i = p then f (h ! i) else h ! i)"
  by (simp add: modify_node_def nth_list_update)

text \<open>What \<open>Init\<close> does to a well-formed heap.\<close>

lemma PhaseNode_Init_root:
  "PhaseNode_Init None n h = h @ [n\<lparr>pn_parent := None, pn_left := None, pn_right := None,
     pn_seq_begin := 0, pn_seq_end := 0\<rparr>]"
  by (simp add: PhaseNode_Init_def Let_def)

lemma PhaseNode_Init_child:
  assumes w: "heap_wf h" and q: "q < length h"
  shows "length (PhaseNode_Init (Some q) n h) = Suc (length h)"
    and "i < length h \<Longrightarrow> links (PhaseNode_Init (Some q) n h ! i) =
          (pn_parent (h ! i), pn_children (h ! i) @ (if i = q then [length h] else []), pn_label (h ! i))"
    and "i < length h \<Longrightarrow> pn_phase (PhaseNode_Init (Some q) n h ! i) = pn_phase (h ! i) \<and>
          pn_state (PhaseNode_Init (Some q) n h ! i) = pn_state (h ! i)"
    and "links (PhaseNode_Init (Some q) n h ! length h) = (Some q, pn_children n, pn_label n)"
    and "pn_phase (PhaseNode_Init (Some q) n h ! length h) = pn_phase n"
    and "pn_state (PhaseNode_Init (Some q) n h ! length h) = pn_state n"
proof -
  have "last (pn_children (h ! q)) \<noteq> q" if "pn_children (h ! q) \<noteq> []"
    using heap_wf_child [OF w q last_in_set [OF that]] by simp
  note defs = this q less_imp_neq [OF q, symmetric] PhaseNode_Init_def Let_def AddChild_def nth_append nth_modify_node links_def
  show "length (PhaseNode_Init (Some q) n h) = Suc (length h)" by (simp add: defs)
  show "i < length h \<Longrightarrow> links (PhaseNode_Init (Some q) n h ! i) =
          (pn_parent (h ! i), pn_children (h ! i) @ (if i = q then [length h] else []), pn_label (h ! i))"
    by (simp add: defs)
  show "i < length h \<Longrightarrow> pn_phase (PhaseNode_Init (Some q) n h ! i) = pn_phase (h ! i) \<and>
          pn_state (PhaseNode_Init (Some q) n h ! i) = pn_state (h ! i)"
    by (simp add: defs)
  show "links (PhaseNode_Init (Some q) n h ! length h) = (Some q, pn_children n, pn_label n)"
    by (simp add: defs)
  show "pn_phase (PhaseNode_Init (Some q) n h ! length h) = pn_phase n"
    by (simp add: defs)
  show "pn_state (PhaseNode_Init (Some q) n h ! length h) = pn_state n"
    by (simp add: defs)
qed

lemma heap_wf_Init_child:
  assumes w: "heap_wf h" and q: "q < length h" and n: "pn_children n = []"
  shows "heap_wf (PhaseNode_Init (Some q) n h)" (is "heap_wf ?h")
proof -
  note I = PhaseNode_Init_child [OF w q]
  have old: "pn_parent (?h ! i) = pn_parent (h ! i)"
    "pn_children (?h ! i) = pn_children (h ! i) @ (if i = q then [length h] else [])"
    if "i < length h" for i
    using I(2) [OF that, of n] by (simp_all add: links_def)
  have new: "pn_parent (?h ! length h) = Some q" "pn_children (?h ! length h) = []"
    using I(4) [of n] n by (simp_all add: links_def)
  show ?thesis unfolding heap_wf_def
  proof (intro allI impI)
    fix i assume i: "i < length ?h"
    show "node_wf ?h i"
    proof (cases "i = length h")
      case True
      then show ?thesis using new q old(2) [OF q] by (simp add: node_wf_def)
    next
      case False
      then have il: "i < length h" using i I(1) [of n] by simp
      have c: "i < c \<and> c < length ?h \<and> pn_parent (?h ! c) = Some i"
        if "c \<in> set (pn_children (?h ! i))" for c
        using that heap_wf_child [OF w il, of c] old il new(1) I(1) [of n] by (auto split: if_splits)
      have "distinct (pn_children (?h ! i))"
        using heap_wfD [OF w il] old(2) [OF il] heap_wf_child [OF w il, of "length h"]
        by (auto simp: node_wf_def)
      moreover have "case pn_parent (?h ! i) of None \<Rightarrow> i = 0
          | Some q' \<Rightarrow> q' < i \<and> i \<in> set (pn_children (?h ! q'))"
        using heap_wf_parent [OF w il] heap_wf_root [OF w il] old il by (auto split: option.splits)
      ultimately show ?thesis using c by (simp add: node_wf_def)
    qed
  qed
qed


section \<open>Paths\<close>

text \<open>
  The labels from the root to a node, and the string the code joins them to.  \<open>lpath\<close>
  stops where a parent link does not go down in the heap, which does not happen in a well-formed
  heap.
\<close>

function lpath :: "node_heap \<Rightarrow> ptr \<Rightarrow> string list" where
  "lpath h i =
     (case pn_parent (h ! i) of
        Some q \<Rightarrow> if q < i then lpath h q @ [pn_label (h ! i)] else [pn_label (h ! i)]
      | None \<Rightarrow> [pn_label (h ! i)])"
  by auto
termination by (relation "measure snd") auto

declare lpath.simps [simp del]

fun join_path :: "string list \<Rightarrow> string" where
  "join_path [] = []"
| "join_path [l] = l"
| "join_path (l # ls) = l @ ''_'' @ join_path ls"

lemma join_path_snoc: "ls \<noteq> [] \<Longrightarrow> join_path (ls @ [l]) = join_path ls @ ''_'' @ l"
  by (induction ls rule: join_path.induct) auto

lemma lpath_not_Nil [simp]: "lpath h i \<noteq> []"
  by (subst lpath.simps) (simp split: option.splits)

lemma Nil_not_lpath [simp]: "[] \<noteq> lpath h i"
  using lpath_not_Nil [of h i] by (rule not_sym)

lemma lpath_root: "pn_parent (h ! i) = None \<Longrightarrow> lpath h i = [pn_label (h ! i)]"
  by (subst lpath.simps) simp

lemma lpath_child:
  "pn_parent (h ! i) = Some q \<Longrightarrow> q < i \<Longrightarrow> lpath h i = lpath h q @ [pn_label (h ! i)]"
  by (subst lpath.simps) simp

lemma GetPhasePath_n_lpath:
  "heap_wf h \<Longrightarrow> i < length h \<Longrightarrow> i < k \<Longrightarrow> GetPhasePath_n k h i = Some (join_path (lpath h i))"
proof (induction k arbitrary: i)
  case (Suc k)
  show ?case
  proof (cases "pn_parent (h ! i)")
    case None
    then show ?thesis by (simp add: lpath_root)
  next
    case (Some q)
    note q = heap_wf_parent [OF Suc.prems(1,2) Some]
    then show ?thesis
      using Suc.IH [OF Suc.prems(1), of q] Suc.prems(3) Some
      by (simp add: lpath_child [OF Some] join_path_snoc)
  qed
qed simp

lemma GetPhasePath_lpath:
  "heap_wf h \<Longrightarrow> i < length h \<Longrightarrow> GetPhasePath i h = Some (join_path (lpath h i))"
  by (simp add: GetPhasePath_def GetPhasePath_n_lpath)

text \<open>Joining is injective on labels without the separator.\<close>

definition plain :: "string \<Rightarrow> bool" where
  "plain l \<longleftrightarrow> CHR ''_'' \<notin> set l"

lemma takeWhile_plain: "plain l \<Longrightarrow> takeWhile (\<lambda>c. c \<noteq> CHR ''_'') (l @ CHR ''_'' # r) = l"
  by (auto simp: plain_def takeWhile_append2 takeWhile_tail)

lemma plain_append_eq:
  assumes "plain a" "plain b" "a @ CHR ''_'' # r = b @ CHR ''_'' # s"
  shows "a = b \<and> r = s"
  using assms takeWhile_plain [of a r] takeWhile_plain [of b s] by auto

lemma join_path_inj:
  "list_all plain ls \<Longrightarrow> list_all plain ms \<Longrightarrow> ls \<noteq> [] \<Longrightarrow> ms \<noteq> [] \<Longrightarrow>
   join_path ls = join_path ms \<Longrightarrow> ls = ms"
proof (induction ls arbitrary: ms rule: join_path.induct)
  case (2 l)
  then show ?case by (cases ms rule: join_path.cases) (auto simp: plain_def)
next
  case (3 l l2 ls)
  have "CHR ''_'' \<in> set (join_path ms)" unfolding "3.prems"(5) [symmetric] by simp
  then obtain m m2 ms' where ms: "ms = m # m2 # ms'"
    using "3.prems" by (cases ms rule: join_path.cases) (auto simp: plain_def)
  have "l = m \<and> join_path (l2 # ls) = join_path (m2 # ms')"
    using "3.prems" ms by (intro plain_append_eq) auto
  then show ?case using "3.IH" [of "m2 # ms'"] "3.prems" ms by simp
qed simp

lemma lpath_cong:
  assumes "\<And>j. j \<le> i \<Longrightarrow> pn_parent (h' ! j) = pn_parent (h ! j) \<and> pn_label (h' ! j) = pn_label (h ! j)"
  shows "lpath h' i = lpath h i"
  using assms
proof (induction i rule: less_induct)
  case (less i)
  then have "lpath h' q = lpath h q" if "q < i" for q using that by simp
  then show ?case
    using less.prems [of i] by (subst (1 2) lpath.simps) (simp split: option.splits)
qed


text \<open>The key under which \<open>GetPhaseNode\<close> files a node in \<open>cd::phasePath\<close>.\<close>

definition child_key :: "node_heap \<Rightarrow> ptr \<Rightarrow> string \<Rightarrow> string" where
  "child_key h q label =
     (if pn_parent (h ! q) = None then label else join_path (lpath h q @ [label]))"

lemma GetPhasePath_label_key:
  "heap_wf h \<Longrightarrow> q < length h \<Longrightarrow> GetPhasePath_label label q h = Some (child_key h q label)"
  by (cases "pn_parent (h ! q)")
    (simp_all add: GetPhasePath_label_def child_key_def GetPhasePath_lpath join_path_snoc)

definition node_key :: "node_heap \<Rightarrow> ptr \<Rightarrow> string" where
  "node_key h i = child_key h (the (pn_parent (h ! i))) (pn_label (h ! i))"

definition all_plain :: "node_heap \<Rightarrow> bool" where
  "all_plain h \<longleftrightarrow> (\<forall>i < length h. plain (pn_label (h ! i)))"

lemma lpath_plain: "heap_wf h \<Longrightarrow> all_plain h \<Longrightarrow> i < length h \<Longrightarrow> list_all plain (lpath h i)"
proof (induction i rule: less_induct)
  case (less i)
  have p: "plain (pn_label (h ! i))" using less.prems by (simp add: all_plain_def)
  show ?case
  proof (cases "pn_parent (h ! i)")
    case None
    then show ?thesis using p by (simp add: lpath_root)
  next
    case (Some q)
    note q = heap_wf_parent [OF less.prems(1,3) Some]
    then show ?thesis using less p by (simp add: lpath_child [OF Some])
  qed
qed

lemma lpath_inj:
  assumes "heap_wf h"
    and sib: "\<And>i j q. i < length h \<Longrightarrow> j < length h \<Longrightarrow> pn_parent (h ! i) = Some q \<Longrightarrow>
           pn_parent (h ! j) = Some q \<Longrightarrow> pn_label (h ! i) = pn_label (h ! j) \<Longrightarrow> i = j"
  shows "i < length h \<Longrightarrow> j < length h \<Longrightarrow> lpath h i = lpath h j \<Longrightarrow> i = j"
proof (induction i arbitrary: j rule: less_induct)
  case (less i)
  show ?case
  proof (cases "pn_parent (h ! i)")
    case None
    then have "pn_parent (h ! j) = None"
      using less.prems heap_wf_parent [OF assms(1) less.prems(2)]
      by (cases "pn_parent (h ! j)") (auto simp: lpath_root lpath_child)
    then show ?thesis using None less.prems heap_wf_root [OF assms(1)] by metis
  next
    case (Some q)
    note q = heap_wf_parent [OF assms(1) less.prems(1) Some]
    obtain q' where Some': "pn_parent (h ! j) = Some q'"
      using less.prems q Some by (cases "pn_parent (h ! j)") (auto simp: lpath_root lpath_child)
    note q' = heap_wf_parent [OF assms(1) less.prems(2) Some']
    have "lpath h q = lpath h q'" and l: "pn_label (h ! i) = pn_label (h ! j)"
      using less.prems(3) lpath_child [OF Some] lpath_child [OF Some'] q q' by simp_all
    then have "q = q'" using less.IH q q' by simp
    then show ?thesis using sib [OF less.prems(1,2) Some _ l] Some' by simp
  qed
qed

lemma child_key_inj:
  assumes w: "heap_wf h" and pl: "all_plain h" and q: "q < length h" "q' < length h"
    and l: "plain l" "plain l'" and k: "child_key h q l = child_key h q' l'"
  shows "lpath h q = lpath h q' \<and> l = l'"
proof -
  have mem: "CHR ''_'' \<in> set (join_path (lpath h i @ [m]))" for i m
    by (simp add: join_path_snoc)
  show ?thesis
  proof (cases "pn_parent (h ! q) = None"; cases "pn_parent (h ! q') = None")
    assume n: "pn_parent (h ! q) = None" "pn_parent (h ! q') = None"
    then have "q = q'" using heap_wf_root [OF w q(1)] heap_wf_root [OF w q(2)] by simp
    then show ?thesis using n k by (simp add: child_key_def)
  next
    assume n: "pn_parent (h ! q) \<noteq> None" "pn_parent (h ! q') \<noteq> None"
    have "lpath h q @ [l] = lpath h q' @ [l']"
      using k n l lpath_plain [OF w pl q(1)] lpath_plain [OF w pl q(2)]
      by (intro join_path_inj) (simp_all add: child_key_def)
    then show ?thesis by simp
  qed (use k l mem in \<open>auto simp: child_key_def plain_def\<close>)
qed

section \<open>The invariant of the tree\<close>

definition tree_ok ::
  "nat \<Rightarrow> node_heap \<Rightarrow> (string, uint32) smap \<Rightarrow> (uint32, ptr option) smap \<Rightarrow> bool" where
  "tree_ok gen h path cache \<longleftrightarrow>
     heap_wf h \<and> all_plain h \<and> gen = length h \<and> length h < 2 ^ 32 \<and>
     (\<forall>i < length h. pn_phase (h ! i) = of_nat i) \<and>
     sm_sorted path \<and> sm_sorted cache \<and>
     (\<forall>i < length h. sm_find cache (of_nat i) = Some (Some i)) \<and>
     (\<forall>k ph. sm_find path k = Some ph \<longleftrightarrow>
        (\<exists>i. i < length h \<and> pn_parent (h ! i) \<noteq> None \<and> ph = of_nat i \<and> node_key h i = k))"

definition tree_wf :: "phase_world \<Rightarrow> bool" where
  "tree_wf w \<longleftrightarrow>
     tree_ok (unat (w_gen w)) (pt_heap (w_cd w)) (pt_path (w_cd w)) (pt_cache (w_cd w)) \<and>
     (\<forall>p. pt_current (w_cd w) = Some p \<longrightarrow> p < length (pt_heap (w_cd w)))"

lemma of_nat_32_inj: "i < 2 ^ 32 \<Longrightarrow> j < 2 ^ 32 \<Longrightarrow> (of_nat i :: uint32) = of_nat j \<Longrightarrow> i = j"
  by (drule arg_cong [where f = unat]) (simp add: unat_of_nat)


lemma tree_okD:
  assumes "tree_ok gen h path cache"
  shows "heap_wf h" "all_plain h" "gen = length h" "length h < 2 ^ 32"
    "i < length h \<Longrightarrow> pn_phase (h ! i) = of_nat i"
    "sm_sorted path" "sm_sorted cache"
    "i < length h \<Longrightarrow> sm_find cache (of_nat i) = Some (Some i)"
    "sm_find path k = Some ph \<longleftrightarrow>
       (\<exists>i. i < length h \<and> pn_parent (h ! i) \<noteq> None \<and> ph = of_nat i \<and> node_key h i = k)"
  using assms unfolding tree_ok_def by blast+

lemma node_key_Some: "pn_parent (h ! i) = Some q \<Longrightarrow> node_key h i = child_key h q (pn_label (h ! i))"
  by (simp add: node_key_def)

text \<open>No two children of a node have the same label.\<close>

lemma tree_ok_siblings:
  assumes t: "tree_ok gen h path cache" and i: "i < length h" "j < length h"
    and q: "pn_parent (h ! i) = Some q" "pn_parent (h ! j) = Some q"
    and l: "pn_label (h ! i) = pn_label (h ! j)"
  shows "i = j"
proof -
  have "node_key h i = node_key h j" using q l by (simp add: node_key_def)
  then have "sm_find path (node_key h i) = Some (of_nat i)" "sm_find path (node_key h i) = Some (of_nat j)"
    using tree_okD(9) [OF t] i q by auto
  then show ?thesis using of_nat_32_inj [of i j] i tree_okD(4) [OF t] by simp
qed

text \<open>A key of the path index is the key of a child of the node it was asked for.\<close>

lemma tree_ok_lookup:
  assumes t: "tree_ok gen h path cache" and q: "q < length h" and l: "plain label"
  shows "sm_find path (child_key h q label) = Some ph \<longleftrightarrow>
    (\<exists>i. i < length h \<and> pn_parent (h ! i) = Some q \<and> pn_label (h ! i) = label \<and> ph = of_nat i)"
proof -
  have w: "heap_wf h" and pl: "all_plain h" using tree_okD [OF t] by blast+
  have "pn_parent (h ! i) = Some q \<and> pn_label (h ! i) = label"
    if i: "i < length h" and p: "pn_parent (h ! i) = Some q'" and k: "node_key h i = child_key h q label"
    for i q'
  proof -
    note q' = heap_wf_parent [OF w i p]
    have "lpath h q' = lpath h q \<and> pn_label (h ! i) = label"
      using child_key_inj [OF w pl _ q _ l, of q' "pn_label (h ! i)"] q' i k pl
      by (simp add: node_key_Some [OF p] all_plain_def)
    moreover then have "q' = q"
      using tree_ok_siblings [OF t] q q' by (intro lpath_inj [OF w, of q' q]) blast+
    ultimately show ?thesis using p by simp
  qed
  then show ?thesis
    unfolding tree_okD(9) [OF t] by (auto simp: node_key_Some)
qed

lemma tree_ok_keeps:
  assumes t: "tree_ok gen h path cache"
    and l: "map links h' = map links h" and p: "map pn_phase h' = map pn_phase h"
  shows "tree_ok gen h' path cache"
proof -
  have len: "length h' = length h" using map_eq_imp_length_eq [OF l] .
  have L: "links (h' ! i) = links (h ! i)" "pn_phase (h' ! i) = pn_phase (h ! i)" if "i < length h" for i
    using that l p len by (metis nth_map)+
  have P: "pn_parent (h' ! i) = pn_parent (h ! i)" "pn_label (h' ! i) = pn_label (h ! i)"
    if "i < length h" for i
    using links_eqD [OF L(1) [OF that]] by simp_all
  have "lpath h' i = lpath h i" if "i < length h" for i
    using that P by (intro lpath_cong) simp
  then have "node_key h' i = node_key h i" if "i < length h" "pn_parent (h ! i) = Some q" for i q
    using that P heap_wf_parent [OF tree_okD(1) [OF t] that]
    by (simp add: node_key_def child_key_def)
  then have K: "pn_parent (h' ! i) \<noteq> None \<and> ph = of_nat i \<and> node_key h' i = k \<longleftrightarrow>
      pn_parent (h ! i) \<noteq> None \<and> ph = of_nat i \<and> node_key h i = k" if "i < length h" for i k and ph :: uint32
    using that P(1) [OF that] by auto
  have "sm_find path k = Some ph \<longleftrightarrow>
      (\<exists>i. i < length h' \<and> pn_parent (h' ! i) \<noteq> None \<and> ph = of_nat i \<and> node_key h' i = k)" for k ph
    unfolding tree_okD(9) [OF t] len using K by blast
  moreover have "all_plain h'" "\<forall>i < length h'. pn_phase (h' ! i) = of_nat i"
    using tree_okD(2,5) [OF t] L(2) P len by (simp_all add: all_plain_def)
  ultimately show ?thesis unfolding tree_ok_def len
    using tree_okD(3,4,6,7,8) [OF t] heap_wf_cong [OF l tree_okD(1) [OF t]] by blast
qed

text \<open>Adding a child whose key is not filed yet.\<close>

lemma tree_ok_new_child:
  assumes t: "tree_ok gen h path cache" and q: "q < length h" and l: "plain (pn_label n)"
    and n: "pn_children n = []" "pn_phase n = of_nat (length h)"
    and none: "sm_find path (child_key h q (pn_label n)) = None"
    and room: "Suc (length h) < 2 ^ 32"
  shows "tree_ok (Suc gen) (PhaseNode_Init (Some q) n h)
           (sm_put (child_key h q (pn_label n)) (of_nat (length h)) path)
           (sm_put (of_nat (length h)) (Some (length h)) cache)"
    (is "tree_ok _ ?h ?path ?cache")
proof -
  have w: "heap_wf h" using tree_okD(1) [OF t] .
  note I = PhaseNode_Init_child [OF w q, where n = n]
  have len: "length ?h = Suc (length h)" by (rule I(1))
  have P: "pn_parent (?h ! i) = pn_parent (h ! i)" "pn_label (?h ! i) = pn_label (h ! i)"
    if "i < length h" for i
    using I(2) [OF that] by (simp_all add: links_def)
  have N: "pn_parent (?h ! length h) = Some q" "pn_label (?h ! length h) = pn_label n"
    using I(4) by (simp_all add: links_def)
  have lp: "lpath ?h i = lpath h i" if "i < length h" for i
    using that P by (intro lpath_cong) simp
  have ck: "child_key ?h i l = child_key h i l" if "i < length h" for i l
    using that P lp by (simp add: child_key_def)
  have nk: "node_key ?h i = node_key h i" if "i < length h" "pn_parent (h ! i) \<noteq> None" for i
    using that P heap_wf_parent [OF w that(1)] ck by (auto simp: node_key_def)
  have nk': "node_key ?h (length h) = child_key h q (pn_label n)"
    using N ck [OF q] by (simp add: node_key_def)
  have "sm_find ?path k = Some ph \<longleftrightarrow>
      (\<exists>i. i < length ?h \<and> pn_parent (?h ! i) \<noteq> None \<and> ph = of_nat i \<and> node_key ?h i = k)" for k ph
  proof -
    have old: "sm_find path k = Some ph \<longleftrightarrow>
        (\<exists>i < length h. pn_parent (?h ! i) \<noteq> None \<and> ph = of_nat i \<and> node_key ?h i = k)"
      unfolding tree_okD(9) [OF t] by (intro ex_cong1) (auto simp: P nk)
    show ?thesis
      unfolding sm.find_put [OF tree_okD(6) [OF t]] len Ex_less_Suc N(1) nk' old [symmetric]
      using none by auto
  qed
  moreover have "sm_find ?cache (of_nat i) = Some (Some i)" if "i < length ?h" for i
    using that tree_okD(4) [OF t] tree_okD(8) [OF t, of i] of_nat_32_inj [of i "length h"]
    unfolding sm.find_put [OF tree_okD(7) [OF t]] len by (cases "i = length h") auto
  moreover have "all_plain ?h"
    using tree_okD(2) [OF t] P(2) N(2) l unfolding all_plain_def len All_less_Suc by simp
  moreover have "\<forall>i < length ?h. pn_phase (?h ! i) = of_nat i"
    using tree_okD(5) [OF t] I(3,5) n(2) unfolding len All_less_Suc by simp
  moreover have "sm_sorted ?path" "sm_sorted ?cache" "Suc gen = length ?h" "length ?h < 2 ^ 32"
    using sm.invar_put tree_okD(3,6,7) [OF t] len room by auto
  ultimately show ?thesis
    unfolding tree_ok_def using heap_wf_Init_child [OF w q n(1)] by blast
qed


section \<open>The phase tree keeps its invariant\<close>

definition reused_or_new :: "node_heap \<Rightarrow> ptr \<Rightarrow> string \<Rightarrow> nat \<Rightarrow> ptr \<Rightarrow> bool" where
  "reused_or_new h this label n p \<longleftrightarrow>
     (if \<exists>c \<in> set (pn_children (h ! this)). pn_label (h ! c) = label
      then n = length h \<and> p \<in> set (pn_children (h ! this))
      else n = Suc (length h) \<and> p = length h)"

definition found_child :: "phase_world \<Rightarrow> ptr \<Rightarrow> string \<Rightarrow> phase_world \<Rightarrow> uint32 \<Rightarrow> bool" where
  "found_child w this label w' phase \<longleftrightarrow>
     (\<exists>p. pt_current (w_cd w') = Some p \<and> p < length (pt_heap (w_cd w')) \<and> phase = of_nat p \<and>
          pn_parent (pt_heap (w_cd w') ! p) = Some this \<and> pn_label (pt_heap (w_cd w') ! p) = label \<and>
          reused_or_new (pt_heap (w_cd w)) this label (length (pt_heap (w_cd w'))) p)"

lemma map_phase_modify:
  "(\<And>n. pn_phase (f n) = pn_phase n) \<Longrightarrow> map pn_phase (modify_node p f h) = map pn_phase h"
  by (cases "p < length h") (simp_all add: modify_node_def map_update list_update_beyond list_update_same_conv)

lemma set_state_keeps [simp]: "links (set_state st n) = links n" "pn_phase (set_state st n) = pn_phase n"
  by (simp_all add: set_state_def links_def)

lemma child_iff:
  assumes "heap_wf h" "q < length h"
  shows "c \<in> set (pn_children (h ! q)) \<longleftrightarrow> c < length h \<and> pn_parent (h ! c) = Some q"
  using heap_wf_child [OF assms] heap_wf_parent [OF assms(1)] by blast

lemma get_or_new_phase_old:
  assumes t: "tree_wf w" and q: "this < length (pt_heap (w_cd w))" and l: "plain label"
    and f: "sm_find (pt_path (w_cd w)) (child_key (pt_heap (w_cd w)) this label) = Some ph"
    and r: "get_or_new_phase this level label (child_key (pt_heap (w_cd w)) this label) w = Inr (w', phase)"
  shows "tree_wf w' \<and> found_child w this label w' phase"
proof -
  let ?h = "pt_heap (w_cd w)"
  have ok: "tree_ok (unat (w_gen w)) ?h (pt_path (w_cd w)) (pt_cache (w_cd w))"
    using t by (simp add: tree_wf_def)
  obtain p where p: "p < length ?h" "pn_parent (?h ! p) = Some this" "pn_label (?h ! p) = label" "ph = of_nat p"
    using f unfolding tree_ok_lookup [OF ok q l] by blast
  define h' where "h' = (if pn_state (?h ! this) = kReexecution
                         then modify_node p (set_state kReexecution) ?h else ?h)"
  have f': "sm_find (pt_path (w_cd w)) (child_key ?h this label) = Some (of_nat p)" using f p(4) by simp
  have "get_or_new_phase this level label (child_key ?h this label) w =
      Inr (w\<lparr>w_cd := (w_cd w)\<lparr>pt_current := Some p, pt_heap := h'\<rparr>\<rparr>, of_nat p)"
    by (simp add: get_or_new_phase_def Let_def f' cache_at_def tree_okD(8) [OF ok p(1)] h'_def)
  then have w': "w' = w\<lparr>w_cd := (w_cd w)\<lparr>pt_current := Some p, pt_heap := h'\<rparr>\<rparr>" and ph: "phase = of_nat p"
    using r by simp_all
  have keep: "map links h' = map links ?h" "map pn_phase h' = map pn_phase ?h"
    by (simp_all add: h'_def map_links_modify map_phase_modify)
  have len: "length h' = length ?h" using map_eq_imp_length_eq [OF keep(1)] .
  have "links (h' ! p) = links (?h ! p)" using keep(1) p(1) len by (metis nth_map)
  then have "pn_parent (h' ! p) = Some this" "pn_label (h' ! p) = label"
    using p(2,3) by (auto dest: links_eqD)
  moreover have "p \<in> set (pn_children (?h ! this))"
    using child_iff [OF tree_okD(1) [OF ok] q] p by simp
  ultimately have "found_child w this label w' phase"
    using p(1,3) ph len unfolding found_child_def w' reused_or_new_def by auto
  moreover have "tree_wf w'"
    using tree_ok_keeps [OF ok keep] p(1) len by (simp add: tree_wf_def w')
  ultimately show ?thesis by blast
qed

lemma get_or_new_phase_new:
  assumes t: "tree_wf w" and c: "pt_current (w_cd w) = Some this" and l: "plain label"
    and room: "Suc (length (pt_heap (w_cd w))) < 2 ^ 32"
    and f: "sm_find (pt_path (w_cd w)) (child_key (pt_heap (w_cd w)) this label) = None"
    and r: "get_or_new_phase this level label (child_key (pt_heap (w_cd w)) this label) w = Inr (w', phase)"
  shows "tree_wf w' \<and> found_child w this label w' phase"
proof -
  let ?h = "pt_heap (w_cd w)" and ?k = "child_key (pt_heap (w_cd w)) this label"
  let ?n = "PhaseNode_fresh level label (pn_state (?h ! this)) (w_gen w)"
  define h' where "h' = PhaseNode_Init (Some this) ?n ?h"
  have ok: "tree_ok (unat (w_gen w)) ?h (pt_path (w_cd w)) (pt_cache (w_cd w))"
    and q: "this < length ?h" using t c by (simp_all add: tree_wf_def)
  note I = PhaseNode_Init_child [OF tree_okD(1) [OF ok] q, where n = ?n]
  have gen: "w_gen w = of_nat (length ?h)"
    unfolding tree_okD(3) [OF ok, symmetric] by simp
  have n: "pn_label ?n = label" "pn_children ?n = []" "pn_phase ?n = of_nat (length ?h)"
    by (simp_all add: PhaseNode_fresh_def gen)
  have ph: "pn_phase (h' ! length ?h) = of_nat (length ?h)" using I(5) n(3) by (simp add: h'_def)
  have w': "w' = w\<lparr>w_gen := w_gen w + 1, w_cd := (w_cd w)\<lparr>pt_current := Some (length ?h), pt_heap := h',
      pt_path := sm_put ?k (of_nat (length ?h)) (pt_path (w_cd w)),
      pt_cache := sm_put (of_nat (length ?h)) (Some (length ?h)) (pt_cache (w_cd w))\<rparr>\<rparr>"
    and phase: "phase = of_nat (length ?h)"
    using r f c ph
    by (auto simp: get_or_new_phase_def Let_def PhaseNode_ctor_def bind_out_Inr_iff h'_def)
  have nochild: "\<not> (\<exists>c \<in> set (pn_children (?h ! this)). pn_label (?h ! c) = label)"
    using f tree_ok_lookup [OF ok q l] child_iff [OF tree_okD(1) [OF ok] q] by (metis option.distinct(1))
  have new: "length h' = Suc (length ?h)" "pn_parent (h' ! length ?h) = Some this" "pn_label (h' ! length ?h) = label"
    using I(1,4) n(1) by (simp_all add: h'_def links_def)
  have "unat (w_gen w + 1) = Suc (unat (w_gen w))"
    using room tree_okD(3) [OF ok] by (simp add: unat_word_ariths)
  moreover note tree_ok_new_child [OF ok q, of ?n, unfolded n, OF l refl refl f room, folded h'_def]
  ultimately have "tree_wf w'" using new(1) by (simp add: tree_wf_def w')
  moreover have "found_child w this label w' phase"
    using new phase nochild unfolding found_child_def w' reused_or_new_def by simp
  ultimately show ?thesis by blast
qed

lemma apply_config_keeps:
  assumes t: "tree_wf w" and fc: "found_child w0 this label w phase"
    and r: "apply_config label med err w = Inr w'"
  shows "tree_wf w' \<and> found_child w0 this label w' phase"
proof -
  let ?h = "pt_heap (w_cd w)"
  obtain p e m where w': "w' = w\<lparr>w_cd := (w_cd w)\<lparr>pt_heap := modify_node p
      (\<lambda>n. n\<lparr>pn_errortype := e, pn_medium := m\<rparr>) ?h\<rparr>\<rparr>"
    using r by (auto simp: apply_config_def Let_def bind_out_Inr_iff split: prod.splits option.splits)
  define h' where "h' = modify_node p (\<lambda>n. n\<lparr>pn_errortype := e, pn_medium := m\<rparr>) ?h"
  have keep: "map links h' = map links ?h" "map pn_phase h' = map pn_phase ?h"
    unfolding h'_def by (intro map_links_modify map_phase_modify; simp add: links_def)+
  have len: "length h' = length ?h" using map_eq_imp_length_eq [OF keep(1)] .
  have L: "pn_parent (h' ! i) = pn_parent (?h ! i)" "pn_label (h' ! i) = pn_label (?h ! i)"
    if "i < length ?h" for i
    using that keep(1) len links_eqD by (metis nth_map)+
  have "tree_wf w'"
    using t tree_ok_keeps [OF _ keep] len unfolding tree_wf_def w' h'_def [symmetric] by simp
  moreover have "found_child w0 this label w' phase"
    using fc L len unfolding found_child_def w' h'_def [symmetric] by auto
  ultimately show ?thesis by blast
qed

lemma GetPhaseNode_keeps:
  assumes t: "tree_wf w" and c: "pt_current (w_cd w) = Some this" and l: "plain label"
    and room: "Suc (length (pt_heap (w_cd w))) < 2 ^ 32"
    and r: "GetPhaseNode tuning_off task this level label med err w = Inr (w', phase)"
  shows "tree_wf w' \<and> found_child w this label w' phase"
proof -
  let ?h = "pt_heap (w_cd w)"
  have ok: "tree_ok (unat (w_gen w)) ?h (pt_path (w_cd w)) (pt_cache (w_cd w))"
    and q: "this < length ?h" using t c by (simp_all add: tree_wf_def)
  note w = tree_okD(1) [OF ok]
  from r obtain w1 where g: "get_or_new_phase this level label (child_key ?h this label) w = Inr (w1, phase)"
    and rest: "if tuning_off then apply_config label med err w1 = Inr w' else w1 = w'"
    by (auto simp: GetPhaseNode_def GetPhasePath_label_key [OF w q] bind_out_Inr_iff split: if_splits)
  have "tree_wf w1 \<and> found_child w this label w1 phase"
    using get_or_new_phase_old [OF t q l _ g] get_or_new_phase_new [OF t c l room _ g]
    by (cases "sm_find (pt_path (w_cd w)) (child_key ?h this label)") blast+
  then show ?thesis
    using rest apply_config_keeps [of w1 w this label phase med err w'] by (cases tuning_off) simp_all
qed


section \<open>Resetting a subtree\<close>

function under :: "node_heap \<Rightarrow> ptr \<Rightarrow> ptr \<Rightarrow> bool" where
  "under h p i \<longleftrightarrow>
     i = p \<or> (case pn_parent (h ! i) of Some q \<Rightarrow> if q < i then under h p q else False | None \<Rightarrow> False)"
  by auto
termination by (relation "measure (\<lambda>(h, p, i). i)") auto

declare under.simps [simp del]

definition reset_where :: "(ptr \<Rightarrow> bool) \<Rightarrow> node_heap \<Rightarrow> node_heap" where
  "reset_where S h = map (\<lambda>i. if S i then set_state kExecution (h ! i) else h ! i) [0..<length h]"

lemma length_reset_where [simp]: "length (reset_where S h) = length h"
  by (simp add: reset_where_def)

lemma nth_reset_where:
  "i < length h \<Longrightarrow> reset_where S h ! i = (if S i then set_state kExecution (h ! i) else h ! i)"
  by (simp add: reset_where_def)

lemma reset_where_reset_where: "reset_where S (reset_where T h) = reset_where (\<lambda>i. T i \<or> S i) h"
  by (rule nth_equalityI) (auto simp: nth_reset_where set_state_def)

lemma links_reset_where: "map links (reset_where S h) = map links h"
  by (rule nth_equalityI) (simp_all add: nth_reset_where)

lemma reset_where_cong: "(\<And>i. i < length h \<Longrightarrow> S i = T i) \<Longrightarrow> reset_where S h = reset_where T h"
  by (rule nth_equalityI) (simp_all add: nth_reset_where)

lemma under_refl [simp]: "under h p p"
  by (subst under.simps) simp

lemma under_cong:
  "heap_wf h \<Longrightarrow> i < length h \<Longrightarrow> map links h' = map links h \<Longrightarrow> under h' p i = under h p i"
proof (induction i rule: less_induct)
  case (less i)
  have "links (h' ! i) = links (h ! i)"
    using less.prems(2,3) map_eq_imp_length_eq [OF less.prems(3)] by (metis nth_map)
  then have "pn_parent (h' ! i) = pn_parent (h ! i)" by (simp add: links_def)
  then show ?case
    using less heap_wf_parent [OF less.prems(1,2)]
    by (subst (1 2) under.simps) (auto split: option.splits)
qed

lemma under_child:
  "heap_wf h \<Longrightarrow> c < length h \<Longrightarrow> pn_parent (h ! c) = Some p \<Longrightarrow> i < length h \<Longrightarrow> under h c i \<Longrightarrow> under h p i"
proof (induction i rule: less_induct)
  case (less i)
  show ?case
  proof (cases "i = c")
    case True
    then show ?thesis
      using heap_wf_parent [OF less.prems(1,2,3)] less.prems(3) by (subst under.simps) simp
  next
    case False
    then obtain q where q: "pn_parent (h ! i) = Some q" "q < i" "under h c q"
      using less.prems(5) by (subst (asm) under.simps) (auto split: option.splits if_splits)
    then have "under h p q" using less by simp
    then show ?thesis using q by (subst under.simps) simp
  qed
qed

lemma under_cases:
  "heap_wf h \<Longrightarrow> i < length h \<Longrightarrow> under h p i \<Longrightarrow> i \<noteq> p \<Longrightarrow>
   \<exists>c. c < length h \<and> pn_parent (h ! c) = Some p \<and> under h c i"
proof (induction i rule: less_induct)
  case (less i)
  then obtain q where q: "pn_parent (h ! i) = Some q" "q < i" "under h p q"
    by (subst (asm) under.simps) (auto split: option.splits if_splits)
  show ?case
  proof (cases "q = p")
    case True
    then show ?thesis using q(1) less.prems(2) under_refl by blast
  next
    case False
    then obtain c where c: "c < length h" "pn_parent (h ! c) = Some p" "under h c q"
      using less.IH [OF q(2) less.prems(1) _ q(3)] q(2) less.prems(2) by auto
    have "under h c i" using c(3) q(1,2) by (subst under.simps) simp
    then show ?thesis using c by blast
  qed
qed

lemma under_children:
  assumes "heap_wf h" "p < length h" "i < length h"
  shows "under h p i \<longleftrightarrow> i = p \<or> (\<exists>c \<in> set (pn_children (h ! p)). under h c i)"
  using child_iff [OF assms(1,2)] under_child [OF assms(1) _ _ assms(3)] under_cases [OF assms(1,3)]
    under_refl by metis

lemma ResetToExec_fold:
  assumes wf: "heap_wf h"
    and IH: "\<And>c S. c \<in> set cs \<Longrightarrow>
      ResetToExec_n k c (reset_where S h) = Some (reset_where (\<lambda>i. S i \<or> under h c i) h)"
  shows "foldl (\<lambda>m c. case m of Some h' \<Rightarrow> ResetToExec_n k c h' | None \<Rightarrow> None) (Some (reset_where S h)) cs
    = Some (reset_where (\<lambda>i. S i \<or> (\<exists>c \<in> set cs. under h c i)) h)"
  using IH
proof (induction cs arbitrary: S)
  case (Cons c cs)
  have "ResetToExec_n k c (reset_where S h) = Some (reset_where (\<lambda>i. S i \<or> under h c i) h)"
    by (rule Cons.prems) simp
  then show ?case
    using Cons.IH [of "\<lambda>i. S i \<or> under h c i"] Cons.prems by (simp add: disj_assoc)
qed simp

lemma ResetToExec_n_spec:
  "heap_wf h \<Longrightarrow> p < length h \<Longrightarrow> length h - p \<le> k \<Longrightarrow>
   ResetToExec_n k p h = Some (reset_where (under h p) h)"
proof (induction k arbitrary: p h)
  case (Suc k)
  let ?h1 = "modify_node p (set_state kExecution) h"
  have h1: "?h1 = reset_where (\<lambda>i. i = p) h"
    by (rule nth_equalityI) (simp_all add: nth_modify_node nth_reset_where)
  have IH: "ResetToExec_n k c (reset_where S h) = Some (reset_where (\<lambda>i. S i \<or> under h c i) h)"
    if c: "c \<in> set (pn_children (h ! p))" for c S
  proof -
    note C = heap_wf_child [OF Suc.prems(1,2) c]
    have wf: "heap_wf (reset_where S h)"
      using heap_wf_cong [OF links_reset_where Suc.prems(1)] .
    have "ResetToExec_n k c (reset_where S h) = Some (reset_where (under (reset_where S h) c) (reset_where S h))"
    proof (rule Suc.IH [OF wf])
      show "c < length (reset_where S h)" using C by simp
      show "length (reset_where S h) - c \<le> k" using C Suc.prems(3) by simp linarith
    qed
    also have "reset_where (under (reset_where S h) c) (reset_where S h) = reset_where (\<lambda>i. S i \<or> under h c i) h"
      unfolding reset_where_reset_where
      using under_cong [OF Suc.prems(1) _ links_reset_where] by (intro reset_where_cong) simp
    finally show ?thesis .
  qed
  note F = ResetToExec_fold [OF Suc.prems(1), of "pn_children (h ! p)" k "\<lambda>i. i = p", OF IH]
  have "reset_where (\<lambda>i. i = p \<or> (\<exists>c \<in> set (pn_children (h ! p)). under h c i)) h =
        reset_where (under h p) h"
    using under_children [OF Suc.prems(1,2)] by (intro reset_where_cong) simp
  then show ?case using F by (simp add: h1)
qed simp


text \<open>The topmost ancestor that \<open>FinishRecovery\<close> climbs to.\<close>

function recovery_top :: "node_heap \<Rightarrow> ptr \<Rightarrow> ptr" where
  "recovery_top h i =
     (case pn_parent (h ! i) of
        Some q \<Rightarrow> if q < i \<and> pn_state (h ! q) = kReexecution then recovery_top h q else i
      | None \<Rightarrow> i)"
  by auto
termination by (relation "measure snd") auto

declare recovery_top.simps [simp del]

lemma recovery_top_less: "heap_wf h \<Longrightarrow> i < length h \<Longrightarrow> recovery_top h i < length h"
proof (induction i rule: less_induct)
  case (less i)
  then show ?case
    using heap_wf_parent [OF less.prems] by (subst recovery_top.simps) (auto split: option.splits)
qed

lemma under_recovery_top: "under h (recovery_top h i) i"
proof (induction i rule: less_induct)
  case (less i)
  show ?case
  proof (cases "recovery_top h i = i")
    case False
    then obtain q where q: "pn_parent (h ! i) = Some q" "q < i" "recovery_top h i = recovery_top h q"
      by (subst (asm) (1 2) recovery_top.simps) (auto split: option.splits if_splits simp: recovery_top.simps [of h i])
    then show ?thesis using less by (subst under.simps) simp
  qed simp
qed

lemma FinishRecovery_n_spec:
  "heap_wf h \<Longrightarrow> p < length h \<Longrightarrow> p < k \<Longrightarrow> pn_state (h ! p) = kReexecution \<Longrightarrow>
   FinishRecovery_n k p h = Inr (reset_where (under h (recovery_top h p)) h)"
proof (induction k arbitrary: p)
  case (Suc k)
  have R: "ResetToExec p h = Some (reset_where (under h p) h)"
    using Suc.prems by (simp add: ResetToExec_def ResetToExec_n_spec)
  show ?case
  proof (cases "pn_parent (h ! p)")
    case None
    then show ?thesis using R Suc.prems(4) by (simp add: recovery_top.simps [of h p])
  next
    case (Some q)
    note q = heap_wf_parent [OF Suc.prems(1,2) Some]
    then show ?thesis
      using Some R Suc.prems Suc.IH [OF Suc.prems(1), of q]
      by (simp add: recovery_top.simps [of h p])
  qed
qed simp

section \<open>Properties\<close>

lemma tree_wf_Init:
  assumes "w_cd w = phase_tree_empty" "w_gen w = 0" "plain label"
  shows "tree_wf (fst (PhaseTree_Init level label w))"
  using assms
  by (auto simp: tree_wf_def tree_ok_def PhaseTree_Init_def Let_def phase_tree_empty_def
      PhaseNode_ctor_def PhaseNode_Init_root PhaseNode_fresh_def heap_wf_def node_wf_def
      all_plain_def sm_put_def)


definition world0 :: phase_world where
  "world0 = \<lparr>w_gen = 0, w_max_phase = 0, w_cd = phase_tree_empty, w_tuned = phase_tree_empty,
             w_runtime_activated = False\<rparr>"

definition world1 :: phase_world where
  "world1 = fst (PhaseTree_Init 0 ''Root'' world0)"

lemma world1_wf: "tree_wf world1"
  unfolding world1_def by (rule tree_wf_Init) (simp_all add: world0_def plain_def)

lemmas tree_eval = world1_def world0_def PhaseTree_Init_def Let_def phase_tree_empty_def
  PhaseNode_ctor_def PhaseNode_Init_def PhaseNode_fresh_def AddChild_def modify_node_def
  GetPhaseNode_def get_or_new_phase_def GetPhasePath_label_def GetPhasePath_def cache_at_def sm_put_def
  set_state_def


text \<open>
  C32.  When recovery is complete, \<open>FinishRecovery\<close> terminates and puts exactly the subtree of
  the topmost re-executing ancestor back to \<open>kExecution\<close>: a node changes only if it lies in
  that subtree, and the node it was called on does.
\<close>

theorem FinishRecovery_resets_subtree:
  assumes "heap_wf h" and "p < length h" and "pn_state (h ! p) = kReexecution"
  shows "\<exists>h'. FinishRecovery p h = Inr h' \<and> length h' = length h \<and>
           pn_state (h' ! p) = kExecution \<and>
           (\<forall>i < length h. h' ! i = (if under h (recovery_top h p) i
                                     then set_state kExecution (h ! i) else h ! i))"
  using FinishRecovery_n_spec [OF assms(1,2) assms(2,3)] under_recovery_top [of h p] assms(2)
  by (auto simp: FinishRecovery_def nth_reset_where set_state_def)


theorem FinishRecovery_resets_subtree_witness:
  "\<exists>h'. FinishRecovery 0 (modify_node 0 (set_state kReexecution) (pt_heap (w_cd world1))) = Inr h' \<and>
        pn_state (h' ! 0) = kExecution"
proof -
  let ?h = "modify_node 0 (set_state kReexecution) (pt_heap (w_cd world1))"
  have "heap_wf ?h" by (simp add: tree_eval heap_wf_def node_wf_def)
  moreover have "0 < length ?h" "pn_state (?h ! 0) = kReexecution" by (simp_all add: tree_eval)
  ultimately show ?thesis using FinishRecovery_resets_subtree [of ?h 0] by blast
qed

lemma find_label_returns:
  "\<forall>p \<in> snd ` set cache. p \<noteq> None \<Longrightarrow> \<exists>r. find_label label h cache = Inr r"
  by (induction label h cache rule: find_label.induct) auto

lemma get_or_new_phase_returns:
  assumes t: "tree_wf w" and c: "pt_current (w_cd w) = Some this" and l: "plain label"
    and ex: "pn_state (pt_heap (w_cd w) ! this) = kExecution \<or>
      (\<exists>c \<in> set (pn_children (pt_heap (w_cd w) ! this)). pn_label (pt_heap (w_cd w) ! c) = label)"
  shows "\<exists>w' phase p. get_or_new_phase this level label (child_key (pt_heap (w_cd w)) this label) w = Inr (w', phase) \<and>
           pt_current (w_cd w') = Some p \<and> w_tuned w' = w_tuned w"
proof -
  let ?h = "pt_heap (w_cd w)"
  have ok: "tree_ok (unat (w_gen w)) ?h (pt_path (w_cd w)) (pt_cache (w_cd w))"
    and q: "this < length ?h" using t c by (simp_all add: tree_wf_def)
  show ?thesis
  proof (cases "sm_find (pt_path (w_cd w)) (child_key ?h this label)")
    case None
    then have "pn_state (?h ! this) = kExecution"
      using ex tree_ok_lookup [OF ok q l] child_iff [OF tree_okD(1) [OF ok] q]
      by (metis option.distinct(1))
    then show ?thesis
      using None c by (simp add: get_or_new_phase_def Let_def PhaseNode_ctor_def split: prod.splits)
  next
    case (Some ph)
    obtain p where p: "p < length ?h" "ph = of_nat p"
      using Some unfolding tree_ok_lookup [OF ok q l] by blast
    then show ?thesis
      using Some tree_okD(8) [OF ok p(1)]
      by (simp add: get_or_new_phase_def Let_def cache_at_def)
  qed
qed



definition collide_A :: "(phase_world \<times> uint32) outcome" where
  "collide_A = GetPhaseNode False 1 0 1 ''A'' kUndefined 0 world1"

definition collide_B :: "(phase_world \<times> uint32) outcome" where
  "collide_B = bind_out collide_A (\<lambda>(w, _). GetPhaseNode False 1 1 2 ''B'' kUndefined 0 w)"

text \<open>
  With the separator in a label the path index confuses phases: under a root \<open>Root\<close> with a
  child \<open>A\<close> that has a child \<open>B\<close>, asking the root for a phase labelled
  \<open>Root_A_B\<close> gives the phase number of \<open>B\<close>.
\<close>

theorem GetPhaseNode_path_collision:
  "\<exists>w ph w' . collide_B = Inr (w, ph) \<and>
     GetPhaseNode False 1 0 1 ''Root_A_B'' kUndefined 0 (w\<lparr>w_cd := (w_cd w)\<lparr>pt_current := Some 0\<rparr>\<rparr>) = Inr (w', ph) \<and>
     pn_label (pt_heap (w_cd w') ! unat ph) = ''B''"
  by (simp add: collide_B_def collide_A_def tree_eval)

text \<open>
  Sequence numbers of a phase: over completions that are error-free executions or not,
  \<open>IncSeqID\<close> counts all of them in \<open>seq_acc_rb_\<close>, the error-free ones in
  \<open>seq_acc_\<close> and \<open>seq_end_\<close>, and keeps \<open>seq_max_\<close> at least \<open>seq_end_\<close>;
  rolling back above the level of the phase brings \<open>seq_end_\<close> back to \<open>seq_begin_\<close>
  and leaves the accumulated counts.
\<close>

theorem IncSeqID_counts:
  fixes n :: PhaseNode and flags :: "bool list"
  defines "m \<equiv> fold IncSeqID_node flags n"
  shows "pn_seq_acc_rb m = pn_seq_acc_rb n + of_nat (length flags) \<and>
         pn_seq_acc m = pn_seq_acc n + of_nat (length (filter id flags)) \<and>
         pn_seq_end m = pn_seq_end n + of_nat (length (filter id flags)) \<and>
         (flags \<noteq> [] \<longrightarrow> pn_seq_end m \<le> pn_seq_max m) \<and>
         (lv < pn_level n \<longrightarrow> pn_seq_end (ResetSeqID_node lv m) = pn_seq_begin n \<and>
            pn_seq_acc (ResetSeqID_node lv m) = pn_seq_acc m)"
proof -
  have "pn_seq_acc_rb (fold IncSeqID_node fs n) = pn_seq_acc_rb n + of_nat (length fs) \<and>
    pn_seq_acc (fold IncSeqID_node fs n) = pn_seq_acc n + of_nat (length (filter id fs)) \<and>
    pn_seq_end (fold IncSeqID_node fs n) = pn_seq_end n + of_nat (length (filter id fs)) \<and>
    (fs \<noteq> [] \<longrightarrow> pn_seq_end (fold IncSeqID_node fs n) \<le> pn_seq_max (fold IncSeqID_node fs n)) \<and>
    pn_level (fold IncSeqID_node fs n) = pn_level n \<and>
    pn_seq_begin (fold IncSeqID_node fs n) = pn_seq_begin n" for fs
    by (induction fs rule: rev_induct) (auto simp: IncSeqID_node_def Let_def)
  from this [of flags] show ?thesis unfolding m_def ResetSeqID_node_def by auto
qed

theorem IncSeqID_counts_witness:
  "pn_seq_end (fold IncSeqID_node [True, False, True] (PhaseNode_fresh 2 ''A'' kExecution 4)) = 2 \<and>
   pn_seq_end (ResetSeqID_node 1 (fold IncSeqID_node [True, False, True] (PhaseNode_fresh 2 ''A'' kExecution 4))) = 0"
  using IncSeqID_counts [of "[True, False, True]" "PhaseNode_fresh 2 ''A'' kExecution 4" 1]
  by (simp add: PhaseNode_fresh_def)

end
