(* ===== verification/CD_Path.thy ===== *)
theory CD_Path
  imports CD_Flags
begin

text \<open>
  The path of containment domains from the root to the leaf (\<open>class CDPath\<close> of
  \<open>cd_path.h\<close>), a \<open>std::vector\<close> of handles.  Handles are indices of an object
  store, and the accessors take what they read of the objects as functions: the execution mode,
  the level and the number of tasks of a handle.  \<open>None\<close> as a path is the singleton that has
  not been created (\<open>uniquePath_ == NULL\<close>); a result \<open>Inr None\<close> is the null handle.
\<close>

type_synonym handle = nat
type_synonym cd_path = "handle list option"

definition GetCDPath :: "cd_path \<Rightarrow> handle list" where
  "GetCDPath path = (case path of None \<Rightarrow> [] | Some p \<Rightarrow> p)"

definition GetLeafCD :: "cd_path \<Rightarrow> handle option" where
  "GetLeafCD path = (case path of None \<Rightarrow> None | Some p \<Rightarrow> if p \<noteq> [] then Some (last p) else None)"

definition GetRootCD :: "cd_path \<Rightarrow> handle option" where
  "GetRootCD path = (case path of None \<Rightarrow> None | Some p \<Rightarrow> if p \<noteq> [] then Some (hd p) else None)"

definition GetParentCD :: "cd_path \<Rightarrow> handle option" where
  "GetParentCD path =
     (case path of None \<Rightarrow> None | Some p \<Rightarrow> if length p > 1 then Some (p ! (length p - 2)) else None)"

text \<open>\<open>std::vector::at\<close> throws out of range.\<close>

definition GetParentCD_level :: "int \<Rightarrow> cd_path \<Rightarrow> handle option outcome" where
  "GetParentCD_level current_level path =
     (case path of
        None \<Rightarrow> Inr None
      | Some p \<Rightarrow>
          if length p > 1 then
            if current_level \<ge> 1 then
              if nat (current_level - 1) < length p then Inr (Some (p ! nat (current_level - 1)))
              else Inl (OutOfRange ''CDPath'')
            else Inr None
          else Inr None)"

definition GetCurrentCD :: "(handle \<Rightarrow> CDExecMode) \<Rightarrow> (handle \<Rightarrow> uint32) \<Rightarrow> cd_path \<Rightarrow> handle option outcome" where
  "GetCurrentCD mode level path =
     (case path of
        None \<Rightarrow> Inr None
      | Some p \<Rightarrow>
          if p \<noteq> [] then
            if mode (last p) \<noteq> kSuspension then Inr (Some (last p))
            else GetParentCD_level (uint (level (last p))) path
          else Inr None)"

definition GetCDLevel :: "uint32 \<Rightarrow> cd_path \<Rightarrow> handle option outcome" where
  "GetCDLevel level path =
     (case path of
        None \<Rightarrow> Inl (NullDeref ''uniquePath_'')
      | Some p \<Rightarrow>
          if length p > 0 then
            if unat level < length p then Inr (Some (p ! unat level))
            else Inl (ErrorMessage ''num_levels <= level'')
          else Inr None)"

text \<open>
  \<open>GetCoarseCD\<close> climbs while the domain has a single task; the bound is the length of the
  path, and \<open>Inl\<close> with \<open>NullDeref\<close> also stands for climbing past the end.
\<close>

fun GetCoarseCD_n ::
  "nat \<Rightarrow> (handle \<Rightarrow> nat) \<Rightarrow> (handle \<Rightarrow> uint32) \<Rightarrow> cd_path \<Rightarrow> handle \<Rightarrow> handle outcome" where
  "GetCoarseCD_n 0 task_size level path cdh = Inl (NullDeref ''GetCoarseCD'')"
| "GetCoarseCD_n (Suc k) task_size level path cdh =
     (if task_size cdh = 1 then
        if Some cdh = GetRootCD path then Inr cdh
        else bind_out (GetParentCD_level (uint (level cdh)) path) (\<lambda>p.
             bind_out (deref ''curr_cdh'' p) (GetCoarseCD_n k task_size level path))
      else Inr cdh)"

definition GetCoarseCD ::
  "(handle \<Rightarrow> nat) \<Rightarrow> (handle \<Rightarrow> uint32) \<Rightarrow> cd_path \<Rightarrow> handle \<Rightarrow> handle outcome" where
  "GetCoarseCD task_size level path cdh =
     GetCoarseCD_n (length (GetCDPath path)) task_size level path cdh"

section \<open>Well-formed paths\<close>

definition path_ok :: "(handle \<Rightarrow> uint32) \<Rightarrow> handle list \<Rightarrow> bool" where
  "path_ok level p \<longleftrightarrow> length p < 2 ^ 32 \<and> (\<forall>i < length p. level (p ! i) = of_nat i)"

lemma path_ok_unat: "path_ok level p \<Longrightarrow> i < length p \<Longrightarrow> unat (level (p ! i)) = i"
  by (simp add: path_ok_def unat_of_nat)

lemma GetCDLevel_ok:
  "path_ok level p \<Longrightarrow> i < length p \<Longrightarrow> GetCDLevel (level (p ! i)) (Some p) = Inr (Some (p ! i))"
  by (simp add: GetCDLevel_def path_ok_unat) (auto)

lemma GetParentCD_level_ok:
  assumes "path_ok level p" "0 < i" "i < length p"
  shows "GetParentCD_level (uint (level (p ! i))) (Some p) = Inr (Some (p ! (i - 1)))"
proof -
  have u: "uint (level (p ! i)) = int i"
    using path_ok_unat [OF assms(1,3)] by (metis uint_nat)
  then show ?thesis using assms by (simp add: GetParentCD_level_def u nat_diff_distrib)
qed

lemma GetCoarseCD_n_spec:
  "path_ok level p \<Longrightarrow> i < length p \<Longrightarrow> i < k \<Longrightarrow>
   GetCoarseCD_n k ts level (Some p) (p ! i) =
     Inr (case find (\<lambda>j. ts (p ! j) \<noteq> 1) (rev [0..<Suc i]) of Some j \<Rightarrow> p ! j | None \<Rightarrow> hd p)"
proof (induction k arbitrary: i)
  case (Suc k)
  show ?case
  proof (cases i)
    case 0
    then show ?thesis using Suc.prems by (simp add: GetRootCD_def hd_conv_nth)
  next
    case (Suc i')
    have ne: "p \<noteq> []" using Suc.prems(2) by auto
    have "unat (level (p ! i)) = i" "unat (level (p ! 0)) = 0"
      using path_ok_unat [OF Suc.prems(1,2)] path_ok_unat [OF Suc.prems(1), of 0] ne by simp_all
    then have "p ! i \<noteq> hd p" using Suc by (auto simp: hd_conv_nth [OF ne])
    then show ?thesis
      using Suc Suc.prems Suc.IH [of i'] GetParentCD_level_ok [of level p i]
      by (auto simp: GetRootCD_def)
  qed
qed simp


section \<open>Properties\<close>

text \<open>
  On a path whose handles sit at their level, \<open>GetCoarseCD\<close> terminates and returns the
  nearest domain at or above the given one that has more than one task, and the root when there
  is none.
\<close>

theorem GetCoarseCD_nearest:
  assumes "path_ok level p" and "i < length p"
  shows "\<exists>j \<le> i. GetCoarseCD ts level (Some p) (p ! i) = Inr (p ! j) \<and>
           (ts (p ! j) \<noteq> 1 \<or> j = 0) \<and> (\<forall>m. j < m \<and> m \<le> i \<longrightarrow> ts (p ! m) = 1)"
proof -
  let ?f = "find (\<lambda>j. ts (p ! j) \<noteq> 1) (rev [0..<Suc i])"
  have run: "GetCoarseCD ts level (Some p) (p ! i) = Inr (case ?f of Some j \<Rightarrow> p ! j | None \<Rightarrow> hd p)"
    using GetCoarseCD_n_spec [OF assms(1,2,2)] by (simp add: GetCoarseCD_def GetCDPath_def)
  show ?thesis
  proof (cases ?f)
    case None
    then have all: "\<forall>m \<le> i. ts (p ! m) = 1" by (simp add: find_None_iff less_Suc_eq_le del: upt_Suc)
    have "p \<noteq> []" using assms(2) by auto
    then have "hd p = p ! 0" by (rule hd_conv_nth)
    then show ?thesis using run None all by (intro exI [of _ 0]) simp
  next
    case (Some j)
    then obtain n where n: "n < Suc i" "j = rev [0..<Suc i] ! n" "ts (p ! j) \<noteq> 1"
      "\<forall>m < n. ts (p ! (rev [0..<Suc i] ! m)) = 1"
      by (auto simp: find_Some_iff simp del: upt_Suc)
    have j: "j = i - n" using n(1,2) by (simp add: rev_nth del: upt_Suc)
    have "ts (p ! m) = 1" if "j < m" "m \<le> i" for m
      using n(4) [rule_format, of "i - m"] that n(1) j by (simp add: rev_nth del: upt_Suc)
    then show ?thesis using run Some n(1,3) j by (intro exI [of _ j]) simp
  qed
qed

theorem GetCoarseCD_nearest_witness:
  "GetCoarseCD (\<lambda>h. if h = 7 then 4 else 1) (\<lambda>h. of_nat (h - 7)) (Some [7, 8, 9]) 9 = Inr 7"
proof -
  have "path_ok (\<lambda>h. of_nat (h - 7)) [7, 8, 9]"
    by (auto simp: path_ok_def less_Suc_eq numeral_3_eq_3)
  from GetCoarseCD_nearest [OF this, of 2 "\<lambda>h. if h = 7 then 4 else 1"]
  obtain j where j: "j \<le> 2"
    and r: "GetCoarseCD (\<lambda>h. if h = 7 then 4 else 1) (\<lambda>h. of_nat (h - 7)) (Some [7, 8, 9]) ([7, 8, 9] ! 2) = Inr ([7, 8, 9] ! j)"
    and t: "(if ([7, 8, 9] ! j) = (7::nat) then (4::nat) else 1) \<noteq> 1 \<or> j = 0" by auto
  from j consider "j = 0" | "j = 1" | "j = 2" by linarith
  then show ?thesis using r t by cases simp_all
qed

text \<open>
  The current domain of a well-formed path is its leaf, unless the leaf is suspended (it was
  completed and not destroyed yet); then it is the parent of the leaf, and no domain at all when
  the suspended leaf is the root.
\<close>

theorem GetCurrentCD_leaf_or_parent:
  assumes "path_ok level p" and "p \<noteq> []"
  shows "GetCurrentCD mode level (Some p) =
    Inr (if mode (last p) \<noteq> kSuspension then Some (last p) else GetParentCD (Some p))"
proof (cases "length p > 1")
  case True
  then show ?thesis
    using GetParentCD_level_ok [OF assms(1), of "length p - 1"]
    by (simp add: GetCurrentCD_def assms(2) last_conv_nth GetParentCD_def)
      (metis One_nat_def diff_diff_left numeral_2_eq_2 plus_1_eq_Suc)
next
  case False
  then show ?thesis by (simp add: GetCurrentCD_def assms(2) GetParentCD_def GetParentCD_level_def)
qed

theorem GetCurrentCD_leaf_or_parent_witness:
  "GetCurrentCD (\<lambda>h. if h = 9 then kSuspension else kExecution) (\<lambda>h. of_nat (h - 7)) (Some [7, 8, 9]) = Inr (Some 8)"
proof -
  have "path_ok (\<lambda>h. of_nat (h - 7)) [7, 8, 9]"
    by (auto simp: path_ok_def less_Suc_eq numeral_3_eq_3)
  from GetCurrentCD_leaf_or_parent [OF this, of "\<lambda>h. if h = 9 then kSuspension else kExecution"]
  show ?thesis by (simp add: GetParentCD_def)
qed

end
