(* ===== verification/CD_Core.thy ===== *)
theory CD_Core
  imports Phase_Tree CD_Path
begin

text \<open>
  The execution of containment domains in one task: \<open>CD::Begin\<close>, \<open>CD::Complete\<close>,
  \<open>GetCDToRecover\<close>, \<open>Recover\<close> and what they call in \<open>cd_internal.cc\<close>, and the
  calls of the interface in \<open>cd_handle.cc\<close> that wrap them.  The model is the MPI build run
  with one task (\<open>totalTaskSize == 1\<close>): \<open>SyncCDs\<close> has nobody to wait for, and
  \<open>CheckRollbackPoint\<close> and \<open>SetRollbackPoint\<close> work on the local
  \<open>*rollback_point_\<close>.  A domain object is an entry of an object store, and
  \<open>longjmp\<close> is the result \<open>Jump h\<close>: control re-enters at the \<open>Begin\<close> of the
  domain \<open>h\<close>.  Preserved data, communication logs and files are not part of this state, and
  the clock is read once per call of the interface.
\<close>

section \<open>State\<close>

record CDObj =
  o_level :: uint32
  o_name :: string
  o_label :: string
  o_phase :: uint32
  o_sequential_id :: uint32
  o_exec_mode :: CDExecMode
  o_begin :: bool
  o_medium :: uint32
  o_cd_type :: uint32
  o_sys_bit_vector :: uint64
  o_reported_error :: bool
  o_reexecuted :: bool
  o_recreated :: bool
  o_num_reexecution :: int
  o_preserve_count :: nat
  o_restore_count :: nat

record runtime =
  r_objs :: "CDObj list"
  r_path :: "handle list"
  r_store :: "(string, handle) smap"
  r_world :: phase_world
  r_glob :: cd_globals
  r_failed_phase :: int
  r_failed_seqID :: int
  r_prev_phase :: int
  r_last_completed_phase :: int
  r_rollback_point :: uint32
  r_need_escalation :: bool
  r_just_reexecuted :: bool
  r_global_reex_clk :: real
  r_tuning_enabled :: bool
  r_new_phase :: uint32
  r_tuning_off :: bool
  r_myTaskID :: int

datatype control = Return CDErrT | Jump handle

definition INVALID_ROLLBACK_POINT :: uint32 where
  "INVALID_ROLLBACK_POINT = 0xFFFFFFFF"

definition HEALTHY :: int where
  "HEALTHY = - 1"

abbreviation r_tree :: "runtime \<Rightarrow> phase_tree" where
  "r_tree r \<equiv> w_cd (r_world r)"

abbreviation r_heap :: "runtime \<Rightarrow> node_heap" where
  "r_heap r \<equiv> pt_heap (r_tree r)"

abbreviation r_current :: "runtime \<Rightarrow> ptr option" where
  "r_current r \<equiv> pt_current (r_tree r)"

definition set_heap :: "node_heap \<Rightarrow> runtime \<Rightarrow> runtime" where
  "set_heap h r = r\<lparr>r_world := (r_world r)\<lparr>w_cd := (r_tree r)\<lparr>pt_heap := h\<rparr>\<rparr>\<rparr>"

definition set_current :: "ptr option \<Rightarrow> runtime \<Rightarrow> runtime" where
  "set_current p r = r\<lparr>r_world := (r_world r)\<lparr>w_cd := (r_tree r)\<lparr>pt_current := p\<rparr>\<rparr>\<rparr>"

definition modify_obj :: "handle \<Rightarrow> (CDObj \<Rightarrow> CDObj) \<Rightarrow> runtime \<Rightarrow> runtime" where
  "modify_obj c f r = r\<lparr>r_objs := (r_objs r)[c := f (r_objs r ! c)]\<rparr>"

definition IsFailed :: "runtime \<Rightarrow> bool" where
  "IsFailed r \<longleftrightarrow> r_failed_phase r \<noteq> HEALTHY"

definition IsGood :: "runtime \<Rightarrow> bool" where
  "IsGood r \<longleftrightarrow> r_failed_phase r = HEALTHY"

text \<open>A recording call on the profile of a phase node.\<close>

definition with_profile :: "ptr \<Rightarrow> (prof_state \<Rightarrow> prof_state outcome) \<Rightarrow> runtime \<Rightarrow> runtime outcome" where
  "with_profile p f r =
     bind_out (f (r_glob r, pn_profile (r_heap r ! p))) (\<lambda>(g, prof).
       Inr (set_heap (modify_node p (\<lambda>n. n\<lparr>pn_profile := prof\<rparr>) (r_heap r)) (r\<lparr>r_glob := g\<rparr>)))"

section \<open>Rollback point\<close>

definition SetRollbackPoint :: "uint32 \<Rightarrow> runtime \<Rightarrow> runtime \<times> uint32" where
  "SetRollbackPoint rollback_lv r =
     (if rollback_lv \<noteq> INVALID_ROLLBACK_POINT then
        (if rollback_lv < r_rollback_point r then r\<lparr>r_rollback_point := rollback_lv\<rparr> else r, rollback_lv)
      else (r\<lparr>r_rollback_point := INVALID_ROLLBACK_POINT\<rparr>, rollback_lv))"

definition CheckRollbackPoint :: "runtime \<Rightarrow> uint32" where
  "CheckRollbackPoint r = r_rollback_point r"

text \<open>With a single task in the domain \<open>SyncCDs\<close> passes no fence and returns its initial value.\<close>

definition SyncCDs :: "runtime \<Rightarrow> uint32" where
  "SyncCDs r = INVALID_ROLLBACK_POINT"

text \<open>\<open>CD::Assert\<close> in a domain with a single task.\<close>

definition CD_Assert :: "bool \<Rightarrow> handle \<Rightarrow> runtime \<Rightarrow> runtime outcome" where
  "CD_Assert test c r =
     (if \<not> test then
        bind_out (GetCurrentCD (\<lambda>h. o_exec_mode (r_objs r ! h)) (\<lambda>h. o_level (r_objs r ! h)) (Some (r_path r))) (\<lambda>cdh.
        bind_out (deref ''cdh'' cdh) (\<lambda>l.
          if o_level (r_objs r ! l) \<ge> o_level (r_objs r ! c)
          then Inr (fst (SetRollbackPoint (o_level (r_objs r ! c)) r))
          else Inl (ErrorMessage ''(leaf) < (failed level)'')))
      else Inr r)"

section \<open>Phases\<close>

definition BeginPhase :: "uint32 \<Rightarrow> string \<Rightarrow> PrvMediumT \<Rightarrow> uint64 \<Rightarrow> runtime \<Rightarrow> (runtime \<times> uint32) outcome" where
  "BeginPhase level label medium sys_vec r =
     (if \<not> r_tuning_enabled r then
        case r_current r of
          Some cur \<Rightarrow>
            bind_out (GetPhaseNode (r_tuning_off r) (r_myTaskID r) cur level label medium sys_vec (r_world r))
              (\<lambda>(w, phase). Inr (r\<lparr>r_world := w\<rparr>, phase))
        | None \<Rightarrow>
            (case pt_root (r_tree r) of
               None \<Rightarrow>
                 let (w, phase) = PhaseTree_Init level label (r_world r);
                     t = w_cd w;
                     root = the (pt_root t);
                     h = modify_node root (\<lambda>n. n\<lparr>pn_medium := kPFS, pn_errortype := - 1\<rparr>) (pt_heap t)
                 in Inr (r\<lparr>r_world := w\<lparr>w_cd := t\<lparr>pt_heap := h\<rparr>\<rparr>\<rparr>, phase)
             | Some _ \<Rightarrow>
                 bind_out (PhaseTree_ReInit (r_world r)) (\<lambda>(w, phase). Inr (r\<lparr>r_world := w\<rparr>, phase)))
      else Inr (r, - 1))"

definition CompletePhase :: "bool \<Rightarrow> runtime \<Rightarrow> runtime outcome" where
  "CompletePhase is_reexec r =
     (case r_current r of
        None \<Rightarrow> Inl (AssertFailed ''phaseTree.current_'')
      | Some cur \<Rightarrow>
          let r = set_heap (IncSeqID (IsGood r \<and> \<not> is_reexec) cur (r_heap r)) r in
          if \<not> r_tuning_enabled r then
            bind_out
              (if IsFailed r then
                 bind_out (assert_out ''failed_phase >= 0'' (r_failed_phase r \<ge> 0)) (\<lambda>_.
                   Inr (set_heap (modify_node cur (set_state kReexecution) (r_heap r)) r))
               else Inr r)
              (\<lambda>r. Inr (set_current (pn_parent (r_heap r ! cur))
                         (r\<lparr>r_last_completed_phase := uint (pn_phase (r_heap r ! cur))\<rparr>)))
          else Inr r)"

definition SetFailure :: "real \<Rightarrow> uint32 \<Rightarrow> runtime \<Rightarrow> runtime outcome" where
  "SetFailure now phase r =
     (if IsGood r then
        bind_out (deref ''phaseTree.current_'' (r_current r)) (\<lambda>cur.
          Inr (r\<lparr>r_failed_phase := uint phase,
                 r_failed_seqID := sint (pn_seq_end (r_heap r ! cur)),
                 r_global_reex_clk := now\<rparr>))
      else Inr r)"

definition SetHealthy :: "real \<Rightarrow> runtime \<Rightarrow> runtime outcome" where
  "SetHealthy now r =
     (let r = r\<lparr>r_failed_phase := HEALTHY, r_failed_seqID := HEALTHY\<rparr> in
      bind_out (deref ''phaseTree.current_'' (r_current r)) (\<lambda>cur.
      bind_out (FinishRecovery cur (r_heap r)) (\<lambda>h.
        Inr (set_heap h r\<lparr>r_glob := add_time t_reex (now - r_global_reex_clk r) (r_glob r),
                          r_global_reex_clk := now\<rparr>))))"

section \<open>Destroying, recovering\<close>

text \<open>
  \<open>CDHandle::Destroy\<close>: the object stays in the store for reuse, the path loses its last
  handle, and the time is charged to the current phase.
\<close>

definition Destroy :: "real \<Rightarrow> runtime \<Rightarrow> runtime outcome" where
  "Destroy now r =
     (let r = r\<lparr>r_glob := (r_glob r)\<lparr>g_begin_clk := now\<rparr>\<rparr> in
      bind_out (assert_out ''GetCDPath()->size()>0'' (r_path r \<noteq> [])) (\<lambda>_.
      let r = r\<lparr>r_path := butlast (r_path r), r_glob := (r_glob r)\<lparr>g_end_clk := now\<rparr>\<rparr> in
      bind_out (deref ''phaseTree.current_'' (r_current r)) (\<lambda>cur.
        with_profile cur (\<lambda>s. Inr (RecordDestory (now - g_begin_clk (r_glob r)) s)) r)))"

definition DeleteEntryDirectory :: "handle \<Rightarrow> runtime \<Rightarrow> runtime" where
  "DeleteEntryDirectory c r = modify_obj c (\<lambda>d. d\<lparr>o_preserve_count := 0, o_restore_count := 0\<rparr>) r"

definition SetBegin :: "handle \<Rightarrow> runtime \<Rightarrow> runtime outcome" where
  "SetBegin c r =
     bind_out (assert_out ''begin_ == false'' (\<not> o_begin (r_objs r ! c))) (\<lambda>_.
       Inr (modify_obj c (\<lambda>d. d\<lparr>o_begin := True\<rparr>) r))"

definition UnsetBegin :: "handle \<Rightarrow> runtime \<Rightarrow> runtime outcome" where
  "UnsetBegin c r =
     bind_out (assert_out ''begin_ == true'' (o_begin (r_objs r ! c))) (\<lambda>_.
       Inr (modify_obj c (\<lambda>d. d\<lparr>o_begin := False\<rparr>) r))"

text \<open>
  The two branches of \<open>GetCDToRecover\<close> that leave a level: finish the domain at this level,
  destroy it and go on one level up.
\<close>

definition leave_level :: "real \<Rightarrow> handle \<Rightarrow> runtime \<Rightarrow> runtime outcome" where
  "leave_level now target r =
     bind_out (deref ''phaseTree.current_'' (r_current r)) (\<lambda>cur.
     bind_out (with_profile cur (RecordRollback now False kNoop) r) (\<lambda>r.
     bind_out (CompletePhase True (DeleteEntryDirectory target r)) (\<lambda>r.
     bind_out (UnsetBegin target r) (\<lambda>r.
       Destroy now r))))"

text \<open>
  \<open>GetCDToRecover\<close> calls itself one level up, so the level bounds the recursion; reading
  level \<open>-1\<close> of the path is the error of \<open>GetCDLevel\<close>.  \<open>task_size\<close> is one at every
  level, so the next call is not collective.
\<close>

fun GetCDToRecover :: "nat \<Rightarrow> real \<Rightarrow> handle \<Rightarrow> bool \<Rightarrow> runtime \<Rightarrow> (runtime \<times> handle) outcome" where
  "GetCDToRecover k now target collective r =
     (let level = o_level (r_objs r ! target);
          rollback_lv = CheckRollbackPoint r in
      bind_out (deref ''phaseTree.current_'' (r_current r)) (\<lambda>cur.
      let r = set_heap (ResetSeqID rollback_lv cur (r_heap r)) r;
          go_up = (\<lambda>r. bind_out (leave_level now target r) (\<lambda>r.
            case k of
              0 \<Rightarrow> Inl (ErrorMessage ''num_levels <= level'')
            | Suc k' \<Rightarrow>
                bind_out (GetCDLevel (level - 1) (Some (r_path r))) (\<lambda>next_cdh.
                bind_out (deref ''next_cdh'' next_cdh) (\<lambda>next_cdh.
                  GetCDToRecover k' now next_cdh False r)))) in
      if level = rollback_lv then
        let new_rollback_point = (if collective then SyncCDs r else CheckRollbackPoint r);
            (r, new_rollback_point) =
              (if new_rollback_point > rollback_lv
               then (fst (SetRollbackPoint rollback_lv r), rollback_lv)
               else (fst (SetRollbackPoint new_rollback_point r), new_rollback_point)) in
        if level \<noteq> new_rollback_point then go_up r
        else
          let r = modify_obj target (\<lambda>d. d\<lparr>o_reported_error := False\<rparr>) r;
              r = r\<lparr>r_glob := add_smpl t_recovery_sync (now - g_prof_sync_clk (r_glob r))
                              (add_time t_recovery_sync (now - g_prof_sync_clk (r_glob r)) (r_glob r))\<rparr> in
          bind_out (CompletePhase True r) (\<lambda>r.
          bind_out (UnsetBegin target r) (\<lambda>r. Inr (r, target)))
      else if level > rollback_lv \<and> rollback_lv \<noteq> INVALID_ROLLBACK_POINT then
        let new_rollback_point = (if collective then SyncCDs r else CheckRollbackPoint r) in
        go_up (fst (SetRollbackPoint new_rollback_point r))
      else Inl (ErrorMessage ''Invalid escalation point'')))"

declare GetCDToRecover.simps [simp del]

text \<open>
  \<open>CD::Recover\<close> with the default \<open>RecoverObject\<close>: mark the domain as re-executing and
  jump to its \<open>Begin\<close>.  (\<open>RestoreAll\<close> acts on preserved data only.)
\<close>

definition Recover :: "handle \<Rightarrow> runtime \<Rightarrow> runtime" where
  "Recover c r =
     modify_obj c (\<lambda>d. d\<lparr>o_exec_mode := kReexecution, o_reexecuted := True,
                        o_num_reexecution := o_num_reexecution d + 1\<rparr>)
       (r\<lparr>r_just_reexecuted := True\<rparr>)"

definition rollback :: "real \<Rightarrow> bool \<Rightarrow> runtime \<Rightarrow> (runtime \<times> control) outcome" where
  "rollback now need_sync r =
     bind_out (GetCurrentCD (\<lambda>h. o_exec_mode (r_objs r ! h)) (\<lambda>h. o_level (r_objs r ! h)) (Some (r_path r))) (\<lambda>cdh.
     bind_out (deref ''GetCurrentCD'' cdh) (\<lambda>cdh.
     bind_out (GetCDToRecover (unat (o_level (r_objs r ! cdh))) now cdh need_sync r) (\<lambda>(r, target).
       Inr (Recover target r, Jump target))))"

text \<open>\<open>CD::Escalate\<close>: a failure found outside of \<open>Begin\<close> and \<open>Complete\<close>.\<close>

definition Escalate :: "real \<Rightarrow> handle \<Rightarrow> handle \<Rightarrow> bool \<Rightarrow> runtime \<Rightarrow> (runtime \<times> control) outcome" where
  "Escalate now this leaf need_sync r =
     (let r = r\<lparr>r_glob := (r_glob r)\<lparr>g_prof_sync_clk := now\<rparr>\<rparr> in
      bind_out (SetFailure now (o_phase (r_objs r ! this)) r) (\<lambda>r.
      bind_out (GetCDToRecover (unat (o_level (r_objs r ! leaf))) now leaf need_sync r) (\<lambda>(r, target).
        Inr (Recover target r, Jump target))))"

section \<open>Begin and complete\<close>

text \<open>
  The medium of a domain is a bit pattern; the phase node stores it as an enumerator, where a
  pattern without a name counts as undefined.
\<close>

definition PrvMediumT_of :: "uint32 \<Rightarrow> PrvMediumT" where
  "PrvMediumT_of m =
     (if m = PrvMediumT_val kLocalMemory then kLocalMemory
      else if m = PrvMediumT_val kRemoteMemory then kRemoteMemory
      else if m = PrvMediumT_val kLocalDisk then kLocalDisk
      else if m = PrvMediumT_val kGlobalDisk then kGlobalDisk
      else kUndefined)"

text \<open>The first part of \<open>CD::Begin\<close>: enter the phase and take over its settings.\<close>

definition enter_phase :: "handle \<Rightarrow> string \<Rightarrow> runtime \<Rightarrow> runtime outcome" where
  "enter_phase c label r =
     (let r = modify_obj c (\<lambda>d. d\<lparr>o_label := (if label = [] then o_name d else label)\<rparr>) r;
          d = r_objs r ! c in
      bind_out
        (if \<not> r_tuning_enabled r then
           bind_out (BeginPhase (o_level d) (o_label d) (PrvMediumT_of (o_medium d)) (o_sys_bit_vector d) r)
             (\<lambda>(r, phase).
           bind_out (deref ''phaseTree.current_'' (r_current r)) (\<lambda>cur.
             let r = modify_obj c (\<lambda>d. d\<lparr>o_phase := phase, o_sys_bit_vector := pn_errortype (r_heap r ! cur)\<rparr>) r
             in Inr (set_heap (UpdateTaskInfo 0 1 0 1 cur (r_heap r)) r)))
         else
           bind_out (deref ''phaseTree.current_'' (r_current r)) (\<lambda>cur.
             let n = r_heap r ! cur;
                 r = modify_obj c (\<lambda>d. d\<lparr>o_phase := pn_phase n, o_sys_bit_vector := pn_errortype n\<rparr>) r
             in bind_out (assert_out ''new_phase == current_->phase_'' (r_new_phase r = pn_phase n)) (\<lambda>_. Inr r)))
        (\<lambda>r. bind_out (deref ''phaseTree.current_'' (r_current r)) (\<lambda>cur.
               Inr (modify_obj c (\<lambda>d. d\<lparr>o_medium := PrvMediumT_val (pn_medium (r_heap r ! cur))\<rparr>) r))))"

definition mark_seq :: "handle \<Rightarrow> runtime \<Rightarrow> runtime outcome" where
  "mark_seq c r =
     (let current_phase = uint (o_phase (r_objs r ! c)) in
      if r_prev_phase r \<noteq> current_phase then
        bind_out
          (if r_prev_phase r \<noteq> HEALTHY then
             bind_out (deref ''phaseNodeCache'' (snd (cache_at (of_int (r_prev_phase r)) (pt_cache (r_tree r))))) (\<lambda>p.
               Inr (pn_level (r_heap r ! p) > o_level (r_objs r ! c)))
           else Inr False)
          (\<lambda>returned_from_child_lv.
             bind_out (deref ''phaseTree.current_'' (r_current r)) (\<lambda>cur.
               let r = (if \<not> returned_from_child_lv then set_heap (MarkSeqID cur (r_heap r)) r else r)
               in Inr (r\<lparr>r_prev_phase := current_phase\<rparr>)))
      else Inr r)"

definition CD_Begin :: "real \<Rightarrow> handle \<Rightarrow> string \<Rightarrow> bool \<Rightarrow> runtime \<Rightarrow> (runtime \<times> control) outcome" where
  "CD_Begin now c label collective r =
     bind_out (SetBegin c r) (\<lambda>r.
     bind_out (enter_phase c label r) (\<lambda>r.
     bind_out (mark_seq c r) (\<lambda>r.
     let r = (if o_exec_mode (r_objs r ! c) = kReexecution \<or> collective
              then fst (SetRollbackPoint INVALID_ROLLBACK_POINT r) else r);
         r = (if o_exec_mode (r_objs r ! c) = kSuspension
              then modify_obj c (\<lambda>d. d\<lparr>o_exec_mode := kExecution\<rparr>) r else r);
         new_rollback_point = SyncCDs r;
         r = fst (SetRollbackPoint new_rollback_point r) in
     if new_rollback_point < o_level (r_objs r ! c) then
       bind_out (deref ''phaseTree.current_'' (r_current r)) (\<lambda>cur.
       bind_out (with_profile cur (RecordRollback now True kBegin) r) (\<lambda>r.
       bind_out (SetFailure now (o_phase (r_objs r ! c)) r) (\<lambda>r.
         rollback now False r)))
     else
       let r = r\<lparr>r_need_escalation := False, r_rollback_point := INVALID_ROLLBACK_POINT\<rparr>;
           r = (if o_exec_mode (r_objs r ! c) \<noteq> kReexecution
                then modify_obj c (\<lambda>d. d\<lparr>o_num_reexecution := 0, o_exec_mode := kExecution\<rparr>) r else r)
       in Inr (r\<lparr>r_just_reexecuted := False\<rparr>, Return kOK))))"

text \<open>
  The no-error branch of \<open>CD::Complete\<close>: recovery is over when the failed phase completes at
  the failed sequence number.
\<close>

definition check_recovered :: "real \<Rightarrow> handle \<Rightarrow> runtime \<Rightarrow> runtime outcome" where
  "check_recovered now c r =
     (if IsFailed r then
        bind_out (deref ''phaseTree.current_'' (r_current r)) (\<lambda>cur.
          let curr_phase = uint (o_phase (r_objs r ! c));
              curr_seqID = sint (pn_seq_end (r_heap r ! cur)) in
          if r_failed_phase r = curr_phase then
            if r_failed_seqID r = curr_seqID then SetHealthy now r
            else if r_failed_seqID r > curr_seqID then Inr r
            else Inl (ErrorMessage ''curr_seqID should not be greater than failed_seqID'')
          else Inr r)
      else Inr r)"

definition CD_Complete :: "real \<Rightarrow> handle \<Rightarrow> runtime \<Rightarrow> (runtime \<times> control) outcome" where
  "CD_Complete now c r =
     (let new_rollback_point = CheckRollbackPoint r;
          r = fst (SetRollbackPoint new_rollback_point r) in
      if new_rollback_point \<le> o_level (r_objs r ! c) then
        bind_out (deref ''phaseTree.current_'' (r_current r)) (\<lambda>cur.
        bind_out (with_profile cur (RecordRollback now True kComplete) r) (\<lambda>r.
        bind_out (SetFailure now (o_phase (r_objs r ! c)) r) (\<lambda>r.
          rollback now False r)))
      else
        bind_out (check_recovered now c r) (\<lambda>r.
        let r = modify_obj c (\<lambda>d. d\<lparr>o_reported_error := False, o_reexecuted := False,
                                   o_sequential_id := o_sequential_id d + 1\<rparr>) r;
            r = modify_obj c (\<lambda>d. d\<lparr>o_exec_mode := kSuspension\<rparr>) (DeleteEntryDirectory c r) in
        bind_out (CompletePhase False r) (\<lambda>r.
        bind_out (UnsetBegin c r) (\<lambda>r.
          Inr (r, Return kOK)))))"

section \<open>The calls of the interface\<close>

definition CDHandle_Begin ::
  "real \<Rightarrow> handle \<Rightarrow> string \<Rightarrow> bool \<Rightarrow> uint64 \<Rightarrow> runtime \<Rightarrow> (runtime \<times> control) outcome" where
  "CDHandle_Begin now c label collective sys_error_vec r =
     (let r = r\<lparr>r_glob := (r_glob r)\<lparr>g_begin_clk := now\<rparr>\<rparr>;
          r = (if sys_error_vec \<noteq> 0 then modify_obj c (\<lambda>d. d\<lparr>o_sys_bit_vector := sys_error_vec\<rparr>) r else r);
          need_sync = r_just_reexecuted r in
      bind_out (CD_Begin now c label collective r) (\<lambda>(r, ctl).
        case ctl of
          Jump t \<Rightarrow> Inr (r, Jump t)
        | Return e \<Rightarrow>
            bind_out (deref ''phaseTree.current_'' (r_current r)) (\<lambda>cur.
            bind_out (with_profile cur (\<lambda>s. Inr (RecordBegin now (IsFailed r) need_sync s)) r) (\<lambda>r.
              Inr (r, Return e)))))"

definition CDHandle_Complete :: "real \<Rightarrow> handle \<Rightarrow> runtime \<Rightarrow> (runtime \<times> control) outcome" where
  "CDHandle_Complete now c r =
     (let r = r\<lparr>r_glob := (r_glob r)\<lparr>g_begin_clk := now\<rparr>\<rparr> in
      bind_out (GetCurrentCD (\<lambda>h. o_exec_mode (r_objs r ! h)) (\<lambda>h. o_level (r_objs r ! h)) (Some (r_path r))) (\<lambda>cdh.
      bind_out (deref ''GetCurrentCD()'' cdh) (\<lambda>cdh.
      bind_out (assert_out ''Level is not complete'' (cdh = c)) (\<lambda>_.
      bind_out (deref ''phaseTree.current_'' (r_current r)) (\<lambda>current.
      let is_reexec = IsFailed r in
      bind_out (CD_Complete now c r) (\<lambda>(r, ctl).
        case ctl of
          Jump t \<Rightarrow> Inr (r, Jump t)
        | Return e \<Rightarrow>
            bind_out (with_profile current (RecordComplete now is_reexec (o_level (r_objs r ! c) = 1)) r) (\<lambda>r.
              Inr (r, Return e))))))))"

definition CDHandle_CDAssert :: "real \<Rightarrow> bool \<Rightarrow> handle \<Rightarrow> runtime \<Rightarrow> runtime outcome" where
  "CDHandle_CDAssert now test c r =
     CD_Assert test c (r\<lparr>r_glob := (r_glob r)\<lparr>g_begin_clk := now\<rparr>\<rparr>)"

text \<open>
  \<open>CDHandle::Detect\<close> in a single task: \<open>detected\<close> is the level that
  \<open>CD::Detect\<close> or the error injector reports, if it reports an error.
\<close>

definition CDHandle_Detect :: "real \<Rightarrow> uint32 option \<Rightarrow> handle \<Rightarrow> runtime \<Rightarrow> (runtime \<times> CDErrT) outcome" where
  "CDHandle_Detect now detected c r =
     (let r = r\<lparr>r_glob := (r_glob r)\<lparr>g_begin_clk := now\<rparr>\<rparr> in
      case detected of
        Some rollback_point \<Rightarrow>
          bind_out (GetCDLevel rollback_point (Some (r_path r))) (\<lambda>rb_cdh.
          bind_out (assert_out ''rb_cdh != NULL'' (rb_cdh \<noteq> None)) (\<lambda>_.
            Inr (fst (SetRollbackPoint rollback_point r), kAppError)))
      | None \<Rightarrow> Inr (r, kOK))"

text \<open>
  Creation: \<open>CD::Init\<close> and the constructor or \<open>Initialize\<close> of \<open>cd_internal.cc\<close>
  (a reused object keeps its identifier, so its phase and sequential number),
  \<open>InternalCreate\<close>, \<open>CD::Create\<close>, and the non-collective \<open>CDHandle::Create\<close>.
\<close>

definition CDObj_init :: "CDObj option \<Rightarrow> string \<Rightarrow> uint32 \<Rightarrow> uint32 \<Rightarrow> uint64 \<Rightarrow> CDObj \<Rightarrow> CDObj" where
  "CDObj_init parent name cd_type medium sys_vec d =
     d\<lparr>o_reexecuted := False, o_reported_error := False, o_num_reexecution := 0, o_begin := False,
       o_exec_mode := kSuspension, o_cd_type := cd_type, o_medium := MASK_MEDIUM medium,
       o_name := name, o_sys_bit_vector := sys_vec, o_label := ''INITIAL_CDOBJ_LABEL'',
       o_preserve_count := 0, o_restore_count := 0,
       o_recreated := (case parent of Some q \<Rightarrow> o_reexecuted q \<or> o_recreated q | None \<Rightarrow> False)\<rparr>"

definition CDObj_blank :: "uint32 \<Rightarrow> CDObj" where
  "CDObj_blank level =
     \<lparr>o_level = level, o_name = [], o_label = [], o_phase = 0, o_sequential_id = 0,
      o_exec_mode = kSuspension, o_begin = False, o_medium = 0, o_cd_type = 0, o_sys_bit_vector = 0,
      o_reported_error = False, o_reexecuted = False, o_recreated = False, o_num_reexecution = 0,
      o_preserve_count = 0, o_restore_count = 0\<rparr>"

definition InternalCreate ::
  "handle option \<Rightarrow> string \<Rightarrow> uint32 \<Rightarrow> uint32 \<Rightarrow> uint64 \<Rightarrow> runtime \<Rightarrow> (runtime \<times> handle) outcome" where
  "InternalCreate parent name level cd_type sys_vec r =
     (let m = MASK_MEDIUM cd_type;
          medium = (if m = 0 then (case parent of Some q \<Rightarrow> o_medium (r_objs r ! q)
                                                | None \<Rightarrow> PrvMediumT_val kPFS) else m);
          pobj = map_option (\<lambda>q. r_objs r ! q) parent in
      bind_out
        (case parent of
           None \<Rightarrow> Inr name
         | Some _ \<Rightarrow>
             bind_out (deref ''phaseTree.current_'' (r_current r)) (\<lambda>cur.
               deref ''GetPhasePath'' (GetPhasePath_label name cur (r_heap r))))
        (\<lambda>cd_obj_key.
           case sm_find (r_store r) cd_obj_key of
             Some c \<Rightarrow> Inr (modify_obj c (CDObj_init pobj name cd_type medium sys_vec) r, c)
           | None \<Rightarrow>
               Inr (r\<lparr>r_objs := r_objs r @ [CDObj_init pobj name (MASK_CDTYPE cd_type) medium sys_vec (CDObj_blank level)],
                      r_store := sm_put cd_obj_key (length (r_objs r)) (r_store r)\<rparr>,
                    length (r_objs r))))"

definition CD_Create ::
  "handle \<Rightarrow> string \<Rightarrow> uint32 \<Rightarrow> uint32 \<Rightarrow> uint64 \<Rightarrow> runtime \<Rightarrow> (runtime \<times> handle) outcome" where
  "CD_Create this name level cd_type sys_vec r =
     bind_out (assert_out ''GetBegin()'' (o_begin (r_objs r ! this))) (\<lambda>_.
       InternalCreate (Some this) name level cd_type sys_vec r)"

definition CDHandle_Create ::
  "real \<Rightarrow> handle \<Rightarrow> string \<Rightarrow> uint32 \<Rightarrow> uint64 \<Rightarrow> runtime \<Rightarrow> (runtime \<times> handle) outcome" where
  "CDHandle_Create now this name cd_type sys_vec r =
     (let r = r\<lparr>r_glob := (r_glob r)\<lparr>g_begin_clk := now\<rparr>\<rparr> in
      bind_out (CD_Create this name (o_level (r_objs r ! this) + 1) cd_type sys_vec r) (\<lambda>(r, c).
      let r = r\<lparr>r_path := r_path r @ [c], r_glob := (r_glob r)\<lparr>g_end_clk := now\<rparr>\<rparr> in
      bind_out (deref ''phaseTree.current_'' (r_current r)) (\<lambda>cur.
      bind_out (with_profile cur (\<lambda>s. Inr (RecordCreate (now - g_begin_clk (r_glob r)) s)) r) (\<lambda>r.
        Inr (r, c)))))"

text \<open>The root domain, as \<open>CD_Init\<close> creates it.\<close>

definition runtime_init :: "phase_world \<Rightarrow> bool \<Rightarrow> int \<Rightarrow> runtime" where
  "runtime_init w tuning_off task =
     \<lparr>r_objs = [], r_path = [], r_store = [], r_world = w, r_glob = cd_globals_init,
      r_failed_phase = HEALTHY, r_failed_seqID = HEALTHY, r_prev_phase = HEALTHY,
      r_last_completed_phase = HEALTHY, r_rollback_point = INVALID_ROLLBACK_POINT,
      r_need_escalation = False, r_just_reexecuted = False, r_global_reex_clk = 0,
      r_tuning_enabled = False, r_new_phase = 0, r_tuning_off = tuning_off, r_myTaskID = task\<rparr>"

definition CD_Init :: "string \<Rightarrow> PrvMediumT \<Rightarrow> uint64 \<Rightarrow> runtime \<Rightarrow> (runtime \<times> handle) outcome" where
  "CD_Init root_label medium root_vec r =
     bind_out (InternalCreate None root_label 0 (CDType_val kStrict OR PrvMediumT_val medium) root_vec r)
       (\<lambda>(r, c). Inr (r\<lparr>r_path := r_path r @ [c]\<rparr>, c))"

section \<open>What the helpers keep\<close>

lemma set_heap_simps [simp]:
  "r_heap (set_heap h r) = h" "r_current (set_heap h r) = r_current r"
  "r_objs (set_heap h r) = r_objs r" "r_path (set_heap h r) = r_path r"
  "r_failed_phase (set_heap h r) = r_failed_phase r" "r_failed_seqID (set_heap h r) = r_failed_seqID r"
  "r_rollback_point (set_heap h r) = r_rollback_point r"
  "r_tuning_enabled (set_heap h r) = r_tuning_enabled r" "r_glob (set_heap h r) = r_glob r"
  "r_just_reexecuted (set_heap h r) = r_just_reexecuted r"
  "pt_path (r_tree (set_heap h r)) = pt_path (r_tree r)" "pt_cache (r_tree (set_heap h r)) = pt_cache (r_tree r)"
  by (simp_all add: set_heap_def)

lemma set_current_simps [simp]:
  "r_heap (set_current p r) = r_heap r" "r_current (set_current p r) = p"
  "r_objs (set_current p r) = r_objs r" "r_path (set_current p r) = r_path r"
  "r_failed_phase (set_current p r) = r_failed_phase r" "r_failed_seqID (set_current p r) = r_failed_seqID r"
  "r_rollback_point (set_current p r) = r_rollback_point r"
  "r_tuning_enabled (set_current p r) = r_tuning_enabled r" "r_glob (set_current p r) = r_glob r"
  "r_just_reexecuted (set_current p r) = r_just_reexecuted r"
  by (simp_all add: set_current_def)

lemma modify_obj_simps [simp]:
  "r_world (modify_obj c f r) = r_world r" "r_path (modify_obj c f r) = r_path r"
  "r_failed_phase (modify_obj c f r) = r_failed_phase r" "r_failed_seqID (modify_obj c f r) = r_failed_seqID r"
  "r_rollback_point (modify_obj c f r) = r_rollback_point r"
  "r_tuning_enabled (modify_obj c f r) = r_tuning_enabled r" "r_glob (modify_obj c f r) = r_glob r"
  "r_just_reexecuted (modify_obj c f r) = r_just_reexecuted r"
  "length (r_objs (modify_obj c f r)) = length (r_objs r)"
  by (simp_all add: modify_obj_def)

lemma nth_modify_obj:
  "i < length (r_objs r) \<Longrightarrow>
   r_objs (modify_obj c f r) ! i = (if i = c then f (r_objs r ! i) else r_objs r ! i)"
  by (simp add: modify_obj_def nth_list_update)

definition same_flags :: "runtime \<Rightarrow> runtime \<Rightarrow> bool" where
  "same_flags r r' \<longleftrightarrow>
     r_failed_phase r' = r_failed_phase r \<and> r_failed_seqID r' = r_failed_seqID r \<and>
     r_rollback_point r' = r_rollback_point r \<and> r_tuning_enabled r' = r_tuning_enabled r \<and>
     map links (r_heap r') = map links (r_heap r)"

lemma same_flags_trans: "same_flags r s \<Longrightarrow> same_flags s t \<Longrightarrow> same_flags r t"
  by (simp add: same_flags_def)

lemma same_flags_failed: "same_flags r r' \<Longrightarrow> IsFailed r' = IsFailed r"
  by (simp add: same_flags_def IsFailed_def)

lemma links_profile [simp]: "links (n\<lparr>pn_profile := x\<rparr>) = links n"
  by (simp add: links_def)

lemma with_profile_ok:
  assumes "f (r_glob r, pn_profile (r_heap r ! p)) = Inr (g, prof)"
  shows "\<exists>r'. with_profile p f r = Inr r' \<and> same_flags r r' \<and> r_objs r' = r_objs r \<and>
    r_path r' = r_path r \<and> r_current r' = r_current r \<and> r_just_reexecuted r' = r_just_reexecuted r"
  using assms by (simp add: with_profile_def same_flags_def map_links_modify)

lemma links_IncSeqID [simp]: "links (IncSeqID_node b n) = links n"
  by (simp add: IncSeqID_node_def links_def Let_def)

lemma links_ResetSeqID [simp]: "links (ResetSeqID_node lv n) = links n"
  by (simp add: ResetSeqID_node_def links_def)

lemma map_links_seq [simp]:
  "map links (IncSeqID b p h) = map links h" "map links (ResetSeqID lv p h) = map links h"
  by (simp_all add: IncSeqID_def ResetSeqID_def map_links_modify)

lemma map_links_nth_parent:
  "map links h = map links h' \<Longrightarrow> i < length h \<Longrightarrow> pn_parent (h ! i) = pn_parent (h' ! i)"
  by (metis length_map links_eqD nth_map)

lemma same_flags_length: "same_flags r r' \<Longrightarrow> length (r_heap r') = length (r_heap r)"
  by (auto simp: same_flags_def dest: map_eq_imp_length_eq)

lemma same_flags_parent:
  assumes "same_flags r r'" "i < length (r_heap r)"
  shows "pn_parent (r_heap r' ! i) = pn_parent (r_heap r ! i)"
  using map_links_nth_parent [of "r_heap r'" "r_heap r" i] same_flags_length [OF assms(1)] assms
  by (simp add: same_flags_def)

lemma length_IncSeqID [simp]: "length (IncSeqID b p h) = length h"
  by (simp add: IncSeqID_def)

lemma CompletePhase_ok:
  assumes "r_current r = Some cur" "cur < length (r_heap r)" "\<not> r_tuning_enabled r"
    and "IsFailed r \<Longrightarrow> 0 \<le> r_failed_phase r"
  shows "\<exists>r'. CompletePhase b r = Inr r' \<and> same_flags r r' \<and> r_objs r' = r_objs r \<and>
    r_path r' = r_path r \<and> r_current r' = pn_parent (r_heap r ! cur) \<and>
    r_just_reexecuted r' = r_just_reexecuted r"
proof -
  have "pn_parent (IncSeqID x cur (r_heap r) ! cur) = pn_parent (r_heap r ! cur)"
    "pn_parent (modify_node cur (set_state kReexecution) (IncSeqID x cur (r_heap r)) ! cur) = pn_parent (r_heap r ! cur)" for x
    using assms(2) by (auto intro!: map_links_nth_parent simp: map_links_modify)
  then show ?thesis
    using assms by (auto simp: CompletePhase_def Let_def same_flags_def IsFailed_def map_links_modify)
qed

lemma Destroy_ok:
  assumes "r_current r = Some cur" "r_path r \<noteq> []"
  shows "\<exists>r'. Destroy now r = Inr r' \<and> same_flags r r' \<and> r_objs r' = r_objs r \<and>
    r_path r' = butlast (r_path r) \<and> r_current r' = Some cur \<and> r_just_reexecuted r' = r_just_reexecuted r"
  using assms by (simp add: Destroy_def Let_def with_profile_def RecordDestory_def same_flags_def map_links_modify)

lemma UnsetBegin_ok:
  assumes "o_begin (r_objs r ! c)"
  shows "UnsetBegin c r = Inr (modify_obj c (\<lambda>d. d\<lparr>o_begin := False\<rparr>) r)"
  using assms by (simp add: UnsetBegin_def)

lemma RecordRollback_False: "\<exists>g p'. RecordRollback now False op (g0, p) = Inr (g, p')"
  by (simp add: RecordRollback_def)

lemma leave_level_ok:
  assumes cur: "r_current r = Some cur" "cur < length (r_heap r)" "pn_parent (r_heap r ! cur) = Some q"
    and tun: "\<not> r_tuning_enabled r" and f: "IsFailed r \<Longrightarrow> 0 \<le> r_failed_phase r"
    and t: "target < length (r_objs r)" "o_begin (r_objs r ! target)" and p: "r_path r \<noteq> []"
  shows "\<exists>r'. leave_level now target r = Inr r' \<and> same_flags r r' \<and>
    r_objs r' = (r_objs r)[target := (r_objs r ! target)\<lparr>o_preserve_count := 0, o_restore_count := 0, o_begin := False\<rparr>] \<and>
    r_path r' = butlast (r_path r) \<and> r_current r' = Some q"
proof -
  obtain g pr where "RecordRollback now False kNoop (r_glob r, pn_profile (r_heap r ! cur)) = Inr (g, pr)"
    using RecordRollback_False by blast
  from with_profile_ok [where f = "RecordRollback now False kNoop", OF this] obtain r1 where r1: "with_profile cur (RecordRollback now False kNoop) r = Inr r1"
    "same_flags r r1" "r_objs r1 = r_objs r" "r_path r1 = r_path r" "r_current r1 = Some cur"
    using cur by auto
  have len: "length (r_heap r1) = length (r_heap r)" "pn_parent (r_heap r1 ! cur) = Some q"
    using same_flags_length [OF r1(2)] same_flags_parent [OF r1(2) cur(2)] cur(3) by simp_all
  let ?r = "DeleteEntryDirectory target r1"
  have d: "r_current ?r = Some cur" "r_heap ?r = r_heap r1" "same_flags r1 ?r" "r_path ?r = r_path r"
    using r1 by (simp_all add: DeleteEntryDirectory_def same_flags_def)
  obtain r2 where r2: "CompletePhase True ?r = Inr r2" "same_flags ?r r2" "r_objs r2 = r_objs ?r"
    "r_path r2 = r_path r" "r_current r2 = Some q"
    using CompletePhase_ok [of ?r cur True] d len cur(2) tun f r1(2) same_flags_failed [of r ?r]
      same_flags_trans [OF r1(2) d(3)]
    by (auto simp: same_flags_def)
  have b: "o_begin (r_objs r2 ! target)"
    using t r1(3) r2(3) by (simp add: DeleteEntryDirectory_def nth_modify_obj)
  let ?r3 = "modify_obj target (\<lambda>d. d\<lparr>o_begin := False\<rparr>) r2"
  obtain r4 where r4: "Destroy now ?r3 = Inr r4" "same_flags ?r3 r4" "r_objs r4 = r_objs ?r3"
    "r_path r4 = butlast (r_path r)" "r_current r4 = Some q"
    using Destroy_ok [of ?r3 q now] r2 p by auto
  have "same_flags r2 ?r3" by (simp add: same_flags_def)
  then have "same_flags r r4"
    using r1(2) d(3) r2(2) r4(2) same_flags_trans by blast
  moreover have "leave_level now target r = Inr r4"
    using cur r1 r2 b r4 by (simp add: leave_level_def UnsetBegin_ok)
  moreover have "r_objs r4 = (r_objs r)[target := (r_objs r ! target)\<lparr>o_preserve_count := 0, o_restore_count := 0, o_begin := False\<rparr>]"
    using r4(3) r2(3) r1(3) t(1) by (simp add: DeleteEntryDirectory_def modify_obj_def)
  ultimately show ?thesis using r4 by blast
qed

section \<open>Active domains\<close>

text \<open>
  The state while every domain of the path has begun: handles sit at their level, and the current
  phase is the end of a chain of phase nodes, one per level.
\<close>

definition chain :: "node_heap \<Rightarrow> ptr list \<Rightarrow> bool" where
  "chain h ns \<longleftrightarrow> (\<forall>i < length ns. ns ! i < length h \<and>
     pn_parent (h ! (ns ! i)) = (if i = 0 then None else Some (ns ! (i - 1))))"

definition stack_ok :: "runtime \<Rightarrow> ptr list \<Rightarrow> bool" where
  "stack_ok r ns \<longleftrightarrow>
     path_ok (\<lambda>c. o_level (r_objs r ! c)) (r_path r) \<and> r_path r \<noteq> [] \<and> distinct (r_path r) \<and>
     (\<forall>c \<in> set (r_path r). c < length (r_objs r) \<and> o_begin (r_objs r ! c)) \<and>
     length ns = length (r_path r) \<and> chain (r_heap r) ns \<and> r_current r = Some (last ns) \<and>
     \<not> r_tuning_enabled r"

lemma chain_cong:
  assumes "map links h' = map links h" "chain h ns"
  shows "chain h' ns"
proof -
  have len: "length h' = length h" using map_eq_imp_length_eq [OF assms(1)] .
  show ?thesis
    unfolding chain_def
  proof (intro allI impI)
    fix i assume i: "i < length ns"
    then have "ns ! i < length h" using assms(2) by (simp add: chain_def)
    then show "ns ! i < length h' \<and> pn_parent (h' ! (ns ! i)) = (if i = 0 then None else Some (ns ! (i - 1)))"
      using map_links_nth_parent [OF assms(1)] len i assms(2) by (simp add: chain_def)
  qed
qed

lemma chain_butlast: "chain h ns \<Longrightarrow> chain h (butlast ns)"
  by (auto simp: chain_def nth_butlast)

lemma chain_last:
  assumes "chain h ns" "ns \<noteq> []"
  shows "last ns < length h"
    "pn_parent (h ! last ns) = (if length ns = 1 then None else Some (last (butlast ns)))"
proof -
  have l: "length ns - 1 < length ns" using assms(2) by simp
  then show "last ns < length h" using assms by (simp add: chain_def last_conv_nth)
  show "pn_parent (h ! last ns) = (if length ns = 1 then None else Some (last (butlast ns)))"
  proof (cases "length ns = 1")
    case True
    then show ?thesis using assms l by (simp add: chain_def last_conv_nth)
  next
    case False
    then have two: "butlast ns \<noteq> []" "length ns - 1 \<noteq> 0" using assms(2) by (cases ns; force)+
    then have "last (butlast ns) = ns ! (length ns - 1 - 1)"
      by (simp add: last_conv_nth nth_butlast)
    then show ?thesis using assms l two(2) False by (simp add: chain_def last_conv_nth)
  qed
qed

lemma path_ok_butlast: "path_ok level p \<Longrightarrow> path_ok level (butlast p)"
  by (auto simp: path_ok_def nth_butlast)

lemma path_ok_cong: "(\<And>c. c \<in> set p \<Longrightarrow> f c = g c) \<Longrightarrow> path_ok f p = path_ok g p"
  by (auto simp: path_ok_def)

lemma stack_ok_last:
  assumes "stack_ok r ns"
  shows "last (r_path r) < length (r_objs r)" "o_begin (r_objs r ! last (r_path r))"
    "unat (o_level (r_objs r ! last (r_path r))) = length (r_path r) - 1"
    "last ns < length (r_heap r)"
proof -
  have ne: "r_path r \<noteq> []" and "last (r_path r) \<in> set (r_path r)" using assms by (simp_all add: stack_ok_def)
  then show "last (r_path r) < length (r_objs r)" "o_begin (r_objs r ! last (r_path r))"
    using assms by (auto simp: stack_ok_def)
  show "unat (o_level (r_objs r ! last (r_path r))) = length (r_path r) - 1"
    using path_ok_unat [of "\<lambda>c. o_level (r_objs r ! c)" "r_path r" "length (r_path r) - 1"] assms ne
    by (simp add: stack_ok_def last_conv_nth)
  show "last ns < length (r_heap r)"
  proof (rule chain_last(1))
    show "chain (r_heap r) ns" using assms by (simp add: stack_ok_def)
    have "length ns = length (r_path r)" using assms by (simp add: stack_ok_def)
    then show "ns \<noteq> []" using ne by auto
  qed
qed

lemma stack_ok_up:
  assumes ok: "stack_ok r ns" and two: "length (r_path r) \<ge> 2"
    and f: "IsFailed r \<Longrightarrow> 0 \<le> r_failed_phase r"
  shows "\<exists>r'. leave_level now (last (r_path r)) r = Inr r' \<and> same_flags r r' \<and>
    stack_ok r' (butlast ns) \<and> r_path r' = butlast (r_path r) \<and> length (r_objs r') = length (r_objs r) \<and>
    (\<forall>c. o_level (r_objs r' ! c) = o_level (r_objs r ! c)) \<and>
    (\<forall>c < length (r_objs r). o_begin (r_objs r' ! c) = (o_begin (r_objs r ! c) \<and> c \<noteq> last (r_path r)))"
proof -
  let ?t = "last (r_path r)"
  note L = stack_ok_last [OF ok]
  have ns: "length ns = length (r_path r)" "ns \<noteq> []" using ok two by (auto simp: stack_ok_def)
  have par: "pn_parent (r_heap r ! last ns) = Some (last (butlast ns))"
    using chain_last(2) [of "r_heap r" ns] ok ns two by (simp add: stack_ok_def)
  obtain r' where r': "leave_level now ?t r = Inr r'" "same_flags r r'"
    "r_objs r' = (r_objs r)[?t := (r_objs r ! ?t)\<lparr>o_preserve_count := 0, o_restore_count := 0, o_begin := False\<rparr>]"
    "r_path r' = butlast (r_path r)" "r_current r' = Some (last (butlast ns))"
    using leave_level_ok [OF _ L(4) par _ f L(1,2), of now] ok by (auto simp: stack_ok_def)
  have lv: "o_level (r_objs r' ! c) = o_level (r_objs r ! c)" for c
    unfolding r'(3) using L(1) by (cases "c = ?t") simp_all
  have bg: "o_begin (r_objs r' ! c) = (o_begin (r_objs r ! c) \<and> c \<noteq> ?t)" if "c < length (r_objs r)" for c
    unfolding r'(3) using that by (cases "c = ?t") simp_all
  have d: "distinct (r_path r)" using ok by (simp add: stack_ok_def)
  then have nt: "c \<noteq> ?t" if "c \<in> set (butlast (r_path r))" for c
    using that ok by (metis append_butlast_last_id disjoint_iff distinct_append list.set_intros(1) stack_ok_def)
  have "stack_ok r' (butlast ns)"
    unfolding stack_ok_def
  proof (intro conjI)
    show "path_ok (\<lambda>c. o_level (r_objs r' ! c)) (r_path r')"
      using ok r'(4) lv path_ok_butlast by (auto simp: stack_ok_def)
    show "r_path r' \<noteq> []" using r'(4) two by (cases "r_path r" rule: rev_cases) auto
    show "distinct (r_path r')" using d r'(4) by (simp add: distinct_butlast)
    show "\<forall>c \<in> set (r_path r'). c < length (r_objs r') \<and> o_begin (r_objs r' ! c)"
      using ok nt bg r'(3,4) by (auto simp: stack_ok_def dest: in_set_butlastD)
    show "length (butlast ns) = length (r_path r')" using ns r'(4) by simp
    show "chain (r_heap r') (butlast ns)"
      using ok r'(2) chain_cong [OF _ chain_butlast] by (auto simp: stack_ok_def same_flags_def)
    show "r_current r' = Some (last (butlast ns))" by (rule r'(5))
    show "\<not> r_tuning_enabled r'" using ok r'(2) by (simp add: stack_ok_def same_flags_def)
  qed
  then show ?thesis using r' lv bg by auto
qed

lemma le_INVALID: "x \<le> INVALID_ROLLBACK_POINT"
proof -
  have "unat x < 2 ^ 32" using unsigned_less [of x] by simp
  then show ?thesis by (simp add: INVALID_ROLLBACK_POINT_def word_le_nat_alt)
qed

text \<open>One step of \<open>GetCDToRecover\<close> at a level above the rollback point, and at it.\<close>

lemma SetRollbackPoint_same [simp]: "fst (SetRollbackPoint (r_rollback_point r) r) = r"
  by (cases r) (simp add: SetRollbackPoint_def)

lemma CheckRollbackPoint_set_heap [simp]: "CheckRollbackPoint (set_heap h r) = r_rollback_point r"
  by (simp add: CheckRollbackPoint_def)

lemma SetRollbackPoint_set_heap [simp]:
  "fst (SetRollbackPoint (r_rollback_point r) (set_heap h r)) = set_heap h r"
  using SetRollbackPoint_same [of "set_heap h r"] by simp

definition reset_seq :: "runtime \<Rightarrow> ptr \<Rightarrow> runtime" where
  "reset_seq r cur = set_heap (ResetSeqID (r_rollback_point r) cur (r_heap r)) r"

lemma same_flags_reset_seq: "same_flags r (reset_seq r cur)"
  by (simp add: same_flags_def reset_seq_def)

lemma stack_ok_reset_seq:
  "stack_ok r ns \<Longrightarrow> stack_ok (reset_seq r cur) ns"
  using chain_cong [of "r_heap (reset_seq r cur)" "r_heap r" ns]
  by (simp add: stack_ok_def reset_seq_def)

lemma GetCDToRecover_above:
  assumes "r_current r = Some cur" "o_level (r_objs r ! target) > r_rollback_point r"
  shows "GetCDToRecover (Suc k) now target False r =
    bind_out (leave_level now target (reset_seq r cur)) (\<lambda>r'.
    bind_out (GetCDLevel (o_level (r_objs r ! target) - 1) (Some (r_path r'))) (\<lambda>next_cdh.
    bind_out (deref ''next_cdh'' next_cdh) (\<lambda>next_cdh. GetCDToRecover k now next_cdh False r')))"
proof -
  have "r_rollback_point r \<noteq> INVALID_ROLLBACK_POINT"
    using assms(2) le_INVALID [of "o_level (r_objs r ! target)"] by (metis not_le)
  moreover have "o_level (r_objs r ! target) \<noteq> r_rollback_point r" using assms(2) by auto
  ultimately show ?thesis
    using assms
    by (subst GetCDToRecover.simps)
      (simp add: CheckRollbackPoint_def reset_seq_def Let_def)
qed

lemma GetCDToRecover_at:
  assumes cur: "r_current r = Some cur" "cur < length (r_heap r)" and lv: "o_level (r_objs r ! target) = r_rollback_point r"
    and tun: "\<not> r_tuning_enabled r" and f: "IsFailed r \<Longrightarrow> 0 \<le> r_failed_phase r"
    and t: "target < length (r_objs r)" "o_begin (r_objs r ! target)"
  shows "\<exists>r'. GetCDToRecover k now target False r = Inr (r', target) \<and> same_flags r r' \<and>
    r_path r' = r_path r \<and> r_current r' = pn_parent (r_heap r ! cur) \<and>
    r_objs r' = (r_objs r)[target := (r_objs r ! target)\<lparr>o_reported_error := False, o_begin := False\<rparr>]"
proof -
  define r1 where "r1 = (modify_obj target (\<lambda>d. d\<lparr>o_reported_error := False\<rparr>) (reset_seq r cur))
    \<lparr>r_glob := add_smpl t_recovery_sync (now - g_prof_sync_clk (r_glob r))
                (add_time t_recovery_sync (now - g_prof_sync_clk (r_glob r)) (r_glob r))\<rparr>"
  have r1: "same_flags r r1" "r_current r1 = Some cur" "r_path r1 = r_path r"
    "r_objs r1 = (r_objs r)[target := (r_objs r ! target)\<lparr>o_reported_error := False\<rparr>]"
    using cur by (simp_all add: r1_def reset_seq_def same_flags_def modify_obj_def)
  obtain r2 where r2: "CompletePhase True r1 = Inr r2" "same_flags r1 r2" "r_objs r2 = r_objs r1"
    "r_path r2 = r_path r" "r_current r2 = pn_parent (r_heap r ! cur)"
    using CompletePhase_ok [of r1 cur True] r1 cur tun f same_flags_length [OF r1(1)]
      same_flags_parent [OF r1(1) cur(2)] same_flags_failed [OF r1(1)]
    by (auto simp: same_flags_def)
  have b: "o_begin (r_objs r2 ! target)" using r2(3) r1(4) t by simp
  let ?r3 = "modify_obj target (\<lambda>d. d\<lparr>o_begin := False\<rparr>) r2"
  have "GetCDToRecover k now target False r = bind_out (CompletePhase True r1) (\<lambda>r. bind_out (UnsetBegin target r) (\<lambda>r. Inr (r, target)))"
    using cur lv
    by (subst GetCDToRecover.simps)
      (simp add: CheckRollbackPoint_def Let_def r1_def reset_seq_def)
  then have "GetCDToRecover k now target False r = Inr (?r3, target)"
    using r2(1) b by (simp add: UnsetBegin_ok)
  moreover have "same_flags r2 ?r3" by (simp add: same_flags_def)
  then have "same_flags r ?r3" using r1(1) r2(2) same_flags_trans by blast
  moreover have "r_objs ?r3 = (r_objs r)[target := (r_objs r ! target)\<lparr>o_reported_error := False, o_begin := False\<rparr>]"
    using r2(3) r1(4) t(1) by (simp add: modify_obj_def)
  ultimately show ?thesis using r2(4,5) by auto
qed

text \<open>The levels that rollback leaves are popped, the one it reaches stays.\<close>

lemma GetCDToRecover_spec_at:
  assumes ok: "stack_ok r ns" and R: "unat (r_rollback_point r) = length (r_path r) - 1"
    and f: "IsFailed r \<Longrightarrow> 0 \<le> r_failed_phase r"
  shows "\<exists>r'. GetCDToRecover k now (last (r_path r)) False r = Inr (r', last (r_path r)) \<and>
    same_flags r r' \<and> r_path r' = r_path r \<and> length (r_objs r') = length (r_objs r) \<and>
    r_current r' = (if length (r_path r) = 1 then None else Some (last (butlast ns))) \<and>
    (\<forall>c < length (r_objs r). o_begin (r_objs r' ! c) = (o_begin (r_objs r ! c) \<and> c \<noteq> last (r_path r)))"
proof -
  note L = stack_ok_last [OF ok]
  have lv: "o_level (r_objs r ! last (r_path r)) = r_rollback_point r"
    using L(3) R by (simp add: word_unat_eq_iff)
  have ns: "length ns = length (r_path r)" "ns \<noteq> []" "chain (r_heap r) ns" "r_current r = Some (last ns)"
    "\<not> r_tuning_enabled r"
    using ok by (auto simp: stack_ok_def)
  obtain r' where r': "GetCDToRecover k now (last (r_path r)) False r = Inr (r', last (r_path r))"
    "same_flags r r'" "r_path r' = r_path r" "r_current r' = pn_parent (r_heap r ! last ns)"
    "r_objs r' = (r_objs r)[last (r_path r) := (r_objs r ! last (r_path r))\<lparr>o_reported_error := False, o_begin := False\<rparr>]"
    using GetCDToRecover_at [OF ns(4) L(4) lv ns(5) f L(1,2)] by blast
  have "o_begin (r_objs r' ! c) = (o_begin (r_objs r ! c) \<and> c \<noteq> last (r_path r))" if "c < length (r_objs r)" for c
    unfolding r'(5) using that by (cases "c = last (r_path r)") simp_all
  then show ?thesis using r' chain_last(2) [OF ns(3,2)] ns(1) by auto
qed

lemma GetCDToRecover_spec:
  assumes "stack_ok r ns" "unat (r_rollback_point r) = R" "R < length (r_path r)"
    and "IsFailed r \<Longrightarrow> 0 \<le> r_failed_phase r" and "k = length (r_path r) - 1"
  shows "\<exists>r'. GetCDToRecover k now (last (r_path r)) False r = Inr (r', r_path r ! R) \<and>
    same_flags r r' \<and> r_path r' = take (Suc R) (r_path r) \<and> length (r_objs r') = length (r_objs r) \<and>
    r_current r' = (if R = 0 then None else Some (ns ! (R - 1))) \<and>
    (\<forall>c < length (r_objs r). o_begin (r_objs r' ! c) = (o_begin (r_objs r ! c) \<and> c \<notin> set (drop R (r_path r))))"
  using assms
proof (induction k arbitrary: r ns)
  case 0
  then have ne: "r_path r \<noteq> []" by (simp add: stack_ok_def)
  with "0.prems"(5) obtain c where c: "r_path r = [c]" by (cases "r_path r") simp_all
  then have R: "R = 0" using "0.prems"(3) by simp
  show ?case
    using GetCDToRecover_spec_at [OF "0.prems"(1) _ "0.prems"(4), of 0 now] "0.prems"(2) R c by auto
next
  case (Suc k)
  have len: "length (r_path r) = Suc (Suc k)" and ne: "r_path r \<noteq> []"
    using Suc.prems(1,5) by (auto simp: stack_ok_def)
  have lns: "length ns = length (r_path r)" using Suc.prems(1) by (simp add: stack_ok_def)
  have last: "last (r_path r) = r_path r ! Suc k" using len by (simp add: last_conv_nth ne)
  show ?case
  proof (cases "R = Suc k")
    case True
    have "butlast ns \<noteq> []" using lns len by (metis Suc_not_Zero diff_Suc_1 length_butlast list.size(3))
    then have "ns ! k = last (butlast ns)"
      using lns len by (simp add: last_conv_nth nth_butlast)
    moreover have "drop (Suc k) (r_path r) = [last (r_path r)]"
      using len last by (simp add: Cons_nth_drop_Suc [symmetric])
    ultimately show ?thesis
      using GetCDToRecover_spec_at [OF Suc.prems(1) _ Suc.prems(4), of "Suc k" now] Suc.prems(2) True len last
      by auto
  next
    case False
    then have Rk: "R \<le> k" using Suc.prems(3) len by simp
    let ?r1 = "reset_seq r (last ns)"
    have above: "o_level (r_objs r ! last (r_path r)) > r_rollback_point r"
      using stack_ok_last(3) [OF Suc.prems(1)] Suc.prems(2) Rk len by (simp add: word_less_nat_alt)
    have lv: "o_level (r_objs r ! last (r_path r)) - 1 = of_nat k"
      using Suc.prems(1) last len by (simp add: stack_ok_def path_ok_def)
    have sf1: "same_flags r ?r1" by (rule same_flags_reset_seq)
    have r1: "r_path ?r1 = r_path r" "r_objs ?r1 = r_objs r" by (simp_all add: reset_seq_def)
    have f1: "IsFailed ?r1 \<Longrightarrow> 0 \<le> r_failed_phase ?r1"
      using Suc.prems(4) sf1 same_flags_failed [OF sf1] by (simp add: same_flags_def)
    obtain r2 where r2: "leave_level now (last (r_path r)) ?r1 = Inr r2" "same_flags ?r1 r2"
      "stack_ok r2 (butlast ns)" "r_path r2 = butlast (r_path r)" "length (r_objs r2) = length (r_objs r)"
      "\<forall>c < length (r_objs r). o_begin (r_objs r2 ! c) = (o_begin (r_objs r ! c) \<and> c \<noteq> last (r_path r))"
      using stack_ok_up [OF stack_ok_reset_seq [OF Suc.prems(1)], of "last ns" now] f1 len r1 by auto
    have sf2: "same_flags r r2" using sf1 r2(2) same_flags_trans by blast
    have nxt: "GetCDLevel (of_nat k) (Some (r_path r2)) = Inr (Some (last (r_path r2)))"
      using GetCDLevel_ok [of "\<lambda>c. o_level (r_objs r2 ! c)" "r_path r2" k] r2(3,4) len
      by (simp add: stack_ok_def path_ok_def last_conv_nth)
    have step: "GetCDToRecover (Suc k) now (last (r_path r)) False r = GetCDToRecover k now (last (r_path r2)) False r2"
      using GetCDToRecover_above [OF _ above, of "last ns" k now] Suc.prems(1) r2(1) nxt lv
      by (simp add: stack_ok_def)
    have pre: "unat (r_rollback_point r2) = R" "R < length (r_path r2)" "k = length (r_path r2) - 1"
      "IsFailed r2 \<Longrightarrow> 0 \<le> r_failed_phase r2"
      using sf2 same_flags_failed [OF sf2] Suc.prems(2,4) r2(4) len Rk by (simp_all add: same_flags_def)
    from Suc.IH [OF r2(3) pre(1,2,4,3)] obtain r' where r':
      "GetCDToRecover k now (last (r_path r2)) False r2 = Inr (r', r_path r2 ! R)" "same_flags r2 r'"
      "r_path r' = take (Suc R) (r_path r2)" "length (r_objs r') = length (r_objs r2)" "r_current r' = (if R = 0 then None else Some (butlast ns ! (R - 1)))"
      "\<forall>c < length (r_objs r2). o_begin (r_objs r' ! c) = (o_begin (r_objs r2 ! c) \<and> c \<notin> set (drop R (r_path r2)))"
      by blast
    have "set (drop R (r_path r)) = insert (last (r_path r)) (set (drop R (butlast (r_path r))))"
      using append_butlast_last_id [OF ne] Rk len
      by (metis (no_types, lifting) Un_insert_right append_Nil2 diff_Suc_1 drop_append diff_is_0_eq drop_0
          length_butlast less_Suc_eq_le list.set(2) set_append nless_le)
    then have "\<forall>c < length (r_objs r). o_begin (r_objs r' ! c) = (o_begin (r_objs r ! c) \<and> c \<notin> set (drop R (r_path r)))"
      using r'(6) r2(4,5,6) by auto
    moreover have "r_path r2 ! R = r_path r ! R" "take (Suc R) (r_path r2) = take (Suc R) (r_path r)"
      "R \<noteq> 0 \<Longrightarrow> butlast ns ! (R - 1) = ns ! (R - 1)"
      using r2(4) Rk len lns by (simp_all add: nth_butlast butlast_conv_take)
    ultimately show ?thesis
      using step r'(1-5) r2(5) same_flags_trans [OF sf2 r'(2)] by auto
  qed
qed

section \<open>Facts about completion\<close>

lemma current_leaf:
  assumes "r_path r \<noteq> []" "o_exec_mode (r_objs r ! last (r_path r)) \<noteq> kSuspension"
  shows "GetCurrentCD (\<lambda>h. o_exec_mode (r_objs r ! h)) (\<lambda>h. o_level (r_objs r ! h)) (Some (r_path r)) =
    Inr (Some (last (r_path r)))"
  using assms by (simp add: GetCurrentCD_def)

lemma stack_ok_cong:
  assumes "stack_ok r ns" "r_objs r' = r_objs r" "r_path r' = r_path r" "r_current r' = r_current r"
    and "same_flags r r'"
  shows "stack_ok r' ns"
  using assms chain_cong [of "r_heap r'" "r_heap r" ns] by (simp add: stack_ok_def same_flags_def)

lemma rollback_spec:
  assumes ok: "stack_ok r ns" and R: "unat (r_rollback_point r) = R" "R < length (r_path r)"
    and f: "IsFailed r" "0 \<le> r_failed_phase r"
    and mode: "o_exec_mode (r_objs r ! last (r_path r)) \<noteq> kSuspension"
  shows "\<exists>r'. rollback now False r = Inr (r', Jump (r_path r ! R)) \<and>
    r_path r' = take (Suc R) (r_path r) \<and> r_current r' = (if R = 0 then None else Some (ns ! (R - 1))) \<and>
    r_failed_phase r' = r_failed_phase r \<and> r_failed_seqID r' = r_failed_seqID r \<and>
    r_rollback_point r' = r_rollback_point r \<and> r_just_reexecuted r' \<and>
    o_exec_mode (r_objs r' ! (r_path r ! R)) = kReexecution \<and>
    (\<forall>i < length (r_path r). o_begin (r_objs r' ! (r_path r ! i)) = (i < R))"
proof -
  let ?c = "last (r_path r)"
  have ne: "r_path r \<noteq> []" and d: "distinct (r_path r)"
    and objs: "\<forall>c \<in> set (r_path r). c < length (r_objs r) \<and> o_begin (r_objs r ! c)"
    using ok by (simp_all add: stack_ok_def)
  obtain r1 where r1: "GetCDToRecover (length (r_path r) - 1) now ?c False r = Inr (r1, r_path r ! R)"
    "same_flags r r1" "r_path r1 = take (Suc R) (r_path r)" "length (r_objs r1) = length (r_objs r)" "r_current r1 = (if R = 0 then None else Some (ns ! (R - 1)))"
    "\<forall>c < length (r_objs r). o_begin (r_objs r1 ! c) = (o_begin (r_objs r ! c) \<and> c \<notin> set (drop R (r_path r)))"
    using GetCDToRecover_spec [OF ok R _ refl, of now] f by blast
  have "rollback now False r = Inr (Recover (r_path r ! R) r1, Jump (r_path r ! R))"
    using r1(1) stack_ok_last(3) [OF ok] by (simp add: rollback_def current_leaf [OF ne mode])
  moreover have "r_path r ! i \<in> set (drop R (r_path r)) \<longleftrightarrow> R \<le> i" if "i < length (r_path r)" for i
    using d that by (auto simp: in_set_conv_nth nth_eq_iff_index_eq intro: exI [of _ "i - R"])
  then have "\<forall>i < length (r_path r). o_begin (r_objs r1 ! (r_path r ! i)) = (i < R)"
    using r1(6) objs by auto
  moreover have "o_begin (r_objs (Recover t r1) ! c) = o_begin (r_objs r1 ! c)" for t c
    by (cases "t < length (r_objs r1)"; cases "c = t") (simp_all add: Recover_def modify_obj_def list_update_beyond)
  moreover have "o_exec_mode (r_objs (Recover (r_path r ! R) r1) ! (r_path r ! R)) = kReexecution"
    using objs R(2) r1(4) by (simp add: Recover_def nth_modify_obj)
  ultimately show ?thesis
    using r1(2,3,5) by (auto simp: Recover_def same_flags_def)
qed

lemma SetFailure_ok:
  assumes "r_current r = Some cur"
  shows "\<exists>r'. SetFailure now phase r = Inr r' \<and> IsFailed r' \<and> r_objs r' = r_objs r \<and> r_path r' = r_path r \<and>
    r_world r' = r_world r \<and> r_rollback_point r' = r_rollback_point r \<and> r_tuning_enabled r' = r_tuning_enabled r \<and>
    r_failed_phase r' = (if IsGood r then uint phase else r_failed_phase r) \<and>
    r_failed_seqID r' = (if IsGood r then sint (pn_seq_end (r_heap r ! cur)) else r_failed_seqID r)"
proof -
  have "uint phase \<noteq> - 1" using uint_ge_0 [of phase] by linarith
  then show ?thesis using assms by (auto simp: SetFailure_def IsGood_def IsFailed_def HEALTHY_def)
qed

lemma RecordRollback_Complete: "\<exists>g p'. RecordRollback now True kComplete (g0, p) = Inr (g, p')"
  by (simp add: RecordRollback_def Let_def)

lemma seq_end_profile:
  "map pn_seq_end (modify_node p (\<lambda>n. n\<lparr>pn_profile := x\<rparr>) h) = map pn_seq_end h"
  by (cases "p < length h") (simp_all add: modify_node_def map_update list_update_beyond list_update_same_conv)

lemma seq_end_state:
  "map pn_seq_end (modify_node p (set_state st) h) = map pn_seq_end h"
  by (cases "p < length h")
    (simp_all add: modify_node_def map_update list_update_beyond list_update_same_conv set_state_def)

lemma seq_end_IncSeqID_False: "map pn_seq_end (IncSeqID False p h) = map pn_seq_end h"
  by (cases "p < length h")
    (simp_all add: IncSeqID_def IncSeqID_node_def Let_def modify_node_def map_update list_update_beyond list_update_same_conv)

lemma CompletePhase_failed_seq_end:
  assumes "CompletePhase b r = Inr r'" "IsFailed r"
  shows "map pn_seq_end (r_heap r') = map pn_seq_end (r_heap r) \<and> IsFailed r'"
proof -
  have "IsGood r = False" using assms(2) by (simp add: IsGood_def IsFailed_def)
  then show ?thesis
    using assms seq_end_IncSeqID_False seq_end_state
    by (auto simp: CompletePhase_def Let_def IsFailed_def bind_out_Inr_iff split: option.splits if_splits)
qed

lemma CD_Complete_error:
  assumes ok: "stack_ok r ns" and R: "unat (r_rollback_point r) = R" "R < length (r_path r)"
    and f: "IsFailed r \<Longrightarrow> 0 \<le> r_failed_phase r"
    and mode: "o_exec_mode (r_objs r ! last (r_path r)) \<noteq> kSuspension"
  shows "\<exists>r'. CD_Complete now (last (r_path r)) r = Inr (r', Jump (r_path r ! R)) \<and>
    r_path r' = take (Suc R) (r_path r) \<and> r_current r' = (if R = 0 then None else Some (ns ! (R - 1))) \<and>
    IsFailed r' \<and>
    (IsGood r \<longrightarrow> r_failed_phase r' = uint (o_phase (r_objs r ! last (r_path r))) \<and>
       r_failed_seqID r' = sint (pn_seq_end (r_heap r ! last ns))) \<and>
    (IsFailed r \<longrightarrow> r_failed_phase r' = r_failed_phase r \<and> r_failed_seqID r' = r_failed_seqID r) \<and>
    o_exec_mode (r_objs r' ! (r_path r ! R)) = kReexecution \<and>
    (\<forall>i < length (r_path r). o_begin (r_objs r' ! (r_path r ! i)) = (i < R))"
proof -
  let ?c = "last (r_path r)" and ?cur = "last ns"
  note L = stack_ok_last [OF ok]
  have le: "r_rollback_point r \<le> o_level (r_objs r ! ?c)"
    using R L(3) by (simp add: word_le_nat_alt)
  have cur: "r_current r = Some ?cur" using ok by (simp add: stack_ok_def)
  obtain g pr where "RecordRollback now True kComplete (r_glob r, pn_profile (r_heap r ! ?cur)) = Inr (g, pr)"
    using RecordRollback_Complete by blast
  from with_profile_ok [where f = "RecordRollback now True kComplete", OF this] obtain r1 where
    r1: "with_profile ?cur (RecordRollback now True kComplete) r = Inr r1" "same_flags r r1"
    "r_objs r1 = r_objs r" "r_path r1 = r_path r" "r_current r1 = r_current r" by blast
  have sq: "pn_seq_end (r_heap r1 ! ?cur) = pn_seq_end (r_heap r ! ?cur)"
    using r1(1) L(4) by (auto simp: with_profile_def bind_out_Inr_iff nth_modify_node split: prod.splits)
  obtain r2 where r2: "SetFailure now (o_phase (r_objs r1 ! ?c)) r1 = Inr r2" "IsFailed r2" "r_objs r2 = r_objs r1"
    "r_path r2 = r_path r1" "r_world r2 = r_world r1" "r_rollback_point r2 = r_rollback_point r1"
    "r_tuning_enabled r2 = r_tuning_enabled r1"
    "r_failed_phase r2 = (if IsGood r1 then uint (o_phase (r_objs r1 ! ?c)) else r_failed_phase r1)"
    "r_failed_seqID r2 = (if IsGood r1 then sint (pn_seq_end (r_heap r1 ! ?cur)) else r_failed_seqID r1)"
    using SetFailure_ok [of r1 ?cur now "o_phase (r_objs r1 ! ?c)"] r1(5) cur by auto
  have good: "IsGood r1 = IsGood r" using r1(2) by (simp add: same_flags_def IsGood_def)
  have flags: "r_rollback_point r1 = r_rollback_point r" "r_failed_phase r1 = r_failed_phase r"
    "r_failed_seqID r1 = r_failed_seqID r" "r_tuning_enabled r1 = r_tuning_enabled r"
    using r1(2) by (simp_all add: same_flags_def)
  have pos: "0 \<le> r_failed_phase r2"
    using r2(8) good f flags by (auto simp: IsGood_def IsFailed_def)
  have "chain (r_heap r2) ns"
    using ok r1(2) r2(5) chain_cong by (auto simp: stack_ok_def same_flags_def)
  then have ok2: "stack_ok r2 ns"
    using ok r1(3-5) r2(3-5,7) flags by (simp add: stack_ok_def)
  have R2: "unat (r_rollback_point r2) = R" "R < length (r_path r2)"
    "o_exec_mode (r_objs r2 ! last (r_path r2)) \<noteq> kSuspension"
    using R mode r1(3,4) r2(3,4,6) flags by simp_all
  from rollback_spec [OF ok2 R2(1,2) r2(2) pos R2(3), of now] obtain r3 where
    r3: "rollback now False r2 = Inr (r3, Jump (r_path r2 ! R))" "r_path r3 = take (Suc R) (r_path r2)"
    "r_current r3 = (if R = 0 then None else Some (ns ! (R - 1)))" "r_failed_phase r3 = r_failed_phase r2"
    "r_failed_seqID r3 = r_failed_seqID r2" "o_exec_mode (r_objs r3 ! (r_path r2 ! R)) = kReexecution"
    "\<forall>i < length (r_path r2). o_begin (r_objs r3 ! (r_path r2 ! i)) = (i < R)" by blast
  have "CD_Complete now ?c r = Inr (r3, Jump (r_path r2 ! R))"
    using le cur r1(1) r2(1) r3(1) by (simp add: CD_Complete_def Let_def CheckRollbackPoint_def)
  moreover have "IsFailed r3" using r2(2) r3(4) by (simp add: IsFailed_def)
  ultimately show ?thesis
    using r3 r1(3,4) r2(4,8,9) good flags sq by (auto simp: IsGood_def IsFailed_def)
qed

lemma CDHandle_Complete_error:
  assumes "stack_ok r ns" and "unat (r_rollback_point r) = R" and "R < length (r_path r)"
    and "IsFailed r \<Longrightarrow> 0 \<le> r_failed_phase r"
    and "o_exec_mode (r_objs r ! last (r_path r)) \<noteq> kSuspension"
  shows "\<exists>r'. CDHandle_Complete now (last (r_path r)) r = Inr (r', Jump (r_path r ! R)) \<and>
    r_path r' = take (Suc R) (r_path r) \<and> r_current r' = (if R = 0 then None else Some (ns ! (R - 1))) \<and>
    IsFailed r' \<and>
    (IsGood r \<longrightarrow> r_failed_phase r' = uint (o_phase (r_objs r ! last (r_path r))) \<and>
       r_failed_seqID r' = sint (pn_seq_end (r_heap r ! last ns))) \<and>
    (IsFailed r \<longrightarrow> r_failed_phase r' = r_failed_phase r \<and> r_failed_seqID r' = r_failed_seqID r) \<and>
    o_exec_mode (r_objs r' ! (r_path r ! R)) = kReexecution \<and>
    (\<forall>i < length (r_path r). o_begin (r_objs r' ! (r_path r ! i)) = (i < R))"
proof -
  let ?r = "r\<lparr>r_glob := (r_glob r)\<lparr>g_begin_clk := now\<rparr>\<rparr>"
  have ok: "stack_ok ?r ns" and f: "IsFailed ?r \<Longrightarrow> 0 \<le> r_failed_phase ?r"
    using assms(1,4) by (simp_all add: stack_ok_def IsFailed_def)
  have ne: "r_path ?r \<noteq> []" "o_exec_mode (r_objs ?r ! last (r_path ?r)) \<noteq> kSuspension"
    "r_current r = Some (last ns)"
    using assms(1,5) by (simp_all add: stack_ok_def)
  from CD_Complete_error [OF ok _ _ f ne(2), of R now] assms(2,3)
  show ?thesis
    using current_leaf [OF ne(1,2)] ne(3)
    by (auto simp: CDHandle_Complete_def Let_def IsGood_def IsFailed_def)
qed

section \<open>Properties\<close>

text \<open>
  C2.  An error rolls back to its level: when every domain of the path has begun and the rollback
  point is level \<open>R\<close> of the path, \<open>Complete\<close> of the leaf does not return but re-enters at
  the \<open>Begin\<close> of the domain at level \<open>R\<close>, which is then in re-execution mode.  All deeper
  domains are completed and popped from the path, exactly the domains above \<open>R\<close> are still
  begun, the current phase is the parent of the phase at level \<open>R\<close>, and the failed phase and
  sequence number are those of the first failure.
\<close>

theorem Complete_rolls_back:
  assumes "stack_ok r ns" and "unat (r_rollback_point r) = R" and "R < length (r_path r)"
    and "IsFailed r \<Longrightarrow> 0 \<le> r_failed_phase r"
    and "o_exec_mode (r_objs r ! last (r_path r)) \<noteq> kSuspension"
  shows "\<exists>r'. CDHandle_Complete now (last (r_path r)) r = Inr (r', Jump (r_path r ! R)) \<and>
    r_path r' = take (Suc R) (r_path r) \<and> r_current r' = (if R = 0 then None else Some (ns ! (R - 1))) \<and>
    IsFailed r' \<and>
    (IsGood r \<longrightarrow> r_failed_phase r' = uint (o_phase (r_objs r ! last (r_path r))) \<and>
       r_failed_seqID r' = sint (pn_seq_end (r_heap r ! last ns))) \<and>
    (IsFailed r \<longrightarrow> r_failed_phase r' = r_failed_phase r \<and> r_failed_seqID r' = r_failed_seqID r) \<and>
    o_exec_mode (r_objs r' ! (r_path r ! R)) = kReexecution \<and>
    (\<forall>i < length (r_path r). o_begin (r_objs r' ! (r_path r ! i)) = (i < R))"
  by (rule CDHandle_Complete_error [OF assms])

definition scenario_0 :: "(runtime \<times> control) outcome" where
  "scenario_0 = bind_out (CD_Init ''Root'' kDRAM 0 (runtime_init world0 False 1))
     (\<lambda>(r, c). CDHandle_Begin 1 c [] False 0 r)"

definition scenario_1 :: "(runtime \<times> control) outcome" where
  "scenario_1 = bind_out scenario_0 (\<lambda>(r, _).
     bind_out (CDHandle_Create 2 0 ''A'' 0 0 r) (\<lambda>(r, c). CDHandle_Begin 3 c [] False 0 r))"

lemmas core_eval = scenario_1_def scenario_0_def CD_Init_def runtime_init_def world0_def
  CDHandle_Begin_def CDHandle_Create_def CDHandle_Complete_def InternalCreate_def CD_Begin_def
  CD_Create_def CD_Complete_def CDObj_init_def CDObj_blank_def SetBegin_def UnsetBegin_def
  enter_phase_def mark_seq_def BeginPhase_def CompletePhase_def MASK_MEDIUM_def MASK_CDTYPE_def
  PrvMediumT_of_def modify_obj_def set_heap_def set_current_def with_profile_def
  SetRollbackPoint_def CheckRollbackPoint_def SyncCDs_def INVALID_ROLLBACK_POINT_def HEALTHY_def
  IsFailed_def IsGood_def UpdateTaskInfo_def MarkSeqID_def check_recovered_def
  DeleteEntryDirectory_def IncSeqID_def IncSeqID_node_def GetCurrentCD_def GetParentCD_level_def

lemma scenario_1_ok:
  "\<exists>r. scenario_1 = Inr (r, Return kOK) \<and> stack_ok r [0, 1] \<and> IsGood r \<and> r_path r = [0, 1] \<and>
     o_exec_mode (r_objs r ! 1) = kExecution"
  by (simp add: core_eval tree_eval prof_eval stack_ok_def path_ok_def chain_def less_Suc_eq)

theorem Complete_rolls_back_witness:
  "\<exists>r r'. scenario_1 = Inr (r, Return kOK) \<and>
     CDHandle_Complete 4 1 (r\<lparr>r_rollback_point := 0\<rparr>) = Inr (r', Jump 0) \<and> r_path r' = [0]"
proof -
  obtain r where r: "scenario_1 = Inr (r, Return kOK)" "stack_ok r [0, 1]" "IsGood r" "r_path r = [0, 1]"
    "o_exec_mode (r_objs r ! 1) = kExecution"
    using scenario_1_ok by blast
  let ?r = "r\<lparr>r_rollback_point := 0\<rparr>"
  have "stack_ok ?r [0, 1]" "\<not> IsFailed ?r" using r(2,3) by (simp_all add: stack_ok_def IsGood_def IsFailed_def)
  from Complete_rolls_back [OF this(1), of 0 4] this(2) r show ?thesis by auto
qed

lemma UnsetBegin_flags:
  "UnsetBegin c r = Inr r' \<Longrightarrow> r_world r' = r_world r \<and> r_failed_phase r' = r_failed_phase r"
  by (auto simp: UnsetBegin_def bind_out_Inr_iff)

lemma with_profile_seq_end:
  "with_profile p f r = Inr r' \<Longrightarrow>
   map pn_seq_end (r_heap r') = map pn_seq_end (r_heap r) \<and> r_failed_phase r' = r_failed_phase r"
  by (auto simp: with_profile_def bind_out_Inr_iff seq_end_profile split: prod.splits)

lemma check_recovered_cases:
  assumes "check_recovered now c r = Inr r'" "IsFailed r"
  shows "(IsFailed r' \<and> r' = r) \<or> IsGood r'"
  using assms
  by (auto simp: check_recovered_def SetHealthy_def bind_out_Inr_iff IsGood_def IsFailed_def Let_def
      split: if_splits)

lemma case_Return_iff:
  "(case ctl of Return e' \<Rightarrow> m e' | Jump t \<Rightarrow> Inr (r, Jump t)) = Inr (r', Return e) \<longleftrightarrow>
   (\<exists>e'. ctl = Return e' \<and> m e' = Inr (r', Return e))"
  by (cases ctl) auto

lemma rollback_not_Return: "rollback now b r \<noteq> Inr (r', Return e)"
  by (auto simp: rollback_def bind_out_Inr_iff split: prod.splits)

text \<open>
  C27.  While a failure is pending, completions do not advance: a call of \<open>Complete\<close> that
  returns and leaves the process failed leaves the sequence number \<open>seq_end_\<close> of every phase
  as it was, so a phase whose sequence number was reset below the failed one never reaches it.
\<close>

theorem failed_Complete_keeps_seq_end:
  assumes "CDHandle_Complete now c r = Inr (r', Return e)" and "IsFailed r" and "IsFailed r'"
  shows "map pn_seq_end (r_heap r') = map pn_seq_end (r_heap r)"
proof -
  let ?r = "r\<lparr>r_glob := (r_glob r)\<lparr>g_begin_clk := now\<rparr>\<rparr>"
  from assms(1) obtain r1 cur where c: "CD_Complete now c ?r = Inr (r1, Return e)"
    and p: "with_profile cur (RecordComplete now (IsFailed ?r) (o_level (r_objs r1 ! c) = 1)) r1 = Inr r'"
    by (auto simp: CDHandle_Complete_def Let_def bind_out_Inr_iff case_Return_iff)
  have f1: "IsFailed r1" using with_profile_seq_end [OF p] assms(3) by (simp add: IsFailed_def)
  have q: "r_heap (fst (SetRollbackPoint x ?r)) = r_heap r" "IsFailed (fst (SetRollbackPoint x ?r))" for x
    using assms(2) by (simp_all add: SetRollbackPoint_def IsFailed_def)
  from c obtain r2 r3 where r2: "check_recovered now c (fst (SetRollbackPoint (CheckRollbackPoint ?r) ?r)) = Inr r2"
    and r3: "CompletePhase False (modify_obj c (\<lambda>d. d\<lparr>o_exec_mode := kSuspension\<rparr>) (DeleteEntryDirectory c
      (modify_obj c (\<lambda>d. d\<lparr>o_reported_error := False, o_reexecuted := False, o_sequential_id := o_sequential_id d + 1\<rparr>) r2))) = Inr r3"
    and r1: "UnsetBegin c r3 = Inr r1"
    by (auto simp: CD_Complete_def Let_def bind_out_Inr_iff rollback_not_Return split: if_splits)
  have "IsFailed r2"
  proof (rule ccontr)
    assume "\<not> IsFailed r2"
    then have "r_failed_phase r3 = HEALTHY"
      using r3 by (auto simp: CompletePhase_def Let_def bind_out_Inr_iff IsFailed_def DeleteEntryDirectory_def
          split: option.splits if_splits)
    then show False using UnsetBegin_flags [OF r1] f1 by (simp add: IsFailed_def)
  qed
  then have "r2 = fst (SetRollbackPoint (CheckRollbackPoint ?r) ?r)"
    using check_recovered_cases [OF r2 q(2)] by (auto simp: IsGood_def IsFailed_def)
  then have "map pn_seq_end (r_heap r3) = map pn_seq_end (r_heap r)"
    using CompletePhase_failed_seq_end [OF r3] \<open>IsFailed r2\<close> q(1) by (simp add: DeleteEntryDirectory_def IsFailed_def)
  then show ?thesis using UnsetBegin_flags [OF r1] with_profile_seq_end [OF p] by simp
qed

text \<open>
  An execution in which an error in the second iteration of phase \<open>A\<close> escalates to the root.
\<close>

definition again :: "(runtime \<times> control) outcome \<Rightarrow> (runtime \<times> control) outcome" where
  "again s = bind_out s (\<lambda>(r, _). bind_out (CDHandle_Complete 4 1 r) (\<lambda>(r, _). CDHandle_Begin 5 1 [] False 0 r))"

definition scenario_2 :: "(runtime \<times> control) outcome" where
  "scenario_2 = bind_out (again scenario_1) (\<lambda>(r, _).
     bind_out (CDHandle_CDAssert 6 False 0 r) (\<lambda>r. CDHandle_Complete 7 1 r))"

definition scenario_3 :: "(runtime \<times> control) outcome" where
  "scenario_3 = bind_out scenario_2 (\<lambda>(r, _). bind_out (CDHandle_Begin 8 0 [] False 0 r) (\<lambda>(r, _).
     bind_out (CDHandle_Create 9 0 ''A'' 0 0 r) (\<lambda>(r, c). CDHandle_Begin 10 c [] False 0 r)))"

lemmas scenario_eval = scenario_2_def scenario_3_def again_def core_eval tree_eval prof_eval
  CDHandle_CDAssert_def CD_Assert_def rollback_def GetCDToRecover.simps leave_level_def Destroy_def
  SetFailure_def Recover_def ResetSeqID_def ResetSeqID_node_def GetCDLevel_def word_le_nat_alt PhaseTree_ReInit_def

lemma scenario_2_runs: "\<exists>r. scenario_2 = Inr (r, Jump 0) \<and> r_failed_phase r = 1 \<and> r_failed_seqID r = 1"
  by (simp add: scenario_eval)

theorem failed_Complete_keeps_seq_end_witness:
  "\<exists>r r'. scenario_3 = Inr (r, Return kOK) \<and> CDHandle_Complete 11 1 r = Inr (r', Return kOK) \<and>
     map pn_seq_end (r_heap r') = map pn_seq_end (r_heap r)"
proof -
  have "\<exists>r r'. scenario_3 = Inr (r, Return kOK) \<and> CDHandle_Complete 11 1 r = Inr (r', Return kOK) \<and>
      IsFailed r \<and> IsFailed r'"
    by (simp add: scenario_eval)
  then show ?thesis using failed_Complete_keeps_seq_end by blast
qed


section \<open>Completion without error\<close>

definition finish_obj :: "CDObj \<Rightarrow> CDObj" where
  "finish_obj d = d\<lparr>o_reported_error := False, o_reexecuted := False,
     o_sequential_id := o_sequential_id d + 1, o_preserve_count := 0, o_restore_count := 0,
     o_exec_mode := kSuspension, o_begin := False\<rparr>"

lemma finish_obj_begun:
  "o_begin d \<Longrightarrow> d\<lparr>o_reported_error := False, o_reexecuted := False,
     o_sequential_id := o_sequential_id d + 1, o_preserve_count := 0, o_restore_count := 0,
     o_exec_mode := kSuspension\<rparr> = (finish_obj d)\<lparr>o_begin := True\<rparr>"
  by (cases d) (simp add: finish_obj_def)

lemma CompletePhase_seq_end:
  assumes "CompletePhase False r = Inr r'" "r_current r = Some cur" "cur < length (r_heap r)" "IsGood r"
  shows "pn_seq_end (r_heap r' ! cur) = pn_seq_end (r_heap r ! cur) + 1"
proof -
  have "\<not> IsFailed r" using assms(4) by (simp add: IsGood_def IsFailed_def)
  then show ?thesis
    using assms
    by (auto simp: CompletePhase_def Let_def IsFailed_def IsGood_def IncSeqID_def IncSeqID_node_def
        nth_modify_node split: if_splits)
qed

lemma CD_Complete_no_error:
  assumes lv: "o_level (r_objs r ! c) < r_rollback_point r"
    and chk: "check_recovered now c r = Inr r1" and r1: "r_objs r1 = r_objs r" "r_path r1 = r_path r"
      "r_current r1 = Some cur" "cur < length (r_heap r1)" "\<not> r_tuning_enabled r1" "IsGood r1"
    and c: "c < length (r_objs r)" "o_begin (r_objs r ! c)"
  shows "\<exists>r'. CD_Complete now c r = Inr (r', Return kOK) \<and> r_path r' = r_path r \<and>
    r_objs r' = (r_objs r)[c := finish_obj (r_objs r ! c)] \<and> IsGood r' \<and>
    r_current r' = pn_parent (r_heap r1 ! cur) \<and>
    pn_seq_end (r_heap r' ! cur) = pn_seq_end (r_heap r1 ! cur) + 1 \<and> r_glob r' = r_glob r1 \<and>
    length (r_heap r') = length (r_heap r1)"
proof -
  define r2 where "r2 = modify_obj c (\<lambda>d. d\<lparr>o_exec_mode := kSuspension\<rparr>) (DeleteEntryDirectory c
    (modify_obj c (\<lambda>d. d\<lparr>o_reported_error := False, o_reexecuted := False, o_sequential_id := o_sequential_id d + 1\<rparr>) r1))"
  have r2: "r_path r2 = r_path r" "r_world r2 = r_world r1" "\<not> r_tuning_enabled r2" "IsGood r2" "r_glob r2 = r_glob r1"
    "r_objs r2 = (r_objs r)[c := (finish_obj (r_objs r ! c))\<lparr>o_begin := True\<rparr>]"
    using r1 c by (simp_all add: r2_def DeleteEntryDirectory_def IsGood_def modify_obj_def
        finish_obj_begun [symmetric])
  have nf: "\<not> IsFailed r2" using r2(4) by (simp add: IsGood_def IsFailed_def)
  obtain r3 where r3: "CompletePhase False r2 = Inr r3" "same_flags r2 r3" "r_objs r3 = r_objs r2"
    "r_path r3 = r_path r2" "r_current r3 = pn_parent (r_heap r1 ! cur)"
    using CompletePhase_ok [of r2 cur False] r1 r2 nf by auto
  have sq: "pn_seq_end (r_heap r3 ! cur) = pn_seq_end (r_heap r1 ! cur) + 1"
    using CompletePhase_seq_end [OF r3(1), of cur] r1 r2 by simp
  have g: "r_glob r3 = r_glob r2"
    using r3(1) r1(3) r2(2,3) nf by (auto simp: CompletePhase_def Let_def IsFailed_def split: if_splits)
  have b: "o_begin (r_objs r3 ! c)" using r3(3) r2(6) c(1) by simp
  have run: "CD_Complete now c r = Inr (modify_obj c (\<lambda>d. d\<lparr>o_begin := False\<rparr>) r3, Return kOK)"
    using lv chk r3(1) b UnsetBegin_ok [OF b]
    by (simp add: CD_Complete_def Let_def CheckRollbackPoint_def r2_def [symmetric] not_le [symmetric])
  moreover have "r_objs (modify_obj c (\<lambda>d. d\<lparr>o_begin := False\<rparr>) r3) = (r_objs r)[c := finish_obj (r_objs r ! c)]"
    using r3(3) r2(6) c(1) by (simp add: modify_obj_def finish_obj_def)
  moreover have "IsGood r3" using r3(2) r2(4) by (simp add: same_flags_def IsGood_def)
  then have "IsGood (modify_obj c (\<lambda>d. d\<lparr>o_begin := False\<rparr>) r3)" by (simp add: IsGood_def)
  moreover have "length (r_heap r3) = length (r_heap r1)" using same_flags_length [OF r3(2)] r2(2) by simp
  ultimately show ?thesis using r3(4,5) r2(1,5) sq g by auto
qed

lemma RecordComplete_returns:
  "(rx \<Longrightarrow> \<not> g_is_error_free g) \<Longrightarrow> \<exists>g' p'. RecordComplete now rx low (g, p) = Inr (g', p')"
  by (cases rx) (simp_all add: RecordComplete_def Let_def add_time_def add_smpl_def)

lemma CDHandle_Complete_no_error:
  assumes ok: "stack_ok r ns" and lv: "o_level (r_objs r ! last (r_path r)) < r_rollback_point r"
    and mode: "o_exec_mode (r_objs r ! last (r_path r)) \<noteq> kSuspension"
    and chk: "check_recovered now (last (r_path r)) (r\<lparr>r_glob := (r_glob r)\<lparr>g_begin_clk := now\<rparr>\<rparr>) = Inr r1"
    and r1: "r_objs r1 = r_objs r" "r_path r1 = r_path r" "r_current r1 = r_current r" "IsGood r1"
      "\<not> r_tuning_enabled r1" "map links (r_heap r1) = map links (r_heap r)"
      "IsFailed r \<Longrightarrow> \<not> g_is_error_free (r_glob r1)"
  shows "\<exists>r'. CDHandle_Complete now (last (r_path r)) r = Inr (r', Return kOK) \<and> r_path r' = r_path r \<and>
    r_objs r' = (r_objs r)[last (r_path r) := finish_obj (r_objs r ! last (r_path r))] \<and> IsGood r' \<and>
    r_current r' = (if length (r_path r) = 1 then None else Some (last (butlast ns))) \<and>
    pn_seq_end (r_heap r' ! last ns) = pn_seq_end (r_heap r1 ! last ns) + 1"
proof -
  let ?r = "r\<lparr>r_glob := (r_glob r)\<lparr>g_begin_clk := now\<rparr>\<rparr>" and ?c = "last (r_path r)" and ?cur = "last ns"
  note L = stack_ok_last [OF ok]
  have len: "length (r_heap r1) = length (r_heap r)" using map_eq_imp_length_eq [OF r1(6)] .
  have ne: "r_path r \<noteq> []" "r_current r = Some ?cur" "ns \<noteq> []" "chain (r_heap r) ns" "length ns = length (r_path r)"
    using ok by (auto simp: stack_ok_def)
  have par: "pn_parent (r_heap r1 ! ?cur) = (if length (r_path r) = 1 then None else Some (last (butlast ns)))"
    using chain_last(2) [OF ne(4,3)] map_links_nth_parent [OF r1(6), of ?cur] L(4) len ne(5) by simp
  obtain r2 where r2: "CD_Complete now ?c ?r = Inr (r2, Return kOK)" "r_path r2 = r_path r"
    "r_objs r2 = (r_objs r)[?c := finish_obj (r_objs r ! ?c)]" "IsGood r2"
    "r_current r2 = pn_parent (r_heap r1 ! ?cur)"
    "pn_seq_end (r_heap r2 ! ?cur) = pn_seq_end (r_heap r1 ! ?cur) + 1" "r_glob r2 = r_glob r1"
    "length (r_heap r2) = length (r_heap r1)"
    using CD_Complete_no_error [of ?r ?c now r1 ?cur] lv chk r1 ne L len by auto
  obtain g p where "RecordComplete now (IsFailed ?r) (o_level (r_objs r2 ! ?c) = 1) (r_glob r2, pn_profile (r_heap r2 ! ?cur)) = Inr (g, p)"
    using RecordComplete_returns [of "IsFailed ?r" "r_glob r2" now "o_level (r_objs r2 ! ?c) = 1"
        "pn_profile (r_heap r2 ! ?cur)"] r1(7) r2(7) by (auto simp: IsFailed_def)
  note pr = with_profile_ok [where f = "RecordComplete now (IsFailed ?r) (o_level (r_objs r2 ! ?c) = 1)", OF this]
  then obtain r3 where r3: "with_profile ?cur (RecordComplete now (IsFailed ?r) (o_level (r_objs r2 ! ?c) = 1)) r2 = Inr r3"
    "same_flags r2 r3" "r_objs r3 = r_objs r2" "r_path r3 = r_path r2" "r_current r3 = r_current r2" by blast
  have "map pn_seq_end (r_heap r3) = map pn_seq_end (r_heap r2)" using with_profile_seq_end [OF r3(1)] by simp
  moreover have "?cur < length (r_heap r2)"
    using r2(8) L(4) len by simp
  ultimately have "pn_seq_end (r_heap r3 ! ?cur) = pn_seq_end (r_heap r2 ! ?cur)"
    by (metis length_map nth_map)
  moreover have "IsGood r3" using r2(4) r3(2) by (simp add: IsGood_def same_flags_def)
  moreover have "CDHandle_Complete now ?c r = Inr (r3, Return kOK)"
    using current_leaf [of ?r] ne mode r2(1) r3(1) by (simp add: CDHandle_Complete_def Let_def)
  ultimately show ?thesis using r2 r3 par by auto
qed

text \<open>
  C20.  An error-free execution completes: with no failure pending and the rollback point below the
  level of the leaf, \<open>Complete\<close> returns \<open>kOK\<close>, the leaf stays on the path but is
  suspended and no longer begun, its sequential number and the sequence number of its phase go up
  by one, the parent phase becomes current, and no failure is pending afterwards.
\<close>

theorem Complete_error_free:
  assumes "stack_ok r ns" and "IsGood r"
    and "o_level (r_objs r ! last (r_path r)) < r_rollback_point r"
    and "o_exec_mode (r_objs r ! last (r_path r)) \<noteq> kSuspension"
  shows "\<exists>r'. CDHandle_Complete now (last (r_path r)) r = Inr (r', Return kOK) \<and> r_path r' = r_path r \<and>
    r_objs r' = (r_objs r)[last (r_path r) := finish_obj (r_objs r ! last (r_path r))] \<and> IsGood r' \<and>
    r_current r' = (if length (r_path r) = 1 then None else Some (last (butlast ns))) \<and>
    pn_seq_end (r_heap r' ! last ns) = pn_seq_end (r_heap r ! last ns) + 1"
proof -
  let ?r = "r\<lparr>r_glob := (r_glob r)\<lparr>g_begin_clk := now\<rparr>\<rparr>"
  have g: "IsGood ?r" "\<not> IsFailed ?r" "\<not> IsFailed r" "\<not> r_tuning_enabled r"
    using assms(1,2) by (simp_all add: IsGood_def IsFailed_def stack_ok_def)
  then have "check_recovered now (last (r_path r)) ?r = Inr ?r" by (simp add: check_recovered_def)
  from CDHandle_Complete_no_error [OF assms(1,3,4) this] g show ?thesis by simp
qed

theorem Complete_error_free_witness:
  "\<exists>r r'. scenario_1 = Inr (r, Return kOK) \<and> CDHandle_Complete 4 1 r = Inr (r', Return kOK) \<and>
     r_current r' = Some 0"
proof -
  obtain r where r: "scenario_1 = Inr (r, Return kOK)" "stack_ok r [0, 1]" "IsGood r" "r_path r = [0, 1]"
    "o_exec_mode (r_objs r ! 1) = kExecution"
    using scenario_1_ok by blast
  have "o_level (r_objs r ! 1) < r_rollback_point r"
    using r(1) by (auto simp: core_eval tree_eval prof_eval word_less_nat_alt)
  then show ?thesis using Complete_error_free [OF r(2,3), of 4] r by auto
qed

text \<open>
  C3.  Recovery ends at the failed point: when the failed phase completes without a new error at the
  sequence number at which it failed, \<open>Complete\<close> returns \<open>kOK\<close> and the process is
  healthy again.
\<close>

theorem Complete_at_failed_point:
  assumes "stack_ok r ns" and "heap_wf (r_heap r)"
    and "r_failed_phase r = uint (o_phase (r_objs r ! last (r_path r)))"
    and "r_failed_seqID r = sint (pn_seq_end (r_heap r ! last ns))"
    and "pn_state (r_heap r ! last ns) = kReexecution" and "\<not> g_is_error_free (r_glob r)"
    and "o_level (r_objs r ! last (r_path r)) < r_rollback_point r"
    and "o_exec_mode (r_objs r ! last (r_path r)) \<noteq> kSuspension"
  shows "\<exists>r'. CDHandle_Complete now (last (r_path r)) r = Inr (r', Return kOK) \<and> IsGood r' \<and>
    r_path r' = r_path r \<and> r_current r' = (if length (r_path r) = 1 then None else Some (last (butlast ns)))"
proof -
  let ?r = "r\<lparr>r_glob := (r_glob r)\<lparr>g_begin_clk := now\<rparr>\<rparr>" and ?cur = "last ns"
  let ?rh = "?r\<lparr>r_failed_phase := HEALTHY, r_failed_seqID := HEALTHY\<rparr>"
  have cur: "r_current r = Some ?cur" "\<not> r_tuning_enabled r" using assms(1) by (simp_all add: stack_ok_def)
  have "r_failed_phase r \<noteq> - 1"
    using assms(3) uint_ge_0 [of "o_phase (r_objs r ! last (r_path r))"] by linarith
  then have f: "IsFailed ?r" by (simp add: IsFailed_def HEALTHY_def)
  let ?h = "reset_where (under (r_heap r) (recovery_top (r_heap r) ?cur)) (r_heap r)"
  have fr: "FinishRecovery ?cur (r_heap r) = Inr ?h"
    using FinishRecovery_n_spec [OF assms(2) _ _ assms(5), of "length (r_heap r)"] stack_ok_last(4) [OF assms(1)]
    by (simp add: FinishRecovery_def)
  define r1 where "r1 = (set_heap ?h ?rh)
    \<lparr>r_glob := add_time t_reex (now - r_global_reex_clk r) (r_glob ?r), r_global_reex_clk := now\<rparr>"
  have "check_recovered now (last (r_path r)) ?r = SetHealthy now ?r"
    using f cur assms(3,4) by (simp add: check_recovered_def Let_def)
  also have "\<dots> = Inr r1" using cur fr by (simp add: SetHealthy_def Let_def r1_def)
  finally have chk: "check_recovered now (last (r_path r)) ?r = Inr r1" .
  have r1: "r_objs r1 = r_objs r" "r_path r1 = r_path r" "r_current r1 = r_current r" "IsGood r1"
    "\<not> r_tuning_enabled r1" "map links (r_heap r1) = map links (r_heap r)"
    "IsFailed r \<Longrightarrow> \<not> g_is_error_free (r_glob r1)"
    using cur(2) assms(6) by (simp_all add: r1_def IsGood_def links_reset_where add_time_def)
  from CDHandle_Complete_no_error [OF assms(1,7,8) chk r1] show ?thesis by auto
qed

definition scenario_4 :: "(runtime \<times> control) outcome" where
  "scenario_4 = bind_out scenario_1 (\<lambda>(r, _). bind_out (CDHandle_CDAssert 4 False 1 r) (\<lambda>r.
     bind_out (CDHandle_Complete 5 1 r) (\<lambda>(r, _). CDHandle_Begin 6 1 [] False 0 r)))"

lemma scenario_4_ok:
  "\<exists>r. scenario_4 = Inr (r, Return kOK) \<and> stack_ok r [0, 1] \<and> heap_wf (r_heap r) \<and> r_path r = [0, 1] \<and>
     r_failed_phase r = uint (o_phase (r_objs r ! 1)) \<and>
     r_failed_seqID r = sint (pn_seq_end (r_heap r ! 1)) \<and>
     pn_state (r_heap r ! 1) = kReexecution \<and> \<not> g_is_error_free (r_glob r) \<and>
     o_level (r_objs r ! 1) < r_rollback_point r \<and> o_exec_mode (r_objs r ! 1) \<noteq> kSuspension"
  by (simp add: scenario_4_def scenario_eval stack_ok_def path_ok_def chain_def less_Suc_eq heap_wf_def
      node_wf_def word_less_nat_alt)

theorem Complete_at_failed_point_witness:
  "\<exists>r r'. scenario_4 = Inr (r, Return kOK) \<and> IsFailed r \<and>
     CDHandle_Complete 7 1 r = Inr (r', Return kOK) \<and> IsGood r'"
proof -
  obtain r where r: "scenario_4 = Inr (r, Return kOK)" "stack_ok r [0, 1]" "heap_wf (r_heap r)" "r_path r = [0, 1]"
     "r_failed_phase r = uint (o_phase (r_objs r ! 1))"
     "r_failed_seqID r = sint (pn_seq_end (r_heap r ! 1))"
     "pn_state (r_heap r ! 1) = kReexecution" "\<not> g_is_error_free (r_glob r)"
     "o_level (r_objs r ! 1) < r_rollback_point r" "o_exec_mode (r_objs r ! 1) \<noteq> kSuspension"
    using scenario_4_ok by blast
  have "r_failed_phase r \<noteq> - 1" using r(5) uint_ge_0 [of "o_phase (r_objs r ! 1)"] by linarith
  then have "IsFailed r" by (simp add: IsFailed_def HEALTHY_def)
  then show ?thesis using Complete_at_failed_point [OF r(2,3), of 7] r by auto
qed

end
