(* ===== verification/Attr_Entry.thy ===== *)
theory Attr_Entry
  imports CD_Prelude
begin

text \<open>
  The entries of a preservation table, \<open>persistence/base_store.h\<close>: the union \<open>Attr\<close> of a
  48-bit size with 16 attribute bits, seen both as one \<open>code_\<close> word and through the bit fields
  of \<open>AttrInternal\<close> (allocated from the least significant bit on), and the structures
  \<open>BaseEntry\<close> and \<open>CDEntry\<close>.
\<close>

unbundle bit_operations_syntax

section \<open>Attributes\<close>

definition INVALID_NUM :: uint64 where "INVALID_NUM = 0xFFFFFFFFFFFFFFFF"
definition INVALID_NUM32 :: uint32 where "INVALID_NUM32 = 0xFFFFFFFF"

datatype AttrFlag = kempty | karray | koutput | ktable | knested | ktmpshared | kshare | kremote
  | krefer | kdirty | kinvalid | knoattr

fun AttrFlag_val :: "AttrFlag \<Rightarrow> uint16" where
  "AttrFlag_val kempty = 0x400"
| "AttrFlag_val karray = 0x200"
| "AttrFlag_val koutput = 0x100"
| "AttrFlag_val ktable = 0x080"
| "AttrFlag_val knested = 0x040"
| "AttrFlag_val ktmpshared = 0x020"
| "AttrFlag_val kshare = 0x010"
| "AttrFlag_val kremote = 0x008"
| "AttrFlag_val krefer = 0x004"
| "AttrFlag_val kdirty = 0x002"
| "AttrFlag_val kinvalid = 0x001"
| "AttrFlag_val knoattr = 0x000"

text \<open>The bit fields of \<open>AttrInternal\<close> above the size, with the bit each one occupies.\<close>

datatype AttrField = f_output | f_table | f_nested | f_tmpshared | f_share | f_remote | f_refer
  | f_dirty | f_invalid

fun AttrField_bit :: "AttrField \<Rightarrow> nat" where
  "AttrField_bit f_output = 55"
| "AttrField_bit f_table = 56"
| "AttrField_bit f_nested = 57"
| "AttrField_bit f_tmpshared = 58"
| "AttrField_bit f_share = 59"
| "AttrField_bit f_remote = 60"
| "AttrField_bit f_refer = 61"
| "AttrField_bit f_dirty = 62"
| "AttrField_bit f_invalid = 63"

definition attr_size :: "uint64 \<Rightarrow> uint64" where
  "attr_size code = take_bit 48 code"

definition set_size :: "uint64 \<Rightarrow> uint64 \<Rightarrow> uint64" where
  "set_size sz code = (code AND NOT (mask 48)) OR take_bit 48 sz"

definition get_field :: "AttrField \<Rightarrow> uint64 \<Rightarrow> uint64" where
  "get_field f code = drop_bit (AttrField_bit f) code AND 1"

definition set_field :: "AttrField \<Rightarrow> uint64 \<Rightarrow> uint64" where
  "set_field f code = code OR push_bit (AttrField_bit f) 1"

definition Attr_of :: "uint64 \<Rightarrow> uint64 \<Rightarrow> uint64" where
  "Attr_of attr sz = set_size sz (push_bit 48 attr)"

definition SetAll :: "uint64 \<Rightarrow> uint64 \<Rightarrow> uint64" where
  "SetAll attr code = push_bit 48 attr"

definition Attr_Set :: "uint64 \<Rightarrow> uint64 \<Rightarrow> uint64" where
  "Attr_Set attr code = code OR push_bit 48 attr"

definition Attr_Unset :: "uint64 \<Rightarrow> uint64 \<Rightarrow> uint64" where
  "Attr_Unset attr code = code AND NOT (push_bit 48 attr)"

definition attr_bits :: "uint64 \<Rightarrow> uint16" where
  "attr_bits code = ucast (drop_bit 48 code)"

definition CheckAll :: "uint16 \<Rightarrow> uint64 \<Rightarrow> bool" where
  "CheckAll attr code \<longleftrightarrow> attr_bits code XOR attr = 0"

definition CheckAny :: "uint16 \<Rightarrow> uint64 \<Rightarrow> bool" where
  "CheckAny attr code \<longleftrightarrow> attr_bits code AND attr \<noteq> 0"

definition Check :: "uint16 \<Rightarrow> uint64 \<Rightarrow> bool" where
  "Check attr code \<longleftrightarrow> attr_bits code AND attr = attr"

section \<open>Entries\<close>

record BaseEntry =
  b_id :: uint64
  b_size :: uint64
  b_offset :: uint64

definition BaseEntry_of :: "uint64 \<Rightarrow> uint16 \<Rightarrow> uint64 \<Rightarrow> uint64 \<Rightarrow> BaseEntry" where
  "BaseEntry_of ident attr sz off = \<lparr>b_id = ident, b_size = Attr_of (ucast attr) sz, b_offset = off\<rparr>"

record CDEntry =
  e_id :: uint64
  e_size :: uint64
  e_offset :: uint64
  e_src :: uint64

definition CDEntry_default :: CDEntry where
  "CDEntry_default = \<lparr>e_id = 0, e_size = 0, e_offset = 0, e_src = 0\<rparr>"

definition CDEntry_of :: "uint64 \<Rightarrow> uint64 \<Rightarrow> uint64 \<Rightarrow> uint64 \<Rightarrow> uint64 \<Rightarrow> CDEntry" where
  "CDEntry_of ident attr sz off src = \<lparr>e_id = ident, e_size = Attr_of attr sz, e_offset = off, e_src = src\<rparr>"

definition SetOffset :: "uint64 \<Rightarrow> CDEntry \<Rightarrow> CDEntry" where
  "SetOffset off e = e\<lparr>e_offset := off\<rparr>"

definition SetSrc :: "uint64 \<Rightarrow> CDEntry \<Rightarrow> CDEntry" where
  "SetSrc src e = e\<lparr>e_src := src\<rparr>"

definition entry_size :: "CDEntry \<Rightarrow> uint64" where
  "entry_size e = attr_size (e_size e)"

definition entry_invalid :: "CDEntry \<Rightarrow> uint64" where
  "entry_invalid e = get_field f_invalid (e_size e)"

definition entry_attr :: "CDEntry \<Rightarrow> uint64" where
  "entry_attr e = drop_bit 48 (e_size e)"

section \<open>Lemmas\<close>

lemma bit_attr_bits [simp]: "bit (attr_bits code) n \<longleftrightarrow> n < 16 \<and> bit code (n + 48)"
  by (auto simp: attr_bits_def bit_ucast_iff bit_drop_bit_eq add.commute dest: bit_imp_le_length)

lemma bit_set_size: "bit (set_size sz code) n \<longleftrightarrow> (if n < 48 then bit sz n else bit code n)"
  by (auto simp: set_size_def bit_or_iff bit_and_iff bit_not_iff bit_mask_iff bit_take_bit_iff
      dest: bit_imp_le_length)

lemma attr_size_set_size [simp]: "attr_size (set_size sz code) = take_bit 48 sz"
  by (rule bit_eqI) (auto simp: attr_size_def bit_take_bit_iff bit_set_size)

lemma attr_bits_set_size [simp]: "attr_bits (set_size sz code) = attr_bits code"
  by (rule bit_eqI) (simp add: bit_set_size)

lemma bit_push_48: "bit (push_bit 48 a :: uint64) n \<longleftrightarrow> 48 \<le> n \<and> n < 64 \<and> bit a (n - 48)"
  by (auto simp: bit_push_bit_iff)

lemma attr_bits_push [simp]: "attr_bits (push_bit 48 attr) = ucast attr"
  by (rule bit_eqI) (auto simp: bit_push_48 bit_ucast_iff dest: bit_imp_le_length)

lemma attr_bits_Attr_of [simp]: "attr_bits (Attr_of attr sz) = ucast attr"
  by (simp add: Attr_of_def)

lemma attr_size_Attr_of [simp]: "attr_size (Attr_of attr sz) = take_bit 48 sz"
  by (simp add: Attr_of_def)

lemma entry_of_simps [simp]:
  "entry_size (CDEntry_of ident attr sz off src) = take_bit 48 sz"
  "attr_bits (e_size (CDEntry_of ident attr sz off src)) = ucast attr"
  "e_id (CDEntry_of ident attr sz off src) = ident" "e_offset (CDEntry_of ident attr sz off src) = off"
  "e_src (CDEntry_of ident attr sz off src) = src"
  by (simp_all add: entry_size_def CDEntry_of_def)

lemma SetOffset_simps [simp]:
  "e_id (SetOffset off e) = e_id e" "e_size (SetOffset off e) = e_size e" "e_src (SetOffset off e) = e_src e"
  "e_offset (SetOffset off e) = off" "entry_size (SetOffset off e) = entry_size e"
  by (simp_all add: SetOffset_def entry_size_def)

lemma take_bit_48_small: "unat sz < 2 ^ 48 \<Longrightarrow> take_bit 48 sz = sz" for sz :: uint64
  by (metis (no_types, lifting) take_bit_nat_eq_self unsigned_take_bit_eq word_unat_eq_iff)

section \<open>Properties\<close>

text \<open>
  An entry keeps both halves of its \<open>Attr\<close>: building it with attribute bits and a size
  and reading them back gives the same values as long as the size fits in 48 bits, and setting or
  clearing attributes afterwards never changes the size.
\<close>

theorem attr_roundtrip:
  assumes "unat sz < 2 ^ 48"
  shows "attr_size (Attr_of (ucast attr) sz) = sz \<and> CheckAll attr (Attr_of (ucast attr) sz) \<and>
    attr_size (Attr_Set a (Attr_of (ucast attr) sz)) = sz \<and> attr_size (Attr_Unset a (Attr_of (ucast attr) sz)) = sz \<and>
    attr_bits (Attr_Unset (ucast b) (Attr_Set (ucast b) (Attr_of (ucast attr) sz))) = attr AND NOT b"
proof -
  have "attr_size (Attr_Set a c) = attr_size c" "attr_size (Attr_Unset a c) = attr_size c" for a c
    by (rule bit_eqI, auto simp: attr_size_def Attr_Set_def Attr_Unset_def bit_take_bit_iff bit_or_iff bit_and_iff
        bit_not_iff bit_push_48)+
  moreover have "attr_bits (Attr_Unset (ucast b) (Attr_Set (ucast b) c)) = attr_bits c AND NOT b" for c
    by (rule bit_eqI) (auto simp: Attr_Set_def Attr_Unset_def bit_or_iff bit_and_iff bit_not_iff bit_push_48 bit_ucast_iff)
  moreover have "ucast (ucast attr :: uint64) = attr" by (rule bit_eqI) (simp add: bit_ucast_iff)
  ultimately show ?thesis
    using take_bit_48_small [OF assms] by (simp add: CheckAll_def)
qed

theorem attr_roundtrip_witness:
  "attr_size (Attr_of (ucast (0x240 :: uint16)) 4096) = 4096 \<and>
   attr_bits (Attr_Unset (ucast (0x040 :: uint16)) (Attr_Set (ucast (0x040 :: uint16)) (Attr_of (ucast (0x240 :: uint16)) 4096))) = 0x200"
  using attr_roundtrip [of 4096 "0x240" 0 "0x040"] by simp

text \<open>
  The masks of the enumeration in \<open>Attr\<close> and the bit fields of \<open>AttrInternal\<close> do not
  name the same bits: marking an entry invalid with \<open>kinvalid\<close> leaves the field
  \<open>invalid_\<close> that \<open>invalid()\<close> reads at zero, and setting the field \<open>table_\<close>, as
  \<open>TableStore::Advance\<close> does, makes the entry look like a \<open>koutput\<close> entry and not like a
  \<open>ktable\<close> one.
\<close>

theorem attr_masks_and_fields_differ:
  "get_field f_invalid (Attr_Set (ucast (AttrFlag_val kinvalid)) (Attr_of 0 sz)) = 0 \<and>
   Check (AttrFlag_val koutput) (set_field f_table (Attr_of 0 sz)) \<and>
   \<not> Check (AttrFlag_val ktable) (set_field f_table (Attr_of 0 sz))"
proof -
  have m: "Check (2 ^ k) c \<longleftrightarrow> bit c (k + 48)" if "k < 16" for k c
    using that by (auto simp: Check_def and_eq_iff_bits bit_power2_word)
  have b: "bit (set_field f_table (Attr_of 0 sz)) n \<longleftrightarrow> n = 56 \<or> n < 48 \<and> bit sz n" for n
  proof -
    have "set_field f_table c = c OR 2 ^ 56" for c by (simp add: set_field_def)
    then have "bit (set_field f_table c) n \<longleftrightarrow> bit c n \<or> n = 56" for c
      by (simp only: bit_or_iff bit_power2_word) auto
    then show ?thesis by (auto simp: Attr_of_def bit_set_size)
  qed
  have "\<not> bit (Attr_Set (ucast (AttrFlag_val kinvalid)) (Attr_of 0 sz)) 63"
    by (auto simp: Attr_Set_def Attr_of_def bit_or_iff bit_set_size bit_push_48 bit_1_iff)
  then have "get_field f_invalid (Attr_Set (ucast (AttrFlag_val kinvalid)) (Attr_of 0 sz)) = 0"
    using and_1_neq_0_iff [of "drop_bit 63 (Attr_Set (ucast (AttrFlag_val kinvalid)) (Attr_of 0 sz))"]
    by (auto simp: get_field_def bit_drop_bit_eq)
  moreover have "Check (AttrFlag_val koutput) c \<longleftrightarrow> bit c 56" "Check (AttrFlag_val ktable) c \<longleftrightarrow> bit c 55" for c
    using m [of 8 c] m [of 7 c] by simp_all
  ultimately show ?thesis by (simp only: b) simp
qed

end
