(* ===== verification/Table_Store.thy ===== *)
theory Table_Store
  imports Attr_Entry
begin

text \<open>
  The table of preservation entries, \<open>TableStore<CDEntry>\<close> of
  \<open>persistence/table_store.hpp\<close>: a growing array with a tail index.  Counters and byte sizes
  are natural numbers (they count entries in memory, far below the range of \<open>uint64_t\<close>),
  the array is a list whose length is what was allocated, and a store outside of it is the outcome
  \<open>OutOfRange\<close>.  \<open>PACKER_ASSERT\<close> is compiled out, as in the default build.  The
  growing loop of \<open>NeedRealloc\<close> never ends when the growing unit is zero, so it is a partial
  function.
\<close>

unbundle bit_operations_syntax

section \<open>State\<close>

datatype CDErrType = kPackerOK | kAlreadyAllocated | kMallocFailed | kAlreadyFree | kNotFound
  | kOutOfTable | kErrorFileWrite | kErrorFileSeek

definition sizeof_CDEntry :: nat where "sizeof_CDEntry = 32"
definition BASE_ENTRY_CNT :: nat where "BASE_ENTRY_CNT = 128"
definition BUFFER_INSUFFICIENT :: uint64 where "BUFFER_INSUFFICIENT = 0xFFFFFFFFFFFFFFFF"

record TableStore =
  t_size :: nat
  t_tail :: nat
  t_head :: nat
  t_advance_point :: nat
  t_grow_unit :: nat
  t_allocated :: nat
  t_ptr :: "CDEntry list option"
  t_prv_entry :: CDEntry

section \<open>Allocation\<close>

definition AllocateTable :: "nat \<Rightarrow> TableStore \<Rightarrow> TableStore \<times> CDErrType" where
  "AllocateTable entry_cnt t =
     (let t = t\<lparr>t_head := 0, t_tail := t_advance_point t\<rparr> in
      if entry_cnt \<noteq> 0 then
        let t = t\<lparr>t_grow_unit := entry_cnt\<rparr> in
        case t_ptr t of
          None \<Rightarrow> (t\<lparr>t_ptr := Some (replicate entry_cnt CDEntry_default),
                     t_size := entry_cnt * sizeof_CDEntry, t_allocated := t_allocated t + 1\<rparr>, kPackerOK)
        | Some _ \<Rightarrow> (t, kAlreadyAllocated)
      else (t, kMallocFailed))"

text \<open>
  The constructors; \<open>sz\<close> stands for the indeterminate value that \<open>size_\<close> has before
  \<open>AllocateTable\<close> sets it, \<open>tid\<close> for the counter \<open>table_id\<close>.
\<close>

definition TableStore_ctor :: "nat \<Rightarrow> uint64 \<Rightarrow> nat \<Rightarrow> TableStore" where
  "TableStore_ctor alloc tid sz =
     fst (AllocateTable alloc
       \<lparr>t_size = sz, t_tail = 0, t_head = 0, t_advance_point = 0, t_grow_unit = 32, t_allocated = 0,
        t_ptr = None, t_prv_entry = CDEntry_default\<lparr>e_id := tid, e_offset := INVALID_NUM\<rparr>\<rparr>)"

definition TableStore_view :: "CDEntry list \<Rightarrow> nat \<Rightarrow> uint64 \<Rightarrow> TableStore" where
  "TableStore_view ptr_table len_in_byte tid =
     \<lparr>t_size = len_in_byte, t_tail = 0, t_head = 0, t_advance_point = 0,
      t_grow_unit = (if len_in_byte > 0 then len_in_byte * 2 else 32), t_allocated = 0,
      t_ptr = Some ptr_table, t_prv_entry = CDEntry_default\<lparr>e_id := tid, e_offset := INVALID_NUM\<rparr>\<rparr>"

definition Table_Reset :: "nat \<Rightarrow> TableStore \<Rightarrow> TableStore" where
  "Table_Reset tail t = t\<lparr>t_tail := tail, t_advance_point := tail\<rparr>"

definition Table_Init :: "TableStore \<Rightarrow> TableStore" where
  "Table_Init t =
     (let t = t\<lparr>t_prv_entry := (t_prv_entry t)\<lparr>e_id := e_id (t_prv_entry t) + 1, e_offset := INVALID_NUM\<rparr>,
               t_head := 0, t_tail := 0, t_advance_point := 0\<rparr>
      in if t_size t > 0 then t\<lparr>t_grow_unit := t_size t * 2\<rparr> else t)"

partial_function (option) grow_table :: "nat \<Rightarrow> nat \<Rightarrow> nat \<Rightarrow> (nat \<times> nat) option" where
  "grow_table need grow sz =
     (if need > sz then grow_table need (2 * grow) (2 * grow * sizeof_CDEntry) else Some (grow, sz))"

definition NeedRealloc :: "nat \<Rightarrow> TableStore \<Rightarrow> (TableStore \<times> bool) outcome" where
  "NeedRealloc cnt t =
     (let need = (t_tail t + cnt) * sizeof_CDEntry in
      case grow_table need (t_grow_unit t) (t_size t) of
        None \<Rightarrow> Inl (Blocked ''NeedRealloc'')
      | Some (g, s) \<Rightarrow> Inr (t\<lparr>t_grow_unit := g, t_size := s\<rparr>, need > t_size t))"

definition Table_Reallocate :: "TableStore \<Rightarrow> TableStore" where
  "Table_Reallocate t =
     (case t_ptr t of
        Some xs \<Rightarrow> t\<lparr>t_ptr := Some (take (t_tail t) xs @ replicate (t_grow_unit t - t_tail t) CDEntry_default),
                     t_allocated := t_allocated t + 1\<rparr>
      | None \<Rightarrow> fst (AllocateTable BASE_ENTRY_CNT t))"

definition Table_Free :: "bool \<Rightarrow> TableStore \<Rightarrow> TableStore \<times> CDErrType" where
  "Table_Free reuse t =
     (let t = t\<lparr>t_tail := 0, t_advance_point := 0, t_allocated := 0\<rparr> in
      if \<not> reuse then
        let t = t\<lparr>t_size := 0, t_grow_unit := BASE_ENTRY_CNT\<rparr> in
        case t_ptr t of
          Some _ \<Rightarrow> (t\<lparr>t_ptr := None\<rparr>, kPackerOK)
        | None \<Rightarrow> (t, kAlreadyFree)
      else (t, kPackerOK))"

section \<open>Insertion\<close>

definition reserve :: "nat \<Rightarrow> TableStore \<Rightarrow> TableStore outcome" where
  "reserve cnt t =
     bind_out (NeedRealloc cnt t) (\<lambda>(t, need). Inr (if need then Table_Reallocate t else t))"

definition store_at_tail :: "CDEntry list \<Rightarrow> TableStore \<Rightarrow> TableStore outcome" where
  "store_at_tail es t =
     bind_out (deref ''ptr_'' (t_ptr t)) (\<lambda>xs.
       if t_tail t + length es \<le> length xs then
         Inr (t\<lparr>t_ptr := Some (take (t_tail t) xs @ es @ drop (t_tail t + length es) xs),
                t_tail := t_tail t + length es\<rparr>)
       else Inl (OutOfRange ''ptr_[tail_]''))"

definition Insert :: "CDEntry \<Rightarrow> TableStore \<Rightarrow> (TableStore \<times> nat) outcome" where
  "Insert e t =
     bind_out (reserve 1 t) (\<lambda>t.
     bind_out (store_at_tail [e] t) (\<lambda>t.
       Inr (t, t_tail t * sizeof_CDEntry)))"

text \<open>\<open>InsertEntry\<close> returns the address of the new entry, here its index.\<close>

definition InsertEntry :: "CDEntry \<Rightarrow> TableStore \<Rightarrow> (TableStore \<times> nat) outcome" where
  "InsertEntry e t =
     bind_out (reserve 1 t) (\<lambda>t.
     bind_out (assert_out ''size_'' (t_size t \<noteq> 0)) (\<lambda>_.
     let ret = t_tail t mod t_size t in
     bind_out (store_at_tail [e] t) (\<lambda>t. Inr (t, ret))))"

definition Insert_n :: "CDEntry list \<Rightarrow> TableStore \<Rightarrow> (TableStore \<times> nat) outcome" where
  "Insert_n es t =
     bind_out (reserve (length es) t) (\<lambda>t.
     bind_out (store_at_tail es t) (\<lambda>t.
       Inr (t, t_tail t * sizeof_CDEntry)))"

section \<open>Search\<close>

text \<open>The filled part of the array, which every search walks.\<close>

definition entries :: "TableStore \<Rightarrow> CDEntry list" where
  "entries t = take (t_tail t) (the (t_ptr t))"

fun find_from :: "uint64 \<Rightarrow> nat \<Rightarrow> CDEntry list \<Rightarrow> nat option" where
  "find_from ident i [] = None"
| "find_from ident i (e # es) = (if e_id e = ident then Some i else find_from ident (Suc i) es)"

definition Table_Find :: "uint64 \<Rightarrow> TableStore \<Rightarrow> nat option" where
  "Table_Find ident t = find_from ident 0 (entries t)"

definition Find_data :: "uint64 \<Rightarrow> TableStore \<Rightarrow> CDErrType \<times> (uint64 \<times> uint64) option" where
  "Find_data ident t =
     (case Table_Find ident t of
        None \<Rightarrow> (kNotFound, None)
      | Some i \<Rightarrow> (kPackerOK, Some (entry_size (entries t ! i), e_offset (entries t ! i))))"

text \<open>
  \<open>FindReverse\<close> with the default bounds: from the last entry down to the first.  With an
  attribute it stops the process as soon as an entry with this identifier has the attribute.
\<close>

fun find_reverse :: "CDEntry list \<Rightarrow> uint64 \<Rightarrow> uint16 \<Rightarrow> nat \<Rightarrow> nat option outcome" where
  "find_reverse xs tag attr 0 = Inr None"
| "find_reverse xs tag attr (Suc i) =
     (if e_id (xs ! i) = tag then
        if attr = AttrFlag_val knoattr then Inr (Some i)
        else if Check attr (e_size (xs ! i)) then Inl (AssertFailed ''0'')
        else find_reverse xs tag attr i
      else find_reverse xs tag attr i)"

definition FindReverse :: "uint64 \<Rightarrow> uint16 \<Rightarrow> TableStore \<Rightarrow> nat option outcome" where
  "FindReverse tag attr t = find_reverse (entries t) tag attr (t_tail t)"

fun find_offset :: "uint64 \<Rightarrow> nat \<Rightarrow> CDEntry list \<Rightarrow> nat option" where
  "find_offset off i [] = None"
| "find_offset off i (e # es) = (if e_offset e = off then Some i else find_offset off (Suc i) es)"

definition FindWithOffset :: "uint64 \<Rightarrow> nat \<Rightarrow> TableStore \<Rightarrow> nat option" where
  "FindWithOffset off table_offset t = find_offset off table_offset (drop table_offset (entries t))"

text \<open>\<open>FindWithAttr\<close> compacts the table in place, from \<open>begin\<close> on.\<close>

fun compact :: "uint16 \<Rightarrow> bool \<Rightarrow> nat \<Rightarrow> nat \<Rightarrow> nat \<Rightarrow> CDEntry list \<Rightarrow> CDEntry list \<times> nat" where
  "compact attr is_true begin i 0 xs = (xs, begin)"
| "compact attr is_true begin i (Suc n) xs =
     (if CheckAny attr (e_size (xs ! i)) = is_true
      then compact attr is_true (Suc begin) (Suc i) n (xs[begin := xs ! i])
      else compact attr is_true begin (Suc i) n xs)"

definition FindWithAttr :: "uint16 \<Rightarrow> nat \<Rightarrow> bool \<Rightarrow> TableStore \<Rightarrow> TableStore \<times> nat" where
  "FindWithAttr attr begin is_true t =
     (case compact attr is_true begin begin (t_tail t - begin) (the (t_ptr t)) of
        (xs, tail) \<Rightarrow> (t\<lparr>t_ptr := Some xs, t_tail := tail\<rparr>, tail))"

fun insert_all :: "CDEntry list \<Rightarrow> TableStore \<Rightarrow> TableStore outcome" where
  "insert_all [] t = Inr t"
| "insert_all (e # es) t = bind_out (Insert e t) (\<lambda>(t, _). insert_all es t)"

definition FindWithAttr_into :: "uint16 \<Rightarrow> nat \<Rightarrow> bool \<Rightarrow> TableStore \<Rightarrow> TableStore \<Rightarrow> (TableStore \<times> nat) outcome" where
  "FindWithAttr_into attr begin is_true t that =
     bind_out (insert_all (filter (\<lambda>e. CheckAny attr (e_size e) = is_true) (drop begin (entries t))) that)
       (\<lambda>that. Inr (that, t_tail that))"

definition Table_used :: "TableStore \<Rightarrow> int" where
  "Table_used t = int (t_tail t) - int (t_head t)"

definition Table_GetAt :: "nat \<Rightarrow> TableStore \<Rightarrow> CDErrType \<times> (uint64 \<times> uint64 \<times> uint64) option" where
  "Table_GetAt idx t =
     (if int idx < Table_used t then
        let e = the (t_ptr t) ! ((t_head t + idx) mod t_size t)
        in (kPackerOK, Some (e_id e, entry_size e, e_offset e))
      else (kOutOfTable, None))"

definition usedsize :: "TableStore \<Rightarrow> int" where
  "usedsize t = Table_used t * int sizeof_CDEntry"

definition tablesize :: "TableStore \<Rightarrow> int outcome" where
  "tablesize t =
     bind_out (assert_out ''0'' (int (t_tail t) - int (t_advance_point t) \<ge> 0)) (\<lambda>_.
       Inr ((int (t_tail t) - int (t_advance_point t)) * int sizeof_CDEntry))"

text \<open>\<open>Advance(offset)\<close> closes the current chunk of the table; \<open>tid\<close> is \<open>table_id\<close>.\<close>

definition Advance :: "uint64 \<Rightarrow> uint64 \<Rightarrow> TableStore \<Rightarrow> (TableStore \<times> uint64 \<times> nat) outcome" where
  "Advance off tid t =
     bind_out (Insert (t_prv_entry t) t) (\<lambda>(t, _).
       let table_size = of_nat (t_tail t - t_advance_point t);
           p = t_prv_entry t;
           p = p\<lparr>e_id := tid, e_offset := off, e_size := set_field f_table (set_size table_size (e_size p))\<rparr>
       in Inr (t\<lparr>t_advance_point := t_tail t, t_prv_entry := p\<rparr>, tid + 1, t_tail t))"

fun chunk_to_fetch :: "nat \<Rightarrow> uint64 \<Rightarrow> uint64 \<Rightarrow> CDEntry list \<Rightarrow> nat \<times> uint64" where
  "chunk_to_fetch idx fetchsize datasize [] = (idx, datasize)"
| "chunk_to_fetch idx fetchsize datasize (e # es) =
     (if entry_size e + datasize < fetchsize
      then chunk_to_fetch (Suc idx) fetchsize (datasize + entry_size e) es
      else (idx, datasize))"

definition GetChunkToFetch :: "uint64 \<Rightarrow> nat \<Rightarrow> TableStore \<Rightarrow> nat \<times> uint64" where
  "GetChunkToFetch fetchsize idx t =
     (case chunk_to_fetch idx fetchsize 0 (drop idx (entries t)) of
        (i, datasize) \<Rightarrow> (i, if i \<noteq> idx then datasize else BUFFER_INSUFFICIENT))"

section \<open>The growing loop\<close>

lemma grow_table_ends:
  assumes "0 < grow"
  shows "\<exists>g s. grow_table need grow sz = Some (g, s) \<and> need \<le> s \<and> 0 < g \<and>
    (if need \<le> sz then g = grow \<and> s = sz else s = g * sizeof_CDEntry)"
  using assms
proof (induction "need - grow" arbitrary: grow sz rule: less_induct)
  case less
  show ?case
  proof (cases "need \<le> sz")
    case True
    then show ?thesis using less.prems by (subst grow_table.simps) simp
  next
    case False
    let ?g = "2 * grow" and ?s = "2 * grow * sizeof_CDEntry"
    have step: "grow_table need grow sz = grow_table need ?g ?s"
      using False by (subst grow_table.simps) simp
    have "\<exists>g s. grow_table need ?g ?s = Some (g, s) \<and> need \<le> s \<and> 0 < g \<and> s = g * sizeof_CDEntry"
    proof (cases "need \<le> grow")
      case True
      then have "need \<le> ?s" by (simp add: sizeof_CDEntry_def)
      then show ?thesis using less.prems by (subst grow_table.simps) simp
    next
      case False
      then have "need - ?g < need - grow" using less.prems by simp
      from less.hyps [OF this] less.prems show ?thesis by (fastforce split: if_splits)
    qed
    then show ?thesis using step False by auto
  qed
qed

lemma grow_table_stuck:
  assumes "sz < need"
  shows "grow_table need 0 sz = None"
proof (rule ccontr)
  have "\<not> (grow = 0 \<and> sz < need)" if "grow_table need grow sz = Some y" for need grow sz y
    by (rule grow_table.raw_induct [of "\<lambda>need grow sz y. \<not> (grow = 0 \<and> sz < need)", OF _ that])
      (fastforce split: if_splits)
  moreover assume "grow_table need 0 sz \<noteq> None"
  ultimately show False using assms by blast
qed

section \<open>The table as a list of entries\<close>

definition tbl_ok :: "TableStore \<Rightarrow> bool" where
  "tbl_ok t \<longleftrightarrow> t_head t = 0 \<and> 0 < t_grow_unit t \<and> t_advance_point t \<le> t_tail t \<and>
     (case t_ptr t of None \<Rightarrow> False
      | Some xs \<Rightarrow> t_size t = length xs * sizeof_CDEntry \<and> t_tail t \<le> length xs)"

lemma tbl_ok_Some:
  assumes "tbl_ok t"
  obtains xs where "t_ptr t = Some xs" "t_size t = length xs * sizeof_CDEntry" "t_tail t \<le> length xs"
    "entries t = take (t_tail t) xs" "length (entries t) = t_tail t"
  using assms by (auto simp: tbl_ok_def entries_def split: option.splits)

lemma reserve_spec:
  assumes "tbl_ok t"
  shows "\<exists>t' xs. reserve cnt t = Inr t' \<and> tbl_ok t' \<and> entries t' = entries t \<and> t_ptr t' = Some xs \<and>
    t_tail t' = t_tail t \<and> t_tail t + cnt \<le> length xs"
proof -
  obtain xs where xs: "t_ptr t = Some xs" "t_size t = length xs * sizeof_CDEntry" "t_tail t \<le> length xs"
    "entries t = take (t_tail t) xs" "length (entries t) = t_tail t" using assms by (rule tbl_ok_Some)
  let ?need = "(t_tail t + cnt) * sizeof_CDEntry"
  have g0: "0 < t_grow_unit t" using assms by (simp add: tbl_ok_def)
  obtain g s where gs: "grow_table ?need (t_grow_unit t) (t_size t) = Some (g, s)" "?need \<le> s" "0 < g"
    "if ?need \<le> t_size t then g = t_grow_unit t \<and> s = t_size t else s = g * sizeof_CDEntry"
    using grow_table_ends [OF g0, of ?need "t_size t"] by (elim exE conjE) (rule that)
  have n: "NeedRealloc cnt t = Inr (t\<lparr>t_grow_unit := g, t_size := s\<rparr>, ?need > t_size t)"
    using gs(1) by (simp add: NeedRealloc_def)
  show ?thesis
  proof (cases "?need \<le> t_size t")
    case True
    then have "reserve cnt t = Inr t" using n gs(4) by (simp add: reserve_def)
    then show ?thesis using True xs assms by (auto simp: sizeof_CDEntry_def)
  next
    case False
    then have g: "t_tail t + cnt \<le> g" "s = g * sizeof_CDEntry" using gs(2,4) by (auto simp: sizeof_CDEntry_def)
    then show ?thesis using n xs assms False gs(3)
      by (auto simp: reserve_def Table_Reallocate_def tbl_ok_def entries_def)
  qed
qed

lemma store_at_tail_spec:
  assumes "tbl_ok t" "t_ptr t = Some xs" "t_tail t + length es \<le> length xs"
  shows "\<exists>t'. store_at_tail es t = Inr t' \<and> tbl_ok t' \<and> entries t' = entries t @ es \<and>
    t_tail t' = t_tail t + length es"
  using assms by (auto simp: store_at_tail_def tbl_ok_def entries_def)

lemma InsertEntry_spec:
  assumes "tbl_ok t"
  shows "\<exists>t'. InsertEntry e t = Inr (t', length (entries t)) \<and> tbl_ok t' \<and> entries t' = entries t @ [e]"
proof -
  obtain t1 xs where t1: "reserve 1 t = Inr t1" "tbl_ok t1" "entries t1 = entries t" "t_ptr t1 = Some xs"
    "t_tail t1 = t_tail t" "t_tail t + 1 \<le> length xs" using reserve_spec [OF assms, of 1] by blast
  then obtain t2 where t2: "store_at_tail [e] t1 = Inr t2" "tbl_ok t2" "entries t2 = entries t @ [e]"
    using store_at_tail_spec [of t1 xs "[e]"] by auto
  have "t_size t1 = length xs * sizeof_CDEntry" using t1(2,4) by (simp add: tbl_ok_def)
  then have "t_tail t1 mod t_size t1 = t_tail t" "t_size t1 \<noteq> 0"
    using t1(5,6) by (auto simp: sizeof_CDEntry_def)
  moreover have "length (entries t) = t_tail t" using assms by (rule tbl_ok_Some)
  ultimately show ?thesis using t1(1) t2 by (auto simp: InsertEntry_def Let_def)
qed

lemma Insert_spec:
  assumes "tbl_ok t"
  shows "\<exists>t' n. Insert e t = Inr (t', n) \<and> tbl_ok t' \<and> entries t' = entries t @ [e]"
proof -
  obtain t1 xs where t1: "reserve 1 t = Inr t1" "tbl_ok t1" "entries t1 = entries t" "t_ptr t1 = Some xs"
    "t_tail t1 = t_tail t" "t_tail t + 1 \<le> length xs" using reserve_spec [OF assms, of 1] by blast
  then obtain t2 where "store_at_tail [e] t1 = Inr t2" "tbl_ok t2" "entries t2 = entries t @ [e]"
    using store_at_tail_spec [of t1 xs "[e]"] by auto
  then show ?thesis using t1(1) by (auto simp: Insert_def)
qed

section \<open>Searching\<close>

lemma find_reverse_none: "find_reverse xs tag 0 n = Inr None \<longleftrightarrow> (\<forall>i<n. e_id (xs ! i) \<noteq> tag)"
  by (induction n) (auto simp: less_Suc_eq)

lemma find_reverse_some:
  "find_reverse xs tag 0 n = Inr (Some i) \<longleftrightarrow>
     i < n \<and> e_id (xs ! i) = tag \<and> (\<forall>j. i < j \<and> j < n \<longrightarrow> e_id (xs ! j) \<noteq> tag)"
  by (induction n) (auto simp: less_Suc_eq)

lemma find_reverse_cong:
  "(\<And>i. i < n \<Longrightarrow> xs ! i = ys ! i) \<Longrightarrow> find_reverse xs tag attr n = find_reverse ys tag attr n"
  by (induction n) auto

lemma find_reverse_snoc:
  "find_reverse (xs @ [e]) tag 0 (Suc (length xs)) =
     (if e_id e = tag then Inr (Some (length xs)) else find_reverse xs tag 0 (length xs))"
  using find_reverse_cong [of "length xs" "xs @ [e]" xs tag 0] by (simp add: nth_append)

section \<open>The interface of the table\<close>

text \<open>
  What the preservation code relies on: inserting appends an entry and returns its position, and a
  search returns the position of the latest entry with the identifier.
\<close>

locale entry_log =
  fixes inv :: "'s \<Rightarrow> bool"
    and view :: "'s \<Rightarrow> 'e list"
    and key :: "'e \<Rightarrow> 'k"
    and ins :: "'e \<Rightarrow> 's \<Rightarrow> ('s \<times> nat) outcome"
    and look :: "'k \<Rightarrow> 's \<Rightarrow> nat option outcome"
  assumes ins_ok: "inv s \<Longrightarrow> \<exists>s'. ins e s = Inr (s', length (view s)) \<and> inv s' \<and> view s' = view s @ [e]"
    and look_None: "inv s \<Longrightarrow> look k s = Inr None \<longleftrightarrow> k \<notin> key ` set (view s)"
    and look_Some: "inv s \<Longrightarrow> look k s = Inr (Some i) \<longleftrightarrow>
      i < length (view s) \<and> key (view s ! i) = k \<and> (\<forall>j. i < j \<and> j < length (view s) \<longrightarrow> key (view s ! j) \<noteq> k)"
begin

lemma look_last: "inv s \<Longrightarrow> view s = es @ [e] \<Longrightarrow> look (key e) s = Inr (Some (length es))"
  by (subst look_Some) auto

lemma look_skip:
  assumes "inv s" "inv s'" "view s' = view s @ [e]" "key e \<noteq> k" "look k s = Inr p"
  shows "look k s' = Inr p"
proof (cases p)
  case None
  then show ?thesis using assms by (auto simp: look_None)
next
  case (Some i)
  have "look k s' = Inr (Some i)"
    using assms Some look_Some [OF assms(1), of k i]
    by (subst look_Some [OF assms(2)]) (auto simp: nth_append less_Suc_eq)
  then show ?thesis using Some by simp
qed

lemma look_total: "inv s \<Longrightarrow> k \<in> key ` set (view s) \<Longrightarrow> \<exists>i. look k s = Inr (Some i) \<and> i < length (view s)"
proof -
  assume s: "inv s" and "k \<in> key ` set (view s)"
  then have ne: "{i. i < length (view s) \<and> key (view s ! i) = k} \<noteq> {}" (is "?S \<noteq> _")
    by (auto simp: in_set_conv_nth)
  have fin: "finite ?S" by simp
  have "Max ?S \<in> ?S" using Max_in [OF fin ne] .
  moreover have "key (view s ! j) \<noteq> k" if "Max ?S < j" "j < length (view s)" for j
  proof
    assume "key (view s ! j) = k"
    then have "j \<in> ?S" using that by simp
    from Max_ge [OF fin this] that show False by simp
  qed
  ultimately show ?thesis using look_Some [OF s, of k "Max ?S"] by blast
qed

lemma ins_look:
  assumes "inv s" "ins e s = Inr (s', p)"
  shows "inv s' \<and> look (key e) s' = Inr (Some p) \<and> view s' ! p = e \<and>
    (\<forall>k q. k \<noteq> key e \<longrightarrow> look k s = Inr q \<longrightarrow> look k s' = Inr q)"
proof -
  have s': "inv s'" "view s' = view s @ [e]" "p = length (view s)" using ins_ok [OF assms(1), of e] assms(2) by auto
  then show ?thesis using look_last [OF s'(1,2)] look_skip [OF assms(1) s'(1,2)] by auto
qed

end

interpretation tbl: entry_log tbl_ok entries e_id InsertEntry "\<lambda>k. FindReverse k 0"
proof
  fix s k i
  assume ok: "tbl_ok s"
  have l: "length (entries s) = t_tail s" using ok by (rule tbl_ok_Some)
  show "FindReverse k 0 s = Inr None \<longleftrightarrow> k \<notin> e_id ` set (entries s)"
  proof -
    have "k \<notin> e_id ` set (entries s) \<longleftrightarrow> (\<forall>e \<in> set (entries s). e_id e \<noteq> k)" by auto
    then show ?thesis using l by (simp add: FindReverse_def find_reverse_none all_set_conv_all_nth)
  qed
  show "FindReverse k 0 s = Inr (Some i) \<longleftrightarrow> i < length (entries s) \<and> e_id (entries s ! i) = k \<and>
      (\<forall>j. i < j \<and> j < length (entries s) \<longrightarrow> e_id (entries s ! j) \<noteq> k)"
    using l by (simp add: FindReverse_def find_reverse_some)
qed (rule InsertEntry_spec)

section \<open>Compaction\<close>

lemma compact_spec:
  assumes "k \<le> i" "i + n \<le> length xs"
  shows "compact attr b k i n xs = (ys, m) \<Longrightarrow>
    length ys = length xs \<and> take m ys = take k xs @ filter (\<lambda>e. CheckAny attr (e_size e) = b) (take n (drop i xs)) \<and>
    m \<le> i + n"
  using assms
proof (induction attr b k i n xs arbitrary: ys m rule: compact.induct)
  case (2 attr b k i n xs)
  have d: "take (Suc n) (drop i xs) = xs ! i # take n (drop (Suc i) xs)"
    using 2(5) by (simp add: Cons_nth_drop_Suc [symmetric])
  show ?case
  proof (cases "CheckAny attr (e_size (xs ! i)) = b")
    case True
    have "take (Suc k) (xs[k := xs ! i]) = take k xs @ [xs ! i]"
      using 2(4,5) by (simp add: take_Suc_conv_app_nth)
    moreover have "drop (Suc i) (xs[k := xs ! i]) = drop (Suc i) xs"
      using 2(4) by simp
    ultimately show ?thesis using 2(1) [OF True, of ys m] 2(3,4,5) True d by simp
  next
    case False
    then show ?thesis using 2(2) [OF False, of ys m] 2(3,4,5) d by simp
  qed
qed auto

section \<open>Properties\<close>

text \<open>
  C22.  The table is a log searched from its end: on a well-formed table \<open>InsertEntry\<close> succeeds,
  growing the array when it is full, keeps the table well formed and every entry in place, and
  \<open>FindReverse\<close> then returns the new entry for its identifier and what it returned before for
  every other identifier.
\<close>

theorem InsertEntry_then_FindReverse:
  assumes "tbl_ok t"
  shows "\<exists>t' p. InsertEntry e t = Inr (t', p) \<and> tbl_ok t' \<and> entries t' = entries t @ [e] \<and>
    FindReverse (e_id e) 0 t' = Inr (Some p) \<and>
    (\<forall>k. k \<noteq> e_id e \<longrightarrow> FindReverse k 0 t' = FindReverse k 0 t)"
proof -
  obtain t' where t': "InsertEntry e t = Inr (t', length (entries t))" "tbl_ok t'" "entries t' = entries t @ [e]"
    using InsertEntry_spec [OF assms] by blast
  have "FindReverse k 0 t \<in> range Inr" for k
    using tbl.look_None [OF assms, of k] tbl.look_total [OF assms, of k] by (metis rangeI)
  then show ?thesis using tbl.ins_look [OF assms t'(1)] t' by fastforce
qed

theorem InsertEntry_then_FindReverse_witness:
  "\<exists>t' p. InsertEntry (CDEntry_of 7 0 16 0 0) (TableStore_ctor 1 0 0) = Inr (t', p) \<and>
     FindReverse 7 0 t' = Inr (Some p)"
proof -
  have "tbl_ok (TableStore_ctor 1 0 0)"
    by (simp add: TableStore_ctor_def AllocateTable_def tbl_ok_def Let_def)
  from InsertEntry_then_FindReverse [OF this, of "CDEntry_of 7 0 16 0 0"] show ?thesis by auto
qed

text \<open>
  \<open>FindWithAttr\<close> on a table keeps, from the starting index on, exactly the entries whose
  attributes meet the mask (or do not, when \<open>is_true\<close> is false), in their order.
\<close>

theorem FindWithAttr_filters:
  assumes "tbl_ok t" "k \<le> t_tail t" "t_advance_point t \<le> k"
  shows "tbl_ok (fst (FindWithAttr attr k b t)) \<and>
    entries (fst (FindWithAttr attr k b t)) =
      take k (entries t) @ filter (\<lambda>e. CheckAny attr (e_size e) = b) (drop k (entries t))"
proof -
  obtain xs where xs: "t_ptr t = Some xs" "t_size t = length xs * sizeof_CDEntry" "t_tail t \<le> length xs"
    "entries t = take (t_tail t) xs" "length (entries t) = t_tail t" using assms(1) by (rule tbl_ok_Some)
  obtain ys m where c: "compact attr b k k (t_tail t - k) xs = (ys, m)" by fastforce
  have "length ys = length xs \<and>
    take m ys = take k xs @ filter (\<lambda>e. CheckAny attr (e_size e) = b) (take (t_tail t - k) (drop k xs)) \<and>
    m \<le> k + (t_tail t - k)"
    using compact_spec [OF _ _ c] assms(2) xs(3) by simp
  moreover have "take (t_tail t - k) (drop k xs) = drop k (entries t)"
    using xs(4) by (simp add: drop_take)
  moreover have "k \<le> m"
    using calculation(1) assms(2) xs(3) by (metis (no_types, lifting) append_take_drop_id le_add1 length_append
      length_take min.absorb2 min.cobounded2 order.trans)
  ultimately show ?thesis
    using assms xs c by (auto simp: FindWithAttr_def tbl_ok_def entries_def min_def)
qed

definition two_entries :: TableStore where
  "two_entries =
     \<lparr>t_size = 64, t_tail = 2, t_head = 0, t_advance_point = 0, t_grow_unit = 2, t_allocated = 1,
      t_ptr = Some [CDEntry_of 1 0x100 8 0 0, CDEntry_of 2 0x200 8 8 0], t_prv_entry = CDEntry_default\<rparr>"

theorem FindWithAttr_filters_witness:
  "entries (fst (FindWithAttr (AttrFlag_val koutput) 0 True two_entries)) = [CDEntry_of 1 0x100 8 0 0]"
proof -
  have "tbl_ok two_entries" by (simp add: tbl_ok_def two_entries_def sizeof_CDEntry_def)
  from FindWithAttr_filters [OF this, of 0 "AttrFlag_val koutput" True] show ?thesis
    by (simp add: two_entries_def entries_def CheckAny_def)
qed

end
