(* ===== verification/Data_Store.thy ===== *)
theory Data_Store
  imports Table_Store CD_Flags
begin

text \<open>
  The buffer that preserved data is copied to, \<open>DataStore\<close> of \<open>persistence/data_store.h\<close> and
  \<open>data_store.cc\<close>: a circular buffer of \<open>size_\<close> bytes with the running positions
  \<open>head_\<close> and \<open>tail_\<close>, backed by a file unless the store is volatile.  Positions and
  sizes are natural numbers (bytes written in a run, far below the range of \<open>uint64_t\<close>); the
  allocated memory and the file are lists of bytes, and a copy outside of the allocated memory is
  the outcome \<open>OutOfRange\<close>.  The header block \<open>MagicStore\<close> in front of the buffer, the
  timers and the deprecated \<open>active_buffer\<close> are left out.  In the bounded mode the writer waits
  for the consumer thread when the buffer is full: that is the outcome \<open>Blocked\<close>.
\<close>

unbundle bit_operations_syntax

section \<open>Alignment\<close>

definition CHUNK_ALIGNMENT :: nat where "CHUNK_ALIGNMENT = 1048576"

definition align_check :: "uint64 \<Rightarrow> uint64 \<Rightarrow> bool" where
  "align_check ptr msk \<longleftrightarrow> ptr AND (msk - 1) = 0"

definition align_up :: "uint64 \<Rightarrow> uint64 \<Rightarrow> uint64" where
  "align_up num msk =
     (let aligned_down = num AND NOT (msk - 1); remain = num AND (msk - 1)
      in if remain > 0 then aligned_down + msk else aligned_down)"

definition align_down :: "uint64 \<Rightarrow> uint64 \<Rightarrow> uint64" where
  "align_down num msk = num AND NOT (msk - 1)"

text \<open>The same on positions, for the block size of the stores (see \<open>align_values\<close> below).\<close>

definition chunk_down :: "nat \<Rightarrow> nat" where
  "chunk_down n = n - n mod CHUNK_ALIGNMENT"

definition chunk_up :: "nat \<Rightarrow> nat" where
  "chunk_up n = (if n mod CHUNK_ALIGNMENT > 0 then chunk_down n + CHUNK_ALIGNMENT else chunk_down n)"

section \<open>State\<close>

type_synonym byte = "8 word"

definition kVolatile :: uint32 where "kVolatile = 0x000"
definition kPosixFile :: uint32 where "kPosixFile = 0x100"

definition kGrowingMode :: uint32 where "kGrowingMode = 0x00"
definition kConcurrent :: uint32 where "kConcurrent = 0x01"
definition kBoundedMode :: uint32 where "kBoundedMode = 0x02"
definition kEagerWriting :: uint32 where "kEagerWriting = 0x04"
definition kBufferFreed :: uint32 where "kBufferFreed = 0x08"
definition kReadMode :: uint32 where "kReadMode = 0x10"

definition CHECK_FLAG :: "uint32 \<Rightarrow> uint32 \<Rightarrow> bool" where
  "CHECK_FLAG x y \<longleftrightarrow> x AND y = y"

definition DATA_GROW_UNIT :: nat where "DATA_GROW_UNIT = 0x8000000"
definition TWO_GIGABYTE :: nat where "TWO_GIGABYTE = 2147483648"

record posix_file =
  f_bytes :: "byte list"
  f_offset :: nat

record DataStore =
  d_size :: nat
  d_head :: nat
  d_tail :: nat
  d_grow_unit :: nat
  d_allocated :: nat
  d_written_len :: nat
  d_mode :: uint32
  d_ftype :: uint32
  d_chunksize :: nat
  d_ptr :: "byte list option"
  d_buf_preserved :: "byte list option"
  d_tail_preserved :: nat
  d_r_tail :: nat
  d_r_head :: nat
  d_threshold :: nat
  d_fh :: "posix_file option"

text \<open>
  \<open>d_threshold\<close> is the file-level variable \<open>chunksize_threshold\<close>.  The difference of two
  unsigned positions wraps around.
\<close>

definition sub64 :: "nat \<Rightarrow> nat \<Rightarrow> nat" where
  "sub64 a b = (if b \<le> a then a - b else a + 2 ^ 64 - b)"

definition buf_used :: "DataStore \<Rightarrow> int" where
  "buf_used d = int (d_tail d) - int (d_head d)"

definition Data_used :: "DataStore \<Rightarrow> nat" where
  "Data_used d = d_tail d + d_written_len d"

definition SetMode :: "uint32 \<Rightarrow> DataStore \<Rightarrow> DataStore \<times> uint32" where
  "SetMode mode d = (d\<lparr>d_mode := mode\<rparr>, d_mode d)"

definition SetFileType :: "uint32 \<Rightarrow> DataStore \<Rightarrow> DataStore \<times> uint32" where
  "SetFileType ftype d = (d\<lparr>d_ftype := ftype\<rparr>, ftype)"

definition PadZeros :: "nat \<Rightarrow> DataStore \<Rightarrow> DataStore \<times> nat" where
  "PadZeros len d = (d\<lparr>d_tail := chunk_up (d_tail d + len)\<rparr>, chunk_up (d_tail d) + d_written_len d)"

definition IsEmpty :: "DataStore \<Rightarrow> bool" where
  "IsEmpty d \<longleftrightarrow> buf_used d < int (d_chunksize d)"

definition IsFull :: "DataStore \<Rightarrow> bool" where
  "IsFull d \<longleftrightarrow> buf_used d > int (d_size d) - int (d_chunksize d)"

section \<open>Memory and file\<close>

definition copy_in :: "nat \<Rightarrow> byte list \<Rightarrow> byte list \<Rightarrow> byte list outcome" where
  "copy_in off bs buf =
     (if off + length bs \<le> length buf then Inr (take off buf @ bs @ drop (off + length bs) buf)
      else Inl (OutOfRange ''memcpy''))"

definition copy_out :: "nat \<Rightarrow> nat \<Rightarrow> byte list \<Rightarrow> byte list outcome" where
  "copy_out off n buf =
     (if off + n \<le> length buf then Inr (take n (drop off buf)) else Inl (OutOfRange ''memcpy''))"

text \<open>\<open>PosixFileHandle::Write\<close> and \<open>Read\<close>; a read past the end leaves the rest of \<open>dst\<close>.\<close>

definition File_Write :: "nat \<Rightarrow> byte list \<Rightarrow> int \<Rightarrow> posix_file \<Rightarrow> posix_file" where
  "File_Write off src inc f =
     (let fb = f_bytes f; padded = fb @ replicate (off - length fb) 0
      in \<lparr>f_bytes = take off padded @ src @ drop (off + length src) padded,
          f_offset = (if inc \<ge> 0 then f_offset f + nat inc else f_offset f + length src)\<rparr>)"

definition File_Read :: "byte list \<Rightarrow> nat \<Rightarrow> posix_file \<Rightarrow> byte list outcome" where
  "File_Read dst off f =
     bind_out (assert_out ''len > 0'' (length dst > 0)) (\<lambda>_.
       let got = take (length dst) (drop off (f_bytes f)) in Inr (got @ drop (length got) dst))"

text \<open>The memory of the application: a function from addresses to bytes.\<close>

type_synonym memory = "uint64 \<Rightarrow> byte"

definition read_mem :: "memory \<Rightarrow> uint64 \<Rightarrow> nat \<Rightarrow> byte list" where
  "read_mem m a n = map (\<lambda>i. m (a + of_nat i)) [0..<n]"

definition write_mem :: "uint64 \<Rightarrow> byte list \<Rightarrow> memory \<Rightarrow> memory" where
  "write_mem a bs m = (\<lambda>x. if unat (x - a) < length bs then bs ! unat (x - a) else m x)"

lemma read_write_mem: "length bs < 2 ^ 64 \<Longrightarrow> read_mem (write_mem a bs m) a (length bs) = bs"
  by (rule nth_equalityI) (simp_all add: read_mem_def write_mem_def unsigned_of_nat take_bit_nat_eq_self)

lemma length_read_mem [simp]: "length (read_mem m a n) = n"
  by (simp add: read_mem_def)

section \<open>Initialisation\<close>

definition AllocateData :: "DataStore \<Rightarrow> DataStore \<times> CDErrType" where
  "AllocateData d =
     (case d_ptr d of
        None \<Rightarrow> (d\<lparr>d_ptr := Some (replicate (d_size d) 0), d_size := d_grow_unit d,
                  d_allocated := d_allocated d + 1\<rparr>, kPackerOK)
      | Some _ \<Rightarrow> (d, kAlreadyAllocated))"

definition Data_Init :: "nat \<Rightarrow> uint32 \<Rightarrow> DataStore \<Rightarrow> DataStore" where
  "Data_Init init_size filemode d =
     fst (AllocateData (d\<lparr>d_buf_preserved := None, d_tail_preserved := 0, d_grow_unit := init_size,
       d_size := init_size, d_head := 0, d_tail := 0, d_allocated := 0, d_mode := kGrowingMode,
       d_ftype := filemode, d_r_tail := 0, d_r_head := 0\<rparr>))"

text \<open>\<open>fh\<close> is what \<open>GetFileHandle\<close> returns for the type of the store: no file when it is volatile.\<close>

definition InitFile :: "uint32 \<Rightarrow> posix_file option \<Rightarrow> DataStore \<Rightarrow> DataStore" where
  "InitFile filetype fh d =
     (let d = (if filetype \<noteq> kVolatile then d\<lparr>d_ftype := filetype\<rparr> else d) in
      case fh of
        Some f \<Rightarrow>
          let f = (if f_offset f < CHUNK_ALIGNMENT then File_Write 0 (replicate CHUNK_ALIGNMENT 0) (- 1) f else f)
          in d\<lparr>d_fh := Some f, d_chunksize := CHUNK_ALIGNMENT, d_written_len := f_offset f\<rparr>
      | None \<Rightarrow> d\<lparr>d_fh := None, d_chunksize := CHUNK_ALIGNMENT, d_written_len := CHUNK_ALIGNMENT\<rparr>)"

definition DataStore_ctor :: "nat \<Rightarrow> uint32 \<Rightarrow> posix_file option \<Rightarrow> DataStore" where
  "DataStore_ctor init_size filemode fh =
     InitFile kVolatile fh (Data_Init init_size filemode
       \<lparr>d_size = init_size, d_head = 0, d_tail = 0, d_grow_unit = init_size, d_allocated = 0,
        d_written_len = 0, d_mode = kGrowingMode, d_ftype = filemode, d_chunksize = CHUNK_ALIGNMENT,
        d_ptr = None, d_buf_preserved = None, d_tail_preserved = 0, d_r_tail = 0, d_r_head = 0,
        d_threshold = DATA_GROW_UNIT, d_fh = None\<rparr>)"

definition ReInit :: "DataStore \<Rightarrow> DataStore" where
  "ReInit d = d\<lparr>d_buf_preserved := None, d_tail_preserved := 0, d_tail := 0, d_head := 0,
                d_allocated := 0, d_r_tail := 0, d_r_head := 0\<rparr>"

definition FreeData :: "bool \<Rightarrow> DataStore \<Rightarrow> DataStore \<times> CDErrType" where
  "FreeData reuse d =
     (let d = d\<lparr>d_tail := 0, d_head := 0, d_allocated := 0,
               d_fh := map_option (\<lambda>f. f\<lparr>f_offset := d_written_len d\<rparr>) (d_fh d)\<rparr> in
      if \<not> reuse then
        let d = d\<lparr>d_size := 0, d_grow_unit := DATA_GROW_UNIT\<rparr> in
        case d_ptr d of
          Some _ \<Rightarrow> (d\<lparr>d_ptr := None\<rparr>, kPackerOK)
        | None \<Rightarrow> (d, kAlreadyFree)
      else (d, kPackerOK))"

partial_function (option) grow_data :: "nat \<Rightarrow> nat \<Rightarrow> nat \<Rightarrow> (nat \<times> nat) option" where
  "grow_data need sz grow =
     (if need > sz then
        if sz > TWO_GIGABYTE then grow_data need (sz + grow) (grow + grow)
        else if sz > 0x10000000 then grow_data need (2 * sz) (2 * sz)
        else grow_data need (4 * sz) (4 * sz)
      else Some (sz, grow))"

text \<open>
  \<open>Reallocate\<close>: the new buffer is filled at the positions the data had in the old one.
  Memory that is not copied is indeterminate; it is zero here.
\<close>

definition Data_Reallocate :: "nat \<Rightarrow> DataStore \<Rightarrow> DataStore outcome" where
  "Data_Reallocate len d =
     (let orig_size = d_size d; used = nat (buf_used d) in
      case grow_data (len + used) orig_size (d_grow_unit d) of
        None \<Rightarrow> Inl (Blocked ''Reallocate'')
      | Some (sz, grow) \<Rightarrow>
          bind_out (deref ''ptr_'' (d_ptr d)) (\<lambda>ptr.
          bind_out (if orig_size = 0 then Inl (DivByZero ''tail_ % orig_size'') else Inr ()) (\<lambda>_.
          let tail = d_tail d mod orig_size; head = d_head d mod orig_size; new = replicate sz 0 in
          bind_out
            (if d_tail d > d_head d then
               if head \<ge> tail then
                 let first = orig_size - head in
                 bind_out (copy_out head first ptr) (\<lambda>a.
                 bind_out (copy_in head a new) (\<lambda>new.
                 bind_out (copy_out 0 (used - first) ptr) (\<lambda>b.
                   copy_in 0 b new)))
               else
                 bind_out (copy_out head used ptr) (\<lambda>a. copy_in head a new)
             else Inr new)
            (\<lambda>new. Inr (d\<lparr>d_ptr := Some new, d_size := sz, d_grow_unit := grow,
                           d_allocated := d_allocated d + 1, d_threshold := sz * 4 div 5\<rparr>)))))"

section \<open>Writing\<close>

definition CopyToBuffer :: "byte list \<Rightarrow> nat option \<Rightarrow> DataStore \<Rightarrow> DataStore outcome" where
  "CopyToBuffer src pos d =
     (if src = [] then Inr d
      else
        bind_out (deref ''ptr_'' (d_ptr d)) (\<lambda>ptr.
        bind_out (if d_size d = 0 then Inl (DivByZero ''tail_ % size_'') else Inr ()) (\<lambda>_.
        let off = (case pos of None \<Rightarrow> d_tail d | Some p \<Rightarrow> p) mod d_size d;
            first = d_size d - off in
        bind_out
          (if length src > first then
             bind_out (copy_in off (take first src) ptr) (\<lambda>ptr. copy_in 0 (drop first src) ptr)
           else copy_in off src ptr)
          (\<lambda>ptr. Inr (d\<lparr>d_ptr := Some ptr\<rparr>)))))"

definition CopyFromBuffer :: "nat \<Rightarrow> nat option \<Rightarrow> DataStore \<Rightarrow> byte list outcome" where
  "CopyFromBuffer len pos d =
     (if len = 0 then Inr []
      else
        bind_out (deref ''ptr_'' (d_ptr d)) (\<lambda>ptr.
        bind_out (if d_size d = 0 then Inl (DivByZero ''head_ % size_'') else Inr ()) (\<lambda>_.
        let off = (case pos of None \<Rightarrow> d_head d | Some p \<Rightarrow> p) mod d_size d;
            first = d_size d - off in
        if len > first then
          bind_out (copy_out off first ptr) (\<lambda>a.
          bind_out (copy_out 0 (len - first) ptr) (\<lambda>b. Inr (a @ b)))
        else copy_out off len ptr)))"

definition WriteMem :: "byte list \<Rightarrow> DataStore \<Rightarrow> (DataStore \<times> nat) outcome" where
  "WriteMem src d =
     bind_out (CopyToBuffer src None d) (\<lambda>d'.
       Inr (d'\<lparr>d_tail := d_tail d' + length src\<rparr>, Data_used d))"

definition WriteCacheMode :: "byte list \<Rightarrow> DataStore \<Rightarrow> (DataStore \<times> nat) outcome" where
  "WriteCacheMode src d =
     bind_out (if int (length src) + buf_used d > int (d_size d) then Data_Reallocate (length src) d else Inr d)
       (\<lambda>d. WriteMem src d)"

definition with_file :: "(posix_file \<Rightarrow> posix_file) \<Rightarrow> DataStore \<Rightarrow> DataStore outcome" where
  "with_file g d = bind_out (deref ''fh_'' (d_fh d)) (\<lambda>f. Inr (d\<lparr>d_fh := Some (g f)\<rparr>))"

definition CopyBufferToFile :: "nat \<Rightarrow> nat \<Rightarrow> nat \<Rightarrow> DataStore \<Rightarrow> DataStore outcome" where
  "CopyBufferToFile buf_pos len file_offset d =
     (if len = 0 then Inr d
      else
        bind_out (deref ''ptr_'' (d_ptr d)) (\<lambda>ptr.
        bind_out (if d_size d = 0 then Inl (DivByZero ''buf_pos % size_'') else Inr ()) (\<lambda>_.
        let pos_in_buf = buf_pos mod d_size d; first = d_size d - pos_in_buf in
        if len > first then
          bind_out (copy_out pos_in_buf first ptr) (\<lambda>a.
          bind_out (with_file (File_Write file_offset a (- 1)) d) (\<lambda>d.
          let second = len - first in
          bind_out (copy_out 0 (chunk_up second) ptr) (\<lambda>b.
            with_file (File_Write (file_offset + first) b (int (chunk_down second))) d)))
        else
          bind_out (copy_out pos_in_buf (chunk_up len) ptr) (\<lambda>a.
            with_file (File_Write file_offset a (int (chunk_down len))) d))))"

definition WriteFile :: "nat \<Rightarrow> DataStore \<Rightarrow> DataStore outcome" where
  "WriteFile len d =
     bind_out (CopyBufferToFile (d_head d) len (d_head d + d_written_len d) d) (\<lambda>d.
       Inr (d\<lparr>d_head := d_head d + chunk_down len\<rparr>))"

definition Flush :: "DataStore \<Rightarrow> DataStore outcome" where
  "Flush d = (if buf_used d > 0 then WriteFile (nat (buf_used d)) d else Inr d)"

text \<open>\<open>WriteInternal\<close> waits while the buffer is full.\<close>

definition WriteInternal :: "byte list \<Rightarrow> DataStore \<Rightarrow> DataStore outcome" where
  "WriteInternal src d =
     (if IsFull d then Inl (Blocked ''pthread_cond_wait'')
      else
        bind_out (deref ''ptr_'' (d_ptr d)) (\<lambda>ptr.
        bind_out (if d_size d = 0 then Inl (DivByZero ''tail_ % size_'') else Inr ()) (\<lambda>_.
        bind_out (copy_in (d_tail d mod d_size d) src ptr) (\<lambda>ptr.
          Inr (d\<lparr>d_ptr := Some ptr, d_tail := d_tail d + length src\<rparr>)))))"

function write_chunks :: "nat \<Rightarrow> byte list \<Rightarrow> DataStore \<Rightarrow> DataStore outcome" where
  "write_chunks chunksize src d =
     (if chunksize > 0 \<and> length src \<ge> chunksize then
        bind_out (WriteInternal (take chunksize src) d) (write_chunks chunksize (drop chunksize src))
      else if src \<noteq> [] then WriteInternal src d
      else Inr d)"
  by pat_completeness auto

termination by (relation "measure (\<lambda>(c, s, d). length s)") auto

declare write_chunks.simps [simp del]

definition WriteBuffer :: "byte list \<Rightarrow> DataStore \<Rightarrow> (DataStore \<times> nat) outcome" where
  "WriteBuffer src d =
     (if src \<noteq> [] \<and> d_ptr d \<noteq> None then
        bind_out (if d_chunksize d = 0 \<or> d_size d = 0 then Inl (DivByZero ''tail_ % chunksize_'') else Inr ()) (\<lambda>_.
        let available_in_chunk = d_chunksize d - d_tail d mod d_chunksize d;
            len_to_write = min (length src) available_in_chunk in
        bind_out (deref ''ptr_'' (d_ptr d)) (\<lambda>ptr.
        bind_out (copy_in (d_tail d mod d_size d) (take len_to_write src) ptr) (\<lambda>ptr.
        let d' = d\<lparr>d_ptr := Some ptr, d_tail := d_tail d + len_to_write\<rparr> in
        bind_out (write_chunks (d_chunksize d) (drop len_to_write src) d') (\<lambda>d'.
          Inr (d', Data_used d)))))
      else Inl (ErrorMessage ''Write failed''))"

definition WriteBufferMode :: "byte list \<Rightarrow> DataStore \<Rightarrow> (DataStore \<times> nat) outcome" where
  "WriteBufferMode src d =
     bind_out (if length src > d_size d then Data_Reallocate (length src) d else Inr d) (WriteBuffer src)"

definition Data_Write :: "byte list \<Rightarrow> DataStore \<Rightarrow> (DataStore \<times> nat) outcome" where
  "Data_Write src d =
     (if CHECK_FLAG (d_mode d) kBoundedMode then WriteBufferMode src d
      else
        bind_out (WriteCacheMode src d) (\<lambda>(d, ret).
          if d_ftype d \<noteq> kVolatile \<and> \<not> CHECK_FLAG (d_mode d) kConcurrent \<and>
             buf_used d \<ge> int (d_threshold d)
          then bind_out (WriteFile (nat (buf_used d)) d) (\<lambda>d. Inr (d, ret))
          else Inr (d, ret)))"

section \<open>Reading\<close>

definition InitReadMode :: "DataStore \<Rightarrow> DataStore outcome" where
  "InitReadMode d =
     (if \<not> CHECK_FLAG (d_mode d) kReadMode then
        let d = d\<lparr>d_mode := d_mode d OR kReadMode\<rparr> in
        bind_out
          (if buf_used d > 0 then
             bind_out (CopyFromBuffer (nat (buf_used d)) None d) (\<lambda>saved.
               Inr (d\<lparr>d_tail_preserved := nat (buf_used d), d_buf_preserved := Some saved, d_tail := d_head d\<rparr>))
           else Inr d)
          (\<lambda>d. Inr (d\<lparr>d_r_tail := d_head d + d_written_len d, d_r_head := d_head d + d_written_len d\<rparr>))
      else Inr d)"

definition FinReadMode :: "DataStore \<Rightarrow> DataStore outcome" where
  "FinReadMode d =
     (if CHECK_FLAG (d_mode d) kReadMode then
        let d = d\<lparr>d_mode := d_mode d AND NOT kReadMode\<rparr> in
        bind_out
          (if d_tail_preserved d > 0 then
             bind_out (deref ''buf_preserved_'' (d_buf_preserved d)) (\<lambda>saved.
             bind_out (CopyToBuffer (take (d_tail_preserved d) saved) None d) (\<lambda>d.
               Inr (d\<lparr>d_tail := d_head d + d_tail_preserved d\<rparr>)))
           else Inr d)
          (\<lambda>d. Inr (d\<lparr>d_tail_preserved := 0, d_buf_preserved := None\<rparr>))
      else Inr d)"

text \<open>
  The result of \<open>CalcOffset\<close> without locality: \<open>max_len_to_read\<close>, \<open>len_to_read\<close>,
  \<open>buf_offset\<close>, \<open>r_tail_next\<close>, \<open>r_head_next\<close>.
\<close>

definition CalcOffset :: "nat \<Rightarrow> nat \<Rightarrow> DataStore \<Rightarrow> (nat \<times> nat \<times> nat \<times> nat \<times> nat) outcome" where
  "CalcOffset low high d =
     (let total_len = high - low; overflow = total_len > d_size d;
          max_len = (if overflow then d_size d else total_len) in
      if high > d_r_tail d then
        if low < d_r_head d then Inl (AssertFailed ''0'')
        else if low < d_r_tail d then
          let r_tail_next = (if overflow then d_size d + low else high)
          in Inr (max_len, sub64 r_tail_next (d_r_tail d), d_r_tail d, r_tail_next, d_r_head d)
        else Inr (max_len, max_len, low, (if overflow then low + d_size d else high), low)
      else if low < d_r_head d then
        if high > d_r_head d then
          let r_head_next = (if overflow then high - d_size d else low)
          in Inr (max_len, sub64 (d_r_head d) r_head_next, d_r_head d, d_r_tail d, r_head_next)
        else Inr (max_len, max_len, low, high, (if overflow then high - d_size d else low))
      else Inr (max_len, 0, 0, d_r_tail d, d_r_head d))"

definition CopyFileToBuffer :: "nat \<Rightarrow> nat \<Rightarrow> nat \<Rightarrow> DataStore \<Rightarrow> DataStore outcome" where
  "CopyFileToBuffer buf_pos len pos d =
     (if len = 0 then Inr d
      else
        bind_out (deref ''ptr_'' (d_ptr d)) (\<lambda>ptr.
        bind_out (deref ''fh_'' (d_fh d)) (\<lambda>f.
        bind_out (if d_size d = 0 then Inl (DivByZero ''buf_pos % size_'') else Inr ()) (\<lambda>_.
        let tail = buf_pos mod d_size d; first = d_size d - tail in
        bind_out
          (if len > first then
             bind_out (copy_out tail first ptr) (\<lambda>old.
             bind_out (File_Read old pos f) (\<lambda>a.
             bind_out (copy_in tail a ptr) (\<lambda>ptr.
             bind_out (copy_out 0 (len - first) ptr) (\<lambda>old.
             bind_out (File_Read old (pos + first) f) (\<lambda>b.
               copy_in 0 b ptr)))))
           else
             bind_out (copy_out tail len ptr) (\<lambda>old.
             bind_out (File_Read old pos f) (\<lambda>a. copy_in tail a ptr)))
          (\<lambda>ptr. Inr (d\<lparr>d_ptr := Some ptr\<rparr>))))))"

text \<open>\<open>FetchInternal\<close> returns the increments of \<open>r_tail_\<close> and \<open>r_head_\<close> as new values.\<close>

definition FetchInternal :: "nat \<Rightarrow> nat \<Rightarrow> DataStore \<Rightarrow> (DataStore \<times> nat \<times> nat \<times> nat) outcome" where
  "FetchInternal len pos d =
     (let low = chunk_down pos + d_head d; high = chunk_up (pos + len) + d_head d in
      bind_out (CalcOffset low high d) (\<lambda>(aligned_len, len_to_read, buf_offset, r_tail_next, r_head_next).
      bind_out (CopyFileToBuffer buf_offset len_to_read (sub64 buf_offset (d_head d)) d) (\<lambda>d.
        Inr (d, aligned_len, r_tail_next, r_head_next))))"

text \<open>
  The loop of \<open>GetData\<close> for a store with a file: neither \<open>dst\<close> nor \<open>pos\<close> moves
  between two rounds.  Each round reads at least one byte unless the buffer is empty, so \<open>len\<close>
  rounds are enough.
\<close>

fun get_loop :: "nat \<Rightarrow> byte list \<Rightarrow> nat \<Rightarrow> nat \<Rightarrow> nat \<Rightarrow> DataStore \<Rightarrow> (DataStore \<times> byte list) outcome" where
  "get_loop k dst len pos fetch_pos d =
     (if len = 0 then Inr (d, dst)
      else
        bind_out (FetchInternal len fetch_pos d) (\<lambda>(d, consumed, r_tail_next, r_head_next).
        let readsize = min len consumed in
        bind_out (CopyFromBuffer readsize (Some (pos + d_head d)) d) (\<lambda>bs.
        bind_out (copy_in 0 bs dst) (\<lambda>dst.
        let d = d\<lparr>d_r_head := r_head_next, d_r_tail := r_tail_next\<rparr> in
        case k of
          0 \<Rightarrow> Inl (Blocked ''GetData'')
        | Suc k' \<Rightarrow>
            if readsize = 0 then Inl (Blocked ''GetData'')
            else get_loop k' dst (len - readsize) pos (fetch_pos + readsize) d))))"

declare get_loop.simps [simp del]

definition GetData :: "byte list \<Rightarrow> nat \<Rightarrow> nat \<Rightarrow> DataStore \<Rightarrow> (DataStore \<times> byte list) outcome" where
  "GetData dst len pos d =
     (if d_ftype d \<noteq> kVolatile then
        bind_out (InitReadMode d) (\<lambda>d.
        bind_out (get_loop len dst len pos pos d) (\<lambda>(d, dst).
        bind_out (FinReadMode d) (\<lambda>d. Inr (d, dst))))
      else
        bind_out (CopyFromBuffer len (Some (sub64 pos (d_written_len d))) d) (\<lambda>bs.
        bind_out (copy_in 0 bs dst) (\<lambda>dst. Inr (d, dst))))"

section \<open>Alignment on positions\<close>

lemma and_not_mask_eq: "x AND NOT (mask k) = x - take_bit k x" for x :: "'a::len word"
proof -
  have "x = (x AND NOT (mask k)) + take_bit k x"
    by (subst disjunctive_add) (auto simp: bit_simps intro!: bit_eqI)
  then show ?thesis by (metis add_diff_cancel_right')
qed

lemma unat_take_bit: "unat (take_bit k x) = unat x mod 2 ^ k" for x :: "'a::len word"
  by (simp only: unsigned_take_bit_eq) (simp add: take_bit_eq_mod)

lemma unat_and_not_mask: "unat (x AND NOT (mask k)) = unat x - unat x mod 2 ^ k" for x :: "'a::len word"
proof -
  have "take_bit k x \<le> x" by (simp add: word_le_nat_alt unat_take_bit)
  then show ?thesis by (simp add: and_not_mask_eq unat_sub unat_take_bit)
qed

lemma ceil_div: "(n + m - 1) div m = (if n mod m = 0 then n div m else n div m + 1)" if "0 < m" for n m :: nat
proof -
  let ?q = "n div m" and ?r = "n mod m"
  have "?q * m + ?r = n" by (rule div_mult_mod_eq)
  then have e: "n + m - 1 = ?q * m + (?r + m - 1)" using that by linarith
  have r: "?r < m" using that by simp
  have "(?r + m - 1) div m = (if ?r = 0 then 0 else 1)"
  proof (cases "?r = 0")
    case False
    then have "?r + m - 1 = (?r - 1) + m" by simp
    moreover have "((?r - 1) + m) div m = (?r - 1) div m + 1" by (rule div_add_self2) (use that in simp)
    ultimately have "(?r + m - 1) div m = (?r - 1) div m + 1" by (simp only:)
    also have "(?r - 1) div m = 0" using r by (simp add: less_imp_diff_less)
    finally show ?thesis using False by simp
  qed (use that in simp)
  moreover have "(n + m - 1) div m = ?q + (?r + m - 1) div m" unfolding e using that by (simp only: div_mult_self3)
  ultimately show ?thesis by (simp only: split: if_split) simp
qed

lemma align_spec:
  assumes "k < 64" "unat num + 2 ^ k \<le> 2 ^ 64"
  shows "unat (align_down num (2 ^ k)) = unat num div 2 ^ k * 2 ^ k \<and>
    unat (align_up num (2 ^ k)) = (unat num + 2 ^ k - 1) div 2 ^ k * 2 ^ k \<and>
    (align_check num (2 ^ k) \<longleftrightarrow> 2 ^ k dvd unat num)"
proof -
  have m: "(2 ^ k :: uint64) - 1 = mask k" by (simp add: mask_eq_decr_exp)
  have pos: "num AND mask k > 0 \<longleftrightarrow> unat num mod 2 ^ k \<noteq> 0"
    by (simp add: take_bit_eq_mask [symmetric] word_less_nat_alt unat_take_bit)
  have dm: "unat num - unat num mod 2 ^ k = unat num div 2 ^ k * 2 ^ k"
    by (simp add: minus_mod_eq_div_mult)
  have up: "(unat num + 2 ^ k - 1) div 2 ^ k = (if unat num mod 2 ^ k = 0 then unat num div 2 ^ k else unat num div 2 ^ k + 1)"
    by (rule ceil_div) simp
  have "unat (align_up num (2 ^ k)) = (unat num + 2 ^ k - 1) div 2 ^ k * 2 ^ k"
  proof (cases "unat num mod 2 ^ k = 0")
    case True
    then show ?thesis using pos dm up by (simp add: align_up_def m Let_def unat_and_not_mask)
  next
    case False
    have "unat (of_nat (2 ^ k) :: uint64) = 2 ^ k"
      using assms(1) by (simp only: unsigned_of_nat) (simp add: take_bit_nat_eq_self)
    then have p: "unat (2 ^ k :: uint64) = 2 ^ k" by simp
    have "0 < unat num" using False by (cases "unat num = 0") auto
    then have "unat num - unat num mod 2 ^ k < unat num" using False by (simp add: diff_less)
    then have "unat (num AND NOT (mask k)) + unat (2 ^ k :: uint64) < 2 ^ LENGTH(64)"
      using assms(2) p by (simp add: unat_and_not_mask)
    then have "unat ((num AND NOT (mask k)) + 2 ^ k) = unat num div 2 ^ k * 2 ^ k + 2 ^ k"
      by (subst unat_add_lem [THEN iffD1]) (simp_all add: unat_and_not_mask dm p)
    then show ?thesis using False pos up by (simp add: align_up_def m Let_def)
  qed
  moreover have "align_check num (2 ^ k) \<longleftrightarrow> 2 ^ k dvd unat num"
    using unat_take_bit [of k num] by (simp add: align_check_def m take_bit_eq_mask [symmetric] unat_eq_zero [symmetric] dvd_eq_mod_eq_0)
  ultimately show ?thesis by (simp add: align_down_def m unat_and_not_mask dm)
qed

lemma chunk_values:
  "chunk_down n = n div CHUNK_ALIGNMENT * CHUNK_ALIGNMENT"
  "chunk_up n = (n + CHUNK_ALIGNMENT - 1) div CHUNK_ALIGNMENT * CHUNK_ALIGNMENT"
proof -
  show d: "chunk_down n = n div CHUNK_ALIGNMENT * CHUNK_ALIGNMENT"
    by (simp add: chunk_down_def minus_mod_eq_div_mult)
  show "chunk_up n = (n + CHUNK_ALIGNMENT - 1) div CHUNK_ALIGNMENT * CHUNK_ALIGNMENT"
    unfolding chunk_up_def d by (subst ceil_div) (simp_all add: CHUNK_ALIGNMENT_def)
qed

lemma chunk_align:
  assumes "unat num + CHUNK_ALIGNMENT \<le> 2 ^ 64"
  shows "chunk_down (unat num) = unat (align_down num (2 ^ 20))" "chunk_up (unat num) = unat (align_up num (2 ^ 20))"
proof -
  have c: "CHUNK_ALIGNMENT = 2 ^ 20" by (simp add: CHUNK_ALIGNMENT_def)
  show "chunk_down (unat num) = unat (align_down num (2 ^ 20))" "chunk_up (unat num) = unat (align_up num (2 ^ 20))"
    using align_spec [of 20 num] assms unfolding chunk_values c by auto
qed

text \<open>
  For a power of two as block size \<open>align_down\<close> is the largest multiple of the block
  that is not above the position, and \<open>align_up\<close> the smallest one that is not below it, as long
  as that multiple fits in 64 bits; \<open>align_check\<close> recognises the multiples.
\<close>

theorem align_values:
  assumes "k < 64" "unat num + 2 ^ k \<le> 2 ^ 64"
  shows "unat (align_down num (2 ^ k)) = unat num div 2 ^ k * 2 ^ k \<and>
    unat (align_up num (2 ^ k)) = (unat num + 2 ^ k - 1) div 2 ^ k * 2 ^ k \<and>
    (align_check num (2 ^ k) \<longleftrightarrow> 2 ^ k dvd unat num)"
  using assms by (rule align_spec)

theorem align_values_witness:
  "unat (align_up 1048577 (2 ^ 20)) = 2097152 \<and> unat (align_down 1048577 (2 ^ 20)) = 1048576"
  using align_values [of 20 1048577] by simp

section \<open>Growing the buffer\<close>

lemma grow_data_ends:
  assumes "0 < sz" "0 < grow"
  shows "\<exists>s g. grow_data need sz grow = Some (s, g) \<and> need \<le> s \<and> sz \<le> s \<and> 0 < g"
  using assms
proof (induction "need - sz" arbitrary: sz grow rule: less_induct)
  case less
  show ?case
  proof (cases "need \<le> sz")
    case True
    then show ?thesis using less.prems by (subst grow_data.simps) simp
  next
    case False
    let ?next = "if sz > TWO_GIGABYTE then (sz + grow, grow + grow)
      else if sz > 0x10000000 then (2 * sz, 2 * sz) else (4 * sz, 4 * sz)"
    have step: "grow_data need sz grow = grow_data need (fst ?next) (snd ?next)"
      using False by (subst grow_data.simps) simp
    have n: "sz < fst ?next" "0 < snd ?next" using less.prems by auto
    then have "need - fst ?next < need - sz" "0 < fst ?next" using False by auto
    from less.hyps [OF this n(2)] n(1) step show ?thesis by force
  qed
qed

text \<open>With a size of zero, as \<open>FreeData(false)\<close> leaves it, the loop does not end.\<close>

lemma grow_data_stuck:
  assumes "0 < need"
  shows "grow_data need 0 grow = None"
proof (rule ccontr)
  have "\<not> (sz = 0 \<and> 0 < need)" if "grow_data need sz grow = Some y" for need grow sz y
    by (rule grow_data.raw_induct [of "\<lambda>need sz grow y. \<not> (sz = 0 \<and> 0 < need)", OF _ that])
      (fastforce simp: TWO_GIGABYTE_def split: if_splits)
  moreover assume "grow_data need 0 grow \<noteq> None"
  ultimately show False using assms by blast
qed

section \<open>The volatile store\<close>

text \<open>
  A store that lives in memory: the mode is \<open>kGrowingMode\<close>, nothing is written to a file, and
  \<open>head_\<close> stays at zero.  Its data are the bytes below \<open>tail_\<close>.
\<close>

definition volatile_ok :: "DataStore \<Rightarrow> bool" where
  "volatile_ok d \<longleftrightarrow> d_ftype d = kVolatile \<and> d_mode d = kGrowingMode \<and> d_head d = 0 \<and>
     0 < d_size d \<and> 0 < d_grow_unit d \<and> d_tail d \<le> d_size d \<and>
     (case d_ptr d of None \<Rightarrow> False | Some ptr \<Rightarrow> length ptr = d_size d)"

definition content :: "DataStore \<Rightarrow> byte list" where
  "content d = take (d_tail d) (the (d_ptr d))"

lemma volatile_okD:
  assumes "volatile_ok d"
  obtains ptr where "d_ptr d = Some ptr" "length ptr = d_size d" "0 < d_size d" "d_tail d \<le> d_size d"
    "d_head d = 0" "content d = take (d_tail d) ptr" "0 < d_grow_unit d"
  using assms by (auto simp: volatile_ok_def content_def split: option.splits)

lemma length_content: "volatile_ok d \<Longrightarrow> length (content d) = d_tail d"
  by (erule volatile_okD) simp

lemma Reallocate_volatile:
  assumes "volatile_ok d"
  shows "\<exists>d'. Data_Reallocate len d = Inr d' \<and> volatile_ok d' \<and> content d' = content d \<and>
    d_tail d' = d_tail d \<and> d_written_len d' = d_written_len d \<and> len + d_tail d \<le> d_size d'"
proof -
  obtain ptr where p: "d_ptr d = Some ptr" "length ptr = d_size d" "0 < d_size d" "d_tail d \<le> d_size d"
    "d_head d = 0" "content d = take (d_tail d) ptr" "0 < d_grow_unit d" using assms by (rule volatile_okD)
  obtain s g where s: "grow_data (len + d_tail d) (d_size d) (d_grow_unit d) = Some (s, g)"
    "len + d_tail d \<le> s" "d_size d \<le> s" "0 < g" using grow_data_ends [OF p(3,7)] by blast
  let ?new = "take (d_tail d) ptr @ replicate (s - d_tail d) 0"
  have "Data_Reallocate len d = Inr (d\<lparr>d_ptr := Some ?new, d_size := s, d_grow_unit := g,
      d_allocated := d_allocated d + 1, d_threshold := s * 4 div 5\<rparr>)"
  proof (cases "d_tail d = d_size d")
    case True
    then show ?thesis using p s
      by (simp add: Data_Reallocate_def buf_used_def Let_def copy_out_def copy_in_def)
  next
    case False
    then have "d_tail d mod d_size d = d_tail d" using p(4) by simp
    then show ?thesis using p s False
      by (auto simp: Data_Reallocate_def buf_used_def Let_def copy_out_def copy_in_def)
  qed
  then show ?thesis using p s assms by (auto simp: volatile_ok_def content_def)
qed

lemma WriteMem_volatile:
  assumes "volatile_ok d" "src \<noteq> []" "length src + d_tail d \<le> d_size d"
  shows "\<exists>d'. WriteMem src d = Inr (d', d_tail d + d_written_len d) \<and> volatile_ok d' \<and>
    content d' = content d @ src \<and> d_written_len d' = d_written_len d"
proof -
  obtain ptr where p: "d_ptr d = Some ptr" "length ptr = d_size d" "0 < d_size d" "d_tail d \<le> d_size d"
    "d_head d = 0" "content d = take (d_tail d) ptr" "0 < d_grow_unit d" using assms(1) by (rule volatile_okD)
  have "d_tail d < d_size d" using assms(2,3) by (cases src) auto
  then have "CopyToBuffer src None d =
      Inr (d\<lparr>d_ptr := Some (take (d_tail d) ptr @ src @ drop (d_tail d + length src) ptr)\<rparr>)"
    using p assms(2,3) by (simp add: CopyToBuffer_def Let_def copy_in_def)
  then show ?thesis using p assms
    by (auto simp: WriteMem_def Data_used_def volatile_ok_def content_def)
qed

lemma Write_volatile:
  assumes "volatile_ok d" "src \<noteq> []"
  shows "\<exists>d'. Data_Write src d = Inr (d', d_written_len d + length (content d)) \<and> volatile_ok d' \<and>
    content d' = content d @ src \<and> d_written_len d' = d_written_len d"
proof -
  have m: "d_head d = 0" using assms(1) by (simp add: volatile_ok_def)
  obtain d1 where d1: "(if int (length src) + buf_used d > int (d_size d) then Data_Reallocate (length src) d else Inr d) = Inr d1"
    "volatile_ok d1" "content d1 = content d" "d_tail d1 = d_tail d" "d_written_len d1 = d_written_len d"
    "length src + d_tail d1 \<le> d_size d1"
  proof (cases "int (length src) + buf_used d > int (d_size d)")
    case True
    then show ?thesis using that Reallocate_volatile [OF assms(1), of "length src"] by auto
  next
    case False
    then have "length src + d_tail d \<le> d_size d" using m by (simp add: buf_used_def)
    then show ?thesis using that [of d] False assms(1) by simp
  qed
  obtain d2 where d2: "WriteMem src d1 = Inr (d2, d_tail d1 + d_written_len d1)" "volatile_ok d2"
    "content d2 = content d1 @ src" "d_written_len d2 = d_written_len d1"
    using WriteMem_volatile [OF d1(2) assms(2) d1(6)] by blast
  have "WriteCacheMode src d = Inr (d2, d_written_len d + length (content d))"
    using d1 d2(1) length_content [OF assms(1)] by (simp add: WriteCacheMode_def add.commute)
  moreover have "d_ftype d2 = kVolatile" "\<not> CHECK_FLAG (d_mode d) kBoundedMode"
    using d2(2) assms(1) by (simp_all add: volatile_ok_def CHECK_FLAG_def kGrowingMode_def kBoundedMode_def)
  ultimately show ?thesis using d1 d2 by (simp add: Data_Write_def)
qed

lemma GetData_volatile:
  assumes "volatile_ok d" "off + len \<le> length (content d)" "length dst = len"
  shows "GetData dst len (d_written_len d + off) d = Inr (d, take len (drop off (content d)))"
proof -
  obtain ptr where p: "d_ptr d = Some ptr" "length ptr = d_size d" "0 < d_size d" "d_tail d \<le> d_size d"
    "d_head d = 0" "content d = take (d_tail d) ptr" "0 < d_grow_unit d" using assms(1) by (rule volatile_okD)
  have l: "off + len \<le> d_tail d" using assms(2) length_content [OF assms(1)] by simp
  have "CopyFromBuffer len (Some off) d = Inr (take len (drop off (content d)))"
  proof (cases "len = 0")
    case False
    then have "off < d_size d" "\<not> d_size d - off < len" using l p(4) by simp_all
    then show ?thesis using p l False by (simp add: CopyFromBuffer_def Let_def copy_out_def drop_take)
  qed (simp add: CopyFromBuffer_def)
  then show ?thesis using assms p l
    by (simp add: GetData_def volatile_ok_def sub64_def copy_in_def)
qed

section \<open>The interface of a byte store\<close>

text \<open>
  What the packer relies on: writing appends bytes and returns their position, and reading a range
  that was written gives the bytes back.
\<close>

locale byte_store =
  fixes inv :: "'s \<Rightarrow> bool"
    and bytes :: "'s \<Rightarrow> byte list"
    and base :: "'s \<Rightarrow> nat"
    and wr :: "byte list \<Rightarrow> 's \<Rightarrow> ('s \<times> nat) outcome"
    and rd :: "nat \<Rightarrow> nat \<Rightarrow> 's \<Rightarrow> byte list outcome"
  assumes write_ok: "inv s \<Longrightarrow> bs \<noteq> [] \<Longrightarrow> \<exists>s'. wr bs s = Inr (s', base s + length (bytes s)) \<and> inv s' \<and>
      bytes s' = bytes s @ bs \<and> base s' = base s"
    and read_ok: "inv s \<Longrightarrow> off + n \<le> length (bytes s) \<Longrightarrow>
      rd n (base s + off) s = Inr (take n (drop off (bytes s)))"
begin

lemma write_appends:
  assumes "inv s" "bs \<noteq> []" "wr bs s = Inr (s', p)"
  shows "inv s' \<and> p = base s + length (bytes s) \<and> bytes s' = bytes s @ bs \<and> base s' = base s"
  using write_ok [OF assms(1,2)] assms(3) by auto

fun write_all :: "byte list list \<Rightarrow> 's \<Rightarrow> 's outcome" where
  "write_all [] s = Inr s"
| "write_all (bs # bss) s = bind_out (wr bs s) (\<lambda>(s, _). write_all bss s)"

lemma write_all_ok:
  "inv s \<Longrightarrow> [] \<notin> set bss \<Longrightarrow>
     \<exists>s'. write_all bss s = Inr s' \<and> inv s' \<and> bytes s' = bytes s @ concat bss \<and> base s' = base s"
proof (induction bss arbitrary: s)
  case (Cons bs bss)
  obtain s1 where s1: "wr bs s = Inr (s1, base s + length (bytes s))" "inv s1" "bytes s1 = bytes s @ bs"
    "base s1 = base s" using write_ok [OF Cons.prems(1), of bs] Cons.prems(2) by auto
  have "[] \<notin> set bss" using Cons.prems(2) by auto
  from Cons.IH [OF s1(2) this] obtain s' where s': "write_all bss s1 = Inr s'" "inv s'"
    "bytes s' = bytes s1 @ concat bss" "base s' = base s1" by blast
  have "write_all (bs # bss) s = Inr s'" using s1(1) s'(1) by simp
  moreover have "bytes s' = bytes s @ concat (bs # bss)" "base s' = base s" using s1 s' by simp_all
  ultimately show ?case using s'(2) by blast
qed simp

lemma read_written:
  assumes "inv s" "bs \<noteq> []" "wr bs s = Inr (s1, p)" "[] \<notin> set bss" "write_all bss s1 = Inr s2"
  shows "rd (length bs) p s2 = Inr bs"
proof -
  have s1: "inv s1" "p = base s + length (bytes s)" "bytes s1 = bytes s @ bs" "base s1 = base s"
    using write_appends [OF assms(1-3)] by auto
  have s2: "inv s2" "bytes s2 = bytes s @ bs @ concat bss" "base s2 = base s"
    using write_all_ok [OF s1(1) assms(4)] assms(5) s1 by auto
  show ?thesis using read_ok [OF s2(1), of "length (bytes s)" "length bs"] s2 s1(2) by simp
qed

end

definition read_data :: "nat \<Rightarrow> nat \<Rightarrow> DataStore \<Rightarrow> byte list outcome" where
  "read_data len pos d = bind_out (GetData (replicate len 0) len pos d) (\<lambda>(d, dst). Inr dst)"

interpretation vol: byte_store volatile_ok content d_written_len Data_Write read_data
proof
  fix s and bs :: "byte list"
  assume "volatile_ok s" "bs \<noteq> []"
  from Write_volatile [OF this] show "\<exists>s'. Data_Write bs s = Inr (s', d_written_len s + length (content s)) \<and>
    volatile_ok s' \<and> content s' = content s @ bs \<and> d_written_len s' = d_written_len s" .
next
  fix s off n
  assume "volatile_ok s" "off + n \<le> length (content s)"
  from GetData_volatile [OF this] show "read_data n (d_written_len s + off) s = Inr (take n (drop off (content s)))"
    by (simp add: read_data_def)
qed

section \<open>Properties of the store\<close>

fun Write_all :: "byte list list \<Rightarrow> DataStore \<Rightarrow> DataStore outcome" where
  "Write_all [] d = Inr d"
| "Write_all (bs # bss) d = bind_out (Data_Write bs d) (\<lambda>(d, _). Write_all bss d)"

lemma Write_all_eq: "Write_all bss d = vol.write_all bss d"
  by (induction bss d rule: Write_all.induct) (simp_all add: bind_out_def split: sum.splits)

text \<open>
  C21.  Preserved bytes survive in memory: on a volatile store \<open>Write\<close> always succeeds, growing
  the buffer when needed, and \<open>GetData\<close> at the position it returned gives back exactly the
  written bytes, whatever is written afterwards.
\<close>

theorem volatile_roundtrip:
  assumes "volatile_ok d" "bs \<noteq> []" "[] \<notin> set later" "length dst = length bs"
  shows "\<exists>d1 p d2. Data_Write bs d = Inr (d1, p) \<and> Write_all later d1 = Inr d2 \<and> volatile_ok d2 \<and>
    GetData dst (length bs) p d2 = Inr (d2, bs)"
proof -
  obtain d1 p where d1: "Data_Write bs d = Inr (d1, p)" using Write_volatile [OF assms(1,2)] by blast
  note a = vol.write_appends [OF assms(1,2) d1]
  obtain d2 where d2: "Write_all later d1 = Inr d2" "volatile_ok d2" "content d2 = content d1 @ concat later"
    "d_written_len d2 = d_written_len d1"
    using vol.write_all_ok [of d1 later] a assms(3) by (auto simp: Write_all_eq)
  have "GetData dst (length bs) (d_written_len d2 + length (content d)) d2 = Inr (d2, bs)"
    using GetData_volatile [OF d2(2) _ assms(4), of "length (content d)"] a d2(3) by simp
  then show ?thesis using d1 d2 a by auto
qed

definition small_store :: DataStore where
  "small_store =
     \<lparr>d_size = 4, d_head = 0, d_tail = 0, d_grow_unit = 4, d_allocated = 1, d_written_len = 1048576,
      d_mode = kGrowingMode, d_ftype = kVolatile, d_chunksize = 1048576, d_ptr = Some [0, 0, 0, 0],
      d_buf_preserved = None, d_tail_preserved = 0, d_r_tail = 0, d_r_head = 0, d_threshold = 4, d_fh = None\<rparr>"

theorem volatile_roundtrip_witness:
  "\<exists>d1 p d2. Data_Write [1, 2, 3] small_store = Inr (d1, p) \<and> Write_all [[4, 5], [6]] d1 = Inr d2 \<and>
     GetData [0, 0, 0] 3 p d2 = Inr (d2, [1, 2, 3])"
proof -
  have "volatile_ok small_store" by (simp add: volatile_ok_def small_store_def)
  from volatile_roundtrip [OF this, of "[1, 2, 3]" "[[4, 5], [6]]" "[0, 0, 0]"] show ?thesis
    by (simp add: numeral_3_eq_3) blast
qed

lemma grow_data_doubles:
  assumes "0 < sz" "sz < need"
  shows "\<exists>s g. grow_data need sz sz = Some (s, g) \<and> need \<le> s \<and> 2 * sz \<le> s"
proof -
  let ?next = "if sz > TWO_GIGABYTE \<or> sz > 0x10000000 then 2 * sz else 4 * sz"
  have "grow_data need sz sz = grow_data need ?next ?next"
    using assms(2) by (subst grow_data.simps) (simp add: mult_2)
  moreover have "0 < ?next" "2 * sz \<le> ?next" using assms(1) by auto
  ultimately show ?thesis using grow_data_ends [of ?next ?next need] by auto
qed

text \<open>
  When a store with a file has wrapped around, \<open>Reallocate\<close> does not move the wrapped part:
  it is copied to the indices it had in the old buffer, while every later access looks for it at its
  position in the new one, so the bytes from position \<open>size_\<close> to \<open>tail_\<close> read as whatever
  the new memory holds.
\<close>

theorem Reallocate_loses_wrapped_part:
  assumes "d_ptr d = Some ptr" "length ptr = d_size d" "d_grow_unit d = d_size d"
    and "d_head d < d_size d" "d_size d < d_tail d" "d_tail d \<le> d_head d + d_size d"
    and "d_size d < len + (d_tail d - d_head d)"
  shows "\<exists>d'. Data_Reallocate len d = Inr d' \<and>
    CopyFromBuffer (d_tail d - d_size d) (Some (d_size d)) d = Inr (take (d_tail d - d_size d) ptr) \<and>
    CopyFromBuffer (d_tail d - d_size d) (Some (d_size d)) d' = Inr (replicate (d_tail d - d_size d) 0)"
proof -
  define s h t where sht: "s = d_size d" "h = d_head d" "t = d_tail d - d_size d"
  have a: "h < s" "0 < t" "t \<le> h" "length ptr = s" "0 < s" using assms sht by auto
  have u: "nat (buf_used d) = s + t - h" using assms sht by (simp add: buf_used_def)
  obtain s' g where s': "grow_data (len + (s + t - h)) s s = Some (s', g)" "2 * s \<le> s'"
    using grow_data_doubles [OF a(5), of "len + (s + t - h)"] assms(7) sht a by force
  have m: "d_tail d mod s = t" "d_tail d = s + t"
    using assms sht a by (simp_all add: mod_if)
  let ?new = "take t ptr @ drop t (replicate h 0 @ drop h ptr @ replicate (s' - s) 0)"
  have r: "Data_Reallocate len d = Inr (d\<lparr>d_ptr := Some ?new, d_size := s', d_grow_unit := g,
      d_allocated := d_allocated d + 1, d_threshold := s' * 4 div 5\<rparr>)"
    using assms(1-3) sht s' m u a
    by (simp add: Data_Reallocate_def Let_def copy_out_def copy_in_def)
  moreover have "drop s ?new = replicate (s' - s) 0" using a by simp
  moreover have "CopyFromBuffer t (Some s) d = Inr (take t ptr)"
    using a assms(1) sht by (simp add: CopyFromBuffer_def Let_def copy_out_def)
  moreover have "s < s'" "\<not> s' - s < t" "d_tail d \<le> s'" using s'(2) a m(2) by simp_all
  ultimately show ?thesis using sht a s'(2) by (simp add: CopyFromBuffer_def Let_def copy_out_def)
qed

definition wrapped_store :: DataStore where
  "wrapped_store = small_store\<lparr>d_head := 2, d_tail := 6, d_ptr := Some [4, 5, 2, 3], d_ftype := kPosixFile\<rparr>"

theorem Reallocate_loses_wrapped_part_witness:
  "\<exists>d'. Data_Reallocate 1 wrapped_store = Inr d' \<and>
     CopyFromBuffer 2 (Some 4) wrapped_store = Inr [4, 5] \<and> CopyFromBuffer 2 (Some 4) d' = Inr [0, 0]"
  using Reallocate_loses_wrapped_part [of wrapped_store "[4, 5, 2, 3]" 1]
  by (simp add: wrapped_store_def small_store_def numeral_2_eq_2)

end
