(* ===== verification/CD_Preserve.thy ===== *)
theory CD_Preserve
  imports Data_Store CD_Path
begin

text \<open>
  Preservation and restoration of application data, \<open>CD::Preserve\<close>, \<open>InternalPreserve\<close>,
  \<open>PreserveCopy\<close>, \<open>SearchEntry\<close>, \<open>InternalGetEntry\<close> and \<open>Restore\<close> of
  \<open>cd_internal.cc\<close>, on the packer of \<open>persistence/packer.hpp\<close>.  The state is the part of the
  domains on the path that these calls use (the domain of level \<open>k\<close> stands at index \<open>k\<close>), and
  the memory of the application as a function from addresses to bytes.  The hash of entry names is
  \<open>std::hash\<close>, a parameter.  Nested objects (\<open>kSerdes\<close>, which call back into the
  application) and the table of remote entries that a head keeps for other tasks are left out.
\<close>

unbundle bit_operations_syntax

section \<open>State\<close>

record prv_cd =
  v_exec_mode :: CDExecMode
  v_preserve_count :: nat
  v_restore_count :: nat
  v_medium :: PrvMediumT
  v_table :: TableStore
  v_data :: DataStore
  v_remote :: "uint64 \<rightharpoonup> nat"

record prv_state =
  p_cds :: "prv_cd list"
  p_mem :: memory
  p_failed_phase :: int
  p_failed_seqID :: int
  p_dont_preserve :: bool
  p_koutput_disabled :: bool

definition modify_cd :: "nat \<Rightarrow> (prv_cd \<Rightarrow> prv_cd) \<Rightarrow> prv_state \<Rightarrow> prv_state" where
  "modify_cd k f s = s\<lparr>p_cds := (p_cds s)[k := f (p_cds s ! k)]\<rparr>"

section \<open>The packer\<close>

text \<open>
  \<open>Packer::AddEntry\<close>: the data go to the data store, the entry with their position to the table.
  \<open>bytes\<close> are the bytes at \<open>src\<close>.
\<close>

definition AddEntry :: "uint64 \<Rightarrow> byte list \<Rightarrow> CDEntry \<Rightarrow> prv_cd \<Rightarrow> (prv_cd \<times> nat) outcome" where
  "AddEntry src bytes e v =
     bind_out
       (if src \<noteq> 0 \<and> entry_size e \<noteq> 0 then
          bind_out (Data_Write (take (unat (entry_size e)) bytes) (v_data v)) (\<lambda>(d, off).
            Inr (v\<lparr>v_data := d\<rparr>, SetOffset (of_nat off) e))
        else Inr (v, SetOffset INVALID_NUM e))
       (\<lambda>(v, e). bind_out (InsertEntry e (v_table v)) (\<lambda>(t, p). Inr (v\<lparr>v_table := t\<rparr>, p)))"

text \<open>\<open>Packer::Clear\<close>, called by \<open>DeleteEntryDirectory\<close> with \<open>reuse\<close>.\<close>

definition Clear :: "bool \<Rightarrow> prv_cd \<Rightarrow> prv_cd" where
  "Clear reuse v = v\<lparr>v_table := fst (Table_Free reuse (v_table v)), v_data := fst (FreeData reuse (v_data v))\<rparr>"

definition DeleteEntryDirectory_prv :: "prv_cd \<Rightarrow> prv_cd" where
  "DeleteEntryDirectory_prv v = (Clear True v)\<lparr>v_preserve_count := 0, v_restore_count := 0, v_remote := Map.empty\<rparr>"

section \<open>Searching\<close>

definition InternalGetEntry :: "uint64 \<Rightarrow> uint16 \<Rightarrow> prv_cd \<Rightarrow> nat option outcome" where
  "InternalGetEntry name attr v =
     bind_out
       (case v_remote v name of
          Some p \<Rightarrow> Inr (Some p)
        | None \<Rightarrow> FindReverse name attr (v_table v))
       (\<lambda>entry. case entry of
          Some p \<Rightarrow> Inr (if Check (AttrFlag_val krefer) (e_size (entries (v_table v) ! p)) then None else Some p)
        | None \<Rightarrow> Inr None)"

text \<open>
  \<open>SearchEntry\<close> starts at the current domain and goes up to the root; the result is the level
  and the position of the entry in the table of that level.
\<close>

fun search_up :: "uint64 \<Rightarrow> uint16 \<Rightarrow> prv_cd list \<Rightarrow> nat \<Rightarrow> (nat \<times> nat) option outcome" where
  "search_up tag attr cds k =
     bind_out (InternalGetEntry tag attr (cds ! k)) (\<lambda>entry.
       case entry of
         Some p \<Rightarrow> Inr (Some (k, p))
       | None \<Rightarrow> (case k of 0 \<Rightarrow> Inr None | Suc k' \<Rightarrow> search_up tag attr cds k'))"

declare search_up.simps [simp del]

definition SearchEntry :: "uint64 \<Rightarrow> uint16 \<Rightarrow> prv_state \<Rightarrow> (nat \<times> nat) option outcome" where
  "SearchEntry tag attr s =
     bind_out (GetCurrentCD (\<lambda>h. v_exec_mode (p_cds s ! h)) of_nat (Some [0..<length (p_cds s)])) (\<lambda>cdh.
       case cdh of
         None \<Rightarrow> Inr None
       | Some k \<Rightarrow> search_up tag attr (p_cds s) k)"

section \<open>Preserving\<close>

definition PreserveCopy :: "nat \<Rightarrow> uint64 \<Rightarrow> nat \<Rightarrow> uint32 \<Rightarrow> uint64 \<Rightarrow> prv_state \<Rightarrow> (prv_state \<times> nat) outcome" where
  "PreserveCopy k data len prv ident s =
     (let attr = (if CHECK_TYPE prv (CDPrvType_val kCoop) then AttrFlag_val kremote else 0);
          attr = (if CHECK_TYPE prv (CDPrvType_val kOutput) then AttrFlag_val koutput OR attr else attr) in
      if CHECK_TYPE prv (CDPrvType_val kSerdes) then Inl (Unmodelled ''kSerdes'')
      else
        let attr = attr OR AttrFlag_val karray;
            v = p_cds s ! k in
        bind_out (AddEntry data (read_mem (p_mem s) data len)
                    (CDEntry_of ident (ucast attr) (of_nat len) 0 data) v) (\<lambda>(v, p).
        bind_out (if v_medium v \<noteq> kDRAM then bind_out (Flush (v_data v)) (\<lambda>d. Inr (v\<lparr>v_data := d\<rparr>)) else Inr v)
          (\<lambda>v. Inr (s\<lparr>p_cds := (p_cds s)[k := v]\<rparr>, p))))"

definition unset_output :: "nat \<Rightarrow> TableStore \<Rightarrow> TableStore" where
  "unset_output p t =
     t\<lparr>t_ptr := map_option (\<lambda>xs. xs[p := (xs ! p)\<lparr>e_size := Attr_Unset (ucast (AttrFlag_val koutput)) (e_size (xs ! p))\<rparr>])
                  (t_ptr t)\<rparr>"

definition insert_entry :: "nat \<Rightarrow> CDEntry \<Rightarrow> prv_state \<Rightarrow> (prv_state \<times> nat) outcome" where
  "insert_entry k e s =
     bind_out (InsertEntry e (v_table (p_cds s ! k))) (\<lambda>(t, p).
       Inr (modify_cd k (\<lambda>v. v\<lparr>v_table := t\<rparr>) s, p))"

definition PreserveRef :: "nat \<Rightarrow> uint64 \<Rightarrow> nat \<Rightarrow> uint32 \<Rightarrow> uint64 \<Rightarrow> uint64 \<Rightarrow> uint64 \<Rightarrow> prv_state \<Rightarrow> (prv_state \<times> nat) outcome" where
  "PreserveRef k data len prv ident ref_id ref_offset s =
     (let attr = (if CHECK_TYPE prv (CDPrvType_val kCoop) then AttrFlag_val kremote OR AttrFlag_val krefer
                  else AttrFlag_val krefer);
          e = CDEntry_of ident (ucast attr) (of_nat len) ref_offset ref_id in
      if CHECK_TYPE prv (CDPrvType_val kSerdes) then Inl (Unmodelled ''kSerdes'')
      else if CHECK_TYPE prv (CDPrvType_val kIgnore) then insert_entry k e s
      else
        bind_out (SearchEntry ref_id (AttrFlag_val knoattr) s) (\<lambda>found.
          case found of
            Some (lv, p) \<Rightarrow>
              if entry_invalid (entries (v_table (p_cds s ! lv)) ! p) \<noteq> 0 then Inl (Blocked ''src->invalid()'')
              else insert_entry k e (modify_cd lv (\<lambda>v. v\<lparr>v_table := unset_output p (v_table v)\<rparr>) s)
          | None \<Rightarrow> PreserveCopy k data len prv ref_id s))"

definition InternalPreserve ::
  "(string \<Rightarrow> uint64) \<Rightarrow> nat \<Rightarrow> uint64 \<Rightarrow> nat \<Rightarrow> uint32 \<Rightarrow> string \<Rightarrow> string \<Rightarrow> uint64 \<Rightarrow> prv_state \<Rightarrow> prv_state outcome" where
  "InternalPreserve hash k data len prv my_name ref_name ref_offset s =
     bind_out (assert_out ''cd_exec_mode_ == kExecution'' (v_exec_mode (p_cds s ! k) = kExecution)) (\<lambda>_.
     bind_out (assert_out ''my_name.empty() == false'' (my_name \<noteq> [])) (\<lambda>_.
     let ident = hash my_name; ref_id = (if ref_name = [] then ident else hash ref_name) in
     if p_dont_preserve s then Inr s
     else
       bind_out
         (if CHECK_ANY prv (CDPrvType_val kCopy OR CDPrvType_val kOutput) then PreserveCopy k data len prv ident s
          else if CHECK_TYPE prv (CDPrvType_val kRef) then PreserveRef k data len prv ident ref_id ref_offset s
          else if CHECK_TYPE prv (CDPrvType_val kRegen) then Inl (ErrorMessage ''Preservation via Regeneration'')
          else Inl (ErrorMessage ''Unsupported preservation type''))
         (\<lambda>(s, p).
            Inr (if ident \<noteq> INVALID_NUM \<and> CHECK_TYPE prv (CDPrvType_val kCoop)
                 then modify_cd k (\<lambda>v. v\<lparr>v_remote := (v_remote v)(ident \<mapsto> p)\<rparr>) s else s))))"

section \<open>Restoring\<close>

definition Restore ::
  "(string \<Rightarrow> uint64) \<Rightarrow> uint64 \<Rightarrow> nat \<Rightarrow> uint32 \<Rightarrow> string \<Rightarrow> string \<Rightarrow> prv_state \<Rightarrow> prv_state outcome" where
  "Restore hash data len prv my_name ref_name s =
     (let is_ref = CHECK_TYPE prv (CDPrvType_val kRef);
          entry_id = hash my_name;
          ref_id = (if ref_name = [] then entry_id else hash ref_name);
          search_tag = (if is_ref then ref_id else entry_id) in
      bind_out (SearchEntry search_tag (AttrFlag_val knoattr) s) (\<lambda>found.
      case found of
        None \<Rightarrow> Inl (AssertFailed ''src != NULL'')
      | Some (lv, p) \<Rightarrow>
          if CHECK_TYPE prv (CDPrvType_val kSerdes) then Inl (Unmodelled ''kSerdes'')
          else
            let src = entries (v_table (p_cds s ! lv)) ! p in
            bind_out (assert_out ''src->size() == len_in_bytes'' (unat (entry_size src) = len)) (\<lambda>_.
            bind_out (assert_out ''src->src() == data'' (e_src src = data)) (\<lambda>_.
            bind_out (GetData (read_mem (p_mem s) data len) len (unat (e_offset src)) (v_data (p_cds s ! lv)))
              (\<lambda>(d, bs).
                 Inr (modify_cd lv (\<lambda>v. v\<lparr>v_data := d\<rparr>) (s\<lparr>p_mem := write_mem data bs (p_mem s)\<rparr>)))))))"

text \<open>\<open>CD::Preserve\<close>: preserves in execution mode, restores in re-execution mode.\<close>

definition Preserve ::
  "(string \<Rightarrow> uint64) \<Rightarrow> nat \<Rightarrow> uint64 \<Rightarrow> nat \<Rightarrow> uint32 \<Rightarrow> string \<Rightarrow> string \<Rightarrow> uint64 \<Rightarrow> prv_state \<Rightarrow> prv_state outcome" where
  "Preserve hash k data len prv my_name ref_name ref_offset s =
     (let mode = v_exec_mode (p_cds s ! k) in
      if CHECK_TYPE prv (CDPrvType_val kOutput) then
        if p_koutput_disabled s then Inr s
        else if mode = kExecution then InternalPreserve hash k data len prv my_name ref_name ref_offset s
        else if mode = kReexecution then Inr s
        else Inl (ErrorMessage ''Undefined execution state'')
      else if mode = kExecution then
        bind_out (InternalPreserve hash k data len prv my_name ref_name ref_offset s) (\<lambda>s.
          Inr (modify_cd k (\<lambda>v. v\<lparr>v_preserve_count := v_preserve_count v + 1\<rparr>) s))
      else if mode = kReexecution then
        bind_out (assert_out ''dont_preserve == false'' (\<not> p_dont_preserve s)) (\<lambda>_.
          if v_restore_count (p_cds s ! k) < v_preserve_count (p_cds s ! k) then
            bind_out (assert_out ''failed_phase >= 0 && failed_seqID >= 0''
              (p_failed_phase s \<ge> 0 \<and> p_failed_seqID s \<ge> 0)) (\<lambda>_.
            bind_out (Restore hash data len prv my_name ref_name s) (\<lambda>s.
            let s = modify_cd k (\<lambda>v. v\<lparr>v_restore_count := v_restore_count v + 1\<rparr>) s;
                v = p_cds s ! k in
            Inr (if v_restore_count v = v_preserve_count v
                 then modify_cd k (\<lambda>v. v\<lparr>v_exec_mode := kExecution, v_restore_count := 0\<rparr>) s else s)))
          else Inl (ErrorMessage ''preserve function is called more number of time than original''))
      else Inl (ErrorMessage ''Preserve() is called during kSuspension''))"

text \<open>
  The part of a rollback that preservation sees: the domain re-executes (\<open>RestoreAll\<close> resets
  \<open>restore_count_\<close>) and the failed point is set.
\<close>

definition reexecute :: "nat \<Rightarrow> int \<Rightarrow> int \<Rightarrow> prv_state \<Rightarrow> prv_state" where
  "reexecute k phase seqID s =
     modify_cd k (\<lambda>v. v\<lparr>v_exec_mode := kReexecution, v_restore_count := 0\<rparr>)
       (s\<lparr>p_failed_phase := phase, p_failed_seqID := seqID\<rparr>)"

section \<open>Memory and masks\<close>

lemma unat_of_nat_small: "x < 2 ^ 64 \<Longrightarrow> unat (of_nat x :: uint64) = x"
  by (simp add: unsigned_of_nat take_bit_nat_eq_self)

lemma get_field_f_invalid: "get_field f_invalid (Attr_of (ucast (b :: uint16)) sz) = 0 \<longleftrightarrow> \<not> bit b 15"
  using and_1_neq_0_iff [of "drop_bit 63 (Attr_of (ucast b) sz)"]
  by (auto simp: get_field_def bit_drop_bit_eq Attr_of_def bit_set_size bit_push_48 bit_ucast_iff)

lemma copy_mask:
  "CHECK_TYPE (prv_mask [kCopy]) (CDPrvType_val t) \<longleftrightarrow> t = kCopy"
  "CHECK_ANY (prv_mask [kCopy]) (CDPrvType_val kCopy OR CDPrvType_val kOutput)"
proof -
  show "CHECK_TYPE (prv_mask [kCopy]) (CDPrvType_val t) \<longleftrightarrow> t = kCopy" by (simp add: CHECK_TYPE_prv_mask)
  have "bit (prv_mask [kCopy]) (CDPrvType_bit kCopy)"
    using CHECK_TYPE_prv_mask [of "[kCopy]" kCopy] CHECK_TYPE_iff_bit by simp
  then have "bit (prv_mask [kCopy] AND (CDPrvType_val kCopy OR CDPrvType_val kOutput)) (CDPrvType_bit kCopy)"
    unfolding bit_and_iff bit_or_iff bit_CDPrvType_val by simp
  then show "CHECK_ANY (prv_mask [kCopy]) (CDPrvType_val kCopy OR CDPrvType_val kOutput)"
    unfolding CHECK_ANY_def by (metis bit_0_eq bot_apply bot_bool_def)
qed

section \<open>A domain that preserves in memory\<close>

definition cd_ok :: "prv_cd \<Rightarrow> bool" where
  "cd_ok v \<longleftrightarrow> tbl_ok (v_table v) \<and> volatile_ok (v_data v) \<and> v_medium v = kDRAM \<and> v_remote v = Map.empty"

type_synonym prv_call = "uint64 \<times> nat \<times> string"

fun call_id :: "(string \<Rightarrow> uint64) \<Rightarrow> prv_call \<Rightarrow> uint64" where
  "call_id hash (a, n, name) = hash name"

fun call_ok :: "prv_call \<Rightarrow> bool" where
  "call_ok (a, n, name) \<longleftrightarrow> a \<noteq> 0 \<and> 0 < n \<and> n < 2 ^ 48 \<and> name \<noteq> []"

text \<open>The domain holds the bytes \<open>bs\<close> as the copy that the call preserved.\<close>

fun holds :: "(string \<Rightarrow> uint64) \<Rightarrow> prv_cd \<Rightarrow> prv_call \<Rightarrow> byte list \<Rightarrow> bool" where
  "holds hash v (a, n, name) bs \<longleftrightarrow> (\<exists>p off. FindReverse (hash name) 0 (v_table v) = Inr (Some p) \<and>
     (let e = entries (v_table v) ! p in
      \<not> Check (AttrFlag_val krefer) (e_size e) \<and> entry_invalid e = 0 \<and> unat (entry_size e) = n \<and> e_src e = a \<and>
      unat (e_offset e) = d_written_len (v_data v) + off \<and> off + n \<le> length (content (v_data v)) \<and>
      take n (drop off (content (v_data v))) = bs))"

declare holds.simps [simp del]

lemma AddEntry_spec:
  assumes "cd_ok v" "src \<noteq> 0" "entry_size e \<noteq> 0" "unat (entry_size e) = length bs"
  shows "\<exists>v' e'. AddEntry src bs e v = Inr (v', length (entries (v_table v))) \<and> cd_ok v' \<and>
    e' = SetOffset (of_nat (d_written_len (v_data v) + length (content (v_data v)))) e \<and>
    InsertEntry e' (v_table v) = Inr (v_table v', length (entries (v_table v))) \<and>
    entries (v_table v') = entries (v_table v) @ [e'] \<and>
    content (v_data v') = content (v_data v) @ bs \<and> d_written_len (v_data v') = d_written_len (v_data v) \<and>
    v_exec_mode v' = v_exec_mode v \<and> v_preserve_count v' = v_preserve_count v \<and>
    v_restore_count v' = v_restore_count v"
proof -
  let ?e = "SetOffset (of_nat (d_written_len (v_data v) + length (content (v_data v)))) e"
  have ok: "tbl_ok (v_table v)" "volatile_ok (v_data v)" using assms(1) by (simp_all add: cd_ok_def)
  have "bs \<noteq> []" using assms(3,4) by (metis list.size(3) unat_eq_zero)
  then obtain d where d: "Data_Write bs (v_data v) = Inr (d, d_written_len (v_data v) + length (content (v_data v)))"
    "volatile_ok d" "content d = content (v_data v) @ bs" "d_written_len d = d_written_len (v_data v)"
    using Write_volatile [OF ok(2)] by blast
  obtain t where t: "InsertEntry ?e (v_table v) = Inr (t, length (entries (v_table v)))" "tbl_ok t"
    "entries t = entries (v_table v) @ [?e]" using InsertEntry_spec [OF ok(1)] by blast
  show ?thesis
    using d t assms by (auto simp: AddEntry_def cd_ok_def)
qed

lemma holds_after_AddEntry:
  assumes "cd_ok v" "InsertEntry e' (v_table v) = Inr (v_table v', p)" "call_id hash c \<noteq> e_id e'"
    and "content (v_data v') = content (v_data v) @ bs" "d_written_len (v_data v') = d_written_len (v_data v)"
    and "holds hash v c cs"
  shows "holds hash v' c cs"
proof -
  obtain a n name where c: "c = (a, n, name)" by (cases c)
  have ok: "tbl_ok (v_table v)" using assms(1) by (simp add: cd_ok_def)
  obtain q off where q: "FindReverse (hash name) 0 (v_table v) = Inr (Some q)"
    "let e = entries (v_table v) ! q in
      \<not> Check (AttrFlag_val krefer) (e_size e) \<and> entry_invalid e = 0 \<and> unat (entry_size e) = n \<and> e_src e = a \<and>
      unat (e_offset e) = d_written_len (v_data v) + off \<and> off + n \<le> length (content (v_data v)) \<and>
      take n (drop off (content (v_data v))) = cs"
    using assms(6) c by (auto simp: holds.simps)
  have "q < length (entries (v_table v))" using tbl.look_Some [OF ok] q(1) by blast
  moreover have "entries (v_table v') = entries (v_table v) @ [e']"
    using InsertEntry_spec [OF ok, of e'] assms(2) by auto
  ultimately have "entries (v_table v') ! q = entries (v_table v) ! q" by (simp add: nth_append)
  moreover have "FindReverse (hash name) 0 (v_table v') = Inr (Some q)"
    using tbl.ins_look [OF ok assms(2)] assms(3) q(1) c by simp
  ultimately show ?thesis unfolding c holds.simps
    by (intro exI [of _ q] exI [of _ off]) (use q(2) assms(4,5) in \<open>simp add: Let_def\<close>)
qed

section \<open>One call\<close>

lemma Preserve_copy_step:
  assumes "p_cds s = cs @ [v]" "cd_ok v" "v_exec_mode v = kExecution" "\<not> p_dont_preserve s"
    and "call_ok (a, n, name)" "d_written_len (v_data v) + length (content (v_data v)) < 2 ^ 64"
  shows "\<exists>v'. Preserve hash (length cs) a n (prv_mask [kCopy]) name [] 0 s = Inr (s\<lparr>p_cds := cs @ [v']\<rparr>) \<and>
    cd_ok v' \<and> v_exec_mode v' = kExecution \<and> v_preserve_count v' = v_preserve_count v + 1 \<and>
    v_restore_count v' = v_restore_count v \<and>
    d_written_len (v_data v') = d_written_len (v_data v) \<and>
    length (content (v_data v')) = length (content (v_data v)) + n \<and>
    holds hash v' (a, n, name) (read_mem (p_mem s) a n) \<and>
    (\<forall>c bs. call_id hash c \<noteq> hash name \<longrightarrow> holds hash v c bs \<longrightarrow> holds hash v' c bs)"
proof -
  let ?e = "CDEntry_of (hash name) (ucast (AttrFlag_val karray)) (of_nat n) 0 a"
    and ?bs = "read_mem (p_mem s) a n"
  have n: "0 < n" "n < 2 ^ 48" "a \<noteq> 0" "name \<noteq> []" using assms(5) by simp_all
  then have "unat (of_nat n :: uint64) = n" by (simp add: unsigned_of_nat take_bit_nat_eq_self)
  then have sz: "unat (entry_size ?e) = n" "entry_size ?e \<noteq> 0"
    using n take_bit_48_small [of "of_nat n"] by auto
  have len: "unat (entry_size ?e) = length ?bs" using sz(1) by simp
  obtain v1 e' where v1: "AddEntry a ?bs ?e v = Inr (v1, length (entries (v_table v)))" "cd_ok v1"
    "e' = SetOffset (of_nat (d_written_len (v_data v) + length (content (v_data v)))) ?e"
    "InsertEntry e' (v_table v) = Inr (v_table v1, length (entries (v_table v)))"
    "entries (v_table v1) = entries (v_table v) @ [e']" "content (v_data v1) = content (v_data v) @ ?bs"
    "d_written_len (v_data v1) = d_written_len (v_data v)" "v_exec_mode v1 = v_exec_mode v"
    "v_preserve_count v1 = v_preserve_count v" "v_restore_count v1 = v_restore_count v"
    using AddEntry_spec [OF assms(2) n(3) sz(2) len] by blast
  let ?v = "v1\<lparr>v_preserve_count := v_preserve_count v1 + 1\<rparr>"
  have step: "Preserve hash (length cs) a n (prv_mask [kCopy]) name [] 0 s = Inr (s\<lparr>p_cds := cs @ [?v]\<rparr>)"
    using assms(1,3,4) n v1(1,2)
    by (simp add: Preserve_def InternalPreserve_def PreserveCopy_def copy_mask modify_cd_def Let_def cd_ok_def)
  have h: "holds hash v1 (a, n, name) ?bs"
  proof -
    have ok: "tbl_ok (v_table v)" using assms(2) by (simp add: cd_ok_def)
    have "FindReverse (hash name) 0 (v_table v1) = Inr (Some (length (entries (v_table v))))"
      using tbl.ins_look [OF ok v1(4)] v1(3) by simp
    moreover have "entries (v_table v1) ! length (entries (v_table v)) = e'" using v1(5) by simp
    moreover have "unat (e_offset e') = d_written_len (v_data v) + length (content (v_data v))"
      using assms(6) v1(3) unat_of_nat_small by (simp del: of_nat_add)
    moreover have "\<not> Check (AttrFlag_val krefer) (e_size e')" "entry_invalid e' = 0"
      using v1(3) get_field_f_invalid [of "AttrFlag_val karray" "of_nat n"]
      by (simp_all add: Check_def entry_invalid_def CDEntry_of_def)
    moreover have "unat (entry_size e') = n" "e_src e' = a" using v1(3) sz(1) by simp_all
    ultimately show ?thesis using v1(6,7) unfolding holds.simps
      by (intro exI [of _ "length (entries (v_table v))"] exI [of _ "length (content (v_data v))"]) (simp add: Let_def)
  qed
  have same: "holds hash ?v c bs = holds hash v1 c bs" for c bs by (cases c) (simp add: holds.simps)
  have keep: "holds hash v1 c bs" if "call_id hash c \<noteq> hash name" "holds hash v c bs" for c bs
    using holds_after_AddEntry [OF assms(2) v1(4) _ v1(6,7) that(2)] that(1) v1(3) by simp
  show ?thesis
    using step h keep v1 assms(3) same by (intro exI [of _ ?v]) (simp add: cd_ok_def)
qed

lemma SearchEntry_leaf:
  assumes "p_cds s = cs @ [v]" "v_exec_mode v \<noteq> kSuspension" "v_remote v = Map.empty"
    and "FindReverse tag 0 (v_table v) = Inr (Some p)" "\<not> Check (AttrFlag_val krefer) (e_size (entries (v_table v) ! p))"
  shows "SearchEntry tag (AttrFlag_val knoattr) s = Inr (Some (length cs, p))"
  using assms by (simp add: SearchEntry_def GetCurrentCD_def InternalGetEntry_def search_up.simps [of _ _ _ "length cs"])

lemma Restore_leaf:
  assumes "p_cds s = cs @ [v]" "cd_ok v" "v_exec_mode v \<noteq> kSuspension" "holds hash v (a, n, name) bs"
  shows "Restore hash a n (prv_mask [kCopy]) name [] s = Inr (s\<lparr>p_mem := write_mem a bs (p_mem s)\<rparr>) \<and> length bs = n"
proof -
  obtain p off where h: "FindReverse (hash name) 0 (v_table v) = Inr (Some p)"
    "\<not> Check (AttrFlag_val krefer) (e_size (entries (v_table v) ! p))"
    "unat (entry_size (entries (v_table v) ! p)) = n" "e_src (entries (v_table v) ! p) = a"
    "unat (e_offset (entries (v_table v) ! p)) = d_written_len (v_data v) + off"
    "off + n \<le> length (content (v_data v))" "take n (drop off (content (v_data v))) = bs"
    using assms(4) by (auto simp: holds.simps Let_def)
  have ok: "volatile_ok (v_data v)" "v_remote v = Map.empty" using assms(2) by (simp_all add: cd_ok_def)
  have g: "GetData (read_mem (p_mem s) a n) n (d_written_len (v_data v) + off) (v_data v) = Inr (v_data v, bs)"
    using GetData_volatile [OF ok(1) h(6)] h(7) by simp
  have "(p_cds s)[length cs := v\<lparr>v_data := v_data v\<rparr>] = p_cds s" using assms(1) by simp
  then have "Restore hash a n (prv_mask [kCopy]) name [] s = Inr (s\<lparr>p_mem := write_mem a bs (p_mem s)\<rparr>)"
    using SearchEntry_leaf [OF assms(1,3) ok(2) h(1,2)] h(3,4,5) g assms(1)
    by (simp add: Restore_def copy_mask Let_def modify_cd_def)
  then show ?thesis using h(6,7) by auto
qed

lemma Preserve_restore_step:
  assumes "p_cds s = cs @ [v]" "cd_ok v" "v_exec_mode v = kReexecution" "\<not> p_dont_preserve s"
    and "v_restore_count v < v_preserve_count v" "0 \<le> p_failed_phase s" "0 \<le> p_failed_seqID s"
    and "holds hash v (a, n, name) bs"
  shows "Preserve hash (length cs) a n (prv_mask [kCopy]) name [] 0 s =
    Inr (s\<lparr>p_mem := write_mem a bs (p_mem s), p_cds := cs @
      [if v_restore_count v + 1 = v_preserve_count v then v\<lparr>v_exec_mode := kExecution, v_restore_count := 0\<rparr>
       else v\<lparr>v_restore_count := v_restore_count v + 1\<rparr>]\<rparr>) \<and> length bs = n"
proof -
  have m: "v_exec_mode v \<noteq> kSuspension" using assms(3) by simp
  show ?thesis
    using Restore_leaf [OF assms(1,2) m assms(8)] assms(1,3-7)
    by (simp add: Preserve_def copy_mask Let_def modify_cd_def)
qed

section \<open>A sequence of calls\<close>

text \<open>
  The body of a domain as preservation sees it: before each call the application has put its memory
  into some state, and what a call leaves in its range is recorded.
\<close>

fun run_calls ::
  "(string \<Rightarrow> uint64) \<Rightarrow> nat \<Rightarrow> (memory \<times> prv_call) list \<Rightarrow> prv_state \<Rightarrow> (prv_state \<times> byte list list) outcome" where
  "run_calls hash k [] s = Inr (s, [])"
| "run_calls hash k ((m, (a, n, name)) # xs) s =
     bind_out (Preserve hash k a n (prv_mask [kCopy]) name [] 0 (s\<lparr>p_mem := m\<rparr>)) (\<lambda>s.
     bind_out (run_calls hash k xs s) (\<lambda>(s', recs). Inr (s', read_mem (p_mem s) a n # recs)))"

fun total_len :: "prv_call list \<Rightarrow> nat" where
  "total_len [] = 0"
| "total_len ((a, n, name) # cs) = n + total_len cs"

fun ranges :: "(memory \<times> prv_call) list \<Rightarrow> byte list list" where
  "ranges [] = []"
| "ranges ((m, (a, n, name)) # xs) = read_mem m a n # ranges xs"

lemma length_ranges [simp]: "length (ranges xs) = length xs"
  by (induction xs rule: ranges.induct) auto

lemma run_calls_preserve:
  assumes "p_cds s = cs @ [v]" "cd_ok v" "v_exec_mode v = kExecution" "\<not> p_dont_preserve s"
    and "list_all call_ok (map snd xs)" "distinct (map (call_id hash \<circ> snd) xs)"
    and "d_written_len (v_data v) + length (content (v_data v)) + total_len (map snd xs) < 2 ^ 64"
  shows "\<exists>s' v'. run_calls hash (length cs) xs s = Inr (s', ranges xs) \<and> p_cds s' = cs @ [v'] \<and> cd_ok v' \<and>
    v_exec_mode v' = kExecution \<and> \<not> p_dont_preserve s' \<and>
    v_preserve_count v' = v_preserve_count v + length xs \<and> v_restore_count v' = v_restore_count v \<and>
    list_all2 (holds hash v') (map snd xs) (ranges xs) \<and>
    (\<forall>c bs. call_id hash c \<notin> set (map (call_id hash \<circ> snd) xs) \<longrightarrow> holds hash v c bs \<longrightarrow> holds hash v' c bs)"
  using assms
proof (induction hash "length cs" xs s arbitrary: v rule: run_calls.induct)
  case (1 hash s)
  then show ?case by auto
next
  case (2 hash m a n name xs s)
  obtain v1 where v1: "Preserve hash (length cs) a n (prv_mask [kCopy]) name [] 0 (s\<lparr>p_mem := m\<rparr>)
      = Inr (s\<lparr>p_mem := m, p_cds := cs @ [v1]\<rparr>)"
    "cd_ok v1" "v_exec_mode v1 = kExecution" "v_preserve_count v1 = v_preserve_count v + 1"
    "v_restore_count v1 = v_restore_count v" "d_written_len (v_data v1) = d_written_len (v_data v)"
    "length (content (v_data v1)) = length (content (v_data v)) + n"
    "holds hash v1 (a, n, name) (read_mem m a n)"
    "\<And>c bs. call_id hash c \<noteq> hash name \<Longrightarrow> holds hash v c bs \<Longrightarrow> holds hash v1 c bs"
    using Preserve_copy_step [of "s\<lparr>p_mem := m\<rparr>" cs v a n name hash] "2.prems" by auto
  let ?s1 = "s\<lparr>p_mem := m, p_cds := cs @ [v1]\<rparr>"
  have "list_all call_ok (map snd xs)" "distinct (map (call_id hash \<circ> snd) xs)"
    "d_written_len (v_data v1) + length (content (v_data v1)) + total_len (map snd xs) < 2 ^ 64"
    using "2.prems" v1(6,7) by auto
  from "2.hyps" [of ?s1 v1] v1(2,3) "2.prems"(4) this
  obtain s' v' where s': "run_calls hash (length cs) xs ?s1 = Inr (s', ranges xs)" "p_cds s' = cs @ [v']" "cd_ok v'"
    "v_exec_mode v' = kExecution" "\<not> p_dont_preserve s'" "v_preserve_count v' = v_preserve_count v1 + length xs"
    "v_restore_count v' = v_restore_count v1" "list_all2 (holds hash v') (map snd xs) (ranges xs)"
    "\<And>c bs. call_id hash c \<notin> set (map (call_id hash \<circ> snd) xs) \<Longrightarrow> holds hash v1 c bs \<Longrightarrow> holds hash v' c bs"
    by auto
  have new: "hash name \<notin> set (map (call_id hash \<circ> snd) xs)" using "2.prems"(6) by simp
  show ?case
    using v1 s' new by (intro exI [of _ s'] exI [of _ v']) auto
qed

lemma run_calls_restore:
  assumes "p_cds s = cs @ [v]" "cd_ok v" "v_exec_mode v = kReexecution" "\<not> p_dont_preserve s"
    and "v_restore_count v + length ys = v_preserve_count v" "ys \<noteq> []"
    and "0 \<le> p_failed_phase s" "0 \<le> p_failed_seqID s"
    and "list_all2 (holds hash v) (map snd ys) recs" "list_all call_ok (map snd ys)"
  shows "\<exists>s'. run_calls hash (length cs) ys s = Inr (s', recs) \<and>
    p_cds s' = cs @ [v\<lparr>v_exec_mode := kExecution, v_restore_count := 0\<rparr>]"
  using assms
proof (induction hash "length cs" ys s arbitrary: v recs rule: run_calls.induct)
  case (2 hash m a n name ys s)
  obtain bs recs' where r: "recs = bs # recs'" "holds hash v (a, n, name) bs"
    "list_all2 (holds hash v) (map snd ys) recs'"
    using "2.prems"(9) by (auto simp: list_all2_Cons1)
  let ?v = "if v_restore_count v + 1 = v_preserve_count v then v\<lparr>v_exec_mode := kExecution, v_restore_count := 0\<rparr>
     else v\<lparr>v_restore_count := v_restore_count v + 1\<rparr>"
  let ?s1 = "s\<lparr>p_mem := write_mem a bs m, p_cds := cs @ [?v]\<rparr>"
  have step: "Preserve hash (length cs) a n (prv_mask [kCopy]) name [] 0 (s\<lparr>p_mem := m\<rparr>) = Inr ?s1" "length bs = n"
    using Preserve_restore_step [of "s\<lparr>p_mem := m\<rparr>" cs v hash a n name bs] "2.prems" r(2) by auto
  have "n < 2 ^ 64" using "2.prems"(10) by simp
  then have rd: "read_mem (write_mem a bs m) a n = bs" using read_write_mem [of bs a m] step(2) by simp
  show ?case
  proof (cases "ys = []")
    case True
    then show ?thesis using step rd r "2.prems"(5) by simp
  next
    case False
    then have more: "v_restore_count v + 1 \<noteq> v_preserve_count v" using "2.prems"(5) by (cases ys) auto
    have same: "list_all2 (holds hash (v\<lparr>v_restore_count := v_restore_count v + 1\<rparr>)) (map snd ys) recs'"
      using r(3) by (rule list_all2_mono) (auto simp: holds.simps)
    from "2.hyps" [of ?s1 "v\<lparr>v_restore_count := v_restore_count v + 1\<rparr>" recs'] "2.prems" more False same
    obtain s' where "run_calls hash (length cs) ys ?s1 = Inr (s', recs')"
      "p_cds s' = cs @ [v\<lparr>v_exec_mode := kExecution, v_restore_count := 0\<rparr>]"
      by (auto simp: cd_ok_def)
    then show ?thesis using step rd r by auto
  qed
qed simp

section \<open>References\<close>

lemma ref_mask:
  "CHECK_TYPE (prv_mask [kRef]) (CDPrvType_val t) \<longleftrightarrow> t = kRef"
  "\<not> CHECK_ANY (prv_mask [kRef]) (CDPrvType_val kCopy OR CDPrvType_val kOutput)"
proof -
  show "CHECK_TYPE (prv_mask [kRef]) (CDPrvType_val t) \<longleftrightarrow> t = kRef" by (simp add: CHECK_TYPE_prv_mask)
  have "prv_mask [kRef] AND (CDPrvType_val kCopy OR CDPrvType_val kOutput) = 0"
    by (rule bit_eqI) (auto simp: prv_mask_def bit_and_iff bit_or_iff bit_CDPrvType_val)
  then show "\<not> CHECK_ANY (prv_mask [kRef]) (CDPrvType_val kCopy OR CDPrvType_val kOutput)"
    by (simp add: CHECK_ANY_def)
qed

text \<open>Clearing \<open>koutput\<close> in an entry changes neither its identifier nor what it refers to.\<close>

definition cleared :: "CDEntry \<Rightarrow> CDEntry" where
  "cleared e = e\<lparr>e_size := Attr_Unset (ucast (AttrFlag_val koutput)) (e_size e)\<rparr>"

lemma bit_Unset_output: "bit (Attr_Unset (ucast (AttrFlag_val koutput)) c) n \<longleftrightarrow> bit c n \<and> n \<noteq> 56"
proof -
  have "push_bit 48 (ucast (AttrFlag_val koutput) :: uint64) = 2 ^ 56" by simp
  then have "Attr_Unset (ucast (AttrFlag_val koutput)) c = c AND NOT (2 ^ 56)" by (simp only: Attr_Unset_def)
  then show ?thesis by (simp only: bit_and_iff bit_not_iff bit_power2_word possible_bit_def)
      (auto dest: bit_imp_le_length)
qed

lemma Check_krefer: "Check (AttrFlag_val krefer) c \<longleftrightarrow> bit c 50"
proof -
  have "AttrFlag_val krefer = 2 ^ 2" by simp
  then show ?thesis by (simp only: Check_def and_eq_iff_bits bit_power2_word) auto
qed

lemma cleared_simps [simp]:
  "e_id (cleared e) = e_id e" "e_src (cleared e) = e_src e" "e_offset (cleared e) = e_offset e"
  "entry_size (cleared e) = entry_size e" "entry_invalid (cleared e) = entry_invalid e"
  "Check (AttrFlag_val krefer) (e_size (cleared e)) = Check (AttrFlag_val krefer) (e_size e)"
proof -
  show "entry_size (cleared e) = entry_size e"
    by (rule bit_eqI) (auto simp: entry_size_def attr_size_def cleared_def bit_take_bit_iff bit_Unset_output
        simp del: AttrFlag_val.simps)
  show "entry_invalid (cleared e) = entry_invalid e"
    unfolding entry_invalid_def get_field_def
    by (rule bit_eqI) (auto simp: cleared_def bit_and_iff bit_drop_bit_eq bit_Unset_output bit_1_iff simp del: AttrFlag_val.simps)
  show "Check (AttrFlag_val krefer) (e_size (cleared e)) = Check (AttrFlag_val krefer) (e_size e)"
    by (simp add: Check_krefer cleared_def bit_Unset_output del: AttrFlag_val.simps)
qed (simp_all add: cleared_def)

lemma unset_output_spec:
  assumes "tbl_ok t" "p < length (entries t)"
  shows "tbl_ok (unset_output p t)" "entries (unset_output p t) = (entries t)[p := cleared (entries t ! p)]"
    "FindReverse tag 0 (unset_output p t) = FindReverse tag 0 t"
proof -
  obtain xs where xs: "t_ptr t = Some xs" "t_size t = length xs * sizeof_CDEntry" "t_tail t \<le> length xs"
    "entries t = take (t_tail t) xs" "length (entries t) = t_tail t" using assms(1) by (rule tbl_ok_Some)
  show ok: "tbl_ok (unset_output p t)" using assms(1) xs by (simp add: tbl_ok_def unset_output_def)
  show e: "entries (unset_output p t) = (entries t)[p := cleared (entries t ! p)]"
    using xs assms(2) by (simp add: entries_def unset_output_def cleared_def take_update_swap)
  have "e_id (entries (unset_output p t) ! i) = e_id (entries t ! i)" for i
    using e assms(2) by (cases "i = p") simp_all
  then have "find_reverse (entries (unset_output p t)) tag 0 n = find_reverse (entries t) tag 0 n" for n
    by (induction n) auto
  then show "FindReverse tag 0 (unset_output p t) = FindReverse tag 0 t"
    by (simp add: FindReverse_def unset_output_def)
qed

lemma holds_unset_output:
  assumes "cd_ok u" "p < length (entries (v_table u))" "holds hash u c bs"
  shows "holds hash (u\<lparr>v_table := unset_output p (v_table u)\<rparr>) c bs"
proof -
  obtain a n name where c: "c = (a, n, name)" by (cases c)
  have ok: "tbl_ok (v_table u)" using assms(1) by (simp add: cd_ok_def)
  have e: "entries (unset_output p (v_table u)) ! i =
      (if i = p then cleared (entries (v_table u) ! i) else entries (v_table u) ! i)" for i
    using unset_output_spec(2) [OF ok assms(2)] assms(2) by (simp add: nth_list_update)
  obtain q off where "FindReverse (hash name) 0 (v_table u) = Inr (Some q)"
    "\<not> Check (AttrFlag_val krefer) (e_size (entries (v_table u) ! q))" "entry_invalid (entries (v_table u) ! q) = 0"
    "unat (entry_size (entries (v_table u) ! q)) = n" "e_src (entries (v_table u) ! q) = a"
    "unat (e_offset (entries (v_table u) ! q)) = d_written_len (v_data u) + off"
    "off + n \<le> length (content (v_data u))" "take n (drop off (content (v_data u))) = bs"
    using assms(3) unfolding c holds.simps Let_def by blast
  then show ?thesis unfolding c holds.simps Let_def
    by - (rule exI [of _ q], rule exI [of _ off],
      auto simp: unset_output_spec(3) [OF ok assms(2)] e simp del: AttrFlag_val.simps)
qed

text \<open>A reference entry hides nothing above it: the search goes on to the parent.\<close>

lemma search_up_ref:
  assumes "v_remote v = Map.empty" "v_remote u = Map.empty"
    and "FindReverse tag 0 (v_table v) = Inr None \<or>
      (\<exists>q. FindReverse tag 0 (v_table v) = Inr (Some q) \<and> Check (AttrFlag_val krefer) (e_size (entries (v_table v) ! q)))"
    and "FindReverse tag 0 (v_table u) = Inr (Some p)" "\<not> Check (AttrFlag_val krefer) (e_size (entries (v_table u) ! p))"
  shows "search_up tag (AttrFlag_val knoattr) (cs @ [u, v]) (Suc (length cs)) = Inr (Some (length cs, p))"
  using assms search_up.simps [of tag "AttrFlag_val knoattr" "cs @ [u, v]" "Suc (length cs)"]
    search_up.simps [of tag "AttrFlag_val knoattr" "cs @ [u, v]" "length cs"]
  by (auto simp: InternalGetEntry_def nth_append simp del: AttrFlag_val.simps(9))

lemma Preserve_ref_step:
  assumes "p_cds s = cs @ [u, v]" "cd_ok u" "cd_ok v" "v_exec_mode v = kExecution" "\<not> p_dont_preserve s" "name \<noteq> []"
    and "FindReverse (hash name) 0 (v_table v) = Inr None" "holds hash u (a, n, name) bs"
  shows "\<exists>u' v' q. Preserve hash (Suc (length cs)) a n (prv_mask [kRef]) name [] 0 s = Inr (s\<lparr>p_cds := cs @ [u', v']\<rparr>) \<and>
    cd_ok u' \<and> cd_ok v' \<and> holds hash u' (a, n, name) bs \<and> v_preserve_count v' = v_preserve_count v + 1 \<and>
    v_data v' = v_data v \<and> FindReverse (hash name) 0 (v_table v') = Inr (Some q) \<and> Check (AttrFlag_val krefer) (e_size (entries (v_table v') ! q))"
proof -
  have ok: "tbl_ok (v_table u)" "v_remote u = Map.empty" "tbl_ok (v_table v)" "v_remote v = Map.empty"
    using assms(2,3) by (simp_all add: cd_ok_def)
  obtain p where p: "FindReverse (hash name) 0 (v_table u) = Inr (Some p)"
    "\<not> Check (AttrFlag_val krefer) (e_size (entries (v_table u) ! p))" "entry_invalid (entries (v_table u) ! p) = 0"
    using assms(8) unfolding holds.simps Let_def by blast
  have pl: "p < length (entries (v_table u))" using tbl.look_Some [OF ok(1)] p(1) by blast
  have srch: "SearchEntry (hash name) (AttrFlag_val knoattr) s = Inr (Some (length cs, p))"
    using search_up_ref [OF ok(4,2) _ p(1,2)] assms(1,4,7) by (simp add: SearchEntry_def GetCurrentCD_def nth_append)
  let ?e = "CDEntry_of (hash name) (ucast (AttrFlag_val krefer)) (of_nat n) 0 (hash name)"
  obtain t where t: "InsertEntry ?e (v_table v) = Inr (t, length (entries (v_table v)))" "tbl_ok t"
    "entries t = entries (v_table v) @ [?e]" using InsertEntry_spec [OF ok(3)] by blast
  let ?u = "u\<lparr>v_table := unset_output p (v_table u)\<rparr>"
  let ?v = "v\<lparr>v_table := t, v_preserve_count := v_preserve_count v + 1\<rparr>"
  have "Preserve hash (Suc (length cs)) a n (prv_mask [kRef]) name [] 0 s = Inr (s\<lparr>p_cds := cs @ [?u, ?v]\<rparr>)"
    using assms(1,4,5,6) srch p(3) t(1)
    by (simp add: Preserve_def InternalPreserve_def PreserveRef_def ref_mask insert_entry_def modify_cd_def Let_def
        nth_append list_update_append)
  moreover have "cd_ok ?u" "cd_ok ?v"
    using assms(2,3) t(2) unset_output_spec(1) [OF ok(1) pl] by (simp_all add: cd_ok_def)
  moreover have "FindReverse (hash name) 0 (v_table ?v) = Inr (Some (length (entries (v_table v))))"
    using tbl.ins_look [OF ok(3) t(1)] by simp
  moreover have "Check (AttrFlag_val krefer) (e_size (entries (v_table ?v) ! length (entries (v_table v))))"
    using t(3) by (simp add: Check_def)
  ultimately show ?thesis using holds_unset_output [OF assms(2) pl assms(8)]
    by (intro exI [of _ ?u] exI [of _ ?v] exI [of _ "length (entries (v_table v))"]) auto
qed

lemma Restore_ref:
  assumes "p_cds s = cs @ [u, v]" "cd_ok u" "cd_ok v" "v_exec_mode v \<noteq> kSuspension"
    and "FindReverse (hash name) 0 (v_table v) = Inr (Some q)" "Check (AttrFlag_val krefer) (e_size (entries (v_table v) ! q))"
    and "holds hash u (a, n, name) bs"
  shows "Restore hash a n (prv_mask [kRef]) name [] s = Inr (s\<lparr>p_mem := write_mem a bs (p_mem s)\<rparr>) \<and> length bs = n"
proof -
  obtain p off where h: "FindReverse (hash name) 0 (v_table u) = Inr (Some p)"
    "\<not> Check (AttrFlag_val krefer) (e_size (entries (v_table u) ! p))"
    "unat (entry_size (entries (v_table u) ! p)) = n" "e_src (entries (v_table u) ! p) = a"
    "unat (e_offset (entries (v_table u) ! p)) = d_written_len (v_data u) + off"
    "off + n \<le> length (content (v_data u))" "take n (drop off (content (v_data u))) = bs"
    using assms(7) unfolding holds.simps Let_def by blast
  have ok: "volatile_ok (v_data u)" "v_remote u = Map.empty" "v_remote v = Map.empty"
    using assms(2,3) by (simp_all add: cd_ok_def)
  have srch: "SearchEntry (hash name) (AttrFlag_val knoattr) s = Inr (Some (length cs, p))"
    using search_up_ref [OF ok(3,2) _ h(1,2)] assms(1,4-6) by (simp add: SearchEntry_def GetCurrentCD_def nth_append)
  have g: "GetData (read_mem (p_mem s) a n) n (d_written_len (v_data u) + off) (v_data u) = Inr (v_data u, bs)"
    using GetData_volatile [OF ok(1) h(6)] h(7) by simp
  have "(p_cds s)[length cs := u\<lparr>v_data := v_data u\<rparr>] = p_cds s" using assms(1) by simp
  then have "Restore hash a n (prv_mask [kRef]) name [] s = Inr (s\<lparr>p_mem := write_mem a bs (p_mem s)\<rparr>)"
    using srch h(3,4,5) g assms(1)
    by (simp add: Restore_def ref_mask Let_def modify_cd_def nth_append)
  then show ?thesis using h(6,7) by auto
qed

section \<open>Properties\<close>


definition fresh_cd :: prv_cd where
  "fresh_cd = \<lparr>v_exec_mode = kExecution, v_preserve_count = 0, v_restore_count = 0, v_medium = kDRAM,
     v_table = TableStore_ctor 1 0 0, v_data = small_store, v_remote = Map.empty\<rparr>"

definition fresh_state :: prv_state where
  "fresh_state = \<lparr>p_cds = [fresh_cd], p_mem = (\<lambda>_. 7), p_failed_phase = - 1, p_failed_seqID = - 1,
     p_dont_preserve = False, p_koutput_disabled = False\<rparr>"

lemma fresh_cd_ok: "cd_ok fresh_cd" "content small_store = []"
  by (simp_all add: cd_ok_def fresh_cd_def tbl_ok_def volatile_ok_def small_store_def TableStore_ctor_def
      AllocateTable_def Let_def content_def)


text \<open>
  C6.  Preservation by reference: when a domain has preserved a range by copy, a child domain that
  preserves the same range by reference under the same name stores no data of its own, and when the
  child re-executes it restores the bytes of the copy of its parent, whatever the memory holds then.
\<close>

theorem reference_restores_parent_copy:
  assumes "p_cds s = cs @ [u]" "cd_ok u" "v_exec_mode u = kExecution" "\<not> p_dont_preserve s"
    and "call_ok (a, n, name)" "d_written_len (v_data u) + length (content (v_data u)) < 2 ^ 64"
    and "cd_ok v" "v_exec_mode v = kExecution" "v_preserve_count v = 0"
    and "FindReverse (hash name) 0 (v_table v) = Inr None" "0 \<le> phase" "0 \<le> seqID"
  shows "\<exists>s1 s2 s3. Preserve hash (length cs) a n (prv_mask [kCopy]) name [] 0 s = Inr s1 \<and>
    Preserve hash (Suc (length cs)) a n (prv_mask [kRef]) name [] 0 (s1\<lparr>p_cds := p_cds s1 @ [v]\<rparr>) = Inr s2 \<and>
    v_data (p_cds s2 ! Suc (length cs)) = v_data v \<and>
    Preserve hash (Suc (length cs)) a n (prv_mask [kRef]) name [] 0
      (reexecute (Suc (length cs)) phase seqID (s2\<lparr>p_mem := m\<rparr>)) = Inr s3 \<and>
    read_mem (p_mem s3) a n = read_mem (p_mem s) a n"
proof -
  let ?bs = "read_mem (p_mem s) a n" and ?k = "Suc (length cs)"
  obtain u1 where u1: "Preserve hash (length cs) a n (prv_mask [kCopy]) name [] 0 s = Inr (s\<lparr>p_cds := cs @ [u1]\<rparr>)"
    "cd_ok u1" "holds hash u1 (a, n, name) ?bs" using Preserve_copy_step [OF assms(1-6)] by blast
  define s1 where "s1 = s\<lparr>p_cds := cs @ [u1, v]\<rparr>"
  have n: "name \<noteq> []" "n < 2 ^ 64" using assms(5) by simp_all
  have "p_cds s1 = cs @ [u1, v]" "\<not> p_dont_preserve s1" using assms(4) by (simp_all add: s1_def)
  from Preserve_ref_step [OF this(1) u1(2) assms(7,8) this(2) n(1) assms(10) u1(3)]
  obtain u2 v2 q where r: "Preserve hash ?k a n (prv_mask [kRef]) name [] 0 s1 = Inr (s1\<lparr>p_cds := cs @ [u2, v2]\<rparr>)"
    "cd_ok u2" "cd_ok v2" "holds hash u2 (a, n, name) ?bs" "v_preserve_count v2 = 1" "v_data v2 = v_data v"
    "FindReverse (hash name) 0 (v_table v2) = Inr (Some q)" "Check (AttrFlag_val krefer) (e_size (entries (v_table v2) ! q))"
    using assms(9) by auto
  let ?v = "v2\<lparr>v_exec_mode := kReexecution, v_restore_count := 0\<rparr>"
  define s2 where "s2 = reexecute ?k phase seqID (s1\<lparr>p_cds := cs @ [u2, v2], p_mem := m\<rparr>)"
  have s2: "p_cds s2 = cs @ [u2, ?v]" "p_mem s2 = m" "\<not> p_dont_preserve s2" "p_failed_phase s2 = phase" "p_failed_seqID s2 = seqID"
    using assms(4) by (simp_all add: s2_def s1_def reexecute_def modify_cd_def nth_append list_update_append)
  have "cd_ok ?v" using r(3) by (simp add: cd_ok_def)
  from Restore_ref [OF s2(1) r(2) this _ _ _ r(4)] r(7,8)
  have rest: "Restore hash a n (prv_mask [kRef]) name [] s2 = Inr (s2\<lparr>p_mem := write_mem a ?bs m\<rparr>)" using s2(2) by simp
  have "\<exists>s3. Preserve hash ?k a n (prv_mask [kRef]) name [] 0 s2 = Inr s3 \<and> p_mem s3 = write_mem a ?bs m"
    using rest s2 r(5) assms(11,12)
    by (simp add: Preserve_def ref_mask Let_def modify_cd_def nth_append list_update_append)
  then obtain s3 where s3: "Preserve hash ?k a n (prv_mask [kRef]) name [] 0 s2 = Inr s3" "p_mem s3 = write_mem a ?bs m" by blast
  have "read_mem (p_mem s3) a n = ?bs" using read_write_mem [of ?bs a m] n(2) s3(2) by simp
  then show ?thesis using u1(1) r(1,6) s3(1)
    by (intro exI [of _ "s\<lparr>p_cds := cs @ [u1]\<rparr>"] exI [of _ "s1\<lparr>p_cds := cs @ [u2, v2]\<rparr>"] exI [of _ s3])
      (simp add: s1_def s2_def nth_append)
qed

theorem reference_restores_parent_copy_witness:
  "\<exists>s1 s2 s3. Preserve (\<lambda>name. of_nat (length name)) 0 100 3 (prv_mask [kCopy]) ''A'' [] 0 fresh_state = Inr s1 \<and>
     Preserve (\<lambda>name. of_nat (length name)) 1 100 3 (prv_mask [kRef]) ''A'' [] 0
       (s1\<lparr>p_cds := p_cds s1 @ [fresh_cd]\<rparr>) = Inr s2 \<and>
     Preserve (\<lambda>name. of_nat (length name)) 1 100 3 (prv_mask [kRef]) ''A'' [] 0
       (reexecute 1 0 0 (s2\<lparr>p_mem := (\<lambda>_. 0)\<rparr>)) = Inr s3 \<and>
     read_mem (p_mem s3) 100 3 = [7, 7, 7]"
proof -
  have "p_cds fresh_state = [] @ [fresh_cd]" "v_exec_mode fresh_cd = kExecution" "\<not> p_dont_preserve fresh_state"
    "call_ok (100, 3, ''A'')" "d_written_len (v_data fresh_cd) + length (content (v_data fresh_cd)) < 2 ^ 64"
    "v_preserve_count fresh_cd = 0" "FindReverse 1 0 (v_table fresh_cd) = Inr None"
    by (simp_all add: fresh_state_def fresh_cd_def small_store_def content_def FindReverse_def TableStore_ctor_def
        AllocateTable_def Let_def)
  from reference_restores_parent_copy [OF this(1) fresh_cd_ok(1) this(2-5) fresh_cd_ok(1) this(2,6),
      of "\<lambda>name. of_nat (length name)" 0 0 "\<lambda>_. 0"] this(7)
  show ?thesis by (simp add: read_mem_def fresh_state_def upt_rec) blast
qed

text \<open>
  C34.  A reference hides a copy of the same level: when a domain preserves a range by copy and then
  again by reference under the same name, the entry of the reference is the latest one with this
  name, the search skips the level because of it, and the re-execution stops at an assertion instead
  of restoring the range.
\<close>

theorem reference_hides_own_copy:
  assumes "p_cds s = [v]" "cd_ok v" "v_exec_mode v = kExecution" "\<not> p_dont_preserve s"
    and "call_ok (a, n, name)" "d_written_len (v_data v) + length (content (v_data v)) < 2 ^ 64"
    and "0 \<le> phase" "0 \<le> seqID"
  shows "\<exists>s1 s2. Preserve hash 0 a n (prv_mask [kCopy]) name [] 0 s = Inr s1 \<and>
    Preserve hash 0 a n (prv_mask [kRef]) name [] 0 s1 = Inr s2 \<and>
    Preserve hash 0 a n (prv_mask [kCopy]) name [] 0 (reexecute 0 phase seqID s2) = Inl (AssertFailed ''src != NULL'')"
proof -
  have cs: "p_cds s = [] @ [v]" using assms(1) by simp
  obtain v1 where v1: "Preserve hash 0 a n (prv_mask [kCopy]) name [] 0 s = Inr (s\<lparr>p_cds := [v1]\<rparr>)"
    "cd_ok v1" "v_exec_mode v1 = kExecution" "holds hash v1 (a, n, name) (read_mem (p_mem s) a n)"
    using Preserve_copy_step [OF cs assms(2-6), of hash] by auto
  define s1 where "s1 = s\<lparr>p_cds := [v1]\<rparr>"
  have ok: "tbl_ok (v_table v1)" "v_remote v1 = Map.empty" using v1(2) by (simp_all add: cd_ok_def)
  obtain p where p: "FindReverse (hash name) 0 (v_table v1) = Inr (Some p)"
    "\<not> Check (AttrFlag_val krefer) (e_size (entries (v_table v1) ! p))" "entry_invalid (entries (v_table v1) ! p) = 0"
    using v1(4) unfolding holds.simps Let_def by blast
  have pl: "p < length (entries (v_table v1))" using tbl.look_Some [OF ok(1)] p(1) by blast
  have srch: "SearchEntry (hash name) (AttrFlag_val knoattr) s1 = Inr (Some (0, p))"
    using SearchEntry_leaf [of s1 "[]" v1 "hash name" p] v1(3) ok(2) p by (simp add: s1_def)
  let ?e = "CDEntry_of (hash name) (ucast (AttrFlag_val krefer)) (of_nat n) 0 (hash name)"
  let ?t = "unset_output p (v_table v1)"
  have tok: "tbl_ok ?t" using unset_output_spec(1) [OF ok(1) pl] .
  obtain t where t: "InsertEntry ?e ?t = Inr (t, length (entries ?t))" "tbl_ok t" "entries t = entries ?t @ [?e]"
    using InsertEntry_spec [OF tok] by blast
  let ?v = "v1\<lparr>v_table := t, v_preserve_count := v_preserve_count v1 + 1\<rparr>"
  have ref: "Preserve hash 0 a n (prv_mask [kRef]) name [] 0 s1 = Inr (s1\<lparr>p_cds := [?v]\<rparr>)"
    using v1(3) assms(4,5) srch p(3) t(1)
    by (simp add: Preserve_def InternalPreserve_def PreserveRef_def ref_mask insert_entry_def modify_cd_def Let_def s1_def)
  have "FindReverse (hash name) 0 t = Inr (Some (length (entries ?t)))" using tbl.ins_look [OF tok t(1)] by simp
  moreover have "Check (AttrFlag_val krefer) (e_size (entries t ! length (entries ?t)))"
    using t(3) by (simp add: Check_def)
  ultimately have none: "InternalGetEntry (hash name) (AttrFlag_val knoattr) (?v\<lparr>v_exec_mode := kReexecution, v_restore_count := 0\<rparr>)
      = Inr None"
    using ok(2) by (simp add: InternalGetEntry_def)
  have "SearchEntry (hash name) (AttrFlag_val knoattr) (reexecute 0 phase seqID (s1\<lparr>p_cds := [?v]\<rparr>)) = Inr None"
    using none by (simp add: SearchEntry_def GetCurrentCD_def reexecute_def modify_cd_def search_up.simps [of _ _ _ 0])
  then have "Preserve hash 0 a n (prv_mask [kCopy]) name [] 0 (reexecute 0 phase seqID (s1\<lparr>p_cds := [?v]\<rparr>))
      = Inl (AssertFailed ''src != NULL'')"
    using assms(4,7,8)
    by (simp add: Preserve_def Restore_def copy_mask Let_def reexecute_def modify_cd_def s1_def)
  then show ?thesis using v1(1) ref s1_def by blast
qed

theorem reference_hides_own_copy_witness:
  "\<exists>s1 s2. Preserve (\<lambda>name. of_nat (length name)) 0 100 3 (prv_mask [kCopy]) ''A'' [] 0 fresh_state = Inr s1 \<and>
     Preserve (\<lambda>name. of_nat (length name)) 0 100 3 (prv_mask [kRef]) ''A'' [] 0 s1 = Inr s2 \<and>
     Preserve (\<lambda>name. of_nat (length name)) 0 100 3 (prv_mask [kCopy]) ''A'' [] 0 (reexecute 0 0 0 s2)
       = Inl (AssertFailed ''src != NULL'')"
proof -
  have "p_cds fresh_state = [fresh_cd]" "v_exec_mode fresh_cd = kExecution" "\<not> p_dont_preserve fresh_state"
    "call_ok (100, 3, ''A'')" "d_written_len (v_data fresh_cd) + length (content (v_data fresh_cd)) < 2 ^ 64"
    by (simp_all add: fresh_state_def fresh_cd_def small_store_def content_def)
  from reference_hides_own_copy [OF this(1) fresh_cd_ok(1) this(2-5), of 0 0] show ?thesis by simp
qed

end
