(* ===== verification/Comm_Log.thy ===== *)
theory Comm_Log
  imports Data_Store CD_Ident
begin

text \<open>
  The communication log of a relaxed domain, \<open>CommLog\<close> of \<open>cd_comm_log.h\<close> and
  \<open>cd_comm_log.cc\<close>: a table of log entries, a queue with the bytes of their messages, and the
  packed logs of completed children.  Positions, lengths and counters are natural numbers; the
  arrays are lists whose length is what was allocated (\<open>new\<close> throws and never gives a null
  pointer, so the branches on a failed allocation are dead).  The packed logs are bytes: structures
  are copied with \<open>memcpy\<close>, and their images are those of a 64-bit little-endian machine with
  \<open>int\<close> handles of MPI; the value of a pointer and padding are written as zero bytes.
  \<open>ERROR_MESSAGE\<close> stops the process.
\<close>

unbundle bit_operations_syntax

section \<open>Data\<close>

datatype CommLogErrT = kCommLogOK | kCommLogInitFailed | kCommLogAllocFailed
  | kCommLogChildLogAllocFailed | kCommLogReInitFailed | kCommLogCommLogModeFlip
  | kCommLogChildLogNotFound | kCommLogMissing | kCommLogError

datatype CommLogMode = kGenerateLog | kReplayLog | kInvalidLogMode

record LogTableElement =
  le_pos :: nat
  le_length :: nat
  le_completed :: bool
  le_flag :: uint64
  le_counter :: nat
  le_reexec_counter :: nat
  le_isrepeated :: bool
  le_taskID :: uint32

definition LogTableElement_init :: LogTableElement where
  "LogTableElement_init =
     \<lparr>le_pos = 0, le_length = 0, le_completed = False, le_flag = 0, le_counter = 0,
      le_reexec_counter = 0, le_isrepeated = False, le_taskID = 0\<rparr>"

record IncompleteLogEntry =
  ie_addr :: uint64
  ie_length :: nat
  ie_taskID :: uint32
  ie_tag :: int
  ie_comm :: ColorT
  ie_flag :: uint64
  ie_complete :: bool
  ie_isrecv :: bool
  ie_intra_cd_msg :: bool

record CommLog =
  k_queue_size_unit :: nat
  k_table_size_unit :: nat
  k_child_log_size_unit :: nat
  k_mode :: CommLogMode
  k_queue :: "byte list option"
  k_queue_pos :: nat
  k_queue_size :: nat
  k_table :: "LogTableElement list option"
  k_table_pos :: nat
  k_table_size :: nat
  k_reexec_pos :: nat
  k_new_log :: bool
  k_child :: "byte list option"
  k_child_size :: nat
  k_child_pos :: nat

section \<open>Initialisation\<close>

definition InitAlloc :: "CommLog \<Rightarrow> CommLog" where
  "InitAlloc l =
     (let l = (if k_queue l = None
               then l\<lparr>k_queue := Some (replicate (k_queue_size_unit l) 0), k_queue_size := k_queue_size_unit l\<rparr>
               else l)
      in if k_table l = None
         then l\<lparr>k_table := Some (replicate (k_table_size_unit l) LogTableElement_init),
                k_table_size := k_table_size_unit l\<rparr>
         else l)"

definition clear_log :: "CommLog \<Rightarrow> CommLog" where
  "clear_log l =
     l\<lparr>k_queue_size := 0, k_queue_pos := 0, k_queue := None,
       k_table_size := 0, k_table_pos := 0, k_table := None,
       k_child_size := 0, k_child_pos := 0, k_child := None,
       k_reexec_pos := 0, k_new_log := False\<rparr>"

definition InitInternal :: "CommLog \<Rightarrow> CommLog" where
  "InitInternal l = (let l = clear_log l in if k_mode l = kGenerateLog then InitAlloc l else l)"

definition CommLog_of :: "CommLogMode \<Rightarrow> nat \<Rightarrow> nat \<Rightarrow> nat \<Rightarrow> CommLog" where
  "CommLog_of mode queue_unit table_unit child_unit =
     InitInternal
       \<lparr>k_queue_size_unit = queue_unit, k_table_size_unit = table_unit,
        k_child_log_size_unit = child_unit, k_mode = mode, k_queue = None, k_queue_pos = 0,
        k_queue_size = 0, k_table = None, k_table_pos = 0, k_table_size = 0, k_reexec_pos = 0,
        k_new_log = False, k_child = None, k_child_size = 0, k_child_pos = 0\<rparr>"

definition CommLog_ctor :: "CommLogMode \<Rightarrow> CommLog" where
  "CommLog_ctor mode = CommLog_of mode (1024 * 1024) 1024 (1024 * 1024)"

definition CL_ReInit :: "CommLog \<Rightarrow> CommLog" where
  "CL_ReInit l = l\<lparr>k_mode := kReplayLog, k_reexec_pos := 0\<rparr>"

definition CL_Realloc :: "CommLog \<Rightarrow> CommLog" where
  "CL_Realloc l = InitAlloc (clear_log l)"

definition CL_Reset :: "CommLog \<Rightarrow> CommLog" where
  "CL_Reset l =
     l\<lparr>k_table_pos := 0, k_queue_pos := 0, k_child_pos := 0, k_reexec_pos := 0,
       k_new_log := False, k_mode := kGenerateLog\<rparr>"

section \<open>Table and queue\<close>

definition table_at :: "nat \<Rightarrow> CommLog \<Rightarrow> LogTableElement outcome" where
  "table_at i l =
     bind_out (deref ''log_table_.base_ptr_'' (k_table l)) (\<lambda>t.
       if i < length t then Inr (t ! i) else Inl (OutOfRange ''log_table_.base_ptr_''))"

definition table_put :: "nat \<Rightarrow> LogTableElement \<Rightarrow> CommLog \<Rightarrow> CommLog outcome" where
  "table_put i e l =
     bind_out (deref ''log_table_.base_ptr_'' (k_table l)) (\<lambda>t.
       if i < length t then Inr (l\<lparr>k_table := Some (t[i := e])\<rparr>)
       else Inl (OutOfRange ''log_table_.base_ptr_''))"

text \<open>A \<open>memcpy\<close> of nothing is fine with a null pointer.\<close>

definition buf_out :: "nat \<Rightarrow> nat \<Rightarrow> byte list option \<Rightarrow> byte list outcome" where
  "buf_out off n buf =
     (if n = 0 then Inr [] else bind_out (deref ''base_ptr_'' buf) (copy_out off n))"

definition elems_out :: "nat \<Rightarrow> LogTableElement list option \<Rightarrow> LogTableElement list outcome" where
  "elems_out n t =
     (if n = 0 then Inr []
      else bind_out (deref ''log_table_.base_ptr_'' t) (\<lambda>t.
             if n \<le> length t then Inr (take n t) else Inl (OutOfRange ''log_table_.base_ptr_'')))"

definition IncreaseLogTableSize :: "CommLog \<Rightarrow> CommLog outcome" where
  "IncreaseLogTableSize l =
     bind_out (elems_out (k_table_size l) (k_table l)) (\<lambda>old.
       Inr (l\<lparr>k_table := Some (old @ replicate (k_table_size l) LogTableElement_init),
              k_table_size := k_table_size l * 2\<rparr>))"

definition IncreaseLogQueueSize :: "nat \<Rightarrow> CommLog \<Rightarrow> CommLog outcome" where
  "IncreaseLogQueueSize len l =
     (let required_length = (k_queue_pos l + len) * 2 in
      if required_length \<le> k_queue_size l then Inl (ErrorMessage ''required_length is smaller than queue_size_'')
      else
        bind_out (buf_out 0 (k_queue_size l) (k_queue l)) (\<lambda>old.
          Inr (l\<lparr>k_queue := Some (old @ replicate (required_length - k_queue_size l) 0),
                 k_queue_size := required_length\<rparr>)))"

definition WriteLogTable :: "uint32 \<Rightarrow> nat \<Rightarrow> bool \<Rightarrow> uint64 \<Rightarrow> bool \<Rightarrow> CommLog \<Rightarrow> CommLog outcome" where
  "WriteLogTable taskID data_length completed flag isrepeated l =
     bind_out (if k_table_pos l \<ge> k_table_size l then IncreaseLogTableSize l else Inr l) (\<lambda>l.
     bind_out (table_put (k_table_pos l)
       \<lparr>le_pos = k_queue_pos l, le_length = data_length, le_completed = completed, le_flag = flag,
        le_counter = 1, le_reexec_counter = 0, le_isrepeated = isrepeated, le_taskID = taskID\<rparr> l) (\<lambda>l.
       Inr (l\<lparr>k_table_pos := k_table_pos l + 1\<rparr>)))"

definition WriteLogQueue :: "byte list \<Rightarrow> bool \<Rightarrow> CommLog \<Rightarrow> CommLog outcome" where
  "WriteLogQueue data completed l =
     bind_out (if k_queue_pos l + length data > k_queue_size l then IncreaseLogQueueSize (length data) l else Inr l)
       (\<lambda>l. bind_out
         (if completed \<and> length data \<noteq> 0 then
            bind_out (deref ''log_queue_.base_ptr_'' (k_queue l)) (\<lambda>q.
            bind_out (copy_in (k_queue_pos l) data q) (\<lambda>q. Inr (l\<lparr>k_queue := Some q\<rparr>)))
          else Inr l)
         (\<lambda>l. Inr (l\<lparr>k_queue_pos := k_queue_pos l + length data\<rparr>)))"

section \<open>Logging\<close>

definition FoundRepeatedEntry :: "nat \<Rightarrow> bool \<Rightarrow> uint64 \<Rightarrow> CommLog \<Rightarrow> bool outcome" where
  "FoundRepeatedEntry data_length completed flag l =
     (if k_table_pos l = 0 then Inl (OutOfRange ''log_table_.base_ptr_[-1]'')
      else
        bind_out (table_at (k_table_pos l - 1) l) (\<lambda>e.
          Inr (le_isrepeated e \<and> le_length e = data_length \<and> le_completed e = completed \<and> le_flag e = flag)))"

text \<open>
  \<open>data\<close> are the bytes at \<open>addr\<close>; the log is returned with the incomplete entries of its
  domain.
\<close>

definition CL_LogData ::
  "uint64 \<Rightarrow> byte list \<Rightarrow> uint32 \<Rightarrow> bool \<Rightarrow> uint64 \<Rightarrow> bool \<Rightarrow> bool \<Rightarrow> bool \<Rightarrow> int \<Rightarrow> ColorT \<Rightarrow>
   CommLog \<times> IncompleteLogEntry list \<Rightarrow> (CommLog \<times> IncompleteLogEntry list) outcome" where
  "CL_LogData addr data taskID completed flag isrecv isrepeated intra_cd_msg tag comm s =
     (let (l, inc) = s in
      bind_out (if isrepeated then FoundRepeatedEntry (length data) completed flag l else Inr False) (\<lambda>found.
      if found then
        bind_out (table_at (k_table_pos l - 1) l) (\<lambda>e.
        bind_out (table_put (k_table_pos l - 1) (e\<lparr>le_counter := le_counter e + 1\<rparr>) l) (\<lambda>l. Inr (l, inc)))
      else
        bind_out (WriteLogTable taskID (length data) completed flag isrepeated l) (\<lambda>l.
        bind_out (if length data \<noteq> 0 then WriteLogQueue data completed l else Inr l) (\<lambda>l.
          Inr (l\<lparr>k_new_log := True\<rparr>,
               if completed then inc
               else inc @ [\<lparr>ie_addr = addr, ie_length = length data, ie_taskID = taskID, ie_tag = tag,
                            ie_comm = comm, ie_flag = flag, ie_complete = False, ie_isrecv = isrecv,
                            ie_intra_cd_msg = intra_cd_msg\<rparr>])))))"

text \<open>The first entry with the given flag gets its data; \<open>None\<close> when there is no such entry.\<close>

fun first_flag :: "uint64 \<Rightarrow> LogTableElement list \<Rightarrow> nat option" where
  "first_flag flag [] = None"
| "first_flag flag (e # es) = (if le_flag e = flag then Some 0 else map_option Suc (first_flag flag es))"

definition CL_ProbeAndLogData :: "byte list \<Rightarrow> uint64 \<Rightarrow> CommLog \<Rightarrow> (CommLog \<times> bool) outcome" where
  "CL_ProbeAndLogData data flag l =
     bind_out (elems_out (k_table_pos l) (k_table l)) (\<lambda>es.
     case first_flag flag es of
       None \<Rightarrow> Inr (l, False)
     | Some i \<Rightarrow>
         let e = es ! i in
         bind_out (assert_out ''length_ == length'' (le_length e = length data)) (\<lambda>_.
         bind_out (table_put i (e\<lparr>le_completed := True\<rparr>) l) (\<lambda>l.
         bind_out
           (if length data \<noteq> 0 then
              bind_out (deref ''log_queue_.base_ptr_'' (k_queue l)) (\<lambda>q.
              bind_out (copy_in (le_pos e) data q) (\<lambda>q. Inr (l\<lparr>k_queue := Some q\<rparr>)))
            else Inr l)
           (\<lambda>l. Inr (l, True)))))"

section \<open>Replaying\<close>

definition next_entry :: "LogTableElement \<Rightarrow> CommLog \<Rightarrow> CommLog outcome" where
  "next_entry e l =
     (if le_isrepeated e then
        let n = le_reexec_counter e + 1 in
        if n = le_counter e then
          bind_out (table_put (k_reexec_pos l) (e\<lparr>le_reexec_counter := 0\<rparr>) l) (\<lambda>l.
            Inr (l\<lparr>k_reexec_pos := k_reexec_pos l + 1\<rparr>))
        else table_put (k_reexec_pos l) (e\<lparr>le_reexec_counter := n\<rparr>) l
      else Inr (l\<lparr>k_reexec_pos := k_reexec_pos l + 1\<rparr>))"

text \<open>The bytes in the result are those copied to the buffer of the caller.\<close>

definition CL_ReadData :: "nat \<Rightarrow> CommLog \<Rightarrow> (CommLog \<times> CommLogErrT \<times> byte list) outcome" where
  "CL_ReadData len l =
     (if k_reexec_pos l = k_table_pos l then Inr (l\<lparr>k_mode := kGenerateLog\<rparr>, kCommLogCommLogModeFlip, [])
      else if k_table_pos l = 0 then Inl (ErrorMessage ''Attempt to read from empty logs'')
      else
        bind_out (table_at (k_reexec_pos l) l) (\<lambda>e.
        if len \<noteq> le_length e then Inl (ErrorMessage ''Wrong length when read data from logs'')
        else if \<not> le_completed e then Inr (l, kCommLogMissing, [])
        else
          bind_out (buf_out (le_pos e) (le_length e) (k_queue l)) (\<lambda>bs.
          bind_out (next_entry e l) (\<lambda>l. Inr (l, kCommLogOK, bs)))))"

definition CL_ProbeData :: "nat \<Rightarrow> CommLog \<Rightarrow> (CommLog \<times> CommLogErrT) outcome" where
  "CL_ProbeData len l =
     (if k_reexec_pos l = k_table_pos l then Inr (l\<lparr>k_mode := kGenerateLog\<rparr>, kCommLogCommLogModeFlip)
      else if k_table_pos l = 0 then Inl (ErrorMessage ''Attempt to read from empty logs'')
      else
        bind_out (table_at (k_reexec_pos l) l) (\<lambda>e.
        if len \<noteq> le_length e then Inl (ErrorMessage ''Wrong length when read data from logs'')
        else if \<not> le_completed e then Inr (l, kCommLogError)
        else bind_out (next_entry e l) (\<lambda>l. Inr (l, kCommLogOK))))"

section \<open>Images of structures\<close>

primrec le_bytes :: "nat \<Rightarrow> nat \<Rightarrow> byte list" where
  "le_bytes 0 x = []"
| "le_bytes (Suc n) x = of_nat (x mod 256) # le_bytes n (x div 256)"

fun unle :: "byte list \<Rightarrow> nat" where
  "unle [] = 0"
| "unle (b # bs) = unat b + 256 * unle bs"

definition nat_at :: "nat \<Rightarrow> nat \<Rightarrow> byte list \<Rightarrow> nat" where
  "nat_at n off bs = unle (take n (drop off bs))"

definition int_bytes :: "int \<Rightarrow> byte list" where
  "int_bytes i = le_bytes 4 (nat (i mod 2 ^ 32))"

definition int_at :: "nat \<Rightarrow> byte list \<Rightarrow> int" where
  "int_at off bs = sint (of_nat (nat_at 4 off bs) :: 32 word)"

definition sizeof_LogTableElement :: nat where "sizeof_LogTableElement = 56"
definition sizeof_CDID :: nat where "sizeof_CDID = 64"
definition sizeof_meta :: nat where "sizeof_meta = 24"

definition enc_elem :: "LogTableElement \<Rightarrow> byte list" where
  "enc_elem e =
     le_bytes 8 (le_pos e) @ le_bytes 8 (le_length e) @
     (of_bool (le_completed e) # replicate 7 0) @ le_bytes 8 (unat (le_flag e)) @
     le_bytes 8 (le_counter e) @ le_bytes 8 (le_reexec_counter e) @
     (of_bool (le_isrepeated e) # replicate 3 0) @ le_bytes 4 (unat (le_taskID e))"

definition dec_elem :: "byte list \<Rightarrow> LogTableElement" where
  "dec_elem bs =
     \<lparr>le_pos = nat_at 8 0 bs, le_length = nat_at 8 8 bs, le_completed = (bs ! 16 \<noteq> 0),
      le_flag = of_nat (nat_at 8 24 bs), le_counter = nat_at 8 32 bs, le_reexec_counter = nat_at 8 40 bs,
      le_isrepeated = (bs ! 48 \<noteq> 0), le_taskID = of_nat (nat_at 4 52 bs)\<rparr>"

definition enc_CDID :: "CDID \<Rightarrow> byte list" where
  "enc_CDID c =
     (let n = cid_cd_name c; d = cid_node_id c in
      le_bytes 4 (unat (cn_level n)) @ le_bytes 4 (unat (cn_phase n)) @
      le_bytes 4 (unat (cn_rank_in_level n)) @ le_bytes 4 (unat (cn_size n)) @
      replicate 8 0 @
      int_bytes (nid_task_in_color d) @ int_bytes (nid_head d) @ int_bytes (nid_size d) @
      int_bytes (nid_color_id d) @ int_bytes (nid_color d) @ int_bytes (nid_task_group d) @
      le_bytes 4 (unat (cid_domain_id c)) @ le_bytes 4 (unat (cid_object_id c)) @
      le_bytes 4 (unat (cid_sequential_id c)) @ replicate 4 0)"

definition dec_CDID :: "byte list \<Rightarrow> CDID" where
  "dec_CDID bs =
     \<lparr>cid_cd_name = \<lparr>cn_level = of_nat (nat_at 4 0 bs), cn_phase = of_nat (nat_at 4 4 bs),
                     cn_rank_in_level = of_nat (nat_at 4 8 bs), cn_size = of_nat (nat_at 4 12 bs)\<rparr>,
      cid_node_id = \<lparr>nid_task_in_color = int_at 24 bs, nid_head = int_at 28 bs, nid_size = int_at 32 bs,
                     nid_color_id = int_at 36 bs, nid_color = int_at 40 bs, nid_task_group = int_at 44 bs\<rparr>,
      cid_domain_id = of_nat (nat_at 4 48 bs), cid_object_id = of_nat (nat_at 4 52 bs),
      cid_sequential_id = of_nat (nat_at 4 56 bs)\<rparr>"

text \<open>
  The structures \<open>LogTable\<close>, \<open>LogQueue\<close> and \<open>ChildLogQueue\<close>: a pointer and two numbers,
  in this order.
\<close>

definition enc_meta :: "nat \<Rightarrow> nat \<Rightarrow> byte list" where
  "enc_meta a b = replicate 8 0 @ le_bytes 8 a @ le_bytes 8 b"

fun dec_elems :: "nat \<Rightarrow> byte list \<Rightarrow> LogTableElement list" where
  "dec_elems 0 bs = []"
| "dec_elems (Suc n) bs = dec_elem (take sizeof_LogTableElement bs) # dec_elems n (drop sizeof_LogTableElement bs)"

section \<open>Packed logs of children\<close>

definition CheckChildLogAlloc :: "nat \<Rightarrow> CommLog \<Rightarrow> CommLog outcome" where
  "CheckChildLogAlloc len l =
     (if k_child l \<noteq> None \<and> k_child_pos l + len < k_child_size l then Inr l
      else if k_child_log_size_unit l = 0 then Inl (DivByZero ''child_log_size_unit_'')
      else
        let start = (if k_child l = None then 0 else k_child_pos l);
            required_length = ((start + len) div k_child_log_size_unit l + 1) * k_child_log_size_unit l in
        bind_out (buf_out 0 start (k_child l)) (\<lambda>old.
          Inr (l\<lparr>k_child := Some (old @ replicate (required_length - length old) 0),
                 k_child_size := required_length, k_child_pos := start\<rparr>)))"

definition child_put :: "byte list \<Rightarrow> CommLog \<Rightarrow> CommLog outcome" where
  "child_put bs p =
     (if bs = [] then Inr p
      else
        bind_out (deref ''child_log_.base_ptr_'' (k_child p)) (\<lambda>c.
        bind_out (copy_in (k_child_pos p) bs c) (\<lambda>c.
          Inr (p\<lparr>k_child := Some c, k_child_pos := k_child_pos p + length bs\<rparr>))))"

fun child_puts :: "byte list list \<Rightarrow> CommLog \<Rightarrow> CommLog outcome" where
  "child_puts [] p = Inr p"
| "child_puts (b # bs) p = bind_out (child_put b p) (child_puts bs)"

definition pack_length :: "CommLog \<Rightarrow> nat" where
  "pack_length l = 8 + sizeof_CDID
     + sizeof_meta + sizeof_LogTableElement * k_table_pos l
     + sizeof_meta + k_queue_pos l
     + sizeof_meta + k_child_pos l"

definition PackLogs :: "CDID \<Rightarrow> nat \<Rightarrow> CommLog \<Rightarrow> CommLog \<Rightarrow> CommLog outcome" where
  "PackLogs cd_id len l dst =
     bind_out (elems_out (k_table_pos l) (k_table l)) (\<lambda>es.
     bind_out (buf_out 0 (k_queue_pos l) (k_queue l)) (\<lambda>q.
     bind_out (buf_out 0 (k_child_pos l) (k_child l)) (\<lambda>c.
       child_puts
         [le_bytes 8 len,
          enc_CDID (CDID_copy_ctor cd_id),
          enc_meta (k_table_pos l) (k_table_size l),
          concat (map enc_elem es),
          enc_meta (k_queue_pos l) (k_queue_size l),
          q,
          enc_meta (k_child_size l) (k_child_pos l),
          c] dst)))"

definition PackAndPushLogs :: "CDID \<Rightarrow> CommLog \<Rightarrow> CommLog \<Rightarrow> CommLog outcome" where
  "PackAndPushLogs cd_id l parent =
     bind_out (CheckChildLogAlloc (pack_length l) parent) (\<lambda>parent. PackLogs cd_id (pack_length l) l parent)"

text \<open>\<open>src\<close> are the bytes from \<open>src_ptr\<close> to the end of the buffer it points into.\<close>

definition UnpackLogs :: "CDID \<Rightarrow> byte list \<Rightarrow> CommLog \<Rightarrow> CommLog outcome" where
  "UnpackLogs my_id src l =
     bind_out (copy_out 0 (8 + sizeof_CDID) src) (\<lambda>hd.
     let len = nat_at 8 0 hd; cd_id = dec_CDID (drop 8 hd); index = 8 + sizeof_CDID in
     if \<not> CDID_eq cd_id my_id then Inl (ErrorMessage ''Pass wrong log data to unpack'')
     else
       bind_out (copy_out index sizeof_meta src) (\<lambda>tm.
       let t_pos = nat_at 8 8 tm; t_size = nat_at 8 16 tm; index = index + sizeof_meta in
       bind_out (if t_pos \<le> t_size then Inr () else Inl (OutOfRange ''log_table_.base_ptr_'')) (\<lambda>_.
       bind_out (copy_out index (sizeof_LogTableElement * t_pos) src) (\<lambda>tb.
       let index = index + sizeof_LogTableElement * t_pos in
       bind_out (copy_out index sizeof_meta src) (\<lambda>qm.
       let q_pos = nat_at 8 8 qm; q_size = nat_at 8 16 qm; index = index + sizeof_meta in
       bind_out (if q_pos \<le> q_size then Inr () else Inl (OutOfRange ''log_queue_.base_ptr_'')) (\<lambda>_.
       bind_out (copy_out index q_pos src) (\<lambda>q.
       let index = index + q_pos in
       bind_out (copy_out index sizeof_meta src) (\<lambda>cm.
       let c_size = nat_at 8 8 cm; c_pos = nat_at 8 16 cm; index = index + sizeof_meta in
       bind_out (if c_pos \<le> c_size then Inr () else Inl (OutOfRange ''child_log_.base_ptr_'')) (\<lambda>_.
       bind_out (copy_out index c_pos src) (\<lambda>c.
       let index = index + c_pos in
       if index \<noteq> len then Inl (ErrorMessage ''Something went wrong when unpacking data'')
       else Inr (l\<lparr>k_table := Some (dec_elems t_pos tb @ replicate (t_size - t_pos) LogTableElement_init),
                   k_table_pos := t_pos, k_table_size := t_size,
                   k_queue := Some (q @ replicate (q_size - q_pos) 0), k_queue_pos := q_pos, k_queue_size := q_size,
                   k_child := Some (c @ replicate (c_size - c_pos) 0), k_child_size := c_size, k_child_pos := c_pos\<rparr>)))))))))))"

text \<open>
  The walk over the packed logs goes from one length field to the next; with a length of zero it
  would not end.
\<close>

function find_child :: "CDID \<Rightarrow> nat \<Rightarrow> nat \<Rightarrow> byte list \<Rightarrow> nat option outcome" where
  "find_child cd_id tmp_index cur_pos bs =
     (if tmp_index < cur_pos then
        bind_out (copy_out tmp_index (8 + sizeof_CDID) bs) (\<lambda>hd.
          if CDID_eq (dec_CDID (drop 8 hd)) cd_id then Inr (Some tmp_index)
          else if nat_at 8 0 hd = 0 then Inl (Blocked ''FindChildLogs'')
          else find_child cd_id (tmp_index + nat_at 8 0 hd) cur_pos bs)
      else Inr None)"
  by pat_completeness auto
termination by (relation "measure (\<lambda>(_, i, n, _). n - i)") auto

declare find_child.simps [simp del]

definition FindChildLogs :: "CDID \<Rightarrow> CommLog \<Rightarrow> nat option outcome" where
  "FindChildLogs cd_id l =
     (if k_child_pos l = 0 then Inr None
      else bind_out (deref ''child_log_.base_ptr_'' (k_child l)) (find_child cd_id 0 (k_child_pos l)))"

definition UnpackLogsToChildCD :: "CDID \<Rightarrow> CommLog \<Rightarrow> CommLog \<Rightarrow> (CommLog \<times> CommLogErrT) outcome" where
  "UnpackLogsToChildCD child_id l child =
     bind_out (FindChildLogs child_id l) (\<lambda>src.
       case src of
         None \<Rightarrow> Inr (child, kCommLogChildLogNotFound)
       | Some off \<Rightarrow>
           bind_out (deref ''child_log_.base_ptr_'' (k_child l)) (\<lambda>bs.
           bind_out (UnpackLogs child_id (drop off bs) child) (\<lambda>child. Inr (child, kCommLogOK))))"

function probe_packed :: "byte list \<Rightarrow> uint64 \<Rightarrow> nat \<Rightarrow> nat \<Rightarrow> byte list \<Rightarrow> (byte list \<times> bool) outcome" where
  "probe_packed data flag index cur_pos bs =
     (if index < cur_pos then
        bind_out (copy_out index (8 + sizeof_CDID + sizeof_meta) bs) (\<lambda>hd.
        let tmp_length = nat_at 8 0 hd; t_pos = nat_at 8 (8 + sizeof_CDID + 8) hd;
            inner_index = index + 8 + sizeof_CDID + sizeof_meta in
        bind_out (copy_out inner_index (sizeof_LogTableElement * t_pos) bs) (\<lambda>tb.
        let es = dec_elems t_pos tb in
        case first_flag flag es of
          Some i \<Rightarrow>
            bind_out (assert_out ''length_ == length'' (le_length (es ! i) = length data)) (\<lambda>_.
            bind_out (copy_in (inner_index + sizeof_LogTableElement * t_pos + sizeof_meta + le_pos (es ! i)) data bs) (\<lambda>bs.
            bind_out (copy_in (inner_index + sizeof_LogTableElement * i + 16) [1] bs) (\<lambda>bs. Inr (bs, True))))
        | None \<Rightarrow>
            if tmp_length = 0 then Inl (Blocked ''ProbeAndLogDataPacked'')
            else probe_packed data flag (index + tmp_length) cur_pos bs))
      else Inr (bs, False))"
  by pat_completeness auto
termination by (relation "measure (\<lambda>(_, _, i, n, _). n - i)") auto

declare probe_packed.simps [simp del]

definition ProbeAndLogDataPacked :: "byte list \<Rightarrow> uint64 \<Rightarrow> CommLog \<Rightarrow> (CommLog \<times> bool) outcome" where
  "ProbeAndLogDataPacked data flag l =
     (if k_child_pos l = 0 then Inr (l, False)
      else
        bind_out (deref ''child_log_.base_ptr_'' (k_child l)) (\<lambda>bs.
        bind_out (probe_packed data flag 0 (k_child_pos l) bs) (\<lambda>(bs, found).
          Inr (l\<lparr>k_child := Some bs\<rparr>, found))))"

section \<open>The log as a tape\<close>

text \<open>
  What a log means: the sequence of messages that \<open>ReadData\<close> will deliver, an entry of a
  non-blocking call that has not completed being \<open>None\<close>, and a repeated entry standing for as many
  messages as its counter says.
\<close>

definition log_entries :: "CommLog \<Rightarrow> LogTableElement list" where
  "log_entries l = take (k_table_pos l) (the (k_table l))"

definition payload :: "CommLog \<Rightarrow> LogTableElement \<Rightarrow> byte list" where
  "payload l e = take (le_length e) (drop (le_pos e) (the (k_queue l)))"

definition cell :: "CommLog \<Rightarrow> LogTableElement \<Rightarrow> byte list option" where
  "cell l e = (if le_completed e then Some (payload l e) else None)"

definition tape :: "CommLog \<Rightarrow> byte list option list" where
  "tape l = concat (map (\<lambda>e. replicate (le_counter e) (cell l e)) (log_entries l))"

definition tape_at :: "CommLog \<Rightarrow> nat" where
  "tape_at l = sum_list (map le_counter (take (k_reexec_pos l) (log_entries l))) +
     (if k_reexec_pos l < k_table_pos l then le_reexec_counter (log_entries l ! k_reexec_pos l) else 0)"

definition entry_ok :: "nat \<Rightarrow> LogTableElement \<Rightarrow> bool" where
  "entry_ok n e \<longleftrightarrow> le_pos e + le_length e \<le> n \<and> 0 < le_counter e \<and> le_reexec_counter e < le_counter e \<and>
     (\<not> le_isrepeated e \<longrightarrow> le_counter e = 1)"

definition log_ok :: "CommLog \<Rightarrow> bool" where
  "log_ok l \<longleftrightarrow> (\<exists>t q. k_table l = Some t \<and> k_queue l = Some q \<and> length t = k_table_size l \<and> length q = k_queue_size l) \<and>
     0 < k_table_size l \<and> k_table_pos l \<le> k_table_size l \<and> k_queue_pos l \<le> k_queue_size l \<and>
     k_reexec_pos l \<le> k_table_pos l \<and> (\<forall>e \<in> set (log_entries l). entry_ok (k_queue_pos l) e) \<and>
     (\<forall>i < k_table_pos l. i \<noteq> k_reexec_pos l \<longrightarrow> le_reexec_counter (log_entries l ! i) = 0)"

text \<open>No repeated entry is in the middle of its repetitions.\<close>

definition settled :: "CommLog \<Rightarrow> bool" where
  "settled l \<longleftrightarrow> (\<forall>e \<in> set (log_entries l). le_reexec_counter e = 0)"

lemma cell_cong: "k_queue l' = k_queue l \<Longrightarrow> cell l' = cell l"
  by (rule ext) (simp add: cell_def payload_def)

lemma cell_update [simp]:
  "cell (l\<lparr>k_mode := m\<rparr>) = cell l" "cell (l\<lparr>k_reexec_pos := p\<rparr>) = cell l" "cell (l\<lparr>k_table := t\<rparr>) = cell l"
  "cell (l\<lparr>k_new_log := n\<rparr>) = cell l"
  by (rule cell_cong, simp)+

lemma concat_replicate_nth:
  assumes "i < length xs" "j < c (xs ! i)"
  shows "concat (map (\<lambda>x. replicate (c x) (f x)) xs) ! (sum_list (map c (take i xs)) + j) = f (xs ! i)"
  using assms
proof (induction xs arbitrary: i)
  case (Cons x xs)
  then show ?case by (cases i) (simp_all add: nth_append)
qed simp

lemma length_concat_replicate: "length (concat (map (\<lambda>x. replicate (c x) (f x)) xs)) = sum_list (map c xs)"
  by (induction xs) auto

lemma log_okE:
  assumes "log_ok l"
  obtains t q where "k_table l = Some t" "k_queue l = Some q" "length t = k_table_size l" "length q = k_queue_size l"
    "log_entries l = take (k_table_pos l) t" "length (log_entries l) = k_table_pos l"
  using assms by (auto simp: log_ok_def log_entries_def)

lemma length_tape: "length (tape l) = sum_list (map le_counter (log_entries l))"
  by (simp add: tape_def length_concat_replicate)

lemma tape_at_less:
  assumes "log_ok l" "k_reexec_pos l < k_table_pos l"
  shows "tape_at l < length (tape l) \<and> tape l ! tape_at l = cell l (log_entries l ! k_reexec_pos l)"
proof -
  let ?es = "log_entries l" and ?p = "k_reexec_pos l"
  obtain t q where "length ?es = k_table_pos l" using log_okE [OF assms(1)] by metis
  then have p: "?p < length ?es" using assms(2) by simp
  then have c: "le_reexec_counter (?es ! ?p) < le_counter (?es ! ?p)"
    using assms(1) by (auto simp: log_ok_def entry_ok_def)
  have "sum_list (map le_counter ?es) = sum_list (map le_counter (take ?p ?es)) + le_counter (?es ! ?p) +
      sum_list (map le_counter (drop (Suc ?p) ?es))"
    by (subst id_take_nth_drop [OF p]) simp
  then have "tape_at l < length (tape l)" using c assms(2) by (simp add: length_tape tape_at_def)
  moreover have "tape l ! tape_at l = cell l (?es ! ?p)"
    using concat_replicate_nth [OF p, of _ le_counter "cell l"] c assms(2) by (simp add: tape_def tape_at_def)
  ultimately show ?thesis by simp
qed

lemma tape_at_end:
  assumes "log_ok l" shows "tape_at l = length (tape l) \<longleftrightarrow> k_reexec_pos l = k_table_pos l"
proof (cases "k_reexec_pos l < k_table_pos l")
  case True
  then show ?thesis using tape_at_less [OF assms True] by simp
next
  case False
  then have "k_reexec_pos l = k_table_pos l" using assms by (simp add: log_ok_def)
  moreover have "take (k_table_pos l) (log_entries l) = log_entries l" by (simp add: log_entries_def)
  ultimately show ?thesis by (simp add: tape_at_def length_tape)
qed

section \<open>What logging and replaying do to the tape\<close>

lemma WriteLogTable_spec:
  assumes "log_ok l"
  obtains t n where "WriteLogTable task len b flag rep l =
      Inr (l\<lparr>k_table := Some t, k_table_size := n, k_table_pos := k_table_pos l + 1\<rparr>)"
    "length t = n" "k_table_pos l < n"
    "take (k_table_pos l + 1) t = log_entries l @ [\<lparr>le_pos = k_queue_pos l, le_length = len, le_completed = b,
       le_flag = flag, le_counter = 1, le_reexec_counter = 0, le_isrepeated = rep, le_taskID = task\<rparr>]"
proof -
  obtain t q where l: "k_table l = Some t" "length t = k_table_size l" "log_entries l = take (k_table_pos l) t"
    using log_okE [OF assms] by metis
  have pos: "k_table_pos l \<le> k_table_size l" "0 < k_table_size l" using assms by (simp_all add: log_ok_def)
  show thesis
  proof (cases "k_table_pos l < k_table_size l")
    case True
    with l show thesis
      by (intro that [of "k_table_size l" "t[k_table_pos l := _]"])
        (simp_all add: WriteLogTable_def table_put_def take_Suc_conv_app_nth)
  next
    case False
    with l pos show thesis
      by (intro that [of "k_table_size l * 2" "(t @ replicate (k_table_size l) LogTableElement_init)[k_table_pos l := _]"])
        (simp_all add: WriteLogTable_def IncreaseLogTableSize_def elems_out_def table_put_def take_Suc_conv_app_nth)
  qed
qed

lemma WriteLogQueue_spec:
  assumes "k_queue l = Some q0" "length q0 = k_queue_size l" "k_queue_pos l \<le> k_queue_size l" "data \<noteq> []"
  obtains q n where "WriteLogQueue data b l =
      Inr (l\<lparr>k_queue := Some q, k_queue_size := n, k_queue_pos := k_queue_pos l + length data\<rparr>)"
    "length q = n" "k_queue_pos l + length data \<le> n" "take (k_queue_pos l) q = take (k_queue_pos l) (the (k_queue l))"
    "b \<longrightarrow> take (length data) (drop (k_queue_pos l) q) = data"
proof -
  note l = assms(1,2) and pos = assms(3)
  define q1 n1 where "q1 = (if k_queue_pos l + length data > k_queue_size l
      then q0 @ replicate ((k_queue_pos l + length data) * 2 - k_queue_size l) 0 else q0)"
    and "n1 = length q1"
  have n1: "k_queue_pos l + length data \<le> n1" "take (k_queue_pos l) q1 = take (k_queue_pos l) q0"
    using pos l(2) by (auto simp: q1_def n1_def)
  have grow: "(if k_queue_pos l + length data > k_queue_size l then IncreaseLogQueueSize (length data) l else Inr l)
      = Inr (l\<lparr>k_queue := Some q1, k_queue_size := n1\<rparr>)"
    using l assms(4) pos
    by (auto simp: IncreaseLogQueueSize_def q1_def n1_def buf_out_def copy_out_def Let_def)
  show thesis
  proof (cases b)
    case True
    with grow n1 assms(4) pos l show thesis
      by (intro that [of n1 "take (k_queue_pos l) q1 @ data @ drop (k_queue_pos l + length data) q1"])
        (simp_all add: WriteLogQueue_def copy_in_def flip: n1_def)
  next
    case False
    with grow n1 l show thesis
      by (intro that [of n1 q1]) (simp_all add: WriteLogQueue_def n1_def)
  qed
qed

lemma payload_cong:
  assumes "take n q = take n (the (k_queue l))" "le_pos e + le_length e \<le> n" "k_queue l' = Some q"
  shows "payload l' e = payload l e"
proof -
  have "take (le_length e) (drop (le_pos e) xs) = drop (le_pos e) (take (le_pos e + le_length e) (take n xs))" for xs :: "byte list"
    using assms(2) by (simp add: take_drop min_def ac_simps)
  then show ?thesis using assms(1,3) by (metis payload_def option.sel)
qed

lemma CL_LogData_spec:
  assumes "log_ok l" "rep \<Longrightarrow> FoundRepeatedEntry (length data) b flag l = Inr False"
  obtains l' where "CL_LogData addr data task b flag recv rep intra tag comm (l, inc) = Inr (l',
      if b then inc else inc @ [\<lparr>ie_addr = addr, ie_length = length data, ie_taskID = task, ie_tag = tag,
        ie_comm = comm, ie_flag = flag, ie_complete = False, ie_isrecv = recv, ie_intra_cd_msg = intra\<rparr>])"
    "log_ok l'" "tape l' = tape l @ [if b then Some data else None]"
    "log_entries l' = log_entries l @ [\<lparr>le_pos = k_queue_pos l, le_length = length data, le_completed = b,
       le_flag = flag, le_counter = 1, le_reexec_counter = 0, le_isrepeated = rep, le_taskID = task\<rparr>]"
    "k_mode l' = k_mode l" "k_reexec_pos l' = k_reexec_pos l" "k_queue_pos l' = k_queue_pos l + length data"
    "take (k_queue_pos l) (the (k_queue l')) = take (k_queue_pos l) (the (k_queue l))" "k_new_log l'"
    "k_child l' = k_child l" "k_child_pos l' = k_child_pos l" "k_child_size l' = k_child_size l"
proof -
  let ?e = "\<lparr>le_pos = k_queue_pos l, le_length = length data, le_completed = b,
       le_flag = flag, le_counter = 1, le_reexec_counter = 0, le_isrepeated = rep, le_taskID = task\<rparr>"
  obtain t n where t: "WriteLogTable task (length data) b flag rep l =
      Inr (l\<lparr>k_table := Some t, k_table_size := n, k_table_pos := k_table_pos l + 1\<rparr>)"
    "length t = n" "k_table_pos l < n" "take (k_table_pos l + 1) t = log_entries l @ [?e]"
    using WriteLogTable_spec [OF assms(1)] by metis
  let ?l1 = "l\<lparr>k_table := Some t, k_table_size := n, k_table_pos := k_table_pos l + 1\<rparr>"
  have es: "log_entries ?l1 = log_entries l @ [?e]" using t(4) by (simp add: log_entries_def)
  obtain q m where q: "(if length data \<noteq> 0 then WriteLogQueue data b ?l1 else Inr ?l1) =
      Inr (?l1\<lparr>k_queue := Some q, k_queue_size := m, k_queue_pos := k_queue_pos l + length data\<rparr>)"
    "length q = m" "k_queue_pos l + length data \<le> m" "take (k_queue_pos l) q = take (k_queue_pos l) (the (k_queue l))"
    "b \<longrightarrow> take (length data) (drop (k_queue_pos l) q) = data"
  proof (cases "data = []")
    case True
    obtain q where q: "k_queue l = Some q" "length q = k_queue_size l" using log_okE [OF assms(1)] by metis
    have "k_queue_pos l \<le> k_queue_size l" using assms by (simp add: log_ok_def)
    with True q show thesis by (intro that [of "k_queue_size l" q]) simp_all
  next
    case False
    obtain q0 where "k_queue ?l1 = Some q0" "length q0 = k_queue_size ?l1" "k_queue_pos ?l1 \<le> k_queue_size ?l1"
      using assms by (auto simp: log_ok_def)
    then show thesis
    proof (rule WriteLogQueue_spec [of ?l1 q0 data b])
      show "data \<noteq> []" by (rule False)
      fix q m
      assume "WriteLogQueue data b ?l1 =
          Inr (?l1\<lparr>k_queue := Some q, k_queue_size := m, k_queue_pos := k_queue_pos ?l1 + length data\<rparr>)"
        "length q = m" "k_queue_pos ?l1 + length data \<le> m"
        "take (k_queue_pos ?l1) q = take (k_queue_pos ?l1) (the (k_queue ?l1))"
        "b \<longrightarrow> take (length data) (drop (k_queue_pos ?l1) q) = data"
      with False show thesis by (intro that [of m q]) simp_all
    qed
  qed
  define l' where "l' = ?l1\<lparr>k_queue := Some q, k_queue_size := m, k_queue_pos := k_queue_pos l + length data,
      k_new_log := True\<rparr>"
  have es': "log_entries l' = log_entries l @ [?e]" using es by (simp add: l'_def log_entries_def)
  have kq: "k_queue l' = Some q" by (simp add: l'_def)
  have old: "entry_ok (k_queue_pos l) e" if "e \<in> set (log_entries l)" for e
    using assms that by (simp add: log_ok_def)
  have len: "length (log_entries l) = k_table_pos l" using log_okE [OF assms(1)] by metis
  have "cell l' e = cell l e" if "e \<in> set (log_entries l)" for e
    using payload_cong [OF q(4) _ kq, of e] old [OF that] by (simp add: cell_def entry_ok_def)
  moreover have "cell l' ?e = (if b then Some data else None)" using q(5) by (simp add: cell_def payload_def l'_def)
  ultimately have "tape l' = tape l @ [if b then Some data else None]"
    by (simp add: tape_def es' cong: map_cong)
  moreover have "log_ok l'"
  proof -
    have "\<forall>e \<in> set (log_entries l'). entry_ok (k_queue_pos l') e"
      unfolding es' using old by (fastforce simp: l'_def entry_ok_def)
    moreover have "\<forall>i < k_table_pos l'. i \<noteq> k_reexec_pos l' \<longrightarrow> le_reexec_counter (log_entries l' ! i) = 0"
      unfolding es' using assms len by (auto simp: l'_def nth_append less_Suc_eq log_ok_def)
    ultimately show ?thesis using assms t(2,3) q(2,3) by (auto simp: log_ok_def l'_def)
  qed
  moreover have "(if rep then FoundRepeatedEntry (length data) b flag l else Inr False) = Inr False" using assms(2) by simp
  then have "CL_LogData addr data task b flag recv rep intra tag comm (l, inc) = Inr (l',
      if b then inc else inc @ [\<lparr>ie_addr = addr, ie_length = length data, ie_taskID = task, ie_tag = tag,
        ie_comm = comm, ie_flag = flag, ie_complete = False, ie_isrecv = recv, ie_intra_cd_msg = intra\<rparr>])"
    by (simp only: CL_LogData_def t(1) q(1) Let_def prod.case if_False bind_out_simps) (simp add: l'_def)
  ultimately show thesis using that [of l'] q(4) es' by (simp add: l'_def)
qed

lemma log_entries_put:
  assumes "log_ok l" "i < k_table_pos l"
  obtains t where "table_put i e l = Inr (l\<lparr>k_table := Some t\<rparr>)" "length t = k_table_size l"
    "take (k_table_pos l) t = (log_entries l)[i := e]"
proof -
  obtain t q where t: "k_table l = Some t" "length t = k_table_size l" "log_entries l = take (k_table_pos l) t"
    using log_okE [OF assms(1)] by metis
  moreover have "k_table_pos l \<le> k_table_size l" using assms(1) by (simp add: log_ok_def)
  ultimately show thesis
    using assms(2) by (intro that [of "t[i := e]"]) (simp_all add: table_put_def take_update_swap)
qed

lemma tape_put:
  assumes "i < length es" "c e = c (es ! i)" "f e = f (es ! i)"
  shows "concat (map (\<lambda>e. replicate (c e) (f e)) (es[i := e])) = concat (map (\<lambda>e. replicate (c e) (f e)) es)"
proof -
  have "map (\<lambda>e. replicate (c e) (f e)) (es[i := e]) = map (\<lambda>e. replicate (c e) (f e)) es"
    using assms by (simp add: map_update list_update_same_conv)
  then show ?thesis by simp
qed

lemma put_reexec_counter:
  fixes l t p r
  defines "e \<equiv> log_entries l ! k_reexec_pos l" and "l' \<equiv> l\<lparr>k_table := Some t, k_reexec_pos := p\<rparr>"
  assumes "log_ok l" "k_reexec_pos l < k_table_pos l" "length t = k_table_size l"
    and "take (k_table_pos l) t = (log_entries l)[k_reexec_pos l := e\<lparr>le_reexec_counter := r\<rparr>]"
    and r: "(r = le_reexec_counter e + 1 \<and> p = k_reexec_pos l \<and> r < le_counter e) \<or>
      (r = 0 \<and> p = Suc (k_reexec_pos l) \<and> le_reexec_counter e + 1 = le_counter e)"
  shows "log_ok l'" "tape l' = tape l" "tape_at l' = Suc (tape_at l)"
    "map le_isrepeated (log_entries l') = map le_isrepeated (log_entries l)"
proof -
  let ?p = "k_reexec_pos l" and ?es = "log_entries l"
  have len: "length ?es = k_table_pos l" using log_okE [OF assms(3)] by metis
  have ok: "entry_ok (k_queue_pos l) e" using assms(3,4) len by (simp add: log_ok_def e_def)
  have zero: "le_reexec_counter (?es ! i) = 0" if "i < k_table_pos l" "i \<noteq> ?p" for i
    using assms(3) that by (simp add: log_ok_def)
  have es: "log_entries l' = ?es[?p := e\<lparr>le_reexec_counter := r\<rparr>]" using assms(6) by (simp add: log_entries_def l'_def)
  have p: "p \<le> k_table_pos l" using r assms(4) by auto
  have cnt: "map le_counter (log_entries l') = map le_counter ?es"
    using len assms(4) by (simp add: es e_def map_update list_update_same_conv)
  show "map le_isrepeated (log_entries l') = map le_isrepeated ?es"
    using len assms(4) by (simp add: es e_def map_update list_update_same_conv)
  have "cell l' = cell l" by (simp add: l'_def)
  then show "tape l' = tape l"
    unfolding tape_def es using len assms(4) by (intro trans [OF tape_put]) (simp_all add: cell_def payload_def e_def)
  have "\<forall>x \<in> set (log_entries l'). entry_ok (k_queue_pos l) x"
    unfolding es using assms(3) ok r by (auto simp: log_ok_def entry_ok_def dest!: set_update_subset_insert [THEN subsetD])
  moreover have "\<forall>i < k_table_pos l. i \<noteq> p \<longrightarrow> le_reexec_counter (log_entries l' ! i) = 0"
  proof (intro allI impI)
    fix i assume "i < k_table_pos l" "i \<noteq> p"
    then show "le_reexec_counter (log_entries l' ! i) = 0"
      unfolding es using zero r len assms(4) by (cases "i = ?p") auto
  qed
  ultimately show "log_ok l'" using assms(3,5) p by (auto simp: log_ok_def l'_def)
  show "tape_at l' = Suc (tape_at l)"
  proof (cases "p = ?p")
    case True
    then show ?thesis unfolding tape_at_def es using r len assms(4) by (auto simp: e_def l'_def)
  next
    case False
    then have "p = Suc ?p" "le_reexec_counter e + 1 = le_counter e" using r by auto
    moreover have "sum_list (map le_counter (take (Suc ?p) ?es)) = sum_list (map le_counter (take ?p ?es)) + le_counter e"
      using len assms(4) by (simp add: take_Suc_conv_app_nth e_def)
    moreover have "Suc ?p < k_table_pos l \<Longrightarrow> le_reexec_counter (log_entries l' ! Suc ?p) = 0"
      using zero [of "Suc ?p"] by (simp add: es)
    moreover have "map le_counter (take (Suc ?p) (log_entries l')) = map le_counter (take (Suc ?p) ?es)"
      using cnt by (simp flip: take_map)
    ultimately show ?thesis using assms(4) by (simp add: tape_at_def l'_def e_def)
  qed
qed

lemma reexec_counter_id: "le_reexec_counter e = 0 \<Longrightarrow> e\<lparr>le_reexec_counter := 0\<rparr> = e"
  by (cases e) simp

lemma next_entry_spec:
  assumes "log_ok l" "k_reexec_pos l < k_table_pos l"
  obtains t p where "next_entry (log_entries l ! k_reexec_pos l) l = Inr (l\<lparr>k_table := Some t, k_reexec_pos := p\<rparr>)"
    "log_ok (l\<lparr>k_table := Some t, k_reexec_pos := p\<rparr>)" "tape (l\<lparr>k_table := Some t, k_reexec_pos := p\<rparr>) = tape l"
    "tape_at (l\<lparr>k_table := Some t, k_reexec_pos := p\<rparr>) = Suc (tape_at l)"
    "map le_isrepeated (log_entries (l\<lparr>k_table := Some t, k_reexec_pos := p\<rparr>)) = map le_isrepeated (log_entries l)"
proof -
  let ?p = "k_reexec_pos l" and ?es = "log_entries l"
  let ?e = "?es ! ?p" and ?n = "le_reexec_counter (?es ! ?p) + 1"
  define r where "r = (if le_isrepeated ?e \<and> ?n \<noteq> le_counter ?e then ?n else 0)"
  define p where "p = (if le_isrepeated ?e \<and> ?n \<noteq> le_counter ?e then ?p else Suc ?p)"
  have len: "length ?es = k_table_pos l" using log_okE [OF assms(1)] by metis
  then have e: "entry_ok (k_queue_pos l) ?e" using assms by (simp add: log_ok_def)
  obtain t where t: "table_put ?p (?e\<lparr>le_reexec_counter := r\<rparr>) l = Inr (l\<lparr>k_table := Some t\<rparr>)"
    "length t = k_table_size l" "take (k_table_pos l) t = ?es[?p := ?e\<lparr>le_reexec_counter := r\<rparr>]"
    using log_entries_put [OF assms] by metis
  obtain t0 where t0: "k_table l = Some t0" "length t0 = k_table_size l" using log_okE [OF assms(1)] by metis
  have rp: "(r = ?n \<and> p = ?p \<and> r < le_counter ?e) \<or> (r = 0 \<and> p = Suc ?p \<and> ?n = le_counter ?e)"
    using e by (auto simp: r_def p_def entry_ok_def)
  show thesis
  proof (cases "le_isrepeated ?e")
    case True
    with t(1) have "next_entry ?e l = Inr (l\<lparr>k_table := Some t, k_reexec_pos := p\<rparr>)"
      by (auto simp: next_entry_def r_def p_def Let_def split: if_splits)
    then show thesis using that put_reexec_counter [OF assms t(2,3) rp] by blast
  next
    case False
    then have "next_entry ?e l = Inr (l\<lparr>k_table := Some t0, k_reexec_pos := p\<rparr>)"
      using t0(1) by (simp add: next_entry_def p_def)
    moreover have "take (k_table_pos l) t0 = ?es[?p := ?e\<lparr>le_reexec_counter := r\<rparr>]"
    proof -
      have "le_reexec_counter ?e = 0" using False e by (auto simp: entry_ok_def)
      then have "?e\<lparr>le_reexec_counter := r\<rparr> = ?e" using False reexec_counter_id [of ?e] by (simp add: r_def)
      then show ?thesis using t0(1) by (simp add: log_entries_def)
    qed
    ultimately show thesis using that put_reexec_counter [OF assms t0(2) _ rp] by blast
  qed
qed

lemma CL_ReadData_spec:
  assumes "log_ok l" "tape_at l < length (tape l)" "tape l ! tape_at l = Some bs"
  obtains t p where "CL_ReadData (length bs) l = Inr (l\<lparr>k_table := Some t, k_reexec_pos := p\<rparr>, kCommLogOK, bs)"
    "CL_ProbeData (length bs) l = Inr (l\<lparr>k_table := Some t, k_reexec_pos := p\<rparr>, kCommLogOK)"
    "log_ok (l\<lparr>k_table := Some t, k_reexec_pos := p\<rparr>)" "tape (l\<lparr>k_table := Some t, k_reexec_pos := p\<rparr>) = tape l"
    "tape_at (l\<lparr>k_table := Some t, k_reexec_pos := p\<rparr>) = Suc (tape_at l)"
    "map le_isrepeated (log_entries (l\<lparr>k_table := Some t, k_reexec_pos := p\<rparr>)) = map le_isrepeated (log_entries l)"
proof -
  let ?e = "log_entries l ! k_reexec_pos l"
  have lt: "k_reexec_pos l < k_table_pos l"
    using assms(1,2) tape_at_end [OF assms(1)] by (auto simp: log_ok_def)
  obtain t0 q where l: "k_table l = Some t0" "k_queue l = Some q" "length t0 = k_table_size l" "length q = k_queue_size l"
    "log_entries l = take (k_table_pos l) t0" "length (log_entries l) = k_table_pos l"
    using log_okE [OF assms(1)] by metis
  have pos: "k_table_pos l \<le> k_table_size l" "k_queue_pos l \<le> k_queue_size l" using assms(1) by (simp_all add: log_ok_def)
  have e: "entry_ok (k_queue_pos l) ?e" using assms(1) lt l(6) by (simp add: log_ok_def)
  have "cell l ?e = Some bs" using tape_at_less [OF assms(1) lt] assms(3) by simp
  then have c: "le_completed ?e" "bs = take (le_length ?e) (drop (le_pos ?e) q)"
    using l(2) by (simp_all add: cell_def payload_def split: if_splits)
  have "le_pos ?e + le_length ?e \<le> length q" using e pos l(4) by (simp add: entry_ok_def)
  then have len: "length bs = le_length ?e" using c(2) by simp
  have at: "table_at (k_reexec_pos l) l = Inr ?e" using l lt pos by (simp add: table_at_def)
  have out: "buf_out (le_pos ?e) (le_length ?e) (k_queue l) = Inr bs"
    using c l e pos by (auto simp: buf_out_def copy_out_def entry_ok_def)
  show thesis
  proof (rule next_entry_spec [OF assms(1) lt])
    fix t p
    assume "next_entry ?e l = Inr (l\<lparr>k_table := Some t, k_reexec_pos := p\<rparr>)"
      "log_ok (l\<lparr>k_table := Some t, k_reexec_pos := p\<rparr>)" "tape (l\<lparr>k_table := Some t, k_reexec_pos := p\<rparr>) = tape l"
      "tape_at (l\<lparr>k_table := Some t, k_reexec_pos := p\<rparr>) = Suc (tape_at l)"
    "map le_isrepeated (log_entries (l\<lparr>k_table := Some t, k_reexec_pos := p\<rparr>)) = map le_isrepeated (log_entries l)"
    with at out c(1) len lt show thesis
      by (intro that [of p t]) (simp_all add: CL_ReadData_def CL_ProbeData_def)
  qed
qed

lemma CL_ReadData_end:
  assumes "log_ok l" "tape_at l = length (tape l)"
  shows "CL_ReadData n l = Inr (l\<lparr>k_mode := kGenerateLog\<rparr>, kCommLogCommLogModeFlip, [])"
    and "CL_ProbeData n l = Inr (l\<lparr>k_mode := kGenerateLog\<rparr>, kCommLogCommLogModeFlip)"
  using assms tape_at_end [OF assms(1)] by (simp_all add: CL_ReadData_def CL_ProbeData_def)

lemma CL_ReadData_missing:
  assumes "log_ok l" "tape_at l < length (tape l)" "tape l ! tape_at l = None"
  shows "CL_ReadData (le_length (log_entries l ! k_reexec_pos l)) l = Inr (l, kCommLogMissing, [])"
proof -
  have lt: "k_reexec_pos l < k_table_pos l"
    using assms(1,2) tape_at_end [OF assms(1)] by (auto simp: log_ok_def)
  moreover have "\<not> le_completed (log_entries l ! k_reexec_pos l)"
    using tape_at_less [OF assms(1) lt] assms(3) by (simp add: cell_def split: if_splits)
  moreover have "table_at (k_reexec_pos l) l = Inr (log_entries l ! k_reexec_pos l)"
    using lt assms(1) by (auto simp: table_at_def log_ok_def log_entries_def)
  ultimately show ?thesis by (simp add: CL_ReadData_def)
qed

lemma mode_irrelevant [simp]:
  "log_ok (l\<lparr>k_mode := m\<rparr>) = log_ok l" "tape (l\<lparr>k_mode := m\<rparr>) = tape l" "tape_at (l\<lparr>k_mode := m\<rparr>) = tape_at l"
  "log_entries (l\<lparr>k_mode := m\<rparr>) = log_entries l"
  by (simp_all add: log_ok_def tape_def tape_at_def log_entries_def)

lemma CL_ReInit_spec:
  assumes "log_ok l" "settled l"
  shows "log_ok (CL_ReInit l)" "tape (CL_ReInit l) = tape l" "tape_at (CL_ReInit l) = 0" "settled (CL_ReInit l)"
proof -
  have es: "log_entries (CL_ReInit l) = log_entries l" by (simp add: CL_ReInit_def log_entries_def)
  have "length (log_entries l) = k_table_pos l" using log_okE [OF assms(1)] by metis
  then have "\<forall>i < k_table_pos l. le_reexec_counter (log_entries l ! i) = 0"
    using assms(2) by (simp add: settled_def)
  then show "log_ok (CL_ReInit l)" "tape_at (CL_ReInit l) = 0"
    using assms(1) es by (simp_all add: log_ok_def tape_at_def CL_ReInit_def)
  show "settled (CL_ReInit l)" using assms(2) by (simp add: settled_def es)
  show "tape (CL_ReInit l) = tape l"
    unfolding tape_def es by (simp add: CL_ReInit_def)
qed

lemma update_last: "xs \<noteq> [] \<Longrightarrow> xs[length xs - 1 := y] = butlast xs @ [y]"
  by (induction xs rule: rev_induct) simp_all

lemma CL_LogData_repeated:
  assumes "log_ok l" "settled l" "log_entries l \<noteq> []" "FoundRepeatedEntry (length data) b flag l = Inr True"
  obtains l' where "CL_LogData addr data task b flag recv True intra tag comm (l, inc) = Inr (l', inc)"
    "log_ok l'" "settled l'" "tape l' = tape l @ [cell l (last (log_entries l))]" "k_mode l' = k_mode l"
proof -
  let ?es = "log_entries l" and ?i = "k_table_pos l - 1"
  let ?e = "last ?es" let ?e' = "?e\<lparr>le_counter := le_counter ?e + 1\<rparr>"
  have len: "length ?es = k_table_pos l" using log_okE [OF assms(1)] by metis
  moreover have "0 < length ?es" using assms(3) by simp
  ultimately have i: "?i < k_table_pos l" "?es ! ?i = ?e" using assms(3) by (auto simp: last_conv_nth)
  obtain t where t: "table_put ?i ?e' l = Inr (l\<lparr>k_table := Some t\<rparr>)" "length t = k_table_size l"
    "take (k_table_pos l) t = ?es[?i := ?e']" using log_entries_put [OF assms(1) i(1)] by metis
  let ?l = "l\<lparr>k_table := Some t\<rparr>"
  have at: "table_at ?i l = Inr ?e" using i assms(1) by (auto simp: table_at_def log_ok_def log_entries_def)
  have es: "log_entries ?l = butlast ?es @ [?e']"
    using t(3) update_last [OF assms(3), of ?e'] len by (simp add: log_entries_def)
  have ok: "entry_ok (k_queue_pos l) e" if "e \<in> set ?es" for e using assms(1) that by (simp add: log_ok_def)
  have rep: "le_isrepeated ?e" using assms(4) at len assms(3) by (auto simp: FoundRepeatedEntry_def split: if_splits)
  have "tape ?l = concat (map (\<lambda>e. replicate (le_counter e) (cell l e)) (butlast ?es @ [?e])) @ [cell l ?e]"
    unfolding tape_def es by (simp add: cell_def payload_def flip: replicate_append_same)
  then have "tape ?l = tape l @ [cell l ?e]" using assms(3) by (simp add: tape_def)
  moreover have "settled ?l" using assms(2,3) by (auto simp: settled_def es dest: in_set_butlastD)
  moreover have "log_ok ?l"
  proof -
    have "\<forall>e \<in> set (log_entries ?l). entry_ok (k_queue_pos l) e"
    proof
      fix e assume "e \<in> set (log_entries ?l)"
      then consider "e \<in> set ?es" | "e = ?e'" unfolding es by (auto dest: in_set_butlastD)
      then show "entry_ok (k_queue_pos l) e"
        using ok [of e] ok [of ?e] rep assms(3) by cases (simp_all add: entry_ok_def)
    qed
    moreover have "length (log_entries ?l) = k_table_pos l" using es len i(1) by simp
    then have "\<forall>i < k_table_pos l. le_reexec_counter (log_entries ?l ! i) = 0"
      using \<open>settled ?l\<close> by (simp add: settled_def)
    ultimately show ?thesis using assms(1) t(2) by (auto simp: log_ok_def)
  qed
  ultimately show thesis using that [of ?l] assms(4) at t(1) by (simp add: CL_LogData_def)
qed

section \<open>The interface of a replay log\<close>

text \<open>
  What the callers of a log rely on: logging appends a message, and after a rewind the messages are
  delivered once each and in order, until the end of the log is reported.
\<close>

primrec log_all :: "('d \<Rightarrow> 'l \<Rightarrow> 'l outcome) \<Rightarrow> 'd list \<Rightarrow> 'l \<Rightarrow> 'l outcome" where
  "log_all f [] l = Inr l"
| "log_all f (d # ds) l = bind_out (f d l) (log_all f ds)"

primrec read_all :: "(nat \<Rightarrow> 'l \<Rightarrow> ('l \<times> 'b) outcome) \<Rightarrow> nat list \<Rightarrow> 'l \<Rightarrow> ('l \<times> 'b list) outcome" where
  "read_all f [] l = Inr (l, [])"
| "read_all f (n # ns) l =
     bind_out (f n l) (\<lambda>(l, b). bind_out (read_all f ns l) (\<lambda>(l, bs). Inr (l, b # bs)))"

locale replay_log =
  fixes ok :: "'l \<Rightarrow> bool"
    and msgs :: "'l \<Rightarrow> byte list option list"
    and pos :: "'l \<Rightarrow> nat"
    and log_msg :: "byte list \<Rightarrow> 'l \<Rightarrow> 'l outcome"
    and rewind :: "'l \<Rightarrow> 'l"
    and read_msg :: "nat \<Rightarrow> 'l \<Rightarrow> ('l \<times> byte list option) outcome"
  assumes log_msg: "ok l \<Longrightarrow> \<exists>l'. log_msg d l = Inr l' \<and> ok l' \<and> msgs l' = msgs l @ [Some d]"
    and rewind: "ok l \<Longrightarrow> ok (rewind l) \<and> msgs (rewind l) = msgs l \<and> pos (rewind l) = 0"
    and read_msg: "ok l \<Longrightarrow> pos l < length (msgs l) \<Longrightarrow> msgs l ! pos l = Some d \<Longrightarrow>
      \<exists>l'. read_msg (length d) l = Inr (l', Some d) \<and> ok l' \<and> msgs l' = msgs l \<and> pos l' = Suc (pos l)"
    and read_end: "ok l \<Longrightarrow> pos l = length (msgs l) \<Longrightarrow>
      \<exists>l'. read_msg n l = Inr (l', None) \<and> ok l' \<and> msgs l' = msgs l"
begin

lemma log_all:
  assumes "ok l"
  shows "\<exists>l'. log_all log_msg ds l = Inr l' \<and> ok l' \<and> msgs l' = msgs l @ map Some ds"
  using assms
proof (induction ds arbitrary: l)
  case (Cons d ds)
  obtain l1 where "log_msg d l = Inr l1" "ok l1" "msgs l1 = msgs l @ [Some d]" using log_msg [OF Cons.prems] by blast
  with Cons.IH [of l1] show ?case by auto
qed simp

lemma read_rest:
  assumes "ok l" "pos l + length ds = length (msgs l)" "drop (pos l) (msgs l) = map Some ds"
  shows "\<exists>l'. read_all read_msg (map length ds) l = Inr (l', map Some ds) \<and> ok l' \<and> msgs l' = msgs l \<and>
    pos l' = length (msgs l)"
  using assms
proof (induction ds arbitrary: l)
  case (Cons d ds)
  then have lt: "pos l < length (msgs l)" by simp
  then have "msgs l ! pos l = Some d" "drop (Suc (pos l)) (msgs l) = map Some ds"
    using Cons.prems(3) by (metis Cons_nth_drop_Suc list.inject list.simps(9))+
  moreover from read_msg [OF Cons.prems(1) lt this(1)] obtain l1 where
    "read_msg (length d) l = Inr (l1, Some d)" "ok l1" "msgs l1 = msgs l" "pos l1 = Suc (pos l)" by blast
  ultimately show ?case using Cons.IH [of l1] Cons.prems(2) by auto
qed simp

lemma replay:
  assumes "ok l" "msgs l = map Some ds"
  shows "\<exists>l1 l2 l3. log_all log_msg ds' l = Inr l1 \<and>
    read_all read_msg (map length (ds @ ds')) (rewind l1) = Inr (l2, map Some (ds @ ds')) \<and>
    read_msg n l2 = Inr (l3, None)"
proof -
  obtain l1 where l1: "log_all log_msg ds' l = Inr l1" "ok l1" "msgs l1 = map Some (ds @ ds')"
    using log_all [OF assms(1), of ds'] assms(2) by auto
  with rewind [of l1] read_rest [of "rewind l1" "ds @ ds'"] obtain l2 where
    "read_all read_msg (map length (ds @ ds')) (rewind l1) = Inr (l2, map Some (ds @ ds'))" "ok l2"
    "pos l2 = length (msgs l2)" by auto
  with l1(1) read_end [of l2 n] show ?thesis by auto
qed

end

definition log_blocking :: "byte list \<Rightarrow> CommLog \<Rightarrow> CommLog outcome" where
  "log_blocking d l = bind_out (CL_LogData 0 d 0 True 0 False False False 0 0 (l, [])) (\<lambda>(l, _). Inr l)"

definition read_blocking :: "nat \<Rightarrow> CommLog \<Rightarrow> (CommLog \<times> byte list option) outcome" where
  "read_blocking n l = bind_out (CL_ReadData n l) (\<lambda>(l, err, bs). Inr (l, if err = kCommLogOK then Some bs else None))"

definition plain_log :: "CommLog \<Rightarrow> bool" where
  "plain_log l \<longleftrightarrow> log_ok l \<and> (\<forall>e \<in> set (log_entries l). \<not> le_isrepeated e)"

lemma plain_settled: "plain_log l \<Longrightarrow> settled l"
  by (auto simp: plain_log_def settled_def log_ok_def entry_ok_def)

lemma plain_cong:
  assumes "plain_log l" "log_ok l'" "map le_isrepeated (log_entries l') = map le_isrepeated (log_entries l)"
  shows "plain_log l'"
proof -
  have "set (map le_isrepeated (log_entries l)) \<subseteq> {False}" using assms(1) by (auto simp: plain_log_def)
  then show ?thesis using assms(2) unfolding assms(3) [symmetric] by (auto simp: plain_log_def)
qed

interpretation cl: replay_log plain_log tape tape_at log_blocking CL_ReInit read_blocking
proof
  fix l :: CommLog and d :: "byte list" and n
  assume l: "plain_log l"
  then have ok: "log_ok l" by (simp add: plain_log_def)
  obtain l' where "CL_LogData 0 d 0 True 0 False False False 0 0 (l, []) = Inr (l', [])" "log_ok l'"
      "tape l' = tape l @ [Some d]" "log_entries l' = log_entries l @ [\<lparr>le_pos = k_queue_pos l, le_length = length d,
        le_completed = True, le_flag = 0, le_counter = 1, le_reexec_counter = 0, le_isrepeated = False, le_taskID = 0\<rparr>]"
    by (rule CL_LogData_spec [OF ok, of False d True 0 0 0 False False 0 0 "[]"]) simp_all
  then show "\<exists>l'. log_blocking d l = Inr l' \<and> plain_log l' \<and> tape l' = tape l @ [Some d]"
    using l by (auto simp: log_blocking_def plain_log_def)
  show "plain_log (CL_ReInit l) \<and> tape (CL_ReInit l) = tape l \<and> tape_at (CL_ReInit l) = 0"
    using CL_ReInit_spec [OF ok plain_settled [OF l]] l by (simp add: plain_log_def CL_ReInit_def log_entries_def)
  show "\<exists>l'. read_blocking (length d) l = Inr (l', Some d) \<and> plain_log l' \<and> tape l' = tape l \<and> tape_at l' = Suc (tape_at l)"
    if "tape_at l < length (tape l)" "tape l ! tape_at l = Some d"
  proof (rule CL_ReadData_spec [OF ok that])
    fix t p
    assume "CL_ReadData (length d) l = Inr (l\<lparr>k_table := Some t, k_reexec_pos := p\<rparr>, kCommLogOK, d)"
      "log_ok (l\<lparr>k_table := Some t, k_reexec_pos := p\<rparr>)" "tape (l\<lparr>k_table := Some t, k_reexec_pos := p\<rparr>) = tape l"
      "tape_at (l\<lparr>k_table := Some t, k_reexec_pos := p\<rparr>) = Suc (tape_at l)"
      "map le_isrepeated (log_entries (l\<lparr>k_table := Some t, k_reexec_pos := p\<rparr>)) = map le_isrepeated (log_entries l)"
    with plain_cong [OF l] show ?thesis by (auto simp: read_blocking_def)
  qed
  show "\<exists>l'. read_blocking n l = Inr (l', None) \<and> plain_log l' \<and> tape l' = tape l" if "tape_at l = length (tape l)"
    using CL_ReadData_end(1) [OF ok that, of n] l by (simp add: read_blocking_def plain_log_def)
qed

section \<open>Properties\<close>

lemma CommLog_of_ok:
  assumes "0 < t" shows "plain_log (CommLog_of kGenerateLog q t c)" "tape (CommLog_of kGenerateLog q t c) = []"
proof -
  have "log_entries (CommLog_of kGenerateLog q t c) = []"
    by (simp add: log_entries_def CommLog_of_def InitInternal_def clear_log_def InitAlloc_def Let_def)
  then show "plain_log (CommLog_of kGenerateLog q t c)" "tape (CommLog_of kGenerateLog q t c) = []"
    using assms by (simp_all add: plain_log_def log_ok_def tape_def)
      (simp_all add: CommLog_of_def InitInternal_def clear_log_def InitAlloc_def Let_def)
qed



text \<open>
  A second failure in the middle of a repeated entry is not rewound: \<open>ReInit\<close> resets the
  position in the table but not the count of the repetitions already replayed, so a log whose first
  entry is being repeated continues after the repetitions of the failed re-execution instead of
  starting over.
\<close>

theorem ReInit_keeps_repetitions:
  assumes "log_ok l" "k_reexec_pos l = 0"
  shows "log_ok (CL_ReInit l) \<and> tape (CL_ReInit l) = tape l \<and> tape_at (CL_ReInit l) = tape_at l"
proof -
  have "CL_ReInit l = l\<lparr>k_mode := kReplayLog\<rparr>" using assms(2) by (simp add: CL_ReInit_def)
  then show ?thesis using assms(1) by simp
qed

definition repeated_log :: CommLog where
  "repeated_log = (CommLog_of kReplayLog 1 1 1)\<lparr>k_queue := Some [0], k_queue_size := 1, k_queue_pos := 1,
     k_table := Some [\<lparr>le_pos = 0, le_length = 1, le_completed = True, le_flag = 0, le_counter = 3,
       le_reexec_counter = 2, le_isrepeated = True, le_taskID = 0\<rparr>], k_table_size := 1, k_table_pos := 1\<rparr>"

theorem ReInit_keeps_repetitions_witness:
  "length (tape (CL_ReInit repeated_log)) = 3 \<and> tape_at (CL_ReInit repeated_log) = 2"
proof -
  have "log_ok repeated_log" "k_reexec_pos repeated_log = 0"
    by (simp_all add: log_ok_def repeated_log_def log_entries_def entry_ok_def CommLog_of_def InitInternal_def clear_log_def)
  from ReInit_keeps_repetitions [OF this] show ?thesis
    by (simp add: length_tape tape_at_def)
      (simp add: repeated_log_def log_entries_def CommLog_of_def InitInternal_def clear_log_def)
qed

end
