(* ===== verification/Comm_Log_Pack.thy ===== *)
theory Comm_Log_Pack
  imports Comm_Log
begin

text \<open>
  The packed logs of completed children: a relaxed domain that completes pushes its log as bytes to
  its parent (\<open>PackAndPushLogs\<close>), and when the parent re-executes the child finds it there by its
  identifier and unpacks it (\<open>UnpackLogsToChildCD\<close>).  The theory shows that the unpacked log is
  the pushed one.  A structure image is a codec of fixed width, the interface \<open>fixed_codec\<close>,
  interpreted on the images of numbers, log entries and identifiers.
\<close>

unbundle bit_operations_syntax

section \<open>Codecs of fixed width\<close>

locale fixed_codec =
  fixes enc :: "'a \<Rightarrow> byte list"
    and dec :: "byte list \<Rightarrow> 'a"
    and width :: nat
    and valid :: "'a \<Rightarrow> bool"
  assumes length_enc: "length (enc x) = width"
    and dec_enc: "valid x \<Longrightarrow> dec (enc x @ r) = x"
begin

lemma dec_take: "valid x \<Longrightarrow> dec (take width (enc x @ r)) = x"
  using dec_enc [of x "[]"] by (simp add: length_enc)

lemma drop_enc: "drop width (enc x @ r) = r"
  by (simp add: length_enc)

lemma length_encs: "length (concat (map enc xs)) = width * length xs"
  by (induction xs) (simp_all add: length_enc)

end

lemma length_le_bytes [simp]: "length (le_bytes n x) = n"
  by (induction n arbitrary: x) simp_all

lemma unle_le_bytes: "unle (le_bytes n x) = x mod 256 ^ n"
proof (induction n arbitrary: x)
  case (Suc n)
  have "x mod 256 + 256 * (x div 256 mod 256 ^ n) = x mod (256 * 256 ^ n)"
    by (simp add: mod_mult2_eq)
  then show ?case using Suc by (simp add: unsigned_of_nat take_bit_eq_mod)
qed simp

lemma nat_at_simps [simp]:
  "n \<le> length bs \<Longrightarrow> nat_at n 0 (bs @ r) = nat_at n 0 bs"
  "length bs \<le> off \<Longrightarrow> nat_at n off (bs @ r) = nat_at n (off - length bs) r"
  "0 < off \<Longrightarrow> nat_at n off (b # r) = nat_at n (off - 1) r"
  by (simp_all add: nat_at_def drop_Cons')

lemma nat_at_le_bytes [simp]: "nat_at n 0 (le_bytes n x) = x mod 256 ^ n"
  by (simp add: nat_at_def unle_le_bytes)

lemma nat_at_0_le_bytes [simp]: "nat_at n 0 (le_bytes n x @ r) = x mod 256 ^ n"
  by simp

lemma int_at_bytes:
  assumes "- 2147483648 \<le> i" "i < 2147483648"
  shows "sint (word_of_int (i mod 4294967296) :: 32 word) = i"
proof -
  have "(word_of_int (i mod 4294967296) :: 32 word) = word_of_int i"
    by (simp add: word_of_int_eq_iff take_bit_eq_mod)
  then show ?thesis using assms by (simp add: signed_of_int signed_take_bit_int_eq_self)
qed

interpretation u64: fixed_codec "le_bytes 8" "nat_at 8 0" 8 "\<lambda>x. x < 2 ^ 64"
  by unfold_locales simp_all

definition elem_fits :: "LogTableElement \<Rightarrow> bool" where
  "elem_fits e \<longleftrightarrow> le_pos e < 2 ^ 64 \<and> le_length e < 2 ^ 64 \<and> le_counter e < 2 ^ 64 \<and> le_reexec_counter e < 2 ^ 64"

lemma word_mod [simp]:
  "of_nat (unat w mod 18446744073709551616) = (w :: uint64)" "of_nat (unat v mod 4294967296) = (v :: uint32)"
proof -
  have "unat w < 2 ^ LENGTH(64)" "unat v < 2 ^ LENGTH(32)" by (rule unsigned_less)+
  then show "of_nat (unat w mod 18446744073709551616) = w" "of_nat (unat v mod 4294967296) = v" by simp_all
qed

interpretation el: fixed_codec enc_elem dec_elem sizeof_LogTableElement elem_fits
proof
  show "length (enc_elem e) = sizeof_LogTableElement" for e by (simp add: enc_elem_def sizeof_LogTableElement_def)
  show "dec_elem (enc_elem e @ r) = e" if "elem_fits e" for e r
    using that by (cases e) (simp add: enc_elem_def dec_elem_def elem_fits_def nth_append)
qed

definition int_fits :: "int \<Rightarrow> bool" where
  "int_fits i \<longleftrightarrow> - (2 ^ 31) \<le> i \<and> i < 2 ^ 31"

definition CDID_fits :: "CDID \<Rightarrow> bool" where
  "CDID_fits c \<longleftrightarrow> (let d = cid_node_id c in int_fits (nid_task_in_color d) \<and> int_fits (nid_head d) \<and>
     int_fits (nid_size d) \<and> int_fits (nid_color_id d) \<and> int_fits (nid_color d) \<and> int_fits (nid_task_group d))"

interpretation id: fixed_codec enc_CDID dec_CDID sizeof_CDID CDID_fits
proof
  show "length (enc_CDID c) = sizeof_CDID" for c by (simp add: enc_CDID_def sizeof_CDID_def int_bytes_def Let_def)
  show "dec_CDID (enc_CDID c @ r) = c" if "CDID_fits c" for c r
  proof -
    obtain nm nd a b s where c: "c = \<lparr>cid_cd_name = nm, cid_node_id = nd, cid_domain_id = a, cid_object_id = b, cid_sequential_id = s\<rparr>"
      by (cases c)
    show ?thesis using that unfolding c
      by (cases nm; cases nd) (simp add: enc_CDID_def dec_CDID_def CDID_fits_def int_fits_def Let_def int_at_def
        int_bytes_def int_at_bytes)
  qed
qed

section \<open>Pushing a log\<close>

definition child_bytes :: "CommLog \<Rightarrow> byte list" where
  "child_bytes l = (case k_child l of None \<Rightarrow> [] | Some c \<Rightarrow> take (k_child_pos l) c)"

definition child_ok :: "CommLog \<Rightarrow> bool" where
  "child_ok l \<longleftrightarrow> 0 < k_child_log_size_unit l \<and>
     (case k_child l of None \<Rightarrow> k_child_pos l = 0 \<and> k_child_size l = 0
      | Some c \<Rightarrow> length c = k_child_size l \<and> k_child_pos l \<le> k_child_size l)"

definition packed :: "CDID \<Rightarrow> CommLog \<Rightarrow> byte list" where
  "packed cd_id l =
     (le_bytes 8 (pack_length l) @ enc_CDID (CDID_copy_ctor cd_id)) @
     enc_meta (k_table_pos l) (k_table_size l) @ concat (map enc_elem (log_entries l)) @
     enc_meta (k_queue_pos l) (k_queue_size l) @ take (k_queue_pos l) (the (k_queue l)) @
     enc_meta (k_child_size l) (k_child_pos l) @ child_bytes l"

lemma length_enc_meta [simp]: "length (enc_meta a b) = sizeof_meta"
  by (simp add: enc_meta_def sizeof_meta_def)

lemma length_child_bytes: "child_ok l \<Longrightarrow> length (child_bytes l) = k_child_pos l"
  by (auto simp: child_ok_def child_bytes_def split: option.splits)

lemma length_queue: "log_ok l \<Longrightarrow> length (take (k_queue_pos l) (the (k_queue l))) = k_queue_pos l"
  by (auto simp: log_ok_def)

lemma length_log_entries: "log_ok l \<Longrightarrow> length (log_entries l) = k_table_pos l"
  using log_okE by metis

lemma length_packed:
  assumes "log_ok l" "child_ok l" shows "length (packed cd_id l) = pack_length l"
  using length_queue [OF assms(1)] length_log_entries [OF assms(1)] length_child_bytes [OF assms(2)]
  by (simp add: packed_def pack_length_def el.length_encs id.length_enc del: length_concat length_take)

lemma elems_out_entries: "log_ok l \<Longrightarrow> elems_out (k_table_pos l) (k_table l) = Inr (log_entries l)"
  by (auto simp: elems_out_def log_ok_def log_entries_def)

lemma buf_out_queue: "log_ok l \<Longrightarrow> buf_out 0 (k_queue_pos l) (k_queue l) = Inr (take (k_queue_pos l) (the (k_queue l)))"
  by (auto simp: buf_out_def copy_out_def log_ok_def)

lemma buf_out_child: "child_ok l \<Longrightarrow> buf_out 0 (k_child_pos l) (k_child l) = Inr (child_bytes l)"
  by (auto simp: buf_out_def copy_out_def child_ok_def child_bytes_def split: option.splits)

lemma CheckChildLogAlloc_spec:
  assumes "child_ok p"
  obtains c n where "CheckChildLogAlloc len p = Inr (p\<lparr>k_child := Some c, k_child_size := n\<rparr>)"
    "length c = n" "k_child_pos p + len \<le> n" "take (k_child_pos p) c = child_bytes p"
proof (cases "k_child p \<noteq> None \<and> k_child_pos p + len < k_child_size p")
  case True
  then obtain c where "k_child p = Some c" by auto
  with True assms show thesis
    by (intro that [of "k_child_size p" c]) (simp_all add: CheckChildLogAlloc_def child_ok_def child_bytes_def)
next
  case False
  let ?u = "k_child_log_size_unit p" and ?n = "k_child_pos p + len"
  have u: "0 < ?u" using assms by (simp add: child_ok_def)
  have start: "(if k_child p = None then 0 else k_child_pos p) = k_child_pos p"
    using assms by (auto simp: child_ok_def)
  have le: "?n \<le> (?n div ?u + 1) * ?u" using dividend_less_div_times [OF u, of ?n] by (simp add: less_imp_le)
  have b: "buf_out 0 (k_child_pos p) (k_child p) = Inr (child_bytes p)" "length (child_bytes p) = k_child_pos p"
    using assms by (simp_all add: buf_out_child length_child_bytes)
  have pos: "p\<lparr>k_child := x, k_child_size := y, k_child_pos := k_child_pos p\<rparr> = p\<lparr>k_child := x, k_child_size := y\<rparr>" for x y
    by (cases p) simp
  show thesis
  proof (rule that)
    show "CheckChildLogAlloc len p = Inr (p\<lparr>k_child := Some (child_bytes p @ replicate ((?n div ?u + 1) * ?u - k_child_pos p) 0),
        k_child_size := (?n div ?u + 1) * ?u\<rparr>)"
      using False u by (simp only: CheckChildLogAlloc_def if_False start Let_def b bind_out_simps pos) simp
  qed (use le b in auto)
qed

lemma child_put_spec:
  assumes "k_child p = Some c" "k_child_pos p + length bs \<le> length c"
  shows "child_put bs p = Inr (p\<lparr>k_child := Some (take (k_child_pos p) c @ bs @ drop (k_child_pos p + length bs) c),
    k_child_pos := k_child_pos p + length bs\<rparr>)"
  using assms by (cases p) (auto simp: child_put_def copy_in_def)

lemma child_puts_spec:
  assumes "k_child p = Some c" "k_child_pos p + length (concat bss) \<le> length c"
  shows "child_puts bss p = Inr (p\<lparr>k_child := Some (take (k_child_pos p) c @ concat bss @ drop (k_child_pos p + length (concat bss)) c),
    k_child_pos := k_child_pos p + length (concat bss)\<rparr>)"
  using assms
proof (induction bss arbitrary: p c)
  case Nil
  then show ?case by (cases p) simp
next
  case (Cons b bss)
  let ?c = "take (k_child_pos p) c @ b @ drop (k_child_pos p + length b) c"
  let ?p = "p\<lparr>k_child := Some ?c, k_child_pos := k_child_pos p + length b\<rparr>"
  have "child_put b p = Inr ?p" using Cons.prems by (intro child_put_spec) simp_all
  moreover have "k_child_pos p + length b \<le> length c" using Cons.prems(2) by simp
  ultimately show ?case using Cons.IH [of ?p ?c] Cons.prems by (simp add: ac_simps)
qed

lemma PackAndPushLogs_spec:
  assumes "child_ok p" "log_ok l" "child_ok l"
  obtains c n m where "PackAndPushLogs cd_id l p = Inr (p\<lparr>k_child := Some c, k_child_size := n, k_child_pos := m\<rparr>)"
    "child_ok (p\<lparr>k_child := Some c, k_child_size := n, k_child_pos := m\<rparr>)"
    "child_bytes (p\<lparr>k_child := Some c, k_child_size := n, k_child_pos := m\<rparr>) = child_bytes p @ packed cd_id l"
proof (rule CheckChildLogAlloc_spec [OF assms(1), of "pack_length l"])
  fix c n
  assume a: "CheckChildLogAlloc (pack_length l) p = Inr (p\<lparr>k_child := Some c, k_child_size := n\<rparr>)"
    "length c = n" "k_child_pos p + pack_length l \<le> n" "take (k_child_pos p) c = child_bytes p"
  let ?p = "p\<lparr>k_child := Some c, k_child_size := n\<rparr>" and ?m = "k_child_pos p + pack_length l"
  let ?bss = "[le_bytes 8 (pack_length l), enc_CDID (CDID_copy_ctor cd_id), enc_meta (k_table_pos l) (k_table_size l),
    concat (map enc_elem (log_entries l)), enc_meta (k_queue_pos l) (k_queue_size l), take (k_queue_pos l) (the (k_queue l)),
    enc_meta (k_child_size l) (k_child_pos l), child_bytes l]"
  have bss: "concat ?bss = packed cd_id l" by (simp add: packed_def)
  have len: "length (packed cd_id l) = pack_length l" by (rule length_packed [OF assms(2,3)])
  have "PackAndPushLogs cd_id l p = child_puts ?bss ?p"
    using a(1) elems_out_entries [OF assms(2)] buf_out_queue [OF assms(2)] buf_out_child [OF assms(3)]
    by (simp add: PackAndPushLogs_def PackLogs_def)
  also have "\<dots> = Inr (p\<lparr>k_child := Some (child_bytes p @ packed cd_id l @ drop ?m c), k_child_size := n, k_child_pos := ?m\<rparr>)"
    using child_puts_spec [of ?p c ?bss] a(2-4) unfolding bss len by (cases p) simp
  finally show thesis
    using a len length_child_bytes [OF assms(1)] assms(1) by (intro that [of "?m" "n" "child_bytes p @ packed cd_id l @ drop ?m c"])
      (simp_all add: child_ok_def child_bytes_def)
qed

section \<open>Unpacking a log\<close>

definition log_fits :: "CommLog \<Rightarrow> bool" where
  "log_fits l \<longleftrightarrow> pack_length l < 2 ^ 64 \<and> k_table_size l < 2 ^ 64 \<and> k_queue_size l < 2 ^ 64 \<and> k_child_size l < 2 ^ 64 \<and>
     (\<forall>e \<in> set (log_entries l). le_counter e < 2 ^ 64)"

lemma nat_at_enc_meta:
  assumes "a < 2 ^ 64" "b < 2 ^ 64"
  shows "nat_at 8 8 (enc_meta a b) = a" "nat_at 8 16 (enc_meta a b) = b"
  using assms by (simp_all add: enc_meta_def)

lemma dec_elems_enc:
  assumes "list_all elem_fits es" shows "dec_elems (length es) (concat (map enc_elem es)) = es"
  using assms by (induction es) (simp_all add: el.dec_take el.drop_enc del: take_append drop_append)

lemma entries_fit:
  assumes "log_ok l" "log_fits l" shows "list_all elem_fits (log_entries l)"
  using assms by (auto simp: list_all_iff log_ok_def log_fits_def elem_fits_def entry_ok_def dest!: bspec)

lemma UnpackLogs_packed:
  assumes "log_ok l" "child_ok l" "log_fits l" "CDID_fits cd_id" "CDID_eq (CDID_copy_ctor cd_id) my_id"
  shows "UnpackLogs my_id (packed cd_id l @ r) l0 = Inr (l0\<lparr>
    k_table := Some (log_entries l @ replicate (k_table_size l - k_table_pos l) LogTableElement_init),
    k_table_pos := k_table_pos l, k_table_size := k_table_size l,
    k_queue := Some (take (k_queue_pos l) (the (k_queue l)) @ replicate (k_queue_size l - k_queue_pos l) 0),
    k_queue_pos := k_queue_pos l, k_queue_size := k_queue_size l,
    k_child := Some (child_bytes l @ replicate (k_child_size l - k_child_pos l) 0),
    k_child_size := k_child_size l, k_child_pos := k_child_pos l\<rparr>)"
proof -
  define h where "h = le_bytes 8 (pack_length l) @ enc_CDID (CDID_copy_ctor cd_id)"
  define tm tb where "tm = enc_meta (k_table_pos l) (k_table_size l)" and "tb = concat (map enc_elem (log_entries l))"
  define qm q where "qm = enc_meta (k_queue_pos l) (k_queue_size l)" and "q = take (k_queue_pos l) (the (k_queue l))"
  define cm c where "cm = enc_meta (k_child_size l) (k_child_pos l)" and "c = child_bytes l"
  let ?src = "packed cd_id l @ r"
  have src: "?src = h @ tm @ tb @ qm @ q @ cm @ c @ r"
    by (simp add: packed_def h_def tm_def tb_def qm_def q_def cm_def c_def)
  have len: "length h = 8 + sizeof_CDID" "length tm = sizeof_meta" "length tb = sizeof_LogTableElement * k_table_pos l"
    "length qm = sizeof_meta" "length q = k_queue_pos l" "length cm = sizeof_meta" "length c = k_child_pos l"
    using length_log_entries [OF assms(1)] length_queue [OF assms(1)] length_child_bytes [OF assms(2)]
    by (simp_all add: h_def tm_def tb_def qm_def q_def cm_def c_def id.length_enc el.length_encs del: length_concat length_take)
  have le: "k_table_pos l \<le> k_table_size l" "k_queue_pos l \<le> k_queue_size l" "k_child_pos l \<le> k_child_size l"
    using assms(1,2) by (auto simp: log_ok_def child_ok_def split: option.splits)
  have fits: "k_table_size l < 2 ^ 64" "k_queue_size l < 2 ^ 64" "k_child_size l < 2 ^ 64" "pack_length l < 2 ^ 64"
    using assms(3) by (simp_all add: log_fits_def)
  have nums: "nat_at 8 0 h = pack_length l" "nat_at 8 8 tm = k_table_pos l" "nat_at 8 16 tm = k_table_size l"
    "nat_at 8 8 qm = k_queue_pos l" "nat_at 8 16 qm = k_queue_size l"
    "nat_at 8 8 cm = k_child_size l" "nat_at 8 16 cm = k_child_pos l"
    unfolding h_def tm_def qm_def cm_def using fits le by (simp_all add: nat_at_enc_meta)
  have "CDID_fits (CDID_copy_ctor cd_id)" using assms(4) by (simp add: CDID_fits_def CDID_copy_ctor_def Let_def)
  then have id: "CDID_eq (dec_CDID (drop 8 h)) my_id" using assms(5) id.dec_enc [of _ "[]"] by (simp add: h_def)
  have es: "dec_elems (k_table_pos l) tb = log_entries l"
    using dec_elems_enc [OF entries_fit [OF assms(1,3)]] length_log_entries [OF assms(1)] by (simp add: tb_def)
  have outs: "copy_out 0 (8 + sizeof_CDID) ?src = Inr h" "copy_out (8 + sizeof_CDID) sizeof_meta ?src = Inr tm"
    "copy_out (8 + sizeof_CDID + sizeof_meta) (sizeof_LogTableElement * k_table_pos l) ?src = Inr tb"
    "copy_out (8 + sizeof_CDID + sizeof_meta + sizeof_LogTableElement * k_table_pos l) sizeof_meta ?src = Inr qm"
    "copy_out (8 + sizeof_CDID + sizeof_meta + sizeof_LogTableElement * k_table_pos l + sizeof_meta) (k_queue_pos l) ?src = Inr q"
    "copy_out (8 + sizeof_CDID + sizeof_meta + sizeof_LogTableElement * k_table_pos l + sizeof_meta + k_queue_pos l) sizeof_meta ?src = Inr cm"
    "copy_out (8 + sizeof_CDID + sizeof_meta + sizeof_LogTableElement * k_table_pos l + sizeof_meta + k_queue_pos l + sizeof_meta)
      (k_child_pos l) ?src = Inr c"
    unfolding src
    using len by (simp_all add: copy_out_def)
  show ?thesis
    unfolding UnpackLogs_def Let_def outs bind_out_simps nums es
    using id le by (simp add: pack_length_def q_def c_def)
qed

section \<open>Finding the log of a child\<close>

type_synonym named_log = "CDID \<times> CommLog"

definition packs :: "named_log list \<Rightarrow> byte list" where
  "packs ls = concat (map (\<lambda>(c, l). packed c l) ls)"

definition packable :: "named_log \<Rightarrow> bool" where
  "packable cl \<longleftrightarrow> log_ok (snd cl) \<and> child_ok (snd cl) \<and> log_fits (snd cl) \<and> CDID_fits (fst cl)"

definition named :: "CDID \<Rightarrow> named_log \<Rightarrow> bool" where
  "named cd_id cl \<longleftrightarrow> CDID_eq (CDID_copy_ctor (fst cl)) cd_id"

lemma packs_simps [simp]: "packs [] = []" "packs (cl # ls) = packed (fst cl) (snd cl) @ packs ls"
  "packs (ls @ ms) = packs ls @ packs ms"
  by (simp_all add: packs_def split: prod.splits)

lemma packed_head:
  assumes "packable (c, l)"
  shows "\<exists>h t. packed c l = h @ t \<and> length h = 8 + sizeof_CDID \<and> nat_at 8 0 h = length (packed c l) \<and>
    dec_CDID (drop 8 h) = CDID_copy_ctor c"
proof -
  let ?h = "le_bytes 8 (pack_length l) @ enc_CDID (CDID_copy_ctor c)"
  have "CDID_fits (CDID_copy_ctor c)" using assms by (simp add: packable_def CDID_fits_def CDID_copy_ctor_def Let_def)
  then have "dec_CDID (drop 8 ?h) = CDID_copy_ctor c" using id.dec_enc [of "CDID_copy_ctor c" "[]"] by simp
  moreover have "nat_at 8 0 ?h = length (packed c l)"
    using assms length_packed [of l c] by (simp add: packable_def log_fits_def)
  moreover obtain t where "packed c l = ?h @ t" by (simp add: packed_def)
  moreover have "length ?h = 8 + sizeof_CDID" by (simp add: id.length_enc)
  ultimately show ?thesis by blast
qed

lemma length_packed_pos: "packable cl \<Longrightarrow> 0 < length (packed (fst cl) (snd cl))"
  by (simp add: packed_def)

lemma find_child_first:
  assumes "list_all packable ls" "packable cl" "named cd_id cl" "\<forall>x \<in> set ls. \<not> named cd_id x"
    and "i = length a" "n = length a + length (packs (ls @ cl # ms))"
  shows "find_child cd_id i n (a @ packs (ls @ cl # ms) @ r) = Inr (Some (length a + length (packs ls)))"
  using assms
proof (induction ls arbitrary: a i)
  case Nil
  obtain c l where cl: "cl = (c, l)" by fastforce
  obtain h t where h: "packed c l = h @ t" "length h = 8 + sizeof_CDID" "dec_CDID (drop 8 h) = CDID_copy_ctor c"
    using packed_head Nil(2) cl by metis
  then have "copy_out i (8 + sizeof_CDID) (a @ packs ([] @ cl # ms) @ r) = Inr h" using Nil(5) cl by (simp add: copy_out_def)
  moreover have "i < n" using Nil(2,5,6) length_packed_pos [of cl] by simp
  ultimately show ?case using Nil(3,5) h(3) cl by (simp add: find_child.simps named_def)
next
  case (Cons x ls)
  obtain c l where x: "x = (c, l)" by fastforce
  obtain h t where h: "packed c l = h @ t" "length h = 8 + sizeof_CDID" "nat_at 8 0 h = length (packed c l)"
    "dec_CDID (drop 8 h) = CDID_copy_ctor c"
    using packed_head Cons.prems(1) x by (metis list.pred_inject(2))
  let ?bs = "a @ packs ((x # ls) @ cl # ms) @ r"
  have "copy_out i (8 + sizeof_CDID) ?bs = Inr h" using Cons.prems(5) x h(1,2) by (simp add: copy_out_def)
  moreover have "i < n" "0 < length (packed c l)" using Cons.prems(1,5,6) length_packed_pos [of x] x by simp_all
  moreover have "\<not> CDID_eq (CDID_copy_ctor c) cd_id" using Cons.prems(4) x by (simp add: named_def)
  ultimately have "find_child cd_id i n ?bs = find_child cd_id (i + length (packed c l)) n ?bs"
    using h(3,4) by (simp add: find_child.simps [of cd_id i])
  also have "\<dots> = find_child cd_id (i + length (packed c l)) n ((a @ packed c l) @ packs (ls @ cl # ms) @ r)"
    using x by simp
  also have "\<dots> = Inr (Some (length (a @ packed c l) + length (packs ls)))"
    using Cons.prems x by (intro Cons.IH) auto
  finally show ?case using x by simp
qed

section \<open>Properties\<close>

primrec push_all :: "named_log list \<Rightarrow> CommLog \<Rightarrow> CommLog outcome" where
  "push_all [] p = Inr p"
| "push_all (cl # ls) p = bind_out (PackAndPushLogs (fst cl) (snd cl) p) (push_all ls)"

lemma push_all_spec:
  assumes "child_ok p" "list_all packable ls"
  shows "\<exists>p'. push_all ls p = Inr p' \<and> child_ok p' \<and> child_bytes p' = child_bytes p @ packs ls"
  using assms
proof (induction ls arbitrary: p)
  case (Cons cl ls)
  then have cl: "log_ok (snd cl)" "child_ok (snd cl)" by (simp_all add: packable_def)
  show ?case
  proof (rule PackAndPushLogs_spec [OF Cons.prems(1) cl, of "fst cl"])
    fix c n m
    let ?p = "p\<lparr>k_child := Some c, k_child_size := n, k_child_pos := m\<rparr>"
    assume "PackAndPushLogs (fst cl) (snd cl) p = Inr ?p" "child_ok ?p"
      "child_bytes ?p = child_bytes p @ packed (fst cl) (snd cl)"
    with Cons.IH [of ?p] Cons.prems(2) show ?thesis by auto
  qed
qed simp

lemma unpacked_same:
  assumes "log_ok l" "child_ok l" "k_reexec_pos l0 = 0" "settled l"
  defines "l' \<equiv> l0\<lparr>
    k_table := Some (log_entries l @ replicate (k_table_size l - k_table_pos l) LogTableElement_init),
    k_table_pos := k_table_pos l, k_table_size := k_table_size l,
    k_queue := Some (take (k_queue_pos l) (the (k_queue l)) @ replicate (k_queue_size l - k_queue_pos l) 0),
    k_queue_pos := k_queue_pos l, k_queue_size := k_queue_size l,
    k_child := Some (child_bytes l @ replicate (k_child_size l - k_child_pos l) 0),
    k_child_size := k_child_size l, k_child_pos := k_child_pos l\<rparr>"
  shows "log_ok l'" "tape l' = tape l" "tape_at l' = 0" "child_bytes l' = child_bytes l"
proof -
  have es: "log_entries l' = log_entries l" using length_log_entries [OF assms(1)] by (simp add: l'_def log_entries_def)
  have zero: "\<forall>i < k_table_pos l. le_reexec_counter (log_entries l ! i) = 0"
    using assms(4) length_log_entries [OF assms(1)] by (simp add: settled_def)
  show "log_ok l'" "tape_at l' = 0"
    using assms(1,3) zero length_log_entries [OF assms(1)] length_queue [OF assms(1)] es
    by (auto simp: log_ok_def tape_at_def l'_def)
  have "cell l' e = cell l e" if "e \<in> set (log_entries l)" for e
  proof -
    have "le_pos e + le_length e \<le> k_queue_pos l" using assms(1) that by (simp add: log_ok_def entry_ok_def)
    moreover have "take (k_queue_pos l) (the (k_queue l')) = take (k_queue_pos l) (the (k_queue l))"
      using length_queue [OF assms(1)] by (simp add: l'_def)
    ultimately have "payload l' e = payload l e" by (intro payload_cong [where n = "k_queue_pos l"]) (simp_all add: l'_def)
    then show ?thesis by (simp add: cell_def)
  qed
  then show "tape l' = tape l" unfolding tape_def es by (simp cong: map_cong)
  show "child_bytes l' = child_bytes l" using length_child_bytes [OF assms(2)] by (simp add: l'_def child_bytes_def)
qed

lemma unpack_pushed:
  assumes "child_ok p'" "child_bytes p' = packs (before @ (cd_id, l) # after)" "list_all packable (before @ (cd_id, l) # after)"
    and "named my_id (cd_id, l)" "\<forall>x \<in> set before. \<not> named my_id x" "settled l" "k_reexec_pos l0 = 0"
  obtains l' where "UnpackLogsToChildCD my_id p' l0 = Inr (l', kCommLogOK)" "log_ok l'"
    "tape l' = tape l" "tape_at l' = 0" "child_bytes l' = child_bytes l" "k_mode l' = k_mode l0"
proof -
  have pk: "packable (cd_id, l)" "log_ok l" "child_ok l" "log_fits l" "CDID_fits cd_id"
    using assms(3) by (simp_all add: packable_def)
  have "child_bytes p' \<noteq> []" using assms(2) length_packed_pos [OF pk(1)] by auto
  then obtain c where c: "k_child p' = Some c" by (auto simp: child_bytes_def split: option.splits)
  define r where "r = drop (k_child_pos p') c"
  have pos: "k_child_pos p' = length (packs (before @ (cd_id, l) # after))" using length_child_bytes [OF assms(1)] assms(2) by simp
  have bs: "c = [] @ packs (before @ (cd_id, l) # after) @ r"
    using assms(2) c append_take_drop_id [of "k_child_pos p'" c] by (simp add: child_bytes_def r_def)
  have "find_child my_id 0 (k_child_pos p') c = Inr (Some (length (packs before)))"
    using find_child_first [of before "(cd_id, l)" my_id 0 "[]" "k_child_pos p'" after r] assms(3-5) pos bs by simp
  moreover have "k_child_pos p' \<noteq> 0" using pos length_packed_pos [OF pk(1)] by auto
  ultimately have "UnpackLogsToChildCD my_id p' l0 =
      bind_out (UnpackLogs my_id (drop (length (packs before)) c) l0) (\<lambda>child. Inr (child, kCommLogOK))"
    using c by (simp add: UnpackLogsToChildCD_def FindChildLogs_def)
  moreover have "drop (length (packs before)) c = packed cd_id l @ packs after @ r" unfolding bs by simp
  ultimately have "UnpackLogsToChildCD my_id p' l0 = bind_out (UnpackLogs my_id (packed cd_id l @ packs after @ r) l0) (\<lambda>child. Inr (child, kCommLogOK))"
    by simp
  from this [unfolded UnpackLogs_packed [OF pk(2-5) assms(4) [unfolded named_def fst_conv]] bind_out_simps] show thesis
    by (rule that) (use unpacked_same [OF pk(2,3) assms(7,6)] in simp_all)
qed

text \<open>
  C17.  A completed child gets its log back: when a child pushes its log to its parent, whatever logs of
  other domains were pushed before and whatever is pushed after, the child that asks for the log of
  its identifier at its next \<open>Begin\<close> unpacks exactly that log.  The messages it replays, from the
  first one on, and the packed logs of its own children are those of the pushed log.  A log pushed
  later under the same identifier is not seen: the oldest one is found first.
\<close>

theorem child_log_roundtrip:
  assumes "child_ok p" "child_bytes p = []" "list_all packable (before @ (cd_id, l) # after)"
    and "named my_id (cd_id, l)" "\<forall>x \<in> set before. \<not> named my_id x" "settled l" "k_reexec_pos l0 = 0"
  shows "\<exists>p' l'. push_all (before @ (cd_id, l) # after) p = Inr p' \<and>
    UnpackLogsToChildCD my_id p' l0 = Inr (l', kCommLogOK) \<and> log_ok l' \<and>
    tape l' = tape l \<and> tape_at l' = 0 \<and> child_bytes l' = child_bytes l"
proof -
  obtain p' where p': "push_all (before @ (cd_id, l) # after) p = Inr p'" "child_ok p'"
    "child_bytes p' = packs (before @ (cd_id, l) # after)"
    using push_all_spec [OF assms(1,3)] assms(2) by auto
  from unpack_pushed [OF p'(2,3) assms(3-7)] p'(1) show ?thesis by metis
qed

definition sample_log :: CommLog where
  "sample_log = (CommLog_of kGenerateLog 1 1 1)\<lparr>k_queue := Some [7], k_queue_pos := 1,
     k_table := Some [\<lparr>le_pos = 0, le_length = 1, le_completed = True, le_flag = 0, le_counter = 1,
       le_reexec_counter = 0, le_isrepeated = False, le_taskID = 0\<rparr>], k_table_pos := 1\<rparr>"

definition sample_id :: CDID where
  "sample_id = CDID_of CDNameT_default (NodeID_of 0 0 0 0 1)"

lemmas sample_simps = sample_log_def CommLog_of_def InitInternal_def clear_log_def InitAlloc_def Let_def
  log_entries_def log_ok_def entry_ok_def child_ok_def log_fits_def settled_def pack_length_def
  sizeof_CDID_def sizeof_meta_def sizeof_LogTableElement_def

lemma sample_packable: "packable (sample_id, sample_log)"
  by (simp add: packable_def sample_simps sample_id_def CDID_fits_def CDID_of_def NodeID_of_def int_fits_def)

theorem child_log_roundtrip_witness:
  "\<exists>p' l'. push_all ([] @ (sample_id, sample_log) # [(sample_id, sample_log)]) (CommLog_of kGenerateLog 1 1 1) = Inr p' \<and>
    UnpackLogsToChildCD sample_id p' (CommLog_of kReplayLog 1 1 1) = Inr (l', kCommLogOK) \<and> log_ok l' \<and>
    tape l' = tape sample_log \<and> tape_at l' = 0 \<and> child_bytes l' = child_bytes sample_log"
  using sample_packable
  by (intro child_log_roundtrip)
    (simp_all add: sample_simps child_bytes_def named_def CDID_eq_def NodeID_eq_def CDNameT_eq_def CDID_copy_ctor_def)

end
