(* ===== verification/CD_Logging.thy ===== *)
theory CD_Logging
  imports Comm_Log_Pack CD_Path
begin

text \<open>
  Message logging of a domain: the part of \<open>class CD\<close> (\<open>cd_internal.cc\<close>) that owns a
  communication log, the incomplete entries of non-blocking calls and the logging mode.  The domains
  of the path are a list indexed by level, so that a handle is a position; the memory of the
  application is explicit, and the MPI library is a parameter: a record of functions on the memory
  and on a world of any type (requests in flight, other tasks).  A request is identified by the
  address of its variable, as in the code (\<open>MsgFlagT\<close>); \<open>int\<close> handles take four bytes.
\<close>

section \<open>The MPI library\<close>

text \<open>The calls the wrappers make, with the arguments of the profiling interface.\<close>

datatype mpi_call =
    PMPI_Send uint64 nat int int int int
  | PMPI_Ssend uint64 nat int int int int
  | PMPI_Rsend uint64 nat int int int int
  | PMPI_Bsend uint64 nat int int int int
  | PMPI_Recv uint64 nat int int int int uint64
  | PMPI_Sendrecv uint64 nat int int int uint64 nat int int int int uint64
  | PMPI_Sendrecv_replace uint64 nat int int int int int int uint64
  | PMPI_Isend uint64 nat int int int int uint64
  | PMPI_Irecv uint64 nat int int int int uint64
  | PMPI_Testall nat uint64 uint64 uint64
  | PMPI_Testany nat uint64 uint64 uint64 uint64
  | PMPI_Testsome nat uint64 uint64 uint64 uint64
  | PMPI_Wait uint64 uint64
  | PMPI_Waitall nat uint64 uint64
  | PMPI_Waitany nat uint64 uint64 uint64
  | PMPI_Waitsome nat uint64 uint64 uint64 uint64
  | PMPI_Barrier int
  | PMPI_Bcast uint64 nat int int int
  | PMPI_Gather uint64 nat int uint64 nat int int int
  | PMPI_Gatherv uint64 nat int uint64 uint64 uint64 int int int
  | PMPI_Allgather uint64 nat int uint64 nat int int
  | PMPI_Allgatherv uint64 nat int uint64 uint64 uint64 int int
  | PMPI_Reduce uint64 uint64 nat int int int int
  | PMPI_Allreduce uint64 uint64 nat int int int
  | PMPI_Iallreduce uint64 uint64 nat int int int uint64
  | PMPI_Alltoall uint64 nat int uint64 nat int int
  | PMPI_Alltoallv uint64 uint64 uint64 int uint64 uint64 uint64 int int
  | PMPI_Scatter uint64 nat int uint64 nat int int int
  | PMPI_Scatterv uint64 uint64 uint64 int uint64 nat int int int
  | PMPI_Reduce_scatter uint64 uint64 uint64 int int int
  | PMPI_Scan uint64 uint64 nat int int int

text \<open>
  \<open>pm_test\<close> is \<open>PMPI_Test\<close> on a request, its results being the return value and the flag;
  the status is \<open>None\<close> when it is a local variable of the runtime; \<open>pm_null\<close> tells whether the request variable holds \<open>MPI_REQUEST_NULL\<close>;
  \<open>pm_cancel\<close> is \<open>PMPI_Cancel\<close> followed by \<open>PMPI_Test_cancelled\<close>; \<open>pm_probe\<close> may
  block, as every call may.
\<close>

record 'w mpi_lib =
  pm_call :: "mpi_call \<Rightarrow> memory \<Rightarrow> 'w \<Rightarrow> (int \<times> memory \<times> 'w) outcome"
  pm_test :: "uint64 \<Rightarrow> uint64 option \<Rightarrow> memory \<Rightarrow> 'w \<Rightarrow> int \<times> int \<times> memory \<times> 'w"
  pm_null :: "uint64 \<Rightarrow> memory \<Rightarrow> bool"
  pm_cancel :: "uint64 \<Rightarrow> memory \<Rightarrow> 'w \<Rightarrow> int \<times> memory \<times> 'w"
  pm_probe :: "uint32 \<Rightarrow> int \<Rightarrow> ColorT \<Rightarrow> memory \<Rightarrow> 'w \<Rightarrow> (memory \<times> 'w) outcome"
  pm_type_size :: "int \<Rightarrow> nat"
  pm_rank :: "int \<Rightarrow> int"
  pm_size :: "int \<Rightarrow> nat"
  pm_comm_null :: ColorT

section \<open>State\<close>

datatype CDLoggingMode = kOutOfCD | kStrictCD | kRelaxedCDGen | kRelaxedCDRead | kInvalidLoggingMode

record log_cd =
  lc_id :: CDID
  lc_type :: uint32
  lc_exec_mode :: CDExecMode
  lc_log :: "CommLog option"
  lc_mode :: CDLoggingMode
  lc_incomplete :: "IncompleteLogEntry list"
  lc_child_seq_id :: uint32

record 'w log_state =
  m_cds :: "log_cd list"
  m_mem :: memory
  m_world :: 'w

abbreviation the_cd :: "nat \<Rightarrow> ('w, 'z) log_state_scheme \<Rightarrow> log_cd" where
  "the_cd c s \<equiv> m_cds s ! c"

definition set_cd :: "nat \<Rightarrow> (log_cd \<Rightarrow> log_cd) \<Rightarrow> ('w, 'z) log_state_scheme \<Rightarrow> ('w, 'z) log_state_scheme" where
  "set_cd c f s = s\<lparr>m_cds := (m_cds s)[c := f (the_cd c s)]\<rparr>"

definition log_path :: "('w, 'z) log_state_scheme \<Rightarrow> cd_path" where
  "log_path s = Some [0..<length (m_cds s)]"

definition GetParentHandle :: "nat \<Rightarrow> ('w, 'z) log_state_scheme \<Rightarrow> nat option outcome" where
  "GetParentHandle c s = GetParentCD_level (int c) (log_path s)"

definition CurrentCD :: "('w, 'z) log_state_scheme \<Rightarrow> nat option outcome" where
  "CurrentCD s = GetCurrentCD (\<lambda>h. lc_exec_mode (the_cd h s)) of_nat (log_path s)"

definition is_relaxed :: "log_cd \<Rightarrow> bool" where
  "is_relaxed d \<longleftrightarrow> MASK_CDTYPE (lc_type d) = CDType_val kRelaxed"

definition is_strict :: "log_cd \<Rightarrow> bool" where
  "is_strict d \<longleftrightarrow> MASK_CDTYPE (lc_type d) = CDType_val kStrict"

definition cd_log :: "nat \<Rightarrow> ('w, 'z) log_state_scheme \<Rightarrow> CommLog outcome" where
  "cd_log c s = deref ''comm_log_ptr_'' (lc_log (the_cd c s))"

definition put_log :: "nat \<Rightarrow> CommLog \<Rightarrow> ('w, 'z) log_state_scheme \<Rightarrow> ('w, 'z) log_state_scheme" where
  "put_log c l = set_cd c (\<lambda>d. d\<lparr>lc_log := Some l\<rparr>)"

section \<open>Creation, entry and re-execution\<close>

text \<open>
  The logging part of \<open>InternalInitialize\<close>: \<open>parent\<close> is the domain of the parent handle, and
  the log pointer was cleared before.
\<close>

definition InitializeLog :: "log_cd option \<Rightarrow> log_cd \<Rightarrow> log_cd outcome" where
  "InitializeLog parent d =
     bind_out (assert_out ''comm_log_ptr_ == NULL'' (lc_log d = None)) (\<lambda>_.
     let gen = (\<lambda>d. d\<lparr>lc_log := Some (CommLog_ctor kGenerateLog), lc_mode := kRelaxedCDGen\<rparr>) in
     case parent of
       Some p \<Rightarrow>
         bind_out
           (if is_relaxed d then
              if is_relaxed p then
                bind_out (deref ''comm_log_ptr_'' (lc_log p)) (\<lambda>pl.
                  Inr (d\<lparr>lc_log := Some (CommLog_ctor (k_mode pl)),
                         lc_mode := (if k_mode pl = kGenerateLog then kRelaxedCDGen else kRelaxedCDRead)\<rparr>))
              else Inr (gen d)
            else Inr (d\<lparr>lc_mode := kStrictCD\<rparr>))
           (\<lambda>d. Inr (d\<lparr>lc_child_seq_id := 0, lc_id := SetSequentialID (lc_id d) 0\<rparr>))
     | None \<Rightarrow>
         Inr ((if is_relaxed d then gen d else d\<lparr>lc_mode := kStrictCD\<rparr>)\<lparr>lc_child_seq_id := 0\<rparr>))"

text \<open>The logging part of \<open>CD::Begin\<close>; a parent is always local (\<open>IsParentLocal\<close>).\<close>

definition BeginLog :: "nat \<Rightarrow> ('w, 'z) log_state_scheme \<Rightarrow> ('w, 'z) log_state_scheme outcome" where
  "BeginLog c s =
     bind_out (GetParentHandle c s) (\<lambda>ph.
     case ph of
       None \<Rightarrow> Inr s
     | Some p \<Rightarrow>
         if is_relaxed (the_cd p s) \<and> is_relaxed (the_cd c s) then
           bind_out (cd_log p s) (\<lambda>pl.
           if k_mode pl = kReplayLog then
             bind_out (cd_log c s) (\<lambda>l.
             bind_out (UnpackLogsToChildCD (lc_id (the_cd c s)) pl (l\<lparr>k_mode := kReplayLog\<rparr>)) (\<lambda>(l, ret).
               Inr (put_log c (if ret = kCommLogChildLogNotFound then CL_Realloc l else l) s)))
           else Inr s)
         else Inr s)"

text \<open>The logging part of \<open>CD::InternalReexecute\<close>.\<close>

definition ReexecuteLog :: "nat \<Rightarrow> ('w, 'z) log_state_scheme \<Rightarrow> ('w, 'z) log_state_scheme outcome" where
  "ReexecuteLog c s =
     bind_out
       (if is_relaxed (the_cd c s) then
          bind_out (cd_log c s) (\<lambda>l. Inr (set_cd c (\<lambda>d. d\<lparr>lc_mode := kRelaxedCDRead\<rparr>) (put_log c (CL_ReInit l) s)))
        else Inr s)
       (\<lambda>s. Inr (set_cd c (\<lambda>d. d\<lparr>lc_child_seq_id := 0\<rparr>) s))"

definition IsNewLogGenerated :: "nat \<Rightarrow> ('w, 'z) log_state_scheme \<Rightarrow> bool outcome" where
  "IsNewLogGenerated c s = bind_out (cd_log c s) (\<lambda>l. Inr (k_new_log l))"

definition GetCommLogMode :: "nat \<Rightarrow> ('w, 'z) log_state_scheme \<Rightarrow> CommLogMode" where
  "GetCommLogMode c s = (case lc_log (the_cd c s) of None \<Rightarrow> kInvalidLogMode | Some l \<Rightarrow> k_mode l)"

section \<open>Reading and writing the log of a domain\<close>

definition CD_LogData ::
  "nat \<Rightarrow> uint64 \<Rightarrow> nat \<Rightarrow> uint32 \<Rightarrow> bool \<Rightarrow> uint64 \<Rightarrow> bool \<Rightarrow> bool \<Rightarrow> bool \<Rightarrow> int \<Rightarrow> ColorT \<Rightarrow>
   ('w, 'z) log_state_scheme \<Rightarrow> ('w, 'z) log_state_scheme outcome" where
  "CD_LogData c data_ptr len task_id completed flag isrecv isrepeated intra_cd_msg tag comm s =
     (case lc_log (the_cd c s) of
        None \<Rightarrow> Inl (ErrorMessage ''Null pointer of comm_log_ptr_ when trying to log data'')
      | Some l \<Rightarrow>
          bind_out (CL_LogData data_ptr (read_mem (m_mem s) data_ptr len) task_id completed flag isrecv isrepeated
              intra_cd_msg tag comm (l, lc_incomplete (the_cd c s))) (\<lambda>(l, inc).
            Inr (set_cd c (\<lambda>d. d\<lparr>lc_log := Some l, lc_incomplete := inc\<rparr>) s)))"

definition flip_mode :: "CommLogErrT \<Rightarrow> log_cd \<Rightarrow> log_cd" where
  "flip_mode ret d = (if ret = kCommLogCommLogModeFlip then d\<lparr>lc_mode := kRelaxedCDGen\<rparr> else d)"

definition CD_ProbeData :: "nat \<Rightarrow> nat \<Rightarrow> ('w, 'z) log_state_scheme \<Rightarrow> (('w, 'z) log_state_scheme \<times> CommLogErrT) outcome" where
  "CD_ProbeData c len s =
     (case lc_log (the_cd c s) of
        None \<Rightarrow> Inl (ErrorMessage ''Null pointer of comm_log_ptr_ when trying to read data'')
      | Some l \<Rightarrow>
          bind_out (CL_ProbeData len l) (\<lambda>(l, ret). Inr (set_cd c (flip_mode ret) (put_log c l s), ret)))"

definition CD_ReadData ::
  "nat \<Rightarrow> uint64 \<Rightarrow> nat \<Rightarrow> ('w, 'z) log_state_scheme \<Rightarrow> (('w, 'z) log_state_scheme \<times> CommLogErrT) outcome" where
  "CD_ReadData c data_ptr len s =
     (case lc_log (the_cd c s) of
        None \<Rightarrow> Inl (ErrorMessage ''Null pointer of comm_log_ptr_ when trying to read data'')
      | Some l \<Rightarrow>
          bind_out (CL_ReadData len l) (\<lambda>(l, ret, bs).
            Inr (set_cd c (flip_mode ret) (put_log c l s)\<lparr>m_mem := write_mem data_ptr bs (m_mem s)\<rparr>, ret)))"

section \<open>Incomplete entries\<close>

fun find_incomplete :: "uint64 \<Rightarrow> IncompleteLogEntry list \<Rightarrow> nat option" where
  "find_incomplete flag [] = None"
| "find_incomplete flag (e # es) = (if ie_flag e = flag then Some 0 else map_option Suc (find_incomplete flag es))"

definition erase_at :: "nat \<Rightarrow> 'a list \<Rightarrow> 'a list" where
  "erase_at i xs = take i xs @ drop (Suc i) xs"

definition IsSend :: "uint64 \<Rightarrow> nat \<Rightarrow> ('w, 'z) log_state_scheme \<Rightarrow> bool" where
  "IsSend flag c s =
     (case find_incomplete flag (lc_incomplete (the_cd c s)) of
        None \<Rightarrow> False
      | Some i \<Rightarrow> \<not> ie_isrecv (lc_incomplete (the_cd c s) ! i))"

definition DeleteIncompleteLog :: "uint64 \<Rightarrow> nat \<Rightarrow> ('w, 'z) log_state_scheme \<Rightarrow> ('w, 'z) log_state_scheme \<times> bool" where
  "DeleteIncompleteLog flag c s =
     (case find_incomplete flag (lc_incomplete (the_cd c s)) of
        None \<Rightarrow> (s, False)
      | Some i \<Rightarrow> (set_cd c (\<lambda>d. d\<lparr>lc_incomplete := erase_at i (lc_incomplete d)\<rparr>) s, True))"

text \<open>The parent of the domain at level \<open>Suc p\<close> is the one at level \<open>p\<close> (lemma \<open>GetParentHandle_eq\<close> below).\<close>

primrec search_incomplete :: "uint64 \<Rightarrow> nat \<Rightarrow> ('w, 'z) log_state_scheme \<Rightarrow> (nat \<times> nat) option" where
  "search_incomplete flag 0 s = map_option (Pair 0) (find_incomplete flag (lc_incomplete (the_cd 0 s)))"
| "search_incomplete flag (Suc p) s =
     (case find_incomplete flag (lc_incomplete (the_cd (Suc p) s)) of
        Some i \<Rightarrow> Some (Suc p, i)
      | None \<Rightarrow> search_incomplete flag p s)"

primrec probe_parents :: "byte list \<Rightarrow> uint64 \<Rightarrow> nat \<Rightarrow> ('w, 'z) log_state_scheme \<Rightarrow> ('w, 'z) log_state_scheme outcome" where
  "probe_parents data flag 0 s = Inr s"
| "probe_parents data flag (Suc p) s =
     (if is_relaxed (the_cd p s) then
        bind_out (cd_log p s) (\<lambda>pl.
        bind_out (ProbeAndLogDataPacked data flag pl) (\<lambda>(pl, found).
          if found then Inr (put_log p pl s) else probe_parents data flag p (put_log p pl s)))
      else Inr s)"

text \<open>
  The payload of a completed call goes to the entry in the log of the domain, or to the log that was
  packed into a relaxed parent; then the completion itself is logged.
\<close>

definition CD_ProbeAndLogData :: "uint64 \<Rightarrow> nat \<Rightarrow> ('w, 'z) log_state_scheme \<Rightarrow> ('w, 'z) log_state_scheme outcome" where
  "CD_ProbeAndLogData flag c s =
     (case search_incomplete flag c s of
        None \<Rightarrow> if lc_log (the_cd c s) = None then Inr s else Inl (ErrorMessage ''Wrong control flow'')
      | Some (k, i) \<Rightarrow>
          let e = lc_incomplete (the_cd k s) ! i; data = read_mem (m_mem s) (ie_addr e) (ie_length e) in
          bind_out
            (case lc_log (the_cd c s) of
               None \<Rightarrow> Inr s
             | Some l \<Rightarrow>
                 bind_out
                   (if \<not> ie_intra_cd_msg e then
                      bind_out (CL_ProbeAndLogData data flag l) (\<lambda>(l, found).
                        if found then Inr (put_log c l s) else probe_parents data flag c (put_log c l s))
                    else Inr s)
                   (\<lambda>s. bind_out (cd_log c s) (\<lambda>l.
                      bind_out (CL_LogData flag [] (ie_taskID e) True 0 False False False (- 1) (- 1) (l, [])) (\<lambda>(l, _).
                        Inr (put_log c l s)))))
            (\<lambda>s. Inr (set_cd k (\<lambda>d. d\<lparr>lc_incomplete := erase_at i (lc_incomplete d)\<rparr>) s)))"

section \<open>Completion of the logs\<close>

text \<open>A pass over the incomplete entries erases those for which \<open>f\<close> reports that they are done.\<close>

fun erase_done ::
  "(uint64 \<Rightarrow> memory \<Rightarrow> 'w \<Rightarrow> bool \<times> memory \<times> 'w) \<Rightarrow> IncompleteLogEntry list \<Rightarrow> memory \<Rightarrow> 'w \<Rightarrow>
   IncompleteLogEntry list \<times> memory \<times> 'w" where
  "erase_done f [] m w = ([], m, w)"
| "erase_done f (e # es) m w =
     (let (handled, m, w) = f (ie_flag e) m w; (es, m, w) = erase_done f es m w in
      (if handled then es else e # es, m, w))"

fun erase_rounds ::
  "nat \<Rightarrow> (uint64 \<Rightarrow> memory \<Rightarrow> 'w \<Rightarrow> bool \<times> memory \<times> 'w) \<Rightarrow> IncompleteLogEntry list \<Rightarrow> memory \<Rightarrow> 'w \<Rightarrow>
   IncompleteLogEntry list \<times> memory \<times> 'w" where
  "erase_rounds 0 f es m w = (es, m, w)"
| "erase_rounds (Suc n) f es m w =
     (if es = [] then (es, m, w)
      else let (es, m, w) = erase_done f es m w in erase_rounds n f es m w)"

definition test_pending :: "'w mpi_lib \<Rightarrow> uint64 \<Rightarrow> memory \<Rightarrow> 'w \<Rightarrow> bool \<times> memory \<times> 'w" where
  "test_pending lib req m w =
     (if pm_null lib req m then (True, m, w)
      else let (_, done, m, w) = pm_test lib req None m w in (done > 0, m, w))"

definition test_again :: "'w mpi_lib \<Rightarrow> uint64 \<Rightarrow> memory \<Rightarrow> 'w \<Rightarrow> bool \<times> memory \<times> 'w" where
  "test_again lib req m w =
     (let (_, flag, m, w) = pm_test lib req None m w in (flag > 0 \<or> pm_null lib req m, m, w))"

definition cancel_request :: "'w mpi_lib \<Rightarrow> uint64 \<Rightarrow> memory \<Rightarrow> 'w \<Rightarrow> bool \<times> memory \<times> 'w" where
  "cancel_request lib req m w =
     (let (is_cancelled, m, w) = pm_cancel lib req m w in (is_cancelled > 0 \<or> pm_null lib req m, m, w))"

text \<open>The two waiting loops leave after \<open>1000002\<close> rounds; what is left is dropped.\<close>

definition max_rounds :: nat where "max_rounds = 1000002"

definition InvalidateIncompleteLogs :: "'w mpi_lib \<Rightarrow> nat \<Rightarrow> ('w, 'z) log_state_scheme \<Rightarrow> ('w, 'z) log_state_scheme" where
  "InvalidateIncompleteLogs lib c s =
     (let (es, m, w) = erase_done (test_pending lib) (lc_incomplete (the_cd c s)) (m_mem s) (m_world s);
          (es, m, w) = erase_rounds max_rounds (test_again lib) es m w;
          (es, m, w) = erase_rounds max_rounds (cancel_request lib) es m w in
      (set_cd c (\<lambda>d. d\<lparr>lc_incomplete := []\<rparr>) s)\<lparr>m_mem := m, m_world := w\<rparr>)"

fun probe_all :: "'w mpi_lib \<Rightarrow> IncompleteLogEntry list \<Rightarrow> memory \<Rightarrow> 'w \<Rightarrow> (memory \<times> 'w) outcome" where
  "probe_all lib [] m w = Inr (m, w)"
| "probe_all lib (e # es) m w =
     bind_out (pm_probe lib (ie_taskID e) (ie_tag e) (ie_comm e) m w) (\<lambda>(m, w). probe_all lib es m w)"

definition ProbeIncompleteLogs :: "'w mpi_lib \<Rightarrow> nat \<Rightarrow> ('w, 'z) log_state_scheme \<Rightarrow> ('w, 'z) log_state_scheme outcome" where
  "ProbeIncompleteLogs lib c s =
     bind_out (probe_all lib (lc_incomplete (the_cd c s)) (m_mem s) (m_world s)) (\<lambda>(m, w).
       Inr (s\<lparr>m_mem := m, m_world := w\<rparr>))"

definition push_log :: "nat \<Rightarrow> nat \<Rightarrow> ('w, 'z) log_state_scheme \<Rightarrow> ('w, 'z) log_state_scheme outcome" where
  "push_log c p s =
     bind_out (cd_log c s) (\<lambda>l.
     bind_out (cd_log p s) (\<lambda>pl.
     bind_out (PackAndPushLogs (lc_id (the_cd c s)) l pl) (\<lambda>pl.
     let pl = pl\<lparr>k_new_log := True\<rparr> in
       Inr (put_log p (if k_mode l = kGenerateLog then pl\<lparr>k_mode := kGenerateLog\<rparr> else pl) s))))"

definition push_incomplete :: "nat \<Rightarrow> nat \<Rightarrow> ('w, 'z) log_state_scheme \<Rightarrow> ('w, 'z) log_state_scheme" where
  "push_incomplete c p s =
     (let inc = lc_incomplete (the_cd c s) in
      if inc \<noteq> [] then
        set_cd c (\<lambda>d. d\<lparr>lc_incomplete := []\<rparr>) (set_cd p (\<lambda>d. d\<lparr>lc_incomplete := lc_incomplete d @ inc\<rparr>) s)
      else s)"

definition CompleteLogs :: "'w mpi_lib \<Rightarrow> bool \<Rightarrow> nat \<Rightarrow> ('w, 'z) log_state_scheme \<Rightarrow> ('w, 'z) log_state_scheme outcome" where
  "CompleteLogs lib is_rollback c s =
     bind_out (GetParentHandle c s) (\<lambda>ph.
     case ph of
       None \<Rightarrow> Inr s
     | Some p \<Rightarrow>
         if is_relaxed (the_cd c s) then
           bind_out (IsNewLogGenerated c s) (\<lambda>new.
           bind_out (if new \<and> is_relaxed (the_cd p s) then push_log c p s else Inr s) (\<lambda>s.
           bind_out (cd_log c s) (\<lambda>l.
           let s = put_log c (CL_Reset l) s; mode = lc_exec_mode (the_cd c s) in
             if mode = kExecution then Inr (push_incomplete c p s)
             else if mode = kReexecution \<or> is_rollback then ProbeIncompleteLogs lib c s
             else Inl (ErrorMessage ''Cannot complete logs in kSuspension mode''))))
         else if is_strict (the_cd c s) then
           Inr (if lc_exec_mode (the_cd c s) = kReexecution \<or> is_rollback then InvalidateIncompleteLogs lib c s else s)
         else Inl (ErrorMessage ''Wrong CD Type''))"

section \<open>Domains of the path\<close>

lemma length_set_cd [simp]: "length (m_cds (set_cd c f s)) = length (m_cds s)"
  by (simp add: set_cd_def)

lemma the_cd_set_cd [simp]: "c < length (m_cds s) \<Longrightarrow> the_cd k (set_cd c f s) = (if k = c then f (the_cd c s) else the_cd k s)"
  by (simp add: set_cd_def)

lemma set_cd_frame [simp]: "m_mem (set_cd c f s) = m_mem s" "m_world (set_cd c f s) = m_world s"
  by (simp_all add: set_cd_def)

lemma put_log_simps [simp]:
  "length (m_cds (put_log c l s)) = length (m_cds s)"
  "c < length (m_cds s) \<Longrightarrow> the_cd k (put_log c l s) = (if k = c then (the_cd c s)\<lparr>lc_log := Some l\<rparr> else the_cd k s)"
  "m_mem (put_log c l s) = m_mem s" "m_world (put_log c l s) = m_world s"
  by (simp_all add: put_log_def)

lemma GetParentHandle_eq:
  assumes "c < length (m_cds s)"
  shows "GetParentHandle c s = Inr (case c of 0 \<Rightarrow> None | Suc p \<Rightarrow> Some p)"
  using assms by (cases c) (simp_all add: GetParentHandle_def GetParentCD_level_def log_path_def)

lemma set_cd_cds: "m_cds (set_cd c f s) = (m_cds s)[c := f (the_cd c s)]"
  by (simp add: set_cd_def)

lemma CL_Reset_simps [simp]:
  "k_table_pos (CL_Reset l) = 0" "k_reexec_pos (CL_Reset l) = 0" "k_child_pos (CL_Reset l) = 0"
  "k_child (CL_Reset l) = k_child l" "k_child_size (CL_Reset l) = k_child_size l"
  "k_child_log_size_unit (CL_Reset l) = k_child_log_size_unit l" "k_mode (CL_Reset l) = kGenerateLog"
  by (simp_all add: CL_Reset_def)

lemma CL_ReInit_simps [simp]:
  "k_table_pos (CL_ReInit l) = k_table_pos l" "k_reexec_pos (CL_ReInit l) = 0" "k_child_pos (CL_ReInit l) = k_child_pos l"
  "k_child (CL_ReInit l) = k_child l" "k_child_size (CL_ReInit l) = k_child_size l"
  "k_child_log_size_unit (CL_ReInit l) = k_child_log_size_unit l" "k_mode (CL_ReInit l) = kReplayLog"
  by (simp_all add: CL_ReInit_def)

text \<open>A relaxed domain in execution, with a log, at a level of the path.\<close>

definition logging :: "nat \<Rightarrow> CommLog \<Rightarrow> ('w, 'z) log_state_scheme \<Rightarrow> bool" where
  "logging c l s \<longleftrightarrow> c < length (m_cds s) \<and> is_relaxed (the_cd c s) \<and> lc_log (the_cd c s) = Some l \<and>
     log_ok l \<and> child_ok l"

lemma is_relaxed_update [simp]:
  "is_relaxed (d\<lparr>lc_log := x\<rparr>) = is_relaxed d" "is_relaxed (d\<lparr>lc_incomplete := y\<rparr>) = is_relaxed d"
  "is_relaxed (d\<lparr>lc_mode := z\<rparr>) = is_relaxed d" "is_relaxed (d\<lparr>lc_child_seq_id := n\<rparr>) = is_relaxed d"
  "is_relaxed (d\<lparr>lc_id := i\<rparr>) = is_relaxed d" "is_relaxed (d\<lparr>lc_exec_mode := e\<rparr>) = is_relaxed d"
  by (simp_all add: is_relaxed_def)

lemma push_log_spec:
  assumes "logging (Suc p) l s" "logging p pl s"
  obtains c n m where "push_log (Suc p) p s = Inr (put_log p (pl\<lparr>k_child := Some c, k_child_size := n, k_child_pos := m,
      k_new_log := True, k_mode := (if k_mode l = kGenerateLog then kGenerateLog else k_mode pl)\<rparr>) s)"
    "child_ok (pl\<lparr>k_child := Some c, k_child_size := n, k_child_pos := m\<rparr>)"
    "child_bytes (pl\<lparr>k_child := Some c, k_child_size := n, k_child_pos := m\<rparr>) =
       child_bytes pl @ packed (lc_id (the_cd (Suc p) s)) l"
proof -
  have l: "log_ok l" "child_ok l" "child_ok pl" "lc_log (the_cd (Suc p) s) = Some l" "lc_log (the_cd p s) = Some pl"
    using assms by (simp_all add: logging_def)
  show thesis
  proof (rule PackAndPushLogs_spec [OF l(3,1,2), of "lc_id (the_cd (Suc p) s)"])
    fix c n m
    assume a: "PackAndPushLogs (lc_id (the_cd (Suc p) s)) l pl = Inr (pl\<lparr>k_child := Some c, k_child_size := n, k_child_pos := m\<rparr>)"
      "child_ok (pl\<lparr>k_child := Some c, k_child_size := n, k_child_pos := m\<rparr>)"
      "child_bytes (pl\<lparr>k_child := Some c, k_child_size := n, k_child_pos := m\<rparr>) =
       child_bytes pl @ packed (lc_id (the_cd (Suc p) s)) l"
    show thesis
      by (rule that [OF _ a(2,3)], cases pl)
        (use a(1) l(4,5) in \<open>simp add: push_log_def cd_log_def\<close>)
  qed
qed

text \<open>What \<open>CompleteLogs\<close> does to a relaxed domain in execution below a relaxed parent.\<close>

lemma CompleteLogs_spec:
  assumes "logging (Suc p) l s" "logging p pl s" "lc_exec_mode (the_cd (Suc p) s) = kExecution" "k_new_log l"
  obtains pl' s' where "CompleteLogs lib rb (Suc p) s = Inr s'"
    "length (m_cds s') = length (m_cds s)" "m_mem s' = m_mem s" "m_world s' = m_world s"
    "the_cd (Suc p) s' = (the_cd (Suc p) s)\<lparr>lc_log := Some (CL_Reset l), lc_incomplete := []\<rparr>"
    "the_cd p s' = (the_cd p s)\<lparr>lc_log := Some pl', lc_incomplete := lc_incomplete (the_cd p s) @ lc_incomplete (the_cd (Suc p) s)\<rparr>"
    "child_ok pl'" "child_bytes pl' = child_bytes pl @ packed (lc_id (the_cd (Suc p) s)) l"
    "log_ok pl'" "tape pl' = tape pl" "k_mode pl' = (if k_mode l = kGenerateLog then kGenerateLog else k_mode pl)"
proof (rule push_log_spec [OF assms(1,2)])
  fix c n m
  let ?pl = "pl\<lparr>k_child := Some c, k_child_size := n, k_child_pos := m\<rparr>"
  let ?pl' = "?pl\<lparr>k_new_log := True, k_mode := (if k_mode l = kGenerateLog then kGenerateLog else k_mode pl)\<rparr>"
  assume a: "push_log (Suc p) p s = Inr (put_log p ?pl' s)" "child_ok ?pl"
    "child_bytes ?pl = child_bytes pl @ packed (lc_id (the_cd (Suc p) s)) l"
  have len: "Suc p < length (m_cds s)" "p < length (m_cds s)" and rel: "is_relaxed (the_cd (Suc p) s)" "is_relaxed (the_cd p s)"
    and logs: "lc_log (the_cd (Suc p) s) = Some l" "lc_log (the_cd p s) = Some pl" "log_ok pl"
    using assms(1,2) by (simp_all add: logging_def)
  have es: "log_entries ?pl' = log_entries pl" by (simp add: log_entries_def)
  have pl': "log_ok ?pl'" "tape ?pl' = tape pl" "child_ok ?pl'" "child_bytes ?pl' = child_bytes ?pl"
    using logs(3) es a(2)
    by (simp_all add: log_ok_def tape_def child_ok_def child_bytes_def cell_cong [of ?pl pl])
  define s1 where "s1 = put_log (Suc p) (CL_Reset l) (put_log p ?pl' s)"
  have "CompleteLogs lib rb (Suc p) s = Inr (push_incomplete (Suc p) p s1)"
    using assms(3,4) a(1) len rel logs
    by (simp add: CompleteLogs_def GetParentHandle_eq IsNewLogGenerated_def cd_log_def s1_def Let_def)
  then show thesis
    by (rule that [where pl' = ?pl'])
      (use len logs a(2,3) pl' in \<open>simp_all add: push_incomplete_def Let_def s1_def\<close>)
qed

section \<open>Properties\<close>

text \<open>
  C10.  Rolling back to a relaxed domain discards what it should replay: the escalation first completes
  the logs of the very domain that is re-executed, which pushes its log into its relaxed parent and
  resets it, and only then rewinds it.  Its first read reports the end of the log whatever was logged,
  the domain goes back to generating logs, and a child that is entered again finds no log either.
\<close>

theorem rollback_discards_log:
  assumes "logging (Suc p) l s" "logging p pl s" "lc_exec_mode (the_cd (Suc p) s) = kExecution" "k_new_log l"
  shows "\<exists>s1 s2 s3. CompleteLogs lib True (Suc p) s = Inr s1 \<and> ReexecuteLog (Suc p) s1 = Inr s2 \<and>
    CD_ReadData (Suc p) buf n s2 = Inr (s3, kCommLogCommLogModeFlip) \<and> m_mem s3 = m_mem s \<and>
    lc_mode (the_cd (Suc p) s3) = kRelaxedCDGen \<and>
    UnpackLogsToChildCD child_id (the (lc_log (the_cd (Suc p) s2))) cl = Inr (cl, kCommLogChildLogNotFound)"
proof (rule CompleteLogs_spec [OF assms, of lib True])
  fix pl' s1
  assume s1: "CompleteLogs lib True (Suc p) s = Inr s1" "length (m_cds s1) = length (m_cds s)" "m_mem s1 = m_mem s"
    "the_cd (Suc p) s1 = (the_cd (Suc p) s)\<lparr>lc_log := Some (CL_Reset l), lc_incomplete := []\<rparr>"
  let ?l = "CL_ReInit (CL_Reset l)"
  have len: "Suc p < length (m_cds s1)" and rel: "is_relaxed (the_cd (Suc p) s1)"
    using assms(1) s1(2,4) by (simp_all add: logging_def)
  obtain s2 where s2: "ReexecuteLog (Suc p) s1 = Inr s2" "length (m_cds s2) = length (m_cds s1)" "m_mem s2 = m_mem s1"
    "lc_log (the_cd (Suc p) s2) = Some ?l"
    using len rel s1(4) by (simp add: ReexecuteLog_def cd_log_def)
  have "CL_ReadData n ?l = Inr (?l\<lparr>k_mode := kGenerateLog\<rparr>, kCommLogCommLogModeFlip, [])"
    by (simp add: CL_ReadData_def)
  then have "\<exists>s3. CD_ReadData (Suc p) buf n s2 = Inr (s3, kCommLogCommLogModeFlip) \<and> m_mem s3 = m_mem s \<and>
      lc_mode (the_cd (Suc p) s3) = kRelaxedCDGen"
    using s2 len s1(3) by (simp add: CD_ReadData_def flip_mode_def write_mem_def)
  moreover have "UnpackLogsToChildCD child_id ?l cl = Inr (cl, kCommLogChildLogNotFound)"
    by (simp add: UnpackLogsToChildCD_def FindChildLogs_def)
  ultimately show ?thesis using s1(1) s2(1,4) by auto
qed

text \<open>A library on one task: it counts the calls, and a receive delivers the count.\<close>

definition sample_lib :: "nat mpi_lib" where
  "sample_lib = \<lparr>
     pm_call = (\<lambda>call m w. case call of
        PMPI_Recv buf count ty src tag comm status \<Rightarrow> Inr (0, write_mem buf (replicate count (of_nat w)) m, w + 1)
      | _ \<Rightarrow> Inr (0, m, w + 1)),
     pm_test = (\<lambda>req st m w. (0, 1, m, w)), pm_null = (\<lambda>req m. False), pm_cancel = (\<lambda>req m w. (1, m, w)),
     pm_probe = (\<lambda>task tag comm m w. Inr (m, w)), pm_type_size = (\<lambda>ty. 1), pm_rank = (\<lambda>comm. 0),
     pm_size = (\<lambda>comm. 1), pm_comm_null = 0\<rparr>"

lemma sample_lib_simps [simp]: "pm_type_size sample_lib ty = 1" "pm_rank sample_lib comm = 0" "pm_size sample_lib comm = 1"
  by (simp_all add: sample_lib_def)

definition sample_cd :: "CommLog \<Rightarrow> log_cd" where
  "sample_cd l = \<lparr>lc_id = sample_id, lc_type = 2, lc_exec_mode = kExecution, lc_log = Some l, lc_mode = kRelaxedCDGen,
     lc_incomplete = [], lc_child_seq_id = 0\<rparr>"

definition sample_state :: "nat log_state" where
  "sample_state = \<lparr>m_cds = [sample_cd sample_log, sample_cd (sample_log\<lparr>k_new_log := True\<rparr>)], m_mem = (\<lambda>_. 0), m_world = 0\<rparr>"

lemma sample_logging:
  "logging 0 sample_log sample_state" "logging 1 (sample_log\<lparr>k_new_log := True\<rparr>) sample_state"
  by (simp_all add: logging_def sample_state_def sample_cd_def is_relaxed_def MASK_CDTYPE_def CD_BIT_def sample_simps)

theorem rollback_discards_log_witness:
  "\<exists>s1 s2 s3. CompleteLogs sample_lib True (Suc 0) sample_state = Inr s1 \<and> ReexecuteLog (Suc 0) s1 = Inr s2 \<and>
    CD_ReadData (Suc 0) 16 1 s2 = Inr (s3, kCommLogCommLogModeFlip) \<and> m_mem s3 = m_mem sample_state \<and>
    lc_mode (the_cd (Suc 0) s3) = kRelaxedCDGen \<and>
    UnpackLogsToChildCD sample_id (the (lc_log (the_cd (Suc 0) s2))) sample_log = Inr (sample_log, kCommLogChildLogNotFound)"
  by (rule rollback_discards_log [OF sample_logging(2) [unfolded One_nat_def] sample_logging(1)])
    (simp_all add: sample_state_def sample_cd_def)



end
