(* ===== verification/MPI_Wrapper.thy ===== *)
theory MPI_Wrapper
  imports CD_Logging
begin

text \<open>
  The wrappers of blocking MPI calls (\<open>cd_mpiwrapper.cc\<close>): outside a domain and in a strict domain
  they call the library; in a relaxed domain that generates logs they call it and log the received
  bytes, or the event of a call that receives nothing; in a relaxed domain that replays they take the
  bytes from the log and do not call the library, until the end of the log is reached.  Buffers and
  statuses are addresses; counts and sizes of types are natural numbers, and a length that the code
  computes as a product of \<open>int\<close> is checked to be one.  The tuning build is left out.
\<close>

section \<open>Shared parts of the wrappers\<close>

record 'w mpi_state = "'w log_state" +
  m_msg_logging :: "uint64 option"
  m_rollback_point :: uint32

definition RecordLog :: "nat \<Rightarrow> 'w mpi_state \<Rightarrow> 'w mpi_state" where
  "RecordLog len s = s\<lparr>m_msg_logging := map_option (\<lambda>n. n + of_nat len) (m_msg_logging s)\<rparr>"

text \<open>An \<open>int\<close> in the memory, and an entry of an array of them.\<close>

definition mem_int :: "uint64 \<Rightarrow> memory \<Rightarrow> int" where
  "mem_int a m = int_at 0 (read_mem m a 4)"

definition array_int :: "uint64 \<Rightarrow> nat \<Rightarrow> memory \<Rightarrow> int" where
  "array_int a i m = mem_int (a + of_nat (4 * i)) m"

text \<open>Products of \<open>int\<close> must not overflow.\<close>

definition int_size :: "nat \<Rightarrow> nat outcome" where
  "int_size n = (if n < 2 ^ 31 then Inr n else Inl (Unmodelled ''signed overflow''))"

definition pmpi :: "'w mpi_lib \<Rightarrow> mpi_call \<Rightarrow> 'w mpi_state \<Rightarrow> ('w mpi_state \<times> int) outcome" where
  "pmpi lib call s =
     bind_out (pm_call lib call (m_mem s) (m_world s)) (\<lambda>(ret, m, w). Inr (s\<lparr>m_mem := m, m_world := w\<rparr>, ret))"

definition dispatch ::
  "('w mpi_state \<Rightarrow> 'b outcome) \<Rightarrow> (nat \<Rightarrow> 'w mpi_state \<Rightarrow> 'b outcome) \<Rightarrow> (nat \<Rightarrow> 'w mpi_state \<Rightarrow> 'b outcome) \<Rightarrow>
   (nat \<Rightarrow> 'w mpi_state \<Rightarrow> 'b outcome) \<Rightarrow> 'w mpi_state \<Rightarrow> 'b outcome" where
  "dispatch out strict gen replay s =
     bind_out (CurrentCD s) (\<lambda>cur_cdh.
     case cur_cdh of
       None \<Rightarrow> out s
     | Some c \<Rightarrow>
         (case lc_mode (the_cd c s) of
            kStrictCD \<Rightarrow> strict c s
          | kRelaxedCDGen \<Rightarrow> gen c s
          | kRelaxedCDRead \<Rightarrow> replay c s
          | _ \<Rightarrow> Inl (ErrorMessage ''Wrong number for enum CDLoggingMode'')))"

text \<open>
  What a wrapper logs: the event of a call (\<open>LogData(ptr, 0, task)\<close>, replayed with
  \<open>ProbeData\<close>), or the bytes of a buffer (replayed with \<open>ReadData\<close>).
\<close>

datatype log_item = Event uint64 int | Payload uint64 nat int

fun log_one :: "'w mpi_lib \<Rightarrow> nat \<Rightarrow> log_item \<Rightarrow> 'w mpi_state \<Rightarrow> 'w mpi_state outcome" where
  "log_one lib c (Event a task) s =
     CD_LogData c a 0 (of_int task) True 0 False False False (- 1) (pm_comm_null lib) s"
| "log_one lib c (Payload a len task) s =
     CD_LogData c a len (of_int task) True 0 False False False (- 1) (pm_comm_null lib) s"

fun log_items :: "'w mpi_lib \<Rightarrow> nat \<Rightarrow> log_item list \<Rightarrow> 'w mpi_state \<Rightarrow> 'w mpi_state outcome" where
  "log_items lib c [] s = Inr s"
| "log_items lib c (it # its) s = bind_out (log_one lib c it s) (log_items lib c its)"

fun replay_item :: "nat \<Rightarrow> log_item \<Rightarrow> 'w mpi_state \<Rightarrow> ('w mpi_state \<times> CommLogErrT) outcome" where
  "replay_item c (Event a task) s = CD_ProbeData c 0 s"
| "replay_item c (Payload a len task) s = CD_ReadData c a len s"

definition call_and_log ::
  "'w mpi_lib \<Rightarrow> mpi_call \<Rightarrow> log_item list \<Rightarrow> nat \<Rightarrow> 'w mpi_state \<Rightarrow> ('w mpi_state \<times> int) outcome" where
  "call_and_log lib call its c s =
     bind_out (pmpi lib call s) (\<lambda>(s, mpi_ret). bind_out (log_items lib c its s) (\<lambda>s. Inr (s, mpi_ret)))"

text \<open>The pattern of most wrappers: one item is logged, and \<open>rit\<close> is what the replay asks for.\<close>

definition logged ::
  "'w mpi_lib \<Rightarrow> mpi_call \<Rightarrow> log_item \<Rightarrow> log_item \<Rightarrow> 'w mpi_state \<Rightarrow> ('w mpi_state \<times> int) outcome" where
  "logged lib call it rit =
     dispatch (pmpi lib call) (\<lambda>c. pmpi lib call) (call_and_log lib call [it])
       (\<lambda>c s. bind_out (replay_item c rit s) (\<lambda>(s, ret).
          if ret = kCommLogCommLogModeFlip then call_and_log lib call [it] c s else Inr (s, 0)))"

text \<open>The pattern of a send with a receive: both are logged, and the replay must find both.\<close>

definition logged_pair ::
  "'w mpi_lib \<Rightarrow> mpi_call \<Rightarrow> log_item \<Rightarrow> log_item \<Rightarrow> 'w mpi_state \<Rightarrow> ('w mpi_state \<times> int) outcome" where
  "logged_pair lib call it1 it2 =
     dispatch (pmpi lib call) (\<lambda>c. pmpi lib call) (call_and_log lib call [it1, it2])
       (\<lambda>c s. bind_out (replay_item c it1 s) (\<lambda>(s, ret).
          if ret = kCommLogCommLogModeFlip then call_and_log lib call [it1, it2] c s
          else if ret = kCommLogOK then
            bind_out (replay_item c it2 s) (\<lambda>(s, ret).
              if ret \<noteq> kCommLogOK then Inl (ErrorMessage ''Sendbuf logged while Recvbuf not!!'') else Inr (s, 0))
          else Inr (s, 0)))"

section \<open>Blocking point-to-point calls\<close>

definition MPI_Send :: "'w mpi_lib \<Rightarrow> uint64 \<Rightarrow> nat \<Rightarrow> int \<Rightarrow> int \<Rightarrow> int \<Rightarrow> int \<Rightarrow> 'w mpi_state \<Rightarrow> ('w mpi_state \<times> int) outcome" where
  "MPI_Send lib buf count datatype dest tag comm =
     logged lib (PMPI_Send buf count datatype dest tag comm) (Event buf dest) (Event buf dest)"

definition MPI_Ssend :: "'w mpi_lib \<Rightarrow> uint64 \<Rightarrow> nat \<Rightarrow> int \<Rightarrow> int \<Rightarrow> int \<Rightarrow> int \<Rightarrow> 'w mpi_state \<Rightarrow> ('w mpi_state \<times> int) outcome" where
  "MPI_Ssend lib buf count datatype dest tag comm =
     logged lib (PMPI_Ssend buf count datatype dest tag comm) (Event buf dest) (Event buf dest)"

definition MPI_Rsend :: "'w mpi_lib \<Rightarrow> uint64 \<Rightarrow> nat \<Rightarrow> int \<Rightarrow> int \<Rightarrow> int \<Rightarrow> int \<Rightarrow> 'w mpi_state \<Rightarrow> ('w mpi_state \<times> int) outcome" where
  "MPI_Rsend lib buf count datatype dest tag comm =
     logged lib (PMPI_Rsend buf count datatype dest tag comm) (Event buf dest) (Event buf dest)"

definition MPI_Bsend :: "'w mpi_lib \<Rightarrow> uint64 \<Rightarrow> nat \<Rightarrow> int \<Rightarrow> int \<Rightarrow> int \<Rightarrow> int \<Rightarrow> 'w mpi_state \<Rightarrow> ('w mpi_state \<times> int) outcome" where
  "MPI_Bsend lib buf count datatype dest tag comm =
     logged lib (PMPI_Bsend buf count datatype dest tag comm) (Event buf dest) (Event buf dest)"

definition MPI_Recv ::
  "'w mpi_lib \<Rightarrow> uint64 \<Rightarrow> nat \<Rightarrow> int \<Rightarrow> int \<Rightarrow> int \<Rightarrow> int \<Rightarrow> uint64 \<Rightarrow> 'w mpi_state \<Rightarrow> ('w mpi_state \<times> int) outcome" where
  "MPI_Recv lib buf count datatype src tag comm status s =
     bind_out (int_size (count * pm_type_size lib datatype)) (\<lambda>len.
       logged lib (PMPI_Recv buf count datatype src tag comm status) (Payload buf len src) (Payload buf len src)
         (RecordLog len s))"

definition MPI_Sendrecv ::
  "'w mpi_lib \<Rightarrow> uint64 \<Rightarrow> nat \<Rightarrow> int \<Rightarrow> int \<Rightarrow> int \<Rightarrow> uint64 \<Rightarrow> nat \<Rightarrow> int \<Rightarrow> int \<Rightarrow> int \<Rightarrow> int \<Rightarrow> uint64 \<Rightarrow>
   'w mpi_state \<Rightarrow> ('w mpi_state \<times> int) outcome" where
  "MPI_Sendrecv lib sendbuf sendcount sendtype dest sendtag recvbuf recvcount recvtype src recvtag comm status s =
     bind_out (int_size (recvcount * pm_type_size lib recvtype)) (\<lambda>len.
       logged_pair lib
         (PMPI_Sendrecv sendbuf sendcount sendtype dest sendtag recvbuf recvcount recvtype src recvtag comm status)
         (Event sendbuf dest) (Payload recvbuf len src) (RecordLog len s))"

definition MPI_Sendrecv_replace ::
  "'w mpi_lib \<Rightarrow> uint64 \<Rightarrow> nat \<Rightarrow> int \<Rightarrow> int \<Rightarrow> int \<Rightarrow> int \<Rightarrow> int \<Rightarrow> int \<Rightarrow> uint64 \<Rightarrow>
   'w mpi_state \<Rightarrow> ('w mpi_state \<times> int) outcome" where
  "MPI_Sendrecv_replace lib buf count datatype dest sendtag src recvtag comm status s =
     bind_out (int_size (count * pm_type_size lib datatype)) (\<lambda>len.
       logged_pair lib (PMPI_Sendrecv_replace buf count datatype dest sendtag src recvtag comm status)
         (Event buf dest) (Payload buf len src) (RecordLog len s))"

section \<open>Collective calls\<close>

definition MPI_Barrier :: "'w mpi_lib \<Rightarrow> int \<Rightarrow> 'w mpi_state \<Rightarrow> ('w mpi_state \<times> int) outcome" where
  "MPI_Barrier lib comm =
     (let myrank = pm_rank lib comm in logged lib (PMPI_Barrier comm) (Event 0 myrank) (Event 0 myrank))"

definition MPI_Bcast :: "'w mpi_lib \<Rightarrow> uint64 \<Rightarrow> nat \<Rightarrow> int \<Rightarrow> int \<Rightarrow> int \<Rightarrow> 'w mpi_state \<Rightarrow> ('w mpi_state \<times> int) outcome" where
  "MPI_Bcast lib buffer count datatype root comm s =
     bind_out (int_size (count * pm_type_size lib datatype)) (\<lambda>len.
       logged lib (PMPI_Bcast buffer count datatype root comm) (Payload buffer len root) (Payload buffer len root)
         (RecordLog len s))"

text \<open>Only the root of a gathering call receives; the volume is recorded only inside a domain.\<close>

definition root_item :: "'w mpi_lib \<Rightarrow> int \<Rightarrow> int \<Rightarrow> uint64 \<Rightarrow> uint64 \<Rightarrow> nat \<Rightarrow> log_item" where
  "root_item lib root comm sendbuf recvbuf len =
     (if pm_rank lib comm = root then Payload recvbuf len root else Event sendbuf root)"

definition MPI_Gather ::
  "'w mpi_lib \<Rightarrow> uint64 \<Rightarrow> nat \<Rightarrow> int \<Rightarrow> uint64 \<Rightarrow> nat \<Rightarrow> int \<Rightarrow> int \<Rightarrow> int \<Rightarrow> 'w mpi_state \<Rightarrow> ('w mpi_state \<times> int) outcome" where
  "MPI_Gather lib sendbuf sendcnt sendtype recvbuf recvcnt recvtype root comm s =
     (let call = PMPI_Gather sendbuf sendcnt sendtype recvbuf recvcnt recvtype root comm in
      bind_out (CurrentCD s) (\<lambda>cur_cdh.
      if cur_cdh = None then pmpi lib call s
      else
        bind_out (int_size (pm_size lib comm * recvcnt * pm_type_size lib recvtype)) (\<lambda>len.
        let it = root_item lib root comm sendbuf recvbuf len in logged lib call it it (RecordLog len s))))"

text \<open>
  The length of a receive buffer with displacements, computed in \<open>long\<close>; the arrays are constants of
  the caller.
\<close>

definition totalcnts :: "'w mpi_lib \<Rightarrow> int \<Rightarrow> uint64 \<Rightarrow> uint64 \<Rightarrow> memory \<Rightarrow> int" where
  "totalcnts lib comm recvcnts displs m =
     (let is = [0..<pm_size lib comm] in
      fold (\<lambda>i t. if t < array_int displs i m + array_int recvcnts i m
                  then array_int displs i m + array_int recvcnts i m else t) is
        (fold (\<lambda>i t. t + array_int recvcnts i m) is 0))"

definition MPI_Gatherv ::
  "'w mpi_lib \<Rightarrow> uint64 \<Rightarrow> nat \<Rightarrow> int \<Rightarrow> uint64 \<Rightarrow> uint64 \<Rightarrow> uint64 \<Rightarrow> int \<Rightarrow> int \<Rightarrow> int \<Rightarrow>
   'w mpi_state \<Rightarrow> ('w mpi_state \<times> int) outcome" where
  "MPI_Gatherv lib sendbuf sendcnt sendtype recvbuf recvcnts displs recvtype root comm s =
     (let len = nat (totalcnts lib comm recvcnts displs (m_mem s)) * pm_type_size lib recvtype;
          it = root_item lib root comm sendbuf recvbuf len in
      logged lib (PMPI_Gatherv sendbuf sendcnt sendtype recvbuf recvcnts displs recvtype root comm) it it (RecordLog len s))"

text \<open>
  The replay of \<open>MPI_Allgather\<close> asks for \<open>sizeof(recvtype)\<close> bytes per element, the size of a
  handle.
\<close>

definition MPI_Allgather ::
  "'w mpi_lib \<Rightarrow> uint64 \<Rightarrow> nat \<Rightarrow> int \<Rightarrow> uint64 \<Rightarrow> nat \<Rightarrow> int \<Rightarrow> int \<Rightarrow> 'w mpi_state \<Rightarrow> ('w mpi_state \<times> int) outcome" where
  "MPI_Allgather lib sendbuf sendcnt sendtype recvbuf recvcnt recvtype comm s =
     (let myrank = pm_rank lib comm in
      bind_out (int_size (pm_size lib comm * recvcnt * pm_type_size lib recvtype)) (\<lambda>len.
        logged lib (PMPI_Allgather sendbuf sendcnt sendtype recvbuf recvcnt recvtype comm)
          (Payload recvbuf len myrank) (Payload recvbuf (pm_size lib comm * recvcnt * 4) myrank) (RecordLog len s)))"

definition MPI_Allgatherv ::
  "'w mpi_lib \<Rightarrow> uint64 \<Rightarrow> nat \<Rightarrow> int \<Rightarrow> uint64 \<Rightarrow> uint64 \<Rightarrow> uint64 \<Rightarrow> int \<Rightarrow> int \<Rightarrow>
   'w mpi_state \<Rightarrow> ('w mpi_state \<times> int) outcome" where
  "MPI_Allgatherv lib sendbuf sendcnt sendtype recvbuf recvcnts displs recvtype comm s =
     (let len = nat (totalcnts lib comm recvcnts displs (m_mem s)) * pm_type_size lib recvtype;
          it = Payload recvbuf len (pm_rank lib comm) in
      logged lib (PMPI_Allgatherv sendbuf sendcnt sendtype recvbuf recvcnts displs recvtype comm) it it (RecordLog len s))"

definition MPI_Reduce ::
  "'w mpi_lib \<Rightarrow> uint64 \<Rightarrow> uint64 \<Rightarrow> nat \<Rightarrow> int \<Rightarrow> int \<Rightarrow> int \<Rightarrow> int \<Rightarrow> 'w mpi_state \<Rightarrow> ('w mpi_state \<times> int) outcome" where
  "MPI_Reduce lib sendbuf recvbuf count datatype op root comm s =
     bind_out (int_size (count * pm_type_size lib datatype)) (\<lambda>len.
     let it = root_item lib root comm sendbuf recvbuf len in
       logged lib (PMPI_Reduce sendbuf recvbuf count datatype op root comm) it it (RecordLog len s))"

definition MPI_Alltoall ::
  "'w mpi_lib \<Rightarrow> uint64 \<Rightarrow> nat \<Rightarrow> int \<Rightarrow> uint64 \<Rightarrow> nat \<Rightarrow> int \<Rightarrow> int \<Rightarrow> 'w mpi_state \<Rightarrow> ('w mpi_state \<times> int) outcome" where
  "MPI_Alltoall lib sendbuf sendcnt sendtype recvbuf recvcnt recvtype comm s =
     bind_out (int_size (pm_size lib comm * recvcnt * pm_type_size lib recvtype)) (\<lambda>len.
     let it = Payload recvbuf len (pm_rank lib comm) in
       logged lib (PMPI_Alltoall sendbuf sendcnt sendtype recvbuf recvcnt recvtype comm) it it (RecordLog len s))"

definition MPI_Alltoallv ::
  "'w mpi_lib \<Rightarrow> uint64 \<Rightarrow> uint64 \<Rightarrow> uint64 \<Rightarrow> int \<Rightarrow> uint64 \<Rightarrow> uint64 \<Rightarrow> uint64 \<Rightarrow> int \<Rightarrow> int \<Rightarrow>
   'w mpi_state \<Rightarrow> ('w mpi_state \<times> int) outcome" where
  "MPI_Alltoallv lib sendbuf sendcnts sdispls sendtype recvbuf recvcnts rdispls recvtype comm s =
     (let len = nat (totalcnts lib comm recvcnts rdispls (m_mem s)) * pm_type_size lib recvtype;
          it = Payload recvbuf len (pm_rank lib comm) in
      logged lib (PMPI_Alltoallv sendbuf sendcnts sdispls sendtype recvbuf recvcnts rdispls recvtype comm) it it
        (RecordLog len s))"

definition MPI_Scatter ::
  "'w mpi_lib \<Rightarrow> uint64 \<Rightarrow> nat \<Rightarrow> int \<Rightarrow> uint64 \<Rightarrow> nat \<Rightarrow> int \<Rightarrow> int \<Rightarrow> int \<Rightarrow> 'w mpi_state \<Rightarrow> ('w mpi_state \<times> int) outcome" where
  "MPI_Scatter lib sendbuf sendcnt sendtype recvbuf recvcnt recvtype root comm s =
     bind_out (int_size (recvcnt * pm_type_size lib recvtype)) (\<lambda>len.
       logged lib (PMPI_Scatter sendbuf sendcnt sendtype recvbuf recvcnt recvtype root comm)
         (Payload recvbuf len root) (Payload recvbuf len root) (RecordLog len s))"

definition MPI_Scatterv ::
  "'w mpi_lib \<Rightarrow> uint64 \<Rightarrow> uint64 \<Rightarrow> uint64 \<Rightarrow> int \<Rightarrow> uint64 \<Rightarrow> nat \<Rightarrow> int \<Rightarrow> int \<Rightarrow> int \<Rightarrow>
   'w mpi_state \<Rightarrow> ('w mpi_state \<times> int) outcome" where
  "MPI_Scatterv lib sendbuf sendcnts displs sendtype recvbuf recvcnt recvtype root comm s =
     bind_out (int_size (recvcnt * pm_type_size lib recvtype)) (\<lambda>len.
       logged lib (PMPI_Scatterv sendbuf sendcnts displs sendtype recvbuf recvcnt recvtype root comm)
         (Payload recvbuf len root) (Payload recvbuf len root) (RecordLog len s))"

definition MPI_Reduce_scatter ::
  "'w mpi_lib \<Rightarrow> uint64 \<Rightarrow> uint64 \<Rightarrow> uint64 \<Rightarrow> int \<Rightarrow> int \<Rightarrow> int \<Rightarrow> 'w mpi_state \<Rightarrow> ('w mpi_state \<times> int) outcome" where
  "MPI_Reduce_scatter lib sendbuf recvbuf recvcnts datatype op comm s =
     (let myrank = pm_rank lib comm in
      bind_out (int_size (nat (array_int recvcnts (nat myrank) (m_mem s)) * pm_type_size lib datatype)) (\<lambda>len.
      let it = Payload recvbuf len myrank in
        logged lib (PMPI_Reduce_scatter sendbuf recvbuf recvcnts datatype op comm) it it (RecordLog len s)))"

definition MPI_Scan ::
  "'w mpi_lib \<Rightarrow> uint64 \<Rightarrow> uint64 \<Rightarrow> nat \<Rightarrow> int \<Rightarrow> int \<Rightarrow> int \<Rightarrow> 'w mpi_state \<Rightarrow> ('w mpi_state \<times> int) outcome" where
  "MPI_Scan lib sendbuf recvbuf count datatype op comm s =
     bind_out (int_size (count * pm_type_size lib datatype)) (\<lambda>len.
     let it = Payload recvbuf len (pm_rank lib comm) in
       logged lib (PMPI_Scan sendbuf recvbuf count datatype op comm) it it (RecordLog len s))"

end
