(* ===== verification/MPI_Replay.thy ===== *)
theory MPI_Replay
  imports MPI_Wrapper
begin

text \<open>
  Re-execution of the MPI calls of a relaxed domain.  An application is a sequence of local
  computations on its memory and of MPI calls whose arguments depend on the memory; the calls go
  through the wrappers.  The main lemma relates a run in generating mode to a run in replay mode that
  starts from the same memory: the wrappers deliver the same bytes without touching the library.
\<close>

section \<open>Applications\<close>

text \<open>The wrapper that a call of the application is linked to, for the blocking calls.\<close>

fun interpose :: "'w mpi_lib \<Rightarrow> mpi_call \<Rightarrow> 'w mpi_state \<Rightarrow> ('w mpi_state \<times> int) outcome" where
  "interpose lib (PMPI_Send a b c d e f) = MPI_Send lib a b c d e f"
| "interpose lib (PMPI_Ssend a b c d e f) = MPI_Ssend lib a b c d e f"
| "interpose lib (PMPI_Rsend a b c d e f) = MPI_Rsend lib a b c d e f"
| "interpose lib (PMPI_Bsend a b c d e f) = MPI_Bsend lib a b c d e f"
| "interpose lib (PMPI_Recv a b c d e f g) = MPI_Recv lib a b c d e f g"
| "interpose lib (PMPI_Sendrecv a b c d e f g h i j k l) = MPI_Sendrecv lib a b c d e f g h i j k l"
| "interpose lib (PMPI_Sendrecv_replace a b c d e f g h i) = MPI_Sendrecv_replace lib a b c d e f g h i"
| "interpose lib (PMPI_Barrier a) = MPI_Barrier lib a"
| "interpose lib (PMPI_Bcast a b c d e) = MPI_Bcast lib a b c d e"
| "interpose lib (PMPI_Gather a b c d e f g h) = MPI_Gather lib a b c d e f g h"
| "interpose lib (PMPI_Gatherv a b c d e f g h i) = MPI_Gatherv lib a b c d e f g h i"
| "interpose lib (PMPI_Allgather a b c d e f g) = MPI_Allgather lib a b c d e f g"
| "interpose lib (PMPI_Allgatherv a b c d e f g h) = MPI_Allgatherv lib a b c d e f g h"
| "interpose lib (PMPI_Reduce a b c d e f g) = MPI_Reduce lib a b c d e f g"
| "interpose lib (PMPI_Alltoall a b c d e f g) = MPI_Alltoall lib a b c d e f g"
| "interpose lib (PMPI_Alltoallv a b c d e f g h i) = MPI_Alltoallv lib a b c d e f g h i"
| "interpose lib (PMPI_Scatter a b c d e f g h) = MPI_Scatter lib a b c d e f g h"
| "interpose lib (PMPI_Scatterv a b c d e f g h i) = MPI_Scatterv lib a b c d e f g h i"
| "interpose lib (PMPI_Reduce_scatter a b c d e f) = MPI_Reduce_scatter lib a b c d e f"
| "interpose lib (PMPI_Scan a b c d e f) = MPI_Scan lib a b c d e f"
| "interpose lib _ = (\<lambda>s. Inl (Unmodelled ''not a blocking call''))"

datatype app_step = Compute "memory \<Rightarrow> memory" | Call "memory \<Rightarrow> mpi_call"

fun run :: "'w mpi_lib \<Rightarrow> app_step list \<Rightarrow> 'w mpi_state \<Rightarrow> 'w mpi_state outcome" where
  "run lib [] s = Inr s"
| "run lib (Compute f # p) s = run lib p (s\<lparr>m_mem := f (m_mem s)\<rparr>)"
| "run lib (Call f # p) s = bind_out (interpose lib (f (m_mem s)) s) (\<lambda>(s, _). run lib p s)"

text \<open>What a call receives, as the items that its wrapper logs.\<close>

fun call_items :: "'w mpi_lib \<Rightarrow> mpi_call \<Rightarrow> memory \<Rightarrow> log_item list" where
  "call_items lib (PMPI_Send a b c d e f) m = [Event a d]"
| "call_items lib (PMPI_Ssend a b c d e f) m = [Event a d]"
| "call_items lib (PMPI_Rsend a b c d e f) m = [Event a d]"
| "call_items lib (PMPI_Bsend a b c d e f) m = [Event a d]"
| "call_items lib (PMPI_Recv a b c d e f g) m = [Payload a (b * pm_type_size lib c) d]"
| "call_items lib (PMPI_Sendrecv a b c d e f g h i j k l) m = [Event a d, Payload f (g * pm_type_size lib h) i]"
| "call_items lib (PMPI_Sendrecv_replace a b c d e f g h i) m = [Event a d, Payload a (b * pm_type_size lib c) f]"
| "call_items lib (PMPI_Barrier a) m = [Event 0 (pm_rank lib a)]"
| "call_items lib (PMPI_Bcast a b c d e) m = [Payload a (b * pm_type_size lib c) d]"
| "call_items lib (PMPI_Gather a b c d e f g h) m = [root_item lib g h a d (pm_size lib h * e * pm_type_size lib f)]"
| "call_items lib (PMPI_Gatherv a b c d e f g h i) m =
     [root_item lib h i a d (nat (totalcnts lib i e f m) * pm_type_size lib g)]"
| "call_items lib (PMPI_Allgather a b c d e f g) m =
     [Payload d (pm_size lib g * e * pm_type_size lib f) (pm_rank lib g)]"
| "call_items lib (PMPI_Allgatherv a b c d e f g h) m =
     [Payload d (nat (totalcnts lib h e f m) * pm_type_size lib g) (pm_rank lib h)]"
| "call_items lib (PMPI_Reduce a b c d e f g) m = [root_item lib f g a b (c * pm_type_size lib d)]"
| "call_items lib (PMPI_Alltoall a b c d e f g) m =
     [Payload d (pm_size lib g * e * pm_type_size lib f) (pm_rank lib g)]"
| "call_items lib (PMPI_Alltoallv a b c d e f g h i) m =
     [Payload e (nat (totalcnts lib i f g m) * pm_type_size lib h) (pm_rank lib i)]"
| "call_items lib (PMPI_Scatter a b c d e f g h) m = [Payload d (e * pm_type_size lib f) g]"
| "call_items lib (PMPI_Scatterv a b c d e f g h i) m = [Payload e (f * pm_type_size lib g) h]"
| "call_items lib (PMPI_Reduce_scatter a b c d e f) m =
     [Payload b (nat (array_int c (nat (pm_rank lib f)) m) * pm_type_size lib d) (pm_rank lib f)]"
| "call_items lib (PMPI_Scan a b c d e f) m = [Payload b (c * pm_type_size lib d) (pm_rank lib f)]"
| "call_items lib _ m = []"

text \<open>
  The volume a wrapper records, and the calls that the replay covers: the length is an \<open>int\<close> where the code computes it as one, and
  \<open>MPI_Allgather\<close> moves elements of the size of a handle.
\<close>

fun item_size :: "log_item \<Rightarrow> nat" where
  "item_size (Event a t) = 0"
| "item_size (Payload a n t) = n"

fun int_volume :: "'w mpi_lib \<Rightarrow> mpi_call \<Rightarrow> memory \<Rightarrow> nat" where
  "int_volume lib (PMPI_Gather a b c d e f g h) m = pm_size lib h * e * pm_type_size lib f"
| "int_volume lib (PMPI_Reduce a b c d e f g) m = c * pm_type_size lib d"
| "int_volume lib (PMPI_Gatherv a b c d e f g h i) m = 0"
| "int_volume lib (PMPI_Allgatherv a b c d e f g h) m = 0"
| "int_volume lib (PMPI_Alltoallv a b c d e f g h i) m = 0"
| "int_volume lib call m = sum_list (map item_size (call_items lib call m))"

fun call_volume :: "'w mpi_lib \<Rightarrow> mpi_call \<Rightarrow> memory \<Rightarrow> nat" where
  "call_volume lib (PMPI_Gatherv a b c d e f g h i) m = nat (totalcnts lib i e f m) * pm_type_size lib g"
| "call_volume lib (PMPI_Allgatherv a b c d e f g h) m = nat (totalcnts lib h e f m) * pm_type_size lib g"
| "call_volume lib (PMPI_Alltoallv a b c d e f g h i) m = nat (totalcnts lib i f g m) * pm_type_size lib h"
| "call_volume lib call m = int_volume lib call m"

fun handle_sized :: "'w mpi_lib \<Rightarrow> mpi_call \<Rightarrow> bool" where
  "handle_sized lib (PMPI_Allgather a b c d e f g) \<longleftrightarrow> pm_type_size lib f = 4"
| "handle_sized lib call \<longleftrightarrow> True"

definition item_range :: "log_item \<Rightarrow> uint64 set" where
  "item_range it = (case it of Event a t \<Rightarrow> {} | Payload a n t \<Rightarrow> {x. unat (x - a) < n})"

text \<open>The documented effect on memory: a call writes nothing but its receive buffer.\<close>

definition confined :: "'w mpi_lib \<Rightarrow> mpi_call \<Rightarrow> memory \<Rightarrow> bool" where
  "confined lib call m \<longleftrightarrow> (\<forall>w r m' w' x. pm_call lib call m w = Inr (r, m', w') \<longrightarrow>
     x \<notin> \<Union> (item_range ` set (call_items lib call m)) \<longrightarrow> m' x = m x)"

definition replayable :: "'w mpi_lib \<Rightarrow> mpi_call \<Rightarrow> memory \<Rightarrow> bool" where
  "replayable lib call m \<longleftrightarrow> call_items lib call m \<noteq> [] \<and> int_volume lib call m < 2 ^ 31 \<and>
     handle_sized lib call \<and> confined lib call m"

section \<open>Wrappers by mode\<close>

definition in_cd :: "nat \<Rightarrow> CDLoggingMode \<Rightarrow> CommLog \<Rightarrow> 'w mpi_state \<Rightarrow> bool" where
  "in_cd c md l s \<longleftrightarrow> c < length (m_cds s) \<and> CurrentCD s = Inr (Some c) \<and> lc_mode (the_cd c s) = md \<and>
     lc_log (the_cd c s) = Some l \<and> plain_log l"

lemma CurrentCD_cong: "map lc_exec_mode (m_cds s) = map lc_exec_mode (m_cds t) \<Longrightarrow> CurrentCD s = CurrentCD t"
proof -
  assume a: "map lc_exec_mode (m_cds s) = map lc_exec_mode (m_cds t)"
  then have len: "length (m_cds s) = length (m_cds t)" by (rule map_eq_imp_length_eq)
  have "lc_exec_mode (the_cd h s) = lc_exec_mode (the_cd h t)" if "h < length (m_cds t)" for h
    using a len that by (metis nth_map)
  then show ?thesis unfolding CurrentCD_def log_path_def len
    by (cases "m_cds t = []") (simp_all add: GetCurrentCD_def)
qed

lemma in_cd_frame [simp]:
  "in_cd c md l (s\<lparr>m_mem := m\<rparr>) = in_cd c md l s" "in_cd c md l (s\<lparr>m_world := w\<rparr>) = in_cd c md l s"
  "in_cd c md l (RecordLog n s) = in_cd c md l s"
  using CurrentCD_cong [of "s\<lparr>m_mem := m\<rparr>" s] CurrentCD_cong [of "s\<lparr>m_world := w\<rparr>" s]
    CurrentCD_cong [of "RecordLog n s" s]
  by (simp_all add: in_cd_def RecordLog_def)

lemma in_cd_put_log:
  assumes "in_cd c md l s" "plain_log l'" shows "in_cd c md l' (put_log c l' s)"
proof -
  have c: "c < length (m_cds s)" using assms(1) by (simp add: in_cd_def)
  then have "CurrentCD (put_log c l' s) = CurrentCD s"
    by (intro CurrentCD_cong) (simp add: put_log_def set_cd_def map_update list_update_same_conv)
  then show ?thesis using assms c by (simp add: in_cd_def)
qed

definition replay_all :: "'w mpi_lib \<Rightarrow> mpi_call \<Rightarrow> log_item list \<Rightarrow> nat \<Rightarrow> 'w mpi_state \<Rightarrow> ('w mpi_state \<times> int) outcome" where
  "replay_all lib call its c s =
     bind_out (replay_item c (hd its) s) (\<lambda>(s, ret).
       if ret = kCommLogCommLogModeFlip then call_and_log lib call its c s
       else if ret = kCommLogOK \<and> tl its \<noteq> [] then
         bind_out (replay_item c (hd (tl its)) s) (\<lambda>(s, ret).
           if ret \<noteq> kCommLogOK then Inl (ErrorMessage ''Sendbuf logged while Recvbuf not!!'') else Inr (s, 0))
       else Inr (s, 0))"

lemma logged_in:
  assumes "in_cd c md l s"
  shows "md = kRelaxedCDGen \<Longrightarrow> logged lib call it it s = call_and_log lib call [it] c s"
    and "md = kRelaxedCDRead \<Longrightarrow> logged lib call it it s = replay_all lib call [it] c s"
    and "md = kRelaxedCDGen \<Longrightarrow> logged_pair lib call it it' s = call_and_log lib call [it, it'] c s"
    and "md = kRelaxedCDRead \<Longrightarrow> logged_pair lib call it it' s = replay_all lib call [it, it'] c s"
  using assms by (simp_all add: in_cd_def logged_def logged_pair_def dispatch_def replay_all_def cong: if_cong)

lemmas wrapper_defs = MPI_Send_def MPI_Ssend_def MPI_Rsend_def MPI_Bsend_def MPI_Recv_def MPI_Sendrecv_def
  MPI_Sendrecv_replace_def MPI_Barrier_def MPI_Bcast_def MPI_Gather_def MPI_Gatherv_def MPI_Allgather_def
  MPI_Allgatherv_def MPI_Reduce_def MPI_Alltoall_def MPI_Alltoallv_def MPI_Scatter_def MPI_Scatterv_def
  MPI_Reduce_scatter_def MPI_Scan_def

lemma RecordLog_0: "RecordLog 0 s = s"
  by (cases s) (simp add: RecordLog_def option.map_id0 [unfolded id_def] option.map_ident)

lemma interpose_in:
  assumes "in_cd c md l s" "replayable lib call (m_mem s)"
  defines "its \<equiv> call_items lib call (m_mem s)" and "n \<equiv> call_volume lib call (m_mem s)"
  shows "md = kRelaxedCDGen \<Longrightarrow> interpose lib call s = call_and_log lib call its c (RecordLog n s)"
    "md = kRelaxedCDRead \<Longrightarrow> interpose lib call s = replay_all lib call its c (RecordLog n s)"
proof -
  have cur: "CurrentCD s = Inr (Some c)" using assms(1) by (simp add: in_cd_def)
  have in_log: "in_cd c md l (RecordLog n s)" for n using assms(1) by simp
  note log = logged_in [OF in_log] logged_in [OF assms(1)] RecordLog_0
  have r: "its \<noteq> []" "int_volume lib call (m_mem s) < 2 ^ 31" "handle_sized lib call"
    using assms(2) by (simp_all add: replayable_def its_def)
  then show "md = kRelaxedCDGen \<Longrightarrow> interpose lib call s = call_and_log lib call its c (RecordLog n s)"
    using cur unfolding its_def n_def by (cases call) (simp_all add: wrapper_defs log int_size_def Let_def)
  from r show "md = kRelaxedCDRead \<Longrightarrow> interpose lib call s = replay_all lib call its c (RecordLog n s)"
    using cur unfolding its_def n_def by (cases call) (simp_all add: wrapper_defs log int_size_def Let_def)
qed

section \<open>Logging and replaying the items of a call\<close>

definition item_bytes :: "memory \<Rightarrow> log_item \<Rightarrow> byte list" where
  "item_bytes m it = (case it of Event a t \<Rightarrow> [] | Payload a n t \<Rightarrow> read_mem m a n)"

definition item_write :: "memory \<Rightarrow> log_item \<Rightarrow> memory \<Rightarrow> memory" where
  "item_write m' it m = (case it of Event a t \<Rightarrow> m | Payload a n t \<Rightarrow> write_mem a (read_mem m' a n) m)"

lemma write_read_mem: "write_mem a (read_mem m' a n) m x = (if unat (x - a) < n then m' x else m x)"
  by (simp add: write_mem_def read_mem_def)

lemma item_write: "item_write m' it m x = (if x \<in> item_range it then m' x else m x)"
  by (cases it) (simp_all add: item_write_def item_range_def write_read_mem)

lemma log_one_spec:
  assumes "in_cd c md l s"
  obtains l' where "log_one lib c it s = Inr (put_log c l' s)" "plain_log l'" "tape l' = tape l @ [Some (item_bytes (m_mem s) it)]"
proof -
  obtain a n t where it: "log_one lib c it s =
      CD_LogData c a n (of_int t) True 0 False False False (- 1) (pm_comm_null lib) s"
    "item_bytes (m_mem s) it = read_mem (m_mem s) a n"
    by (cases it) (auto simp: item_bytes_def read_mem_def)
  have l: "c < length (m_cds s)" "lc_log (the_cd c s) = Some l" "plain_log l" "log_ok l"
    using assms by (simp_all add: in_cd_def plain_log_def)
  let ?d = "read_mem (m_mem s) a n" and ?inc = "lc_incomplete (the_cd c s)"
  obtain l' where l': "CL_LogData a ?d (of_int t) True 0 False False False (- 1) (pm_comm_null lib) (l, ?inc) = Inr (l', ?inc)"
    "log_ok l'" "tape l' = tape l @ [Some ?d]" "log_entries l' = log_entries l @ [\<lparr>le_pos = k_queue_pos l, le_length = length ?d,
       le_completed = True, le_flag = 0, le_counter = 1, le_reexec_counter = 0, le_isrepeated = False, le_taskID = of_int t\<rparr>]"
    by (rule CL_LogData_spec [OF l(4), of False ?d True 0 a "of_int t" False False "- 1" "pm_comm_null lib" ?inc]) simp_all
  have "plain_log l'" using l(3) l'(2,4) by (auto simp: plain_log_def)
  moreover have "log_one lib c it s = Inr (put_log c l' s)"
    using l'(1) l(1,2) by (simp add: it(1) CD_LogData_def put_log_def set_cd_def)
  ultimately show thesis using that l'(3) it(2) by simp
qed

lemma log_items_spec:
  assumes "in_cd c md l s"
  shows "\<exists>l' s'. log_items lib c its s = Inr s' \<and> in_cd c md l' s' \<and> m_mem s' = m_mem s \<and>
    tape l' = tape l @ map (\<lambda>it. Some (item_bytes (m_mem s) it)) its"
  using assms
proof (induction its arbitrary: l s)
  case Nil
  then show ?case by auto
next
  case (Cons it its)
  obtain l1 where l1: "log_one lib c it s = Inr (put_log c l1 s)" "plain_log l1" "tape l1 = tape l @ [Some (item_bytes (m_mem s) it)]"
    using log_one_spec [OF Cons.prems] by metis
  show ?case using Cons.IH [OF in_cd_put_log [OF Cons.prems l1(2)]] l1 by auto
qed

lemma replay_item_spec:
  assumes "in_cd c md l s" "tape_at l < length (tape l)" "tape l ! tape_at l = Some (item_bytes m' it)"
  shows "\<exists>l' s'. replay_item c it s = Inr (s', kCommLogOK) \<and> in_cd c md l' s' \<and> m_mem s' = item_write m' it (m_mem s) \<and>
    m_world s' = m_world s \<and> tape l' = tape l \<and> tape_at l' = Suc (tape_at l)"
proof -
  have l: "c < length (m_cds s)" "lc_log (the_cd c s) = Some l" "plain_log l" "log_ok l"
    using assms(1) by (simp_all add: in_cd_def plain_log_def)
  show ?thesis
  proof (rule CL_ReadData_spec [OF l(4) assms(2,3)])
    fix t p
    let ?l = "l\<lparr>k_table := Some t, k_reexec_pos := p\<rparr>"
    assume a: "CL_ReadData (length (item_bytes m' it)) l = Inr (?l, kCommLogOK, item_bytes m' it)"
      "CL_ProbeData (length (item_bytes m' it)) l = Inr (?l, kCommLogOK)"
      "log_ok ?l" "tape ?l = tape l" "tape_at ?l = Suc (tape_at l)"
      "map le_isrepeated (log_entries ?l) = map le_isrepeated (log_entries l)"
    have flip: "set_cd c (flip_mode kCommLogOK) s = s" for s :: "'a mpi_state" by (simp add: set_cd_def flip_mode_def)
    have inl: "in_cd c md ?l (put_log c ?l s)" by (rule in_cd_put_log [OF assms(1) plain_cong [OF l(3) a(3,6)]])
    then have "in_cd c md ?l ((put_log c ?l s)\<lparr>m_mem := m\<rparr>)" for m by simp
    then show ?thesis
      using a(1,2,4,5) l(1,2) inl
      by (intro exI [of _ ?l]) (cases it; simp add: CD_ReadData_def CD_ProbeData_def flip item_bytes_def item_write_def)
  qed
qed

lemma replay_all_spec:
  assumes "in_cd c kRelaxedCDRead l s" "its = [it] \<or> its = [it, it']" "drop (tape_at l) (tape l) = map (\<lambda>it. Some (item_bytes m' it)) its @ rest"
  shows "\<exists>l' s'. replay_all lib call its c s = Inr (s', 0) \<and> in_cd c kRelaxedCDRead l' s' \<and> m_world s' = m_world s \<and>
    m_mem s' = fold (item_write m') its (m_mem s) \<and> tape l' = tape l \<and> drop (tape_at l') (tape l') = rest"
proof -
  have lt: "tape_at l < length (tape l)" using assms(2,3) by (metis append_is_Nil_conv drop_eq_Nil list.map_disc_iff list.simps(3) not_less)
  then have d: "tape l ! tape_at l # drop (Suc (tape_at l)) (tape l) = map (\<lambda>it. Some (item_bytes m' it)) its @ rest"
    using assms(3) by (simp add: Cons_nth_drop_Suc)
  then have cell: "tape l ! tape_at l = Some (item_bytes m' it)" using assms(2) by auto
  obtain l1 s1 where 1: "replay_item c it s = Inr (s1, kCommLogOK)" "in_cd c kRelaxedCDRead l1 s1"
    "m_mem s1 = item_write m' it (m_mem s)" "m_world s1 = m_world s" "tape l1 = tape l" "tape_at l1 = Suc (tape_at l)"
    using replay_item_spec [OF assms(1) lt cell] by blast
  from assms(2) show ?thesis
  proof
    assume its: "its = [it]"
    then show ?thesis using 1 d by (intro exI [of _ l1] exI [of _ s1]) (simp add: replay_all_def)
  next
    assume its: "its = [it, it']"
    then have d1: "drop (tape_at l1) (tape l1) = Some (item_bytes m' it') # rest" using d 1(5,6) by simp
    then have lt1: "tape_at l1 < length (tape l1)" by (metis drop_eq_Nil list.simps(3) not_less)
    then have d2: "tape l1 ! tape_at l1 = Some (item_bytes m' it')" "drop (Suc (tape_at l1)) (tape l1) = rest"
      using d1 by (simp_all add: Cons_nth_drop_Suc [symmetric])
    obtain l2 s2 where 2: "replay_item c it' s1 = Inr (s2, kCommLogOK)" "in_cd c kRelaxedCDRead l2 s2"
      "m_mem s2 = item_write m' it' (m_mem s1)" "m_world s2 = m_world s1" "tape l2 = tape l1" "tape_at l2 = Suc (tape_at l1)"
      using replay_item_spec [OF 1(2) lt1 d2(1)] by blast
    then show ?thesis using 1 d2(2) its by (intro exI [of _ l2] exI [of _ s2]) (simp add: replay_all_def)
  qed
qed

section \<open>Replaying a run\<close>

lemma fold_item_write: "fold (item_write m') its m x = (if x \<in> \<Union> (item_range ` set its) then m' x else m x)"
  by (induction its arbitrary: m) (auto simp: item_write)

lemma call_items_cases: "call_items lib call m \<noteq> [] \<Longrightarrow>
  \<exists>it it'. call_items lib call m = [it] \<or> call_items lib call m = [it, it']"
  by (cases call) auto

lemma call_step:
  assumes "in_cd c kRelaxedCDGen l s" "replayable lib call (m_mem s)" "interpose lib call s = Inr (s1, r)"
  shows "\<exists>l1 xs. in_cd c kRelaxedCDGen l1 s1 \<and> tape l1 = tape l @ xs \<and>
    (\<forall>t k rest. in_cd c kRelaxedCDRead k t \<longrightarrow> m_mem t = m_mem s \<longrightarrow> drop (tape_at k) (tape k) = xs @ rest \<longrightarrow>
      (\<exists>t1 k1. interpose lib call t = Inr (t1, 0) \<and> in_cd c kRelaxedCDRead k1 t1 \<and> m_mem t1 = m_mem s1 \<and>
        m_world t1 = m_world t \<and> tape k1 = tape k \<and> drop (tape_at k1) (tape k1) = rest))"
proof -
  let ?its = "call_items lib call (m_mem s)"
  obtain it it' where its: "?its = [it] \<or> ?its = [it, it']" using call_items_cases assms(2) replayable_def by metis
  let ?n = "call_volume lib call (m_mem s)"
  from interpose_in(1) [OF assms(1,2)] assms(3) have "call_and_log lib call ?its c (RecordLog ?n s) = Inr (s1, r)" by simp
  then obtain m' w' where pm: "pm_call lib call (m_mem s) (m_world s) = Inr (r, m', w')"
    and log: "log_items lib c ?its ((RecordLog ?n s)\<lparr>m_mem := m', m_world := w'\<rparr>) = Inr s1"
    by (auto simp: call_and_log_def pmpi_def bind_out_Inr_iff RecordLog_def)
  obtain l1 where l1: "in_cd c kRelaxedCDGen l1 s1" "m_mem s1 = m'" "tape l1 = tape l @ map (\<lambda>it. Some (item_bytes m' it)) ?its"
    using log_items_spec [of c kRelaxedCDGen l "(RecordLog ?n s)\<lparr>m_mem := m', m_world := w'\<rparr>" lib ?its] assms(1) log by auto
  have mem: "fold (item_write m') ?its (m_mem s) = m'"
  proof
    fix x show "fold (item_write m') ?its (m_mem s) x = m' x"
      using assms(2) pm unfolding replayable_def confined_def fold_item_write by metis
  qed
  have "\<exists>t1 k1. interpose lib call t = Inr (t1, 0) \<and> in_cd c kRelaxedCDRead k1 t1 \<and> m_mem t1 = m_mem s1 \<and>
      m_world t1 = m_world t \<and> tape k1 = tape k \<and> drop (tape_at k1) (tape k1) = rest"
    if t: "in_cd c kRelaxedCDRead k t" "m_mem t = m_mem s"
      "drop (tape_at k) (tape k) = map (\<lambda>it. Some (item_bytes m' it)) ?its @ rest" for t k rest
  proof -
    have rep: "replayable lib call (m_mem t)" using assms(2) t(2) by simp
    have n: "interpose lib call t = replay_all lib call ?its c (RecordLog ?n t)"
      using interpose_in(2) [OF t(1) rep] t(2) by simp
    have "in_cd c kRelaxedCDRead k (RecordLog ?n t)" using t(1) by simp
    from replay_all_spec [OF this its t(3), of lib call] n mem l1(2) t(2) show ?thesis
      by (auto simp: RecordLog_def)
  qed
  then show ?thesis using l1 by blast
qed

lemma run_replay:
  assumes "in_cd c kRelaxedCDGen l s" "\<forall>f. Call f \<in> set p \<longrightarrow> (\<forall>m. replayable lib (f m) m)" "run lib p s = Inr s1"
  shows "\<exists>l1 xs. in_cd c kRelaxedCDGen l1 s1 \<and> tape l1 = tape l @ xs \<and>
    (\<forall>t k rest. in_cd c kRelaxedCDRead k t \<longrightarrow> m_mem t = m_mem s \<longrightarrow> drop (tape_at k) (tape k) = xs @ rest \<longrightarrow>
      (\<exists>t1 k1. run lib p t = Inr t1 \<and> in_cd c kRelaxedCDRead k1 t1 \<and> m_mem t1 = m_mem s1 \<and>
        m_world t1 = m_world t \<and> tape k1 = tape k \<and> drop (tape_at k1) (tape k1) = rest))"
  using assms
proof (induction lib p s arbitrary: l rule: run.induct)
  case (1 lib s)
  then show ?case by (intro exI [of _ l] exI [of _ "[]"]) auto
next
  case (2 lib f p s)
  have "in_cd c kRelaxedCDGen l (s\<lparr>m_mem := f (m_mem s)\<rparr>)" using 2(2) by simp
  from 2(1) [OF this] 2(3,4) obtain l1 xs where
    "in_cd c kRelaxedCDGen l1 s1" "tape l1 = tape l @ xs" and
    rest: "\<And>t k rest. in_cd c kRelaxedCDRead k t \<Longrightarrow> m_mem t = f (m_mem s) \<Longrightarrow> drop (tape_at k) (tape k) = xs @ rest \<Longrightarrow>
      \<exists>t1 k1. run lib p t = Inr t1 \<and> in_cd c kRelaxedCDRead k1 t1 \<and> m_mem t1 = m_mem s1 \<and>
        m_world t1 = m_world t \<and> tape k1 = tape k \<and> drop (tape_at k1) (tape k1) = rest" by auto
  then show ?case
    by (intro exI [of _ l1] exI [of _ xs] conjI allI impI) (use rest [of _ "_\<lparr>m_mem := _\<rparr>"] in auto)
next
  case (3 lib f p s)
  obtain s' r where s': "interpose lib (f (m_mem s)) s = Inr (s', r)" "run lib p s' = Inr s1"
    using 3(4) by (auto simp: bind_out_Inr_iff)
  have "replayable lib (f (m_mem s)) (m_mem s)" using 3(3) by simp
  from call_step [OF 3(2) this s'(1)] obtain l' xs where
    a: "in_cd c kRelaxedCDGen l' s'" "tape l' = tape l @ xs" and
    step: "\<And>t k rest. in_cd c kRelaxedCDRead k t \<Longrightarrow> m_mem t = m_mem s \<Longrightarrow> drop (tape_at k) (tape k) = xs @ rest \<Longrightarrow>
      \<exists>t1 k1. interpose lib (f (m_mem s)) t = Inr (t1, 0) \<and> in_cd c kRelaxedCDRead k1 t1 \<and> m_mem t1 = m_mem s' \<and>
        m_world t1 = m_world t \<and> tape k1 = tape k \<and> drop (tape_at k1) (tape k1) = rest" by blast
  from 3(1) [OF a(1)] 3(3) s' obtain l1 ys where
    b: "in_cd c kRelaxedCDGen l1 s1" "tape l1 = tape l' @ ys" and
    rest: "\<And>t k rest. in_cd c kRelaxedCDRead k t \<Longrightarrow> m_mem t = m_mem s' \<Longrightarrow> drop (tape_at k) (tape k) = ys @ rest \<Longrightarrow>
      \<exists>t1 k1. run lib p t = Inr t1 \<and> in_cd c kRelaxedCDRead k1 t1 \<and> m_mem t1 = m_mem s1 \<and>
        m_world t1 = m_world t \<and> tape k1 = tape k \<and> drop (tape_at k1) (tape k1) = rest" by auto
  have "\<exists>t1 k1. run lib (Call f # p) t = Inr t1 \<and> in_cd c kRelaxedCDRead k1 t1 \<and> m_mem t1 = m_mem s1 \<and>
        m_world t1 = m_world t \<and> tape k1 = tape k \<and> drop (tape_at k1) (tape k1) = zs"
    if t: "in_cd c kRelaxedCDRead k t" "m_mem t = m_mem s" "drop (tape_at k) (tape k) = xs @ ys @ zs" for t k zs
  proof -
    obtain t1 k1 where 1: "interpose lib (f (m_mem s)) t = Inr (t1, 0)" "in_cd c kRelaxedCDRead k1 t1" "m_mem t1 = m_mem s'"
      "m_world t1 = m_world t" "tape k1 = tape k" "drop (tape_at k1) (tape k1) = ys @ zs"
      using step [OF t] by blast
    from rest [OF 1(2,3,6)] 1 t(2) show ?thesis by auto
  qed
  then show ?case using b a(2) by (intro exI [of _ l1] exI [of _ "xs @ ys"]) auto
qed

text \<open>A run in generating mode returns when the library does.\<close>

lemma call_returns:
  assumes "in_cd c kRelaxedCDGen l s" "replayable lib call (m_mem s)" "\<forall>m w. \<exists>x. pm_call lib call m w = Inr x"
  shows "\<exists>s1 r. interpose lib call s = Inr (s1, r)"
proof -
  let ?its = "call_items lib call (m_mem s)" and ?s = "RecordLog (call_volume lib call (m_mem s)) s"
  obtain r m' w' where "pm_call lib call (m_mem ?s) (m_world ?s) = Inr (r, m', w')" using assms(3) by (metis prod_cases3)
  moreover have "in_cd c kRelaxedCDGen l (?s\<lparr>m_mem := m', m_world := w'\<rparr>)" using assms(1) by simp
  then obtain s1 where "log_items lib c ?its (?s\<lparr>m_mem := m', m_world := w'\<rparr>) = Inr s1" using log_items_spec by metis
  ultimately show ?thesis using interpose_in(1) [OF assms(1,2)] by (simp add: call_and_log_def pmpi_def)
qed

lemma run_returns:
  assumes "in_cd c kRelaxedCDGen l s" "\<forall>f. Call f \<in> set p \<longrightarrow> (\<forall>m. replayable lib (f m) m)"
    and "\<forall>f. Call f \<in> set p \<longrightarrow> (\<forall>a m w. \<exists>x. pm_call lib (f a) m w = Inr x)"
  shows "\<exists>s1. run lib p s = Inr s1"
  using assms
proof (induction lib p s arbitrary: l rule: run.induct)
  case (3 lib f p s)
  have rep: "replayable lib (f (m_mem s)) (m_mem s)" using 3(3) by simp
  obtain s' r where s': "interpose lib (f (m_mem s)) s = Inr (s', r)"
    using call_returns [OF 3(2) rep] 3(4) by auto
  then obtain l' where "in_cd c kRelaxedCDGen l' s'" using call_step [OF 3(2) rep] by blast
  with 3 s' show ?case by auto
qed auto

section \<open>Properties\<close>

text \<open>The switch to generating mode at the end of the log.\<close>

definition to_generate :: "nat \<Rightarrow> 'w mpi_state \<Rightarrow> 'w mpi_state" where
  "to_generate c = set_cd c (\<lambda>d. d\<lparr>lc_log := map_option (\<lambda>l. l\<lparr>k_mode := kGenerateLog\<rparr>) (lc_log d), lc_mode := kRelaxedCDGen\<rparr>)"

lemma in_cd_to_generate: "in_cd c md l s \<Longrightarrow> in_cd c kRelaxedCDGen (l\<lparr>k_mode := kGenerateLog\<rparr>) (to_generate c s)"
proof -
  assume a: "in_cd c md l s"
  then have "CurrentCD (to_generate c s) = CurrentCD s"
    by (intro CurrentCD_cong) (simp add: in_cd_def to_generate_def set_cd_def map_update list_update_same_conv)
  then show ?thesis using a by (simp add: in_cd_def to_generate_def plain_log_def)
qed

lemma replay_item_end:
  assumes "in_cd c kRelaxedCDRead l s" "tape_at l = length (tape l)"
  shows "replay_item c it s = Inr (to_generate c s, kCommLogCommLogModeFlip)"
proof -
  have l: "c < length (m_cds s)" "lc_log (the_cd c s) = Some l" "log_ok l"
    using assms(1) by (simp_all add: in_cd_def plain_log_def)
  have none: "(s\<lparr>m_cds := x, m_mem := write_mem a [] (m_mem s)\<rparr>) = s\<lparr>m_cds := x\<rparr>" for a x
    by (cases s) (simp add: write_mem_def)
  show ?thesis
    using l CL_ReadData_end [OF l(3) assms(2)]
    by (cases it) (simp_all add: CD_ReadData_def CD_ProbeData_def to_generate_def put_log_def set_cd_def flip_mode_def none)
qed

lemma interpose_at_end:
  assumes "in_cd c kRelaxedCDRead l s" "tape_at l = length (tape l)" "replayable lib call (m_mem s)"
  shows "interpose lib call s = interpose lib call (to_generate c s)"
proof -
  let ?n = "call_volume lib call (m_mem s)" and ?its = "call_items lib call (m_mem s)"
  have g: "in_cd c kRelaxedCDGen (l\<lparr>k_mode := kGenerateLog\<rparr>) (to_generate c s)" by (rule in_cd_to_generate [OF assms(1)])
  have mem: "m_mem (to_generate c s) = m_mem s" by (simp add: to_generate_def)
  have swap: "to_generate c (RecordLog ?n s) = RecordLog ?n (to_generate c s)"
    by (simp add: to_generate_def RecordLog_def set_cd_def)
  have rec: "in_cd c kRelaxedCDRead l (RecordLog ?n s)" using assms(1) by simp
  have "interpose lib call s = replay_all lib call ?its c (RecordLog ?n s)" by (rule interpose_in(2) [OF assms(1,3) refl])
  also have "\<dots> = call_and_log lib call ?its c (to_generate c (RecordLog ?n s))"
    using replay_item_end [OF rec assms(2)] by (simp add: replay_all_def)
  also have "\<dots> = interpose lib call (to_generate c s)"
    using interpose_in(1) [OF g, of lib call] assms(3) mem swap by simp
  finally show ?thesis .
qed


definition sample_mpi :: "CDLoggingMode \<Rightarrow> CommLog \<Rightarrow> nat \<Rightarrow> nat mpi_state" where
  "sample_mpi md l w = \<lparr>m_cds = [(sample_cd l)\<lparr>lc_mode := md\<rparr>], m_mem = (\<lambda>_. 0), m_world = w,
     m_msg_logging = None, m_rollback_point = 0xFFFFFFFF\<rparr>"

definition sample_app :: "app_step list" where
  "sample_app = [Call (\<lambda>m. PMPI_Recv 16 2 0 1 5 0 0), Compute (\<lambda>m. m(32 := m 16 + 1)), Call (\<lambda>m. PMPI_Send 32 1 0 1 (uint (m 17)) 0)]"

lemma in_cd_sample: "plain_log l \<Longrightarrow> in_cd 0 md l (sample_mpi md l w)"
  by (simp add: in_cd_def sample_mpi_def sample_cd_def CurrentCD_def GetCurrentCD_def log_path_def)

lemma sample_app_replayable: "\<forall>f. Call f \<in> set sample_app \<longrightarrow> (\<forall>m. replayable sample_lib (f m) m)"
  by (auto simp: sample_app_def replayable_def confined_def sample_lib_def write_mem_def item_range_def)


lemma CL_ReadData_length:
  assumes "log_ok l" "tape_at l < length (tape l)" "tape l ! tape_at l = Some bs" "n \<noteq> length bs"
  shows "CL_ReadData n l = Inl (ErrorMessage ''Wrong length when read data from logs'')"
proof -
  let ?e = "log_entries l ! k_reexec_pos l"
  have lt: "k_reexec_pos l < k_table_pos l"
    using assms(1,2) tape_at_end [OF assms(1)] by (auto simp: log_ok_def)
  then have "payload l ?e = bs"
    using tape_at_less [OF assms(1) lt] assms(3) by (simp add: cell_def split: if_splits)
  moreover have "entry_ok (k_queue_pos l) ?e" "k_queue_pos l \<le> k_queue_size l"
    using assms(1) lt length_log_entries [OF assms(1)] by (simp_all add: log_ok_def)
  moreover obtain q where "k_queue l = Some q" "length q = k_queue_size l" using log_okE [OF assms(1)] by metis
  ultimately have "le_length ?e = length bs" by (auto simp: payload_def entry_ok_def)
  moreover have "table_at (k_reexec_pos l) l = Inr ?e"
    using lt assms(1) by (auto simp: table_at_def log_ok_def log_entries_def)
  ultimately show ?thesis using lt assms(4) by (simp add: CL_ReadData_def)
qed

text \<open>
  The replay of \<open>MPI_Allgather\<close> stops the process: the wrapper logs the received bytes but asks
  the log for as many bytes as the handles of the type would take, so unless the elements have the
  size of a handle or nothing is received, re-execution ends in a length error.
\<close>

theorem Allgather_replay_stops:
  assumes "in_cd c kRelaxedCDGen l s" "tape l = []" "MPI_Allgather lib a b ty d e rty comm s = Inr (s1, r)"
    and "in_cd c kRelaxedCDRead (CL_ReInit (the (lc_log (the_cd c s1)))) t"
    and "0 < pm_size lib comm * e" "pm_type_size lib rty \<noteq> 4"
  shows "MPI_Allgather lib a b ty d e rty comm t = Inl (ErrorMessage ''Wrong length when read data from logs'')"
proof -
  let ?len = "pm_size lib comm * e * pm_type_size lib rty" and ?call = "PMPI_Allgather a b ty d e rty comm"
  have len: "int_size ?len = Inr ?len" using assms(3) by (auto simp: MPI_Allgather_def int_size_def Let_def split: if_splits)
  let ?it = "Payload d ?len (pm_rank lib comm)"
  have "CurrentCD (RecordLog ?len s) = Inr (Some c)" "lc_mode (the_cd c (RecordLog ?len s)) = kRelaxedCDGen"
    using assms(1) in_cd_frame(3) [of c kRelaxedCDGen l ?len s] by (simp_all add: in_cd_def)
  then have "call_and_log lib ?call [?it] c (RecordLog ?len s) = Inr (s1, r)"
    using assms(3) len by (simp add: MPI_Allgather_def logged_def dispatch_def Let_def)
  then obtain m' w' where log: "log_items lib c [?it] ((RecordLog ?len s)\<lparr>m_mem := m', m_world := w'\<rparr>) = Inr s1"
    by (auto simp: call_and_log_def pmpi_def bind_out_Inr_iff)
  obtain l1 where l1: "in_cd c kRelaxedCDGen l1 s1" "tape l1 = tape l @ [Some (read_mem m' d ?len)]"
    using log_items_spec [of c kRelaxedCDGen l "(RecordLog ?len s)\<lparr>m_mem := m', m_world := w'\<rparr>" lib "[?it]"] assms(1) log
    by (auto simp: item_bytes_def)
  then have rew: "lc_log (the_cd c s1) = Some l1" "plain_log (CL_ReInit l1)" "tape (CL_ReInit l1) = [Some (read_mem m' d ?len)]"
    "tape_at (CL_ReInit l1) = 0"
    using cl.rewind [of l1] assms(2) by (simp_all add: in_cd_def)
  have "pm_size lib comm * e * 4 \<noteq> ?len" using assms(5,6) by simp
  then have stop: "CL_ReadData (pm_size lib comm * e * 4) (CL_ReInit l1) = Inl (ErrorMessage ''Wrong length when read data from logs'')"
    using rew by (intro CL_ReadData_length [where bs = "read_mem m' d ?len"]) (simp_all add: plain_log_def)
  have "in_cd c kRelaxedCDRead (CL_ReInit l1) (RecordLog ?len t)" using assms(4) rew(1) by simp
  then show ?thesis
    using stop len by (simp add: in_cd_def MPI_Allgather_def logged_def dispatch_def Let_def CD_ReadData_def)
qed

theorem Allgather_replay_stops_witness:
  "\<exists>s1. MPI_Allgather sample_lib 16 1 0 32 1 0 0 (sample_mpi kRelaxedCDGen (CommLog_of kGenerateLog 1 1 1) 6) = Inr (s1, 0) \<and>
    MPI_Allgather sample_lib 16 1 0 32 1 0 0 (sample_mpi kRelaxedCDRead (CL_ReInit (the (lc_log (the_cd 0 s1)))) 7) =
      Inl (ErrorMessage ''Wrong length when read data from logs'')"
proof -
  let ?l = "CommLog_of kGenerateLog 1 1 1"
  let ?s = "sample_mpi kRelaxedCDGen ?l 6"
  have l: "plain_log ?l" "tape ?l = []" using CommLog_of_ok by simp_all
  then have s: "in_cd 0 kRelaxedCDGen ?l ?s" by (intro in_cd_sample) simp
  let ?it = "Payload 32 1 0" and ?s' = "(RecordLog 1 ?s)\<lparr>m_world := 7\<rparr>"
  have s': "in_cd 0 kRelaxedCDGen ?l ?s'" using s by simp
  then obtain s1 l1 where s1: "log_items sample_lib 0 [?it] ?s' = Inr s1" "in_cd 0 kRelaxedCDGen l1 s1"
    using log_items_spec by blast
  have run: "MPI_Allgather sample_lib 16 1 0 32 1 0 0 ?s = Inr (s1, 0)"
  proof -
    have "pmpi sample_lib (PMPI_Allgather 16 1 0 32 1 0 0) (RecordLog 1 ?s) = Inr (?s', 0)"
      by (simp add: pmpi_def sample_lib_def sample_mpi_def RecordLog_def)
    moreover have "CurrentCD (RecordLog 1 ?s) = Inr (Some 0)" "lc_mode (the_cd 0 (RecordLog 1 ?s)) = kRelaxedCDGen"
      using s in_cd_frame(3) [of 0 kRelaxedCDGen ?l 1 ?s] by (simp_all add: in_cd_def)
    ultimately show ?thesis using s1(1)
      by (simp add: MPI_Allgather_def logged_def dispatch_def call_and_log_def Let_def int_size_def)
  qed
  have "in_cd 0 kRelaxedCDRead (CL_ReInit (the (lc_log (the_cd 0 s1)))) (sample_mpi kRelaxedCDRead (CL_ReInit (the (lc_log (the_cd 0 s1)))) 7)"
    using s1(2) cl.rewind by (intro in_cd_sample) (auto simp: in_cd_def)
  from Allgather_replay_stops [OF s l(2) run this] run show ?thesis by simp
qed

end
