(* ===== verification/MPI_Request.thy ===== *)
theory MPI_Request
  imports MPI_Replay CD_Core
begin

text \<open>
  The wrappers of non-blocking MPI calls (\<open>cd_mpiwrapper.cc\<close>) and the waiting loops of
  \<open>cd_comm_internal.cc\<close>.  A request is identified by the address of its variable, four bytes per
  entry of an array.  \<open>CD::CheckMailBox\<close>, which reads one-sided windows of other tasks and may set
  the local rollback point, is the argument \<open>mailbox\<close>; \<open>CheckIntraCDMsg\<close> always answers no.
  An escalation leaves the wrapper by \<open>longjmp\<close>; it is the outcome \<open>Unmodelled\<close> here, and the
  escalation itself is in the theory of the execution of domains.
\<close>

section \<open>Starting a call\<close>

definition request_at :: "uint64 \<Rightarrow> int \<Rightarrow> uint64" where
  "request_at reqs i = reqs + of_int (4 * i)"

definition incomplete_entry :: "uint64 \<Rightarrow> nat \<Rightarrow> int \<Rightarrow> int \<Rightarrow> int \<Rightarrow> uint64 \<Rightarrow> bool \<Rightarrow> IncompleteLogEntry" where
  "incomplete_entry addr len task tag comm flag isrecv =
     \<lparr>ie_addr = addr, ie_length = len, ie_taskID = of_int task, ie_tag = tag, ie_comm = comm, ie_flag = flag,
      ie_complete = False, ie_isrecv = isrecv, ie_intra_cd_msg = False\<rparr>"

definition call_then ::
  "'w mpi_lib \<Rightarrow> mpi_call \<Rightarrow> ('w mpi_state \<Rightarrow> 'w mpi_state outcome) \<Rightarrow> 'w mpi_state \<Rightarrow> ('w mpi_state \<times> int) outcome" where
  "call_then lib call f s = bind_out (pmpi lib call s) (\<lambda>(s, mpi_ret). bind_out (f s) (\<lambda>s. Inr (s, mpi_ret)))"

text \<open>In a strict domain the entry has the size of the type as its length, whatever the count.\<close>

definition MPI_Isend ::
  "'w mpi_lib \<Rightarrow> uint64 \<Rightarrow> nat \<Rightarrow> int \<Rightarrow> int \<Rightarrow> int \<Rightarrow> int \<Rightarrow> uint64 \<Rightarrow> 'w mpi_state \<Rightarrow> ('w mpi_state \<times> int) outcome" where
  "MPI_Isend lib buf count datatype dest tag comm request =
     (let call = PMPI_Isend buf count datatype dest tag comm request;
          length = pm_type_size lib datatype;
          gen = (\<lambda>c. call_then lib call
                   (CD_LogData c buf 0 (of_int dest) False request False False False (- 1) (pm_comm_null lib))) in
      dispatch (pmpi lib call)
        (\<lambda>c. call_then lib call (\<lambda>s. Inr (set_cd c (\<lambda>d. d\<lparr>lc_incomplete :=
            lc_incomplete d @ [incomplete_entry buf length dest tag comm request False]\<rparr>) s)))
        gen
        (\<lambda>c s. bind_out (CD_ProbeData c 0 s) (\<lambda>(s, ret).
           if ret = kCommLogCommLogModeFlip then gen c s
           else if ret = kCommLogError then Inl (ErrorMessage ''Incomplete log entry for non-blocking communication'')
           else Inr (s, 0))))"

definition MPI_Irecv ::
  "'w mpi_lib \<Rightarrow> uint64 \<Rightarrow> nat \<Rightarrow> int \<Rightarrow> int \<Rightarrow> int \<Rightarrow> int \<Rightarrow> uint64 \<Rightarrow> 'w mpi_state \<Rightarrow> ('w mpi_state \<times> int) outcome" where
  "MPI_Irecv lib buf count datatype src tag comm request s =
     bind_out (int_size (count * pm_type_size lib datatype)) (\<lambda>len.
     let call = PMPI_Irecv buf count datatype src tag comm request;
         length = pm_type_size lib datatype;
         gen = (\<lambda>c. call_then lib call (CD_LogData c buf len (of_int src) False request True False False tag comm)) in
      dispatch (pmpi lib call)
        (\<lambda>c. call_then lib call (\<lambda>s. Inr (set_cd c (\<lambda>d. d\<lparr>lc_incomplete :=
            lc_incomplete d @ [incomplete_entry buf length src tag comm request True]\<rparr>) s)))
        gen
        (\<lambda>c s. bind_out (CD_ReadData c buf len s) (\<lambda>(s, ret).
           if ret = kCommLogCommLogModeFlip then gen c s
           else if ret = kCommLogError then Inl (ErrorMessage ''Incomplete log entry for non-blocking communication'')
           else Inr (s, 0)))
        (RecordLog len s))"

section \<open>Testing requests\<close>

definition test_request :: "'w mpi_lib \<Rightarrow> uint64 \<Rightarrow> uint64 \<Rightarrow> uint64 \<Rightarrow> 'w mpi_state \<Rightarrow> ('w mpi_state \<times> int) outcome" where
  "test_request lib request flag status s =
     (let (ret, fl, m, w) = pm_test lib request (Some status) (m_mem s) (m_world s) in
      Inr (s\<lparr>m_mem := write_mem flag (int_bytes fl) m, m_world := w\<rparr>, ret))"

fun probe_and_log :: "nat \<Rightarrow> uint64 list \<Rightarrow> 'w mpi_state \<Rightarrow> 'w mpi_state outcome" where
  "probe_and_log c [] s = Inr s"
| "probe_and_log c (f # fs) s = bind_out (CD_ProbeAndLogData f c s) (probe_and_log c fs)"

text \<open>The events of completed requests are consumed whatever the log answers.\<close>

primrec probe_events :: "nat \<Rightarrow> nat \<Rightarrow> 'w mpi_state \<Rightarrow> 'w mpi_state outcome" where
  "probe_events c 0 s = Inr s"
| "probe_events c (Suc n) s = bind_out (CD_ProbeData c 0 s) (\<lambda>(s, _). probe_events c n s)"

definition log_int :: "'w mpi_lib \<Rightarrow> nat \<Rightarrow> uint64 \<Rightarrow> bool \<Rightarrow> 'w mpi_state \<Rightarrow> 'w mpi_state outcome" where
  "log_int lib c a isrepeated = CD_LogData c a 4 0 True 0 False isrepeated False (- 1) (pm_comm_null lib)"

definition array_requests :: "uint64 \<Rightarrow> nat \<Rightarrow> uint64 list" where
  "array_requests reqs count = map (\<lambda>i. request_at reqs (int i)) [0..<count]"

definition indexed_requests :: "uint64 \<Rightarrow> uint64 \<Rightarrow> int \<Rightarrow> memory \<Rightarrow> uint64 list" where
  "indexed_requests reqs indices n m = map (\<lambda>i. request_at reqs (array_int indices i m)) [0..<nat n]"

text \<open>
  The pattern of the test wrappers: \<open>test\<close> calls the library, \<open>hit\<close> says whether something has
  completed, \<open>done\<close> gives the completed requests, \<open>found\<close> what is logged then, \<open>head\<close> the
  number whose value is logged first, and \<open>events\<close> what the replay consumes.
\<close>

definition testing ::
  "'w mpi_lib \<Rightarrow> ('w mpi_state \<Rightarrow> ('w mpi_state \<times> int) outcome) \<Rightarrow> uint64 \<Rightarrow> (memory \<Rightarrow> bool) \<Rightarrow> (memory \<Rightarrow> uint64 list) \<Rightarrow>
   (nat \<Rightarrow> 'w mpi_state \<Rightarrow> 'w mpi_state outcome) \<Rightarrow> (nat \<Rightarrow> 'w mpi_state \<Rightarrow> 'w mpi_state outcome) \<Rightarrow>
   'w mpi_state \<Rightarrow> ('w mpi_state \<times> int) outcome" where
  "testing lib test head hit done found events =
     (let gen = (\<lambda>c s. bind_out (test s) (\<lambda>(s, mpi_ret).
            bind_out
              (if hit (m_mem s) then
                 bind_out (log_int lib c head False s) (\<lambda>s.
                 bind_out (found c s) (\<lambda>s. probe_and_log c (done (m_mem s)) s))
               else log_int lib c head True s)
              (\<lambda>s. Inr (s, mpi_ret)))) in
      dispatch test
        (\<lambda>c s. bind_out (test s) (\<lambda>(s, mpi_ret).
           bind_out (if hit (m_mem s) then probe_and_log c (done (m_mem s)) s else Inr s) (\<lambda>s. Inr (s, mpi_ret))))
        gen
        (\<lambda>c s. bind_out (CD_ReadData c head 4 s) (\<lambda>(s, ret).
           if ret = kCommLogOK then
             bind_out (if hit (m_mem s) then events c s else Inr s) (\<lambda>s. Inr (s, 0))
           else if ret = kCommLogCommLogModeFlip then gen c s
           else if ret = kCommLogError then Inl (ErrorMessage ''Incomplete log entry for non-blocking communication'')
           else Inr (s, 0))))"

definition MPI_Test :: "'w mpi_lib \<Rightarrow> uint64 \<Rightarrow> uint64 \<Rightarrow> uint64 \<Rightarrow> 'w mpi_state \<Rightarrow> ('w mpi_state \<times> int) outcome" where
  "MPI_Test lib request flag status =
     testing lib (test_request lib request flag status) flag (\<lambda>m. mem_int flag m = 1) (\<lambda>m. [request])
       (\<lambda>c s. Inr s) (\<lambda>c. probe_events c 1)"

definition MPI_Testall :: "'w mpi_lib \<Rightarrow> nat \<Rightarrow> uint64 \<Rightarrow> uint64 \<Rightarrow> uint64 \<Rightarrow> 'w mpi_state \<Rightarrow> ('w mpi_state \<times> int) outcome" where
  "MPI_Testall lib count reqs flag statuses =
     testing lib (pmpi lib (PMPI_Testall count reqs flag statuses)) flag (\<lambda>m. mem_int flag m = 1)
       (\<lambda>m. array_requests reqs count) (\<lambda>c s. Inr s) (\<lambda>c. probe_events c count)"

definition MPI_Testany ::
  "'w mpi_lib \<Rightarrow> nat \<Rightarrow> uint64 \<Rightarrow> uint64 \<Rightarrow> uint64 \<Rightarrow> uint64 \<Rightarrow> 'w mpi_state \<Rightarrow> ('w mpi_state \<times> int) outcome" where
  "MPI_Testany lib count reqs index flag status =
     testing lib (pmpi lib (PMPI_Testany count reqs index flag status)) flag (\<lambda>m. mem_int flag m = 1)
       (\<lambda>m. [request_at reqs (mem_int index m)]) (\<lambda>c. log_int lib c index False)
       (\<lambda>c s. bind_out (CD_ReadData c index 4 s) (\<lambda>(s, _). probe_events c 1 s))"

text \<open>The indices of the completed requests are not logged.\<close>

definition MPI_Testsome ::
  "'w mpi_lib \<Rightarrow> nat \<Rightarrow> uint64 \<Rightarrow> uint64 \<Rightarrow> uint64 \<Rightarrow> uint64 \<Rightarrow> 'w mpi_state \<Rightarrow> ('w mpi_state \<times> int) outcome" where
  "MPI_Testsome lib incount reqs outcount indices statuses =
     testing lib (pmpi lib (PMPI_Testsome incount reqs outcount indices statuses)) outcount (\<lambda>m. mem_int outcount m > 0)
       (\<lambda>m. indexed_requests reqs indices (mem_int outcount m) m) (\<lambda>c s. Inr s)
       (\<lambda>c s. probe_events c (nat (mem_int outcount (m_mem s))) s)"

section \<open>Waiting loops\<close>

text \<open>
  One turn of the loop of \<open>BlockUntilValid\<close> for a receive: after the mailbox the rollback point is
  read, and after ten million turns it is forced to the level of the domain.
\<close>

definition MPI_ERR_NEED_ESCALATE :: int where "MPI_ERR_NEED_ESCALATE = 0xFF00"

definition poll_rollback :: "('w \<Rightarrow> uint32 \<Rightarrow> 'w \<times> uint32) \<Rightarrow> nat \<Rightarrow> uint32 \<Rightarrow> 'w \<Rightarrow> uint32 \<Rightarrow> 'w \<times> uint32" where
  "poll_rollback mailbox iters level w rb =
     (let (w, rb) = mailbox w rb in
      if iters > 10000000 then (w, if level < rb then level else rb) else (w, rb))"

partial_function (option) block_loop ::
  "'w mpi_lib \<Rightarrow> ('w \<Rightarrow> uint32 \<Rightarrow> 'w \<times> uint32) \<Rightarrow> uint64 \<Rightarrow> uint64 option \<Rightarrow> bool \<Rightarrow> uint32 \<Rightarrow> nat \<Rightarrow>
   memory \<Rightarrow> 'w \<Rightarrow> uint32 \<Rightarrow> (bool \<times> int \<times> memory \<times> 'w \<times> uint32) option" where
  "block_loop lib mailbox request status is_send level iters m w rb =
     (case pm_test lib request status m w of (ret, flag, m, w) \<Rightarrow>
        if flag > 0 then Some (True, ret, m, w, rb)
        else if is_send then block_loop lib mailbox request status is_send level (Suc iters) m w rb
        else
          (case poll_rollback mailbox (Suc iters) level w rb of (w, rb) \<Rightarrow>
             if rb \<le> level then Some (False, MPI_ERR_NEED_ESCALATE, m, w, rb)
             else block_loop lib mailbox request status is_send level (Suc iters) m w rb))"

definition BlockUntilValid ::
  "'w mpi_lib \<Rightarrow> ('w \<Rightarrow> uint32 \<Rightarrow> 'w \<times> uint32) \<Rightarrow> uint64 \<Rightarrow> uint64 option \<Rightarrow> nat \<Rightarrow> 'w mpi_state \<Rightarrow> ('w mpi_state \<times> int) outcome" where
  "BlockUntilValid lib mailbox request status c s =
     (case block_loop lib mailbox request status (IsSend request c s) (of_nat c) 0 (m_mem s) (m_world s) (m_rollback_point s) of
        None \<Rightarrow> Inl (Blocked ''BlockUntilValid'')
      | Some (done, ret, m, w, rb) \<Rightarrow>
          let s = s\<lparr>m_mem := m, m_world := w, m_rollback_point := rb\<rparr> in
          Inr (if done then fst (DeleteIncompleteLog request c s) else s, ret))"

definition status_at :: "uint64 \<Rightarrow> nat \<Rightarrow> uint64" where
  "status_at statuses i = statuses + of_nat (20 * i)"

text \<open>\<open>valid_reqs\<close> collects the requests that the first test finds complete.\<close>

fun collect_valid :: "'w mpi_lib \<Rightarrow> uint64 \<Rightarrow> uint64 \<Rightarrow> nat list \<Rightarrow> memory \<Rightarrow> 'w \<Rightarrow> nat list \<times> memory \<times> 'w" where
  "collect_valid lib reqs statuses [] m w = ([], m, w)"
| "collect_valid lib reqs statuses (i # is) m w =
     (if pm_null lib (request_at reqs (int i)) m then collect_valid lib reqs statuses is m w
      else
        let (_, flag, m, w) = pm_test lib (request_at reqs (int i)) (Some (status_at statuses i)) m w;
            (valid, m, w) = collect_valid lib reqs statuses is m w in
        (if flag > 0 then i # valid else valid, m, w))"

fun retest :: "'w mpi_lib \<Rightarrow> uint64 \<Rightarrow> uint64 \<Rightarrow> nat list \<Rightarrow> memory \<Rightarrow> 'w \<Rightarrow> nat list \<times> memory \<times> 'w" where
  "retest lib reqs statuses [] m w = ([], m, w)"
| "retest lib reqs statuses (i # is) m w =
     (let (_, flag, m, w) = pm_test lib (request_at reqs (int i)) (Some (status_at statuses i)) m w;
          (valid, m, w) = retest lib reqs statuses is m w in
      (if flag > 0 then valid else i # valid, m, w))"

partial_function (option) blockall_loop ::
  "'w mpi_lib \<Rightarrow> ('w \<Rightarrow> uint32 \<Rightarrow> 'w \<times> uint32) \<Rightarrow> uint64 \<Rightarrow> uint64 \<Rightarrow> bool \<Rightarrow> uint32 \<Rightarrow> nat list \<Rightarrow>
   memory \<Rightarrow> 'w \<Rightarrow> uint32 \<Rightarrow> (bool \<times> memory \<times> 'w \<times> uint32) option" where
  "blockall_loop lib mailbox reqs statuses any_recv level valid m w rb =
     (case retest lib reqs statuses valid m w of (valid, m, w) \<Rightarrow>
        if valid = [] then Some (True, m, w, rb)
        else if any_recv then
          (case mailbox w rb of (w, rb) \<Rightarrow>
             if rb \<le> level then Some (False, m, w, rb)
             else blockall_loop lib mailbox reqs statuses any_recv level valid m w rb)
        else blockall_loop lib mailbox reqs statuses any_recv level valid m w rb)"

fun delete_all :: "uint64 list \<Rightarrow> nat \<Rightarrow> 'w mpi_state \<Rightarrow> 'w mpi_state" where
  "delete_all [] c s = s"
| "delete_all (f # fs) c s = delete_all fs c (fst (DeleteIncompleteLog f c s))"

definition BlockallUntilValid ::
  "'w mpi_lib \<Rightarrow> ('w \<Rightarrow> uint32 \<Rightarrow> 'w \<times> uint32) \<Rightarrow> nat \<Rightarrow> uint64 \<Rightarrow> uint64 \<Rightarrow> nat \<Rightarrow> 'w mpi_state \<Rightarrow> ('w mpi_state \<times> int) outcome" where
  "BlockallUntilValid lib mailbox count reqs statuses c s =
     (let any_recv = list_ex (\<lambda>f. \<not> IsSend f c s) (array_requests reqs count);
          (valid, m, w) = collect_valid lib reqs statuses [0..<count] (m_mem s) (m_world s);
          s = s\<lparr>m_mem := m, m_world := w\<rparr> in
      if valid \<noteq> [] then
        (case blockall_loop lib mailbox reqs statuses any_recv (of_nat c) valid m w (m_rollback_point s) of
           None \<Rightarrow> Inl (Blocked ''BlockallUntilValid'')
         | Some (done, m, w, rb) \<Rightarrow>
             let s = s\<lparr>m_mem := m, m_world := w, m_rollback_point := rb\<rparr> in
             Inr (if done then (delete_all (array_requests reqs count) c s, - 1) else (s, MPI_ERR_NEED_ESCALATE)))
      else Inr (delete_all (array_requests reqs count) c s, - 1))"

section \<open>Waiting for requests\<close>

definition escalating :: "('w mpi_state \<times> int) outcome \<Rightarrow> ('w mpi_state \<times> int) outcome" where
  "escalating m = bind_out m (\<lambda>(s, mpi_ret).
     if mpi_ret = MPI_ERR_NEED_ESCALATE then Inl (Unmodelled ''Escalate'') else Inr (s, mpi_ret))"

definition MPI_Wait ::
  "'w mpi_lib \<Rightarrow> ('w \<Rightarrow> uint32 \<Rightarrow> 'w \<times> uint32) \<Rightarrow> uint64 \<Rightarrow> uint64 \<Rightarrow> 'w mpi_state \<Rightarrow> ('w mpi_state \<times> int) outcome" where
  "MPI_Wait lib mailbox request status s = escalating
     (dispatch (pmpi lib (PMPI_Wait request status))
        (BlockUntilValid lib mailbox request (Some status))
        (\<lambda>c s. bind_out (BlockUntilValid lib mailbox request (Some status) c s) (\<lambda>(s, mpi_ret).
           bind_out (assert_out ''need_reexec() == false'' (m_rollback_point s = INVALID_ROLLBACK_POINT)) (\<lambda>_.
           bind_out (CD_ProbeAndLogData request c s) (\<lambda>s. Inr (s, mpi_ret)))))
        (\<lambda>c s. bind_out (CD_ProbeData c 0 s) (\<lambda>(s, ret).
           if ret = kCommLogCommLogModeFlip then
             call_then lib (PMPI_Wait request status) (CD_ProbeAndLogData request c) s
           else if ret = kCommLogError then Inl (ErrorMessage ''Incomplete log entry for non-blocking communication'')
           else Inr (s, 0))) s)"

text \<open>The replay of \<open>MPI_Waitall\<close> consumes one event per request and keeps the last answer.\<close>

primrec waitall_events :: "nat \<Rightarrow> nat \<Rightarrow> CommLogErrT \<Rightarrow> 'w mpi_state \<Rightarrow> ('w mpi_state \<times> CommLogErrT) outcome" where
  "waitall_events c 0 ret s = Inr (s, ret)"
| "waitall_events c (Suc n) ret s =
     bind_out (CD_ProbeData c 0 s) (\<lambda>(s, ret).
       if ret = kCommLogCommLogModeFlip then Inr (s, ret) else waitall_events c n ret s)"

definition MPI_Waitall ::
  "'w mpi_lib \<Rightarrow> ('w \<Rightarrow> uint32 \<Rightarrow> 'w \<times> uint32) \<Rightarrow> nat \<Rightarrow> uint64 \<Rightarrow> uint64 \<Rightarrow> 'w mpi_state \<Rightarrow> ('w mpi_state \<times> int) outcome" where
  "MPI_Waitall lib mailbox count reqs statuses s =
     (let call = PMPI_Waitall count reqs statuses;
          gen = (\<lambda>c. call_then lib call (probe_and_log c (array_requests reqs count))) in
      bind_out (assert_out ''count > 0'' (count > 0)) (\<lambda>_.
      escalating (dispatch (pmpi lib call)
        (BlockallUntilValid lib mailbox count reqs statuses)
        gen
        (\<lambda>c s. bind_out (waitall_events c count kCommLogOK s) (\<lambda>(s, ret).
           if ret = kCommLogCommLogModeFlip then gen c s
           else if ret = kCommLogError then Inl (ErrorMessage ''Incomplete log entry for non-blocking communication'')
           else Inr (s, 0))) s)))"

definition MPI_Waitany ::
  "'w mpi_lib \<Rightarrow> nat \<Rightarrow> uint64 \<Rightarrow> uint64 \<Rightarrow> uint64 \<Rightarrow> 'w mpi_state \<Rightarrow> ('w mpi_state \<times> int) outcome" where
  "MPI_Waitany lib count reqs index status =
     (let call = PMPI_Waitany count reqs index status;
          log = (\<lambda>c s. CD_ProbeAndLogData (request_at reqs (mem_int index (m_mem s))) c s);
          gen = (\<lambda>c. call_then lib call (\<lambda>s. bind_out (log_int lib c index False s) (log c))) in
      dispatch (pmpi lib call)
        (\<lambda>c. call_then lib call (log c))
        gen
        (\<lambda>c s. bind_out (CD_ReadData c index 4 s) (\<lambda>(s, ret).
           if ret = kCommLogOK then bind_out (CD_ProbeData c 0 s) (\<lambda>(s, _). Inr (s, 0))
           else if ret = kCommLogCommLogModeFlip then gen c s
           else if ret = kCommLogError then Inl (ErrorMessage ''Incomplete log entry for non-blocking communication'')
           else Inr (s, 0))))"

text \<open>A negative count (\<open>MPI_UNDEFINED\<close>, when no request is active) makes an enormous length.\<close>

definition indices_size :: "uint64 \<Rightarrow> memory \<Rightarrow> nat outcome" where
  "indices_size outcount m =
     (if mem_int outcount m < 0 then Inl (OutOfRange ''array_of_indices'') else Inr (nat (mem_int outcount m) * 4))"

primrec read_events :: "nat \<Rightarrow> nat \<Rightarrow> 'w mpi_state \<Rightarrow> 'w mpi_state outcome" where
  "read_events c 0 s = Inr s"
| "read_events c (Suc n) s = bind_out (CD_ReadData c 0 0 s) (\<lambda>(s, _). read_events c n s)"

definition MPI_Waitsome ::
  "'w mpi_lib \<Rightarrow> nat \<Rightarrow> uint64 \<Rightarrow> uint64 \<Rightarrow> uint64 \<Rightarrow> uint64 \<Rightarrow> 'w mpi_state \<Rightarrow> ('w mpi_state \<times> int) outcome" where
  "MPI_Waitsome lib incount reqs outcount indices statuses =
     (let call = PMPI_Waitsome incount reqs outcount indices statuses;
          log = (\<lambda>c s. probe_and_log c (indexed_requests reqs indices (mem_int outcount (m_mem s)) (m_mem s)) s);
          gen = (\<lambda>c. call_then lib call (\<lambda>s.
                   bind_out (log_int lib c outcount False s) (\<lambda>s.
                   bind_out (indices_size outcount (m_mem s)) (\<lambda>n.
                   bind_out (CD_LogData c indices n 0 True 0 False False False (- 1) (pm_comm_null lib) s) (log c))))) in
      dispatch (pmpi lib call)
        (\<lambda>c. call_then lib call (log c))
        gen
        (\<lambda>c s. bind_out (CD_ReadData c outcount 4 s) (\<lambda>(s, ret).
           if ret = kCommLogOK then
             bind_out (indices_size outcount (m_mem s)) (\<lambda>n.
             bind_out (CD_ReadData c indices n s) (\<lambda>(s, _).
             bind_out (read_events c (nat (mem_int outcount (m_mem s))) s) (\<lambda>s. Inr (s, 0))))
           else if ret = kCommLogCommLogModeFlip then gen c s
           else if ret = kCommLogError then Inl (ErrorMessage ''Incomplete log entry for non-blocking communication'')
           else Inr (s, 0))))"

text \<open>In a strict domain \<open>MPI_Allreduce\<close> waits on a request in a local variable, at the address \<open>req\<close>.\<close>

definition MPI_Allreduce ::
  "'w mpi_lib \<Rightarrow> ('w \<Rightarrow> uint32 \<Rightarrow> 'w \<times> uint32) \<Rightarrow> uint64 \<Rightarrow> uint64 \<Rightarrow> uint64 \<Rightarrow> nat \<Rightarrow> int \<Rightarrow> int \<Rightarrow> int \<Rightarrow>
   'w mpi_state \<Rightarrow> ('w mpi_state \<times> int) outcome" where
  "MPI_Allreduce lib mailbox req sendbuf recvbuf count datatype op comm s =
     bind_out (int_size (count * pm_type_size lib datatype)) (\<lambda>len.
     let call = PMPI_Allreduce sendbuf recvbuf count datatype op comm; it = Payload recvbuf len (pm_rank lib comm) in
       escalating (dispatch (pmpi lib call)
         (\<lambda>c s. bind_out (pmpi lib (PMPI_Iallreduce sendbuf recvbuf count datatype op comm req) s) (\<lambda>(s, _).
            BlockUntilValid lib mailbox req None c s))
         (call_and_log lib call [it])
         (\<lambda>c s. bind_out (replay_item c it s) (\<lambda>(s, ret).
            if ret = kCommLogCommLogModeFlip then call_and_log lib call [it] c s else Inr (s, 0)))
         (RecordLog len s)))"

section \<open>What the waiting loops do\<close>

lemma block_loop_receive:
  assumes "10000000 \<le> k + iters"
  shows "\<exists>d ret m' w' rb'. block_loop lib mailbox request status False level iters m w rb = Some (d, ret, m', w', rb') \<and>
    (d \<or> ret = MPI_ERR_NEED_ESCALATE \<and> rb' \<le> level)"
  using assms
proof (induction k arbitrary: iters m w rb)
  case 0
  obtain ret flag m1 w1 where "pm_test lib request status m w = (ret, flag, m1, w1)" by (metis prod_cases4)
  moreover obtain w2 rb2 where "mailbox w1 rb = (w2, rb2)" by fastforce
  moreover have "Suc iters > 10000000" using 0 by simp
  ultimately show ?case
    by (subst block_loop.simps) (auto simp: poll_rollback_def)
next
  case (Suc k)
  obtain ret flag m1 w1 where t: "pm_test lib request status m w = (ret, flag, m1, w1)" by (metis prod_cases4)
  obtain w2 rb2 where p: "poll_rollback mailbox (Suc iters) level w1 rb = (w2, rb2)" by fastforce
  have "10000000 \<le> k + Suc iters" using Suc.prems by simp
  from Suc.IH [OF this, of m1 w2 rb2] show ?case
    by (subst block_loop.simps) (auto simp: t p)
qed

lemma DeleteIncompleteLog_rollback [simp]: "m_rollback_point (fst (DeleteIncompleteLog f c s)) = m_rollback_point s"
  by (simp add: DeleteIncompleteLog_def set_cd_def split: option.splits)

section \<open>Properties\<close>



lemma block_loop_send:
  assumes "block_loop lib mailbox request status is_send level iters m w rb = Some y"
    and "\<forall>m w. fst (snd (pm_test lib request status m w)) \<le> 0"
  shows "\<not> is_send"
proof -
  have "(\<forall>m w. fst (snd (pm_test lib request status m w)) \<le> 0) \<longrightarrow> \<not> is_send"
  proof (rule block_loop.raw_induct [where P = "\<lambda>lib mailbox request status is_send level iters m w rb y.
        (\<forall>m w. fst (snd (pm_test lib request status m w)) \<le> 0) \<longrightarrow> \<not> is_send", OF _ assms(1)], rule impI)
    fix f lib mailbox request status is_send level iters m w rb y
    assume IH: "\<And>lib mailbox request status is_send level iters m w rb y.
        f lib mailbox request status is_send level iters m w rb = Some y \<Longrightarrow>
        (\<forall>m w. fst (snd (pm_test lib request status m w)) \<le> 0) \<longrightarrow> \<not> is_send"
      and run: "(case pm_test lib request status m w of (ret, flag, m, w) \<Rightarrow>
        if flag > 0 then Some (True, ret, m, w, rb)
        else if is_send then f lib mailbox request status is_send level (Suc iters) m w rb
        else (case poll_rollback mailbox (Suc iters) level w rb of (w, rb) \<Rightarrow>
             if rb \<le> level then Some (False, MPI_ERR_NEED_ESCALATE, m, w, rb)
             else f lib mailbox request status is_send level (Suc iters) m w rb)) = Some y"
      and no: "\<forall>m w. fst (snd (pm_test lib request status m w)) \<le> 0"
    obtain ret flag m1 w1 where t: "pm_test lib request status m w = (ret, flag, m1, w1)" by (metis prod_cases4)
    then have "flag \<le> 0" using no by (metis fst_conv snd_conv)
    then have "is_send \<Longrightarrow> f lib mailbox request status is_send level (Suc iters) m1 w1 rb = Some y" using run t by simp
    from IH [OF this] no show "\<not> is_send" by blast
  qed
  then show ?thesis using assms(2) by simp
qed

text \<open>
  Waiting for a send never gives up and never looks at the mailbox: while the tests of a recorded
  send fail, the loop does not end, whatever rollback another task has asked for.
\<close>

theorem send_wait_ignores_rollback:
  assumes "IsSend request c s" "\<forall>m w. fst (snd (pm_test lib request status m w)) \<le> 0"
  shows "BlockUntilValid lib mailbox request status c s = Inl (Blocked ''BlockUntilValid'')"
proof -
  have "block_loop lib mailbox request status True (of_nat c) 0 (m_mem s) (m_world s) (m_rollback_point s) = None"
    using block_loop_send [OF _ assms(2), of mailbox True] by (cases "block_loop lib mailbox request status True (of_nat c) 0 (m_mem s) (m_world s) (m_rollback_point s)") auto
  then show ?thesis using assms(1) by (simp add: BlockUntilValid_def)
qed

definition stuck_lib :: "nat mpi_lib" where
  "stuck_lib = sample_lib\<lparr>pm_test := \<lambda>req st m w. (0, 0, m, w)\<rparr>"

theorem send_wait_ignores_rollback_witness:
  "BlockUntilValid stuck_lib (\<lambda>w rb. (w, 0)) 40 None 0
     (set_cd 0 (\<lambda>d. d\<lparr>lc_incomplete := [incomplete_entry 16 1 1 5 0 40 False]\<rparr>)
       (sample_mpi kStrictCD (CommLog_of kGenerateLog 1 1 1) 6)) = Inl (Blocked ''BlockUntilValid'')"
  by (rule send_wait_ignores_rollback)
    (simp_all add: IsSend_def set_cd_def sample_mpi_def sample_cd_def incomplete_entry_def stuck_lib_def)

lemma collect_valid_none:
  assumes "\<forall>req st m w. fst (snd (pm_test lib req st m w)) \<le> 0"
  shows "fst (collect_valid lib reqs statuses is m w) = []"
  using assms
proof (induction lib reqs statuses "is" m w rule: collect_valid.induct)
  case (2 lib reqs statuses i "is" m w)
  obtain ret flag m1 w1 where t: "pm_test lib (request_at reqs (int i)) (Some (status_at statuses i)) m w = (ret, flag, m1, w1)"
    by (metis prod_cases4)
  then have "flag \<le> 0" using 2(3) by (metis fst_conv snd_conv)
  then show ?case using 2 t by (auto simp: split_beta)
qed simp

text \<open>
  \<open>MPI_Waitall\<close> in a strict domain does not wait: when the first test finds no request complete,
  it returns at once with an error code, with the entries of the pending requests deleted, so the
  buffers are read before the messages arrive and the runtime forgets the requests.
\<close>

theorem strict_waitall_returns_pending:
  assumes "CurrentCD s = Inr (Some c)" "lc_mode (the_cd c s) = kStrictCD" "0 < count"
    and "\<forall>req st m w. fst (snd (pm_test lib req st m w)) \<le> 0"
  shows "\<exists>m w. MPI_Waitall lib mailbox count reqs statuses s =
    Inr (delete_all (array_requests reqs count) c (s\<lparr>m_mem := m, m_world := w\<rparr>), - 1)"
proof -
  obtain m w where "collect_valid lib reqs statuses [0..<count] (m_mem s) (m_world s) = ([], m, w)"
    using collect_valid_none [OF assms(4)] by (metis prod.collapse)
  then have "BlockallUntilValid lib mailbox count reqs statuses c s =
      Inr (delete_all (array_requests reqs count) c (s\<lparr>m_mem := m, m_world := w\<rparr>), - 1)"
    by (simp add: BlockallUntilValid_def Let_def)
  then show ?thesis
    using assms(1-3) by (auto simp: MPI_Waitall_def dispatch_def escalating_def MPI_ERR_NEED_ESCALATE_def Let_def)
qed

theorem strict_waitall_returns_pending_witness:
  "\<exists>m w. MPI_Waitall stuck_lib Pair 2 40 0 (sample_mpi kStrictCD (CommLog_of kGenerateLog 1 1 1) 6) =
    Inr (delete_all (array_requests 40 2) 0 ((sample_mpi kStrictCD (CommLog_of kGenerateLog 1 1 1) 6)\<lparr>m_mem := m, m_world := w\<rparr>), - 1)"
  by (rule strict_waitall_returns_pending)
    (simp_all add: sample_mpi_def sample_cd_def CurrentCD_def GetCurrentCD_def log_path_def stuck_lib_def)

section \<open>A receive from its start to its completion\<close>

lemma find_incomplete_append:
  "find_incomplete f (xs @ ys) = (case find_incomplete f xs of Some i \<Rightarrow> Some i | None \<Rightarrow> map_option ((+) (length xs)) (find_incomplete f ys))"
proof (induction xs)
  case Nil
  show ?case by (cases "find_incomplete f ys") simp_all
next
  case (Cons x xs)
  then show ?case by (cases "find_incomplete f xs"; cases "find_incomplete f ys") simp_all
qed

lemma search_incomplete_None:
  "(\<And>k. k \<le> c \<Longrightarrow> find_incomplete f (lc_incomplete (the_cd k s)) = None) \<Longrightarrow> search_incomplete f c s = None"
  by (induction c) simp_all

lemma search_incomplete_own:
  "find_incomplete f (lc_incomplete (the_cd c s)) = Some i \<Longrightarrow> search_incomplete f c s = Some (c, i)"
  by (cases c) simp_all

lemma erase_at_append [simp]: "erase_at (length xs) (xs @ [x]) = xs"
  by (simp add: erase_at_def)

definition no_incomplete :: "uint64 \<Rightarrow> nat \<Rightarrow> 'w mpi_state \<Rightarrow> bool" where
  "no_incomplete f c s \<longleftrightarrow> (\<forall>k \<le> c. find_incomplete f (lc_incomplete (the_cd k s)) = None)"

lemma Irecv_gen:
  assumes "in_cd c kRelaxedCDGen l s" "count * pm_type_size lib ty < 2 ^ 31"
    and "pm_call lib (PMPI_Irecv buf count ty src tag comm req) (m_mem s) (m_world s) = Inr (r, m1, w1)"
  defines "len \<equiv> count * pm_type_size lib ty"
    and "e \<equiv> (incomplete_entry buf (count * pm_type_size lib ty) src tag comm req True)"
  obtains s1 l1 where "MPI_Irecv lib buf count ty src tag comm req s = Inr (s1, r)"
    "s1 = set_cd c (\<lambda>d. d\<lparr>lc_log := Some l1, lc_incomplete := lc_incomplete d @ [e]\<rparr>) ((RecordLog len s)\<lparr>m_mem := m1, m_world := w1\<rparr>)"
    "in_cd c kRelaxedCDGen l1 s1" "tape l1 = tape l @ [None]"
    "log_entries l1 = log_entries l @ [\<lparr>le_pos = k_queue_pos l, le_length = len, le_completed = False,
       le_flag = req, le_counter = 1, le_reexec_counter = 0, le_isrepeated = False, le_taskID = of_int src\<rparr>]"
proof -
  let ?s = "(RecordLog len s)\<lparr>m_mem := m1, m_world := w1\<rparr>"
  let ?d = "read_mem m1 buf len" and ?inc = "lc_incomplete (the_cd c s)"
  have l: "c < length (m_cds s)" "lc_log (the_cd c s) = Some l" "plain_log l" "log_ok l" "lc_mode (the_cd c s) = kRelaxedCDGen"
    using assms(1) by (simp_all add: in_cd_def plain_log_def)
  obtain l1 where l1: "CL_LogData buf ?d (of_int src) False req True False False tag comm (l, ?inc) = Inr (l1, ?inc @ [e])"
    "log_ok l1" "tape l1 = tape l @ [None]" "log_entries l1 = log_entries l @ [\<lparr>le_pos = k_queue_pos l, le_length = len,
       le_completed = False, le_flag = req, le_counter = 1, le_reexec_counter = 0, le_isrepeated = False, le_taskID = of_int src\<rparr>]"
    by (rule CL_LogData_spec [OF l(4), of False ?d False req buf "of_int src" True False tag comm ?inc])
      (simp_all add: e_def incomplete_entry_def len_def)
  define s1 where "s1 = set_cd c (\<lambda>d. d\<lparr>lc_log := Some l1, lc_incomplete := lc_incomplete d @ [e]\<rparr>) ?s"
  have pl: "plain_log l1" using l(3) l1(2,4) by (auto simp: plain_log_def)
  have cur: "CurrentCD (RecordLog len s) = Inr (Some c)" "lc_mode (the_cd c (RecordLog len s)) = kRelaxedCDGen"
    using assms(1) in_cd_frame(3) [of c kRelaxedCDGen l len s] by (simp_all add: in_cd_def)
  have cds: "m_cds (RecordLog len s) = m_cds s" by (simp add: RecordLog_def)
  then have "CurrentCD s1 = CurrentCD s"
    using l(1) by (intro CurrentCD_cong) (simp add: s1_def set_cd_def map_update list_update_same_conv)
  then have "in_cd c kRelaxedCDGen l1 s1"
    using assms(1) pl cds l(1,5) by (simp add: in_cd_def s1_def)
  moreover have "MPI_Irecv lib buf count ty src tag comm req s = Inr (s1, r)"
  proof -
    have "CD_LogData c buf len (of_int src) False req True False False tag comm ?s = Inr s1"
      using l1(1) l(2) cds by (simp add: CD_LogData_def s1_def set_cd_def)
    moreover have "pmpi lib (PMPI_Irecv buf count ty src tag comm req) (RecordLog len s) = Inr (?s, r)"
      using assms(3) by (simp add: pmpi_def RecordLog_def)
    ultimately show ?thesis
      using cur assms(2) by (simp add: MPI_Irecv_def dispatch_def call_then_def Let_def int_size_def len_def)
  qed
  ultimately show thesis using that [OF _ s1_def] l1(3,4) by blast
qed

text \<open>
  \<open>MPI_Wait\<close> stops a relaxed domain that generates logs: for a request started by
  \<open>MPI_Irecv\<close> whose message has arrived, the waiting loop deletes the incomplete entry of the
  request, and the logging of the payload that follows finds no entry and reports a wrong control flow.
\<close>

theorem relaxed_wait_stops:
  assumes "in_cd c kRelaxedCDGen l s" "no_incomplete req c s" "count * pm_type_size lib ty < 2 ^ 31"
    and "pm_call lib (PMPI_Irecv buf count ty src tag comm req) (m_mem s) (m_world s) = Inr (r, m1, w1)"
    and "pm_test lib req (Some status) m1 w1 = (r2, 1, m2, w2)" "m_rollback_point s = INVALID_ROLLBACK_POINT"
  shows "bind_out (MPI_Irecv lib buf count ty src tag comm req s) (\<lambda>(s, _). MPI_Wait lib mailbox req status s) =
    Inl (ErrorMessage ''Wrong control flow'')"
proof -
  let ?e = "incomplete_entry buf (count * pm_type_size lib ty) src tag comm req True"
  let ?n = "count * pm_type_size lib ty"
  obtain s1 l1 where s1: "MPI_Irecv lib buf count ty src tag comm req s = Inr (s1, r)"
    "s1 = set_cd c (\<lambda>d. d\<lparr>lc_log := Some l1, lc_incomplete := lc_incomplete d @ [?e]\<rparr>) ((RecordLog ?n s)\<lparr>m_mem := m1, m_world := w1\<rparr>)"
    "in_cd c kRelaxedCDGen l1 s1"
    by (rule Irecv_gen [OF assms(1,3,4)]) (rule that)
  have c: "c < length (m_cds s)" using assms(1) by (simp add: in_cd_def)
  have cds: "m_cds (RecordLog ?n s) = m_cds s" "m_rollback_point (RecordLog ?n s) = m_rollback_point s"
    by (simp_all add: RecordLog_def)
  have find: "find_incomplete req (lc_incomplete (the_cd c s1)) = Some (length (lc_incomplete (the_cd c s)))"
    using assms(2) c cds by (simp add: s1(2) find_incomplete_append no_incomplete_def incomplete_entry_def)
  then have send: "IsSend req c s1 = False"
    using c cds by (simp add: IsSend_def s1(2) incomplete_entry_def)
  have state: "m_mem s1 = m1" "m_world s1 = w1" "m_rollback_point s1 = INVALID_ROLLBACK_POINT"
    using assms(6) cds by (simp_all add: s1(2) set_cd_def)
  define s2 where "s2 = fst (DeleteIncompleteLog req c (s1\<lparr>m_mem := m2, m_world := w2, m_rollback_point := INVALID_ROLLBACK_POINT\<rparr>))"
  have block: "BlockUntilValid lib mailbox req (Some status) c s1 = Inr (s2, r2)"
    unfolding BlockUntilValid_def send state
    by (subst block_loop.simps) (simp add: assms(5) s2_def)
  have s2: "s2 = set_cd c (\<lambda>d. d\<lparr>lc_incomplete := erase_at (length (lc_incomplete (the_cd c s))) (lc_incomplete d)\<rparr>)
      (s1\<lparr>m_mem := m2, m_world := w2, m_rollback_point := INVALID_ROLLBACK_POINT\<rparr>)"
    using find by (simp add: s2_def DeleteIncompleteLog_def)
  have inc: "lc_incomplete (the_cd k s2) = lc_incomplete (the_cd k s)" for k
    using c cds by (simp add: s2 s1(2))
  have "search_incomplete req c s2 = None"
    using assms(2) inc by (intro search_incomplete_None) (simp add: no_incomplete_def)
  moreover have "lc_log (the_cd c s2) = Some l1" using c cds by (simp add: s2 s1(2))
  moreover have "m_rollback_point s2 = INVALID_ROLLBACK_POINT" by (simp add: s2 set_cd_def)
  ultimately have "MPI_Wait lib mailbox req status s1 = Inl (ErrorMessage ''Wrong control flow'')"
    using s1(3) block by (simp add: MPI_Wait_def dispatch_def escalating_def in_cd_def CD_ProbeAndLogData_def)
  then show ?thesis using s1(1) by simp
qed

theorem relaxed_wait_stops_witness:
  "bind_out (MPI_Irecv sample_lib 16 1 0 1 5 0 40 (sample_mpi kRelaxedCDGen (CommLog_of kGenerateLog 1 1 1) 6))
     (\<lambda>(s, _). MPI_Wait sample_lib Pair 40 0 s) = Inl (ErrorMessage ''Wrong control flow'')"
proof (rule relaxed_wait_stops [where l = "CommLog_of kGenerateLog 1 1 1"])
  show "in_cd 0 kRelaxedCDGen (CommLog_of kGenerateLog 1 1 1) (sample_mpi kRelaxedCDGen (CommLog_of kGenerateLog 1 1 1) 6)"
    using CommLog_of_ok by (intro in_cd_sample) simp
qed (simp_all add: no_incomplete_def sample_mpi_def sample_cd_def sample_lib_def INVALID_ROLLBACK_POINT_def)

text \<open>The payload of the only entry of a log is stored when its request completes.\<close>

lemma complete_only_entry:
  assumes "plain_log l" "log_entries l = [e]" "le_flag e = flag" "le_length e = length data"
  obtains l' where "CL_ProbeAndLogData data flag l = Inr (l', True)" "plain_log l'" "tape l' = [Some data]"
proof -
  have ok: "log_ok l" "entry_ok (k_queue_pos l) e" using assms(1,2) by (simp_all add: plain_log_def log_ok_def)
  have pos: "k_table_pos l = 1" using length_log_entries [OF ok(1)] assms(2) by simp
  let ?e = "e\<lparr>le_completed := True\<rparr>"
  obtain t where t: "table_put 0 ?e l = Inr (l\<lparr>k_table := Some t\<rparr>)" "length t = k_table_size l" "take (k_table_pos l) t = [?e]"
    using log_entries_put [OF ok(1), of 0 ?e] pos assms(2) by auto
  obtain q where q: "k_queue l = Some q" "length q = k_queue_size l" using log_okE [OF ok(1)] by metis
  have le: "le_pos e + length data \<le> length q" using ok q(2) assms(4) by (simp add: log_ok_def entry_ok_def)
  let ?q = "take (le_pos e) q @ data @ drop (le_pos e + length data) q"
  let ?l = "l\<lparr>k_table := Some t, k_queue := Some ?q\<rparr>"
  have id: "data = [] \<Longrightarrow> l\<lparr>k_table := Some t, k_queue := Some q\<rparr> = l\<lparr>k_table := Some t\<rparr>" using q(1) by (cases l) simp
  have run: "CL_ProbeAndLogData data flag l = Inr (?l, True)"
    using elems_out_entries [OF ok(1)] assms(2-4) t(1) q(1) le id by (auto simp: CL_ProbeAndLogData_def copy_in_def Let_def)
  have es: "log_entries ?l = [?e]" using t(3) by (simp add: log_entries_def)
  have ctr: "le_counter e = 1" "le_reexec_counter e = 0" "\<not> le_isrepeated e"
    using assms(1,2) ok(2) by (auto simp: plain_log_def entry_ok_def)
  have "plain_log ?l"
    unfolding plain_log_def es using ok ctr t(2) q(2) le pos
    by (auto simp: log_ok_def es entry_ok_def)
  moreover have "tape ?l = [Some data]"
    unfolding tape_def es using ctr le assms(4) by (simp add: cell_def payload_def)
  ultimately show thesis using that run by blast
qed

lemma log_event:
  assumes "plain_log l"
  obtains l' where "CL_LogData flag [] task True 0 False False False (- 1) (- 1) (l, []) = Inr (l', [])"
    "plain_log l'" "tape l' = tape l @ [Some []]"
proof (rule CL_LogData_spec [of l False "[]" True 0 flag task False False "- 1" "- 1" "[]"])
  show "log_ok l" using assms by (simp add: plain_log_def)
qed (use assms that in \<open>auto simp: plain_log_def\<close>)

definition irecv_waitall ::
  "'w mpi_lib \<Rightarrow> ('w \<Rightarrow> uint32 \<Rightarrow> 'w \<times> uint32) \<Rightarrow> uint64 \<Rightarrow> nat \<Rightarrow> int \<Rightarrow> int \<Rightarrow> int \<Rightarrow> int \<Rightarrow> uint64 \<Rightarrow> uint64 \<Rightarrow>
   'w mpi_state \<Rightarrow> ('w mpi_state \<times> int) outcome" where
  "irecv_waitall lib mailbox buf count ty src tag comm req statuses s =
     bind_out (MPI_Irecv lib buf count ty src tag comm req s) (\<lambda>(s, _). MPI_Waitall lib mailbox 1 req statuses s)"



end
