(* ===== verification/C_Text.thy ===== *)
theory C_Text
  imports Complex_Main "HOL-Library.Word"
begin

text \<open>
  The parts of the C library that the configuration code uses to read and print text:
  \<open>strtol\<close>, \<open>atol\<close>, \<open>atoi\<close> and \<open>atof\<close>, \<open>strtok\<close> with the separator
  \<open>_\<close>, and the conversions \<open>%u\<close>, \<open>%ld\<close> and \<open>%lX\<close> of \<open>fprintf\<close>.
  \<open>strtol\<close> saturates at the ends of \<open>long\<close>, and \<open>atol\<close> is \<open>strtol\<close> in
  base ten.  \<open>atof\<close> reads decimal numbers into the reals; it has no hexadecimal numbers and
  no names of special values.  The lemmas show that reading undoes printing, up to the saturation.
\<close>

section \<open>Reading\<close>

definition is_space :: "char \<Rightarrow> bool" where
  "is_space c \<longleftrightarrow> of_char c \<in> {9, 10, 11, 12, 13, 32 :: nat}"

definition digit_val :: "char \<Rightarrow> nat option" where
  "digit_val c =
     (let n = of_char c :: nat in
      if 48 \<le> n \<and> n \<le> 57 then Some (n - 48)
      else if 65 \<le> n \<and> n \<le> 90 then Some (n - 55)
      else if 97 \<le> n \<and> n \<le> 122 then Some (n - 87)
      else None)"

definition base_digit :: "nat \<Rightarrow> char \<Rightarrow> nat option" where
  "base_digit b c = (case digit_val c of Some d \<Rightarrow> if d < b then Some d else None | None \<Rightarrow> None)"

fun read_digits :: "nat \<Rightarrow> nat \<Rightarrow> string \<Rightarrow> nat" where
  "read_digits b acc [] = acc"
| "read_digits b acc (c # s) =
     (case base_digit b c of Some d \<Rightarrow> read_digits b (acc * b + d) s | None \<Rightarrow> acc)"

fun skip_0x :: "string \<Rightarrow> string" where
  "skip_0x (z # x # d # s) =
     (if z = CHR ''0'' \<and> (x = CHR ''x'' \<or> x = CHR ''X'') \<and> base_digit 16 d \<noteq> None then d # s
      else z # x # d # s)"
| "skip_0x s = s"

definition read_sign :: "string \<Rightarrow> bool \<times> string" where
  "read_sign s = (case s of c # t \<Rightarrow> if c = CHR ''-'' then (True, t) else if c = CHR ''+'' then (False, t) else (False, s)
                          | [] \<Rightarrow> (False, s))"

definition LONG_MAX :: int where
  "LONG_MAX = 2 ^ 63 - 1"

definition LONG_MIN :: int where
  "LONG_MIN = - (2 ^ 63)"

definition strtol :: "nat \<Rightarrow> string \<Rightarrow> int" where
  "strtol b s =
     (let (neg, s) = read_sign (dropWhile is_space s);
          n = int (read_digits b 0 (if b = 16 then skip_0x s else s))
      in max LONG_MIN (min LONG_MAX (if neg then - n else n)))"

definition atol :: "string \<Rightarrow> int" where
  "atol s = strtol 10 s"

definition atoi :: "string \<Rightarrow> int" where
  "atoi s = sint (word_of_int (strtol 10 s) :: 32 word)"

definition is_dec :: "char \<Rightarrow> bool" where
  "is_dec c \<longleftrightarrow> base_digit 10 c \<noteq> None"

definition read_exponent :: "string \<Rightarrow> int" where
  "read_exponent s =
     (case s of
        e # t \<Rightarrow>
          if e = CHR ''e'' \<or> e = CHR ''E'' then
            let (neg, t) = read_sign t; n = int (read_digits 10 0 t) in if neg then - n else n
          else 0
      | [] \<Rightarrow> 0)"

definition atof :: "string \<Rightarrow> real" where
  "atof s =
     (let (neg, s) = read_sign (dropWhile is_space s);
          ip = takeWhile is_dec s;
          r = dropWhile is_dec s;
          (fp, r) = (case r of c # t \<Rightarrow> if c = CHR ''.'' then (takeWhile is_dec t, dropWhile is_dec t) else ([], r)
                             | [] \<Rightarrow> ([], r));
          m = (if ip = [] \<and> fp = [] then 0
               else real (read_digits 10 0 (ip @ fp)) / 10 ^ length fp * 10 powi read_exponent r)
      in if neg then - m else m)"

fun split_at_us :: "string \<Rightarrow> string list" where
  "split_at_us [] = [[]]"
| "split_at_us (c # s) =
     (if c = CHR ''_'' then [] # split_at_us s
      else case split_at_us s of t # ts \<Rightarrow> (c # t) # ts | [] \<Rightarrow> [[c]])"

text \<open>The tokens that successive calls of \<open>strtok(.., "_")\<close> return.\<close>

definition strtok_us :: "string \<Rightarrow> string list" where
  "strtok_us s = filter (\<lambda>t. t \<noteq> []) (split_at_us s)"

section \<open>Printing\<close>

definition digit_char :: "nat \<Rightarrow> char" where
  "digit_char d = char_of (if d < 10 then d + 48 else d + 55)"

fun show_base :: "nat \<Rightarrow> nat \<Rightarrow> string" where
  "show_base b n =
     (if b < 2 \<or> n < b then [digit_char n] else show_base b (n div b) @ [digit_char (n mod b)])"

declare show_base.simps [simp del]

definition fmt_u :: "nat \<Rightarrow> string" where
  "fmt_u n = show_base 10 n"

definition fmt_ld :: "int \<Rightarrow> string" where
  "fmt_ld i = (if i < 0 then ''-'' @ show_base 10 (nat (- i)) else show_base 10 (nat i))"

definition fmt_lX :: "nat \<Rightarrow> string" where
  "fmt_lX n = show_base 16 n"

section \<open>Reading undoes printing\<close>

lemma of_digit_char: "d < 36 \<Longrightarrow> of_char (digit_char d) = (if d < 10 then d + 48 else d + 55 :: nat)"
  by (simp add: digit_char_def)

lemma digit_val_digit_char: "d < 36 \<Longrightarrow> digit_val (digit_char d) = Some d"
  by (simp add: digit_val_def of_digit_char Let_def)

lemma base_digit_digit_char: "d < b \<Longrightarrow> b \<le> 36 \<Longrightarrow> base_digit b (digit_char d) = Some d"
  by (simp add: base_digit_def digit_val_digit_char)

definition stops :: "nat \<Rightarrow> string \<Rightarrow> bool" where
  "stops b rest \<longleftrightarrow> (case rest of [] \<Rightarrow> True | c # _ \<Rightarrow> base_digit b c = None)"

lemma read_digits_stop: "stops b rest \<Longrightarrow> read_digits b acc rest = acc"
  by (cases rest) (auto simp: stops_def)

lemma read_digits_show:
  "2 \<le> b \<Longrightarrow> b \<le> 36 \<Longrightarrow>
   \<exists>k. read_digits b acc (show_base b n @ rest) = read_digits b (acc * b ^ k + n) rest"
proof (induction b n arbitrary: rest rule: show_base.induct)
  case (1 b n)
  show ?case
  proof (cases "n < b")
    case True
    then show ?thesis
      using 1(2,3) by (intro exI [of _ 1]) (simp add: show_base.simps base_digit_digit_char)
  next
    case False
    obtain k where k: "read_digits b acc (show_base b (n div b) @ digit_char (n mod b) # rest)
        = read_digits b (acc * b ^ k + n div b) (digit_char (n mod b) # rest)"
      using 1(1) [of "digit_char (n mod b) # rest"] 1(2,3) False by auto
    have "(acc * b ^ k + n div b) * b + n mod b = acc * b ^ Suc k + n"
      by (simp add: algebra_simps)
    then show ?thesis
      using k 1(2,3) False by (intro exI [of _ "Suc k"]) (simp add: show_base.simps [of b n] base_digit_digit_char)
  qed
qed

lemma read_show:
  assumes "2 \<le> b" "b \<le> 36" "stops b rest"
  shows "read_digits b 0 (show_base b n @ rest) = n"
  using read_digits_show [OF assms(1,2), of 0 n rest] read_digits_stop [OF assms(3)] by auto

lemma set_show_base: "2 \<le> b \<Longrightarrow> c \<in> set (show_base b n) \<Longrightarrow> \<exists>d < b. c = digit_char d"
proof (induction b n rule: show_base.induct)
  case (1 b n)
  then show ?case
    by (subst (asm) (2) show_base.simps) (auto split: if_splits intro: exI [of _ "n mod b"])
qed

lemma show_base_Cons: "2 \<le> b \<Longrightarrow> \<exists>d s. d < b \<and> show_base b n = digit_char d # s \<and> (\<forall>c \<in> set s. \<exists>e < b. c = digit_char e)"
proof -
  assume b: "2 \<le> b"
  have "show_base b n \<noteq> []" by (subst show_base.simps) simp
  then obtain c s where "show_base b n = c # s" by (meson neq_Nil_conv)
  then show ?thesis using set_show_base [OF b, of _ n] by (metis list.set_intros)
qed

lemma digit_char_not:
  assumes "d < 36"
  shows "\<not> is_space (digit_char d)" "digit_char d \<noteq> CHR ''-''" "digit_char d \<noteq> CHR ''+''"
    "digit_char d \<noteq> CHR ''_''" "digit_char d \<noteq> CHR ''x''"
proof -
  have *: "of_char (digit_char d) \<in> {48..57} \<union> {65..90 :: nat}" using assms by (simp add: of_digit_char)
  show "\<not> is_space (digit_char d)" using * by (auto simp: is_space_def)
  have ne: "digit_char d \<noteq> c" if "of_char c \<notin> {48..57} \<union> {65..90 :: nat}" for c
    using that * by metis
  show "digit_char d \<noteq> CHR ''-''" "digit_char d \<noteq> CHR ''+''" "digit_char d \<noteq> CHR ''_''"
    "digit_char d \<noteq> CHR ''x''"
    by (rule ne; simp)+
qed

lemma read_sign_show: "2 \<le> b \<Longrightarrow> b \<le> 36 \<Longrightarrow> read_sign (dropWhile is_space (show_base b n @ rest)) = (False, show_base b n @ rest)"
  using show_base_Cons [of b n] digit_char_not by (auto simp: read_sign_def)

lemma atol_fmt_u: "int n \<le> LONG_MAX \<Longrightarrow> stops 10 rest \<Longrightarrow> atol (fmt_u n @ rest) = int n"
  using read_show [of 10 rest n]
  by (simp add: atol_def strtol_def fmt_u_def read_sign_show LONG_MIN_def)

lemma atol_fmt_ld:
  assumes "LONG_MIN \<le> i" "i \<le> LONG_MAX"
  shows "atol (fmt_ld i) = i"
proof (cases "i < 0")
  case True
  have "read_sign (dropWhile is_space (fmt_ld i)) = (True, show_base 10 (nat (- i)))"
    using True by (simp add: fmt_ld_def is_space_def read_sign_def)
  then show ?thesis
    using assms True read_show [of 10 "[]" "nat (- i)"]
    by (simp add: atol_def strtol_def stops_def LONG_MIN_def LONG_MAX_def)
next
  case False
  then show ?thesis
    using assms read_show [of 10 "[]" "nat i"] read_sign_show [of 10 "nat i" "[]"]
    by (simp add: atol_def strtol_def fmt_ld_def stops_def LONG_MIN_def)
qed

lemma skip_0x_show: "skip_0x (''0x'' @ show_base 16 n) = show_base 16 n"
  using show_base_Cons [of 16 n] by (auto simp: base_digit_digit_char)

lemma strtol_fmt_lX: "strtol 16 (''0x'' @ fmt_lX n) = min LONG_MAX (int n)"
proof -
  have "read_sign (dropWhile is_space (''0x'' @ show_base 16 n)) = (False, ''0x'' @ show_base 16 n)"
    by (simp add: is_space_def read_sign_def)
  then show ?thesis
    using read_show [of 16 "[]" n] skip_0x_show [of n]
    by (simp add: strtol_def fmt_lX_def stops_def LONG_MIN_def LONG_MAX_def)
qed

lemma split_at_us_no: "CHR ''_'' \<notin> set s \<Longrightarrow> split_at_us s = [s]"
  by (induction s) auto

lemma split_at_us_append: "CHR ''_'' \<notin> set s \<Longrightarrow> split_at_us (s @ CHR ''_'' # t) = s # split_at_us t"
  by (induction s) auto

lemma show_base_no_us: "2 \<le> b \<Longrightarrow> b \<le> 36 \<Longrightarrow> CHR ''_'' \<notin> set (show_base b n)"
  using set_show_base [of b "CHR ''_''" n] digit_char_not(4) by (metis order_less_le_trans)

lemma show_base_not_Nil [simp]: "show_base b n \<noteq> []"
  by (subst show_base.simps) simp

lemma strtok_us_CD:
  "strtok_us (''CD_'' @ fmt_u l @ ''_'' @ fmt_u p) = [''CD'', fmt_u l, fmt_u p]"
  using split_at_us_append [of "''CD''" "fmt_u l @ ''_'' @ fmt_u p"]
    split_at_us_append [of "fmt_u l" "fmt_u p"] split_at_us_no [of "fmt_u p"]
  by (simp add: strtok_us_def fmt_u_def show_base_no_us)

end
