(* ===== verification/Config_Load.thy ===== *)
theory Config_Load
  imports Phase_Tree C_Text
begin

text \<open>
  The configuration: \<open>SystemConfig::LoadConfig\<close>, \<open>ParseParam\<close> and
  \<open>UpdateSwitchParams\<close> of \<open>sys_err_t.cc\<close>, which build \<open>tuned::phaseTree\<close> and the
  failure rates from a YAML file, and \<open>PhaseNode::PrintInputYAML\<close> of \<open>phase_tree.cc\<close>,
  which prints the phases of a run as such a file.  The YAML parser is the library
  \<open>libyaml\<close>: a file enters the model as the list of the events that the parser gives, and a
  list that ends before the end of the stream is a parser error.  Rates are reals where the code
  has \<open>float\<close>, and what is printed to the trace of the configuration is left out.
\<close>

section \<open>State\<close>

datatype yaml_event =
    YAML_NO_EVENT
  | YAML_STREAM_START_EVENT
  | YAML_STREAM_END_EVENT
  | YAML_DOCUMENT_START_EVENT
  | YAML_DOCUMENT_END_EVENT
  | YAML_ALIAS_EVENT string
  | YAML_SCALAR_EVENT string
  | YAML_SEQUENCE_START_EVENT
  | YAML_SEQUENCE_END_EVENT
  | YAML_MAPPING_START_EVENT
  | YAML_MAPPING_END_EVENT

record ConfigEntry =
  ce_interval :: int
  ce_failure_type :: int
  ce_medium :: PrvMediumT

definition ConfigEntry_ctor :: ConfigEntry where
  "ConfigEntry_ctor = \<lparr>ce_interval = - 1, ce_failure_type = - 1, ce_medium = kUndefined\<rparr>"

text \<open>
  \<open>SystemConfig\<close> with the file-level variables of \<open>sys_err_t.cc\<close>; the variables of type
  \<open>int64_t\<close> hold results of \<open>atol\<close> and \<open>strtol\<close>.
\<close>

record SystemConfig =
  sc_world :: phase_world
  sc_errortype :: int
  sc_interval :: int
  sc_level :: int
  sc_phase :: int
  sc_prv :: char
  sc_label :: string
  sc_medium :: PrvMediumT
  sc_mapping :: "(uint64, (uint64, ConfigEntry) smap) smap"
  sc_failure_rate :: "(int, real) smap"
  sc_failure_rate_record :: "(int, real) smap"
  sc_error_count :: "(int, uint32) smap"
  sc_ftype_name :: string
  sc_is_error_free :: bool

record config_env =
  ce_totalTaskSize :: int
  ce_KEEP_TOTAL_FAILURE_RATE_SAME :: "string option"

abbreviation sc_tree :: "SystemConfig \<Rightarrow> phase_tree" where
  "sc_tree s \<equiv> w_tuned (sc_world s)"

definition set_tree :: "phase_tree \<Rightarrow> SystemConfig \<Rightarrow> SystemConfig" where
  "set_tree t s = s\<lparr>sc_world := (sc_world s)\<lparr>w_tuned := t\<rparr>\<rparr>"

definition on_current :: "(PhaseNode \<Rightarrow> PhaseNode) \<Rightarrow> SystemConfig \<Rightarrow> SystemConfig outcome" where
  "on_current f s =
     bind_out (deref ''tuned::phaseTree.current_'' (pt_current (sc_tree s))) (\<lambda>p.
       Inr (set_tree ((sc_tree s)\<lparr>pt_heap := modify_node p f (pt_heap (sc_tree s))\<rparr>) s))"

definition on_mapping :: "(ConfigEntry \<Rightarrow> ConfigEntry) \<Rightarrow> SystemConfig \<Rightarrow> SystemConfig" where
  "on_mapping f s =
     s\<lparr>sc_mapping := sm_modify [] (word_of_int (sc_level s))
         (sm_modify ConfigEntry_ctor (word_of_int (sc_phase s)) f) (sc_mapping s)\<rparr>"

definition SystemConfig_Init :: "SystemConfig \<Rightarrow> SystemConfig" where
  "SystemConfig_Init s =
     s\<lparr>sc_mapping := map (\<lambda>(l, m). (l, map (\<lambda>(p, _). (p, ConfigEntry_ctor)) m)) (sc_mapping s),
       sc_failure_rate := map (\<lambda>(e, _). (e, 0)) (sc_failure_rate s),
       sc_error_count := map (\<lambda>(e, _). (e, 0)) (sc_error_count s)\<rparr>"

section \<open>Reading a parameter\<close>

text \<open>\<open>atol(NULL)\<close> is undefined.\<close>

definition UpdateSwitchParams :: "string \<Rightarrow> SystemConfig \<Rightarrow> SystemConfig outcome" where
  "UpdateSwitchParams str s =
     (let toks = tl (strtok_us str) in
      bind_out (deref ''atol'' (case toks of t # _ \<Rightarrow> Some t | [] \<Rightarrow> None)) (\<lambda>l.
      let s = s\<lparr>sc_level := atol l\<rparr> in
      bind_out (deref ''atol'' (case tl toks of t # _ \<Rightarrow> Some t | [] \<Rightarrow> None)) (\<lambda>p.
        Inr (s\<lparr>sc_phase := atol p\<rparr>))))"

definition new_tuned_phase :: "SystemConfig \<Rightarrow> SystemConfig outcome" where
  "new_tuned_phase s =
     (let w = sc_world s; t = w_tuned w in
      bind_out (PhaseNode_ctor_tuned (pt_current t) (word_of_int (sc_level s)) (word_of_int (sc_phase s))
                  (w_gen w, pt_heap t)) (\<lambda>((gen, h), p).
        Inr (s\<lparr>sc_world := w\<lparr>w_gen := gen,
               w_tuned := t\<lparr>pt_heap := h, pt_current := Some p,
                 pt_root := (if pt_root t = None then Some p else pt_root t),
                 pt_cache := sm_put (word_of_int (sc_phase s)) (Some p) (pt_cache t)\<rparr>\<rparr>\<rparr>)))"

text \<open>
  A key that begins with \<open>F\<close>: \<open>strcpy\<close> into \<open>char ftype[32]\<close> overflows when
  the key is longer, which is undefined.
\<close>

definition failure_key :: "string \<Rightarrow> SystemConfig \<Rightarrow> SystemConfig outcome" where
  "failure_key key s =
     (if 32 \<le> length key then Inl (OutOfRange ''ftype'')
      else
        let name = (case strtok_us key of
                      a # b # _ \<Rightarrow> if a = ''FAILURE'' then b else sc_ftype_name s
                    | _ \<Rightarrow> sc_ftype_name s)
        in Inr (s\<lparr>sc_ftype_name := name, sc_prv := CHR ''F'', sc_errortype := atol (tl key)\<rparr>))"

definition failure_value :: "config_env \<Rightarrow> string \<Rightarrow> SystemConfig \<Rightarrow> SystemConfig outcome" where
  "failure_value env key s =
     (let e = sc_errortype s; tasks = real_of_int (ce_totalTaskSize env);
          keep = ce_KEEP_TOTAL_FAILURE_RATE_SAME env;
          s = s\<lparr>sc_failure_rate_record := sm_put e (atof key) (sc_failure_rate_record s),
                sc_error_count := sm_put e 0 (sc_error_count s)\<rparr>;
          num_tasks = (case keep of None \<Rightarrow> 1 | Some v \<Rightarrow> atoi v);
          failure_div_factor = (case keep of None \<Rightarrow> 1 | Some v \<Rightarrow> atof v) in
      if num_tasks > 1 then
        let frate = (if e > 2 then atof key / tasks else atof key / failure_div_factor)
        in Inr (s\<lparr>sc_failure_rate := sm_put e frate (sc_failure_rate s),
                  sc_failure_rate_record := sm_put e frate (sc_failure_rate_record s)\<rparr>)
      else if num_tasks = 1 then
        Inr (s\<lparr>sc_failure_rate := sm_put e (atof key / tasks) (sc_failure_rate s)\<rparr>)
      else if num_tasks = 0 then
        Inr (s\<lparr>sc_failure_rate := sm_put e 0 (sc_failure_rate s), sc_is_error_free := True\<rparr>)
      else Inl (ErrorMessage ''Wrong KEEP_TOTAL_FAILURE_RATE_SAME''))"

definition param_value :: "config_env \<Rightarrow> string \<Rightarrow> SystemConfig \<Rightarrow> SystemConfig outcome" where
  "param_value env key s =
     (if sc_prv s = CHR ''F'' then failure_value env key s
      else if sc_prv s = CHR ''l'' then
        on_current (\<lambda>n. n\<lparr>pn_label := key\<rparr>) (s\<lparr>sc_label := key\<rparr>)
      else if sc_prv s = CHR ''i'' then
        on_current (\<lambda>n. n\<lparr>pn_interval := word_of_int (atol key)\<rparr>) (s\<lparr>sc_interval := atol key\<rparr>)
      else if sc_prv s = CHR ''e'' then
        bind_out (on_current (\<lambda>n. n\<lparr>pn_errortype := word_of_int (strtol 16 key)\<rparr>)
                    (s\<lparr>sc_errortype := strtol 16 key\<rparr>)) (\<lambda>s.
          Inr (on_mapping (\<lambda>c. c\<lparr>ce_failure_type := sc_errortype s\<rparr>) s))
      else if sc_prv s = CHR ''m'' then
        bind_out (GetMedium_key key) (\<lambda>m.
        bind_out (on_current (\<lambda>n. n\<lparr>pn_medium := m\<rparr>) (s\<lparr>sc_medium := m\<rparr>)) (\<lambda>s.
          Inr (on_mapping (\<lambda>c. c\<lparr>ce_medium := m\<rparr>) s)))
      else Inr s)"

definition ParseParam :: "config_env \<Rightarrow> string \<Rightarrow> SystemConfig \<Rightarrow> SystemConfig outcome" where
  "ParseParam env key s =
     (if take 2 key = ''CD'' \<and> sc_prv s \<noteq> CHR ''l'' then
        bind_out (UpdateSwitchParams key (s\<lparr>sc_prv := CHR ''C''\<rparr>)) new_tuned_phase
      else if key = ''label'' \<or> key = ''interval'' \<or> key = ''errortype'' \<or> key = ''medium'' then
        Inr (s\<lparr>sc_prv := hd key\<rparr>)
      else if take 1 key = ''F'' then failure_key key s
      else param_value env key s)"

section \<open>Reading a file\<close>

fun on_event :: "config_env \<Rightarrow> yaml_event \<Rightarrow> SystemConfig \<Rightarrow> SystemConfig outcome" where
  "on_event env YAML_SEQUENCE_END_EVENT s =
     Inr (case pt_current (sc_tree s) of
            Some p \<Rightarrow> set_tree ((sc_tree s)\<lparr>pt_current := pn_parent (pt_heap (sc_tree s) ! p)\<rparr>) s
          | None \<Rightarrow> s)"
| "on_event env (YAML_SCALAR_EVENT key) s = ParseParam env key s"
| "on_event env _ s = Inr s"

fun load_events :: "config_env \<Rightarrow> yaml_event list \<Rightarrow> SystemConfig \<Rightarrow> SystemConfig outcome" where
  "load_events env [] s = Inl (ErrorMessage ''Parser error'')"
| "load_events env (e # es) s =
     bind_out (on_event env e s) (\<lambda>s.
       if e = YAML_STREAM_END_EVENT then Inr s else load_events env es s)"

definition LoadConfig :: "config_env \<Rightarrow> yaml_event list option \<Rightarrow> SystemConfig \<Rightarrow> SystemConfig outcome" where
  "LoadConfig env file s =
     (case file of
        None \<Rightarrow> Inl (ErrorMessage ''No configuration file'')
      | Some events \<Rightarrow>
          bind_out (load_events env events s) (\<lambda>s.
            let w = sc_world s; t = w_tuned w
            in Inr (s\<lparr>sc_world := w\<lparr>w_max_phase := w_gen w, w_gen := 0,
                                    w_tuned := t\<lparr>pt_current := pt_root t\<rparr>\<rparr>\<rparr>)))"

section \<open>Printing the phases of a run\<close>

text \<open>
  The recursion over the children takes the size of the heap as its bound, as the other
  recursions over the tree do.
\<close>

definition print_phase :: "uint32 \<Rightarrow> uint32 \<Rightarrow> string \<Rightarrow> 64 word \<Rightarrow> 64 word \<Rightarrow> string \<Rightarrow> string" where
  "print_phase level phase label interval errortype med =
     (let indent = (\<lambda>j. replicate ((unat level + j) * 2) (CHR '' ''));
          nl = [CHR 0x0A] in
      indent 0 @ ''- CD_'' @ fmt_u (unat level) @ ''_'' @ fmt_u (unat phase) @ '' :'' @ nl
      @ indent 1 @ ''- label    : '' @ label @ nl
      @ indent 2 @ ''interval : '' @ fmt_ld (sint interval) @ nl
      @ indent 2 @ ''errortype: 0x'' @ fmt_lX (unat errortype) @ nl
      @ indent 2 @ ''medium: '' @ med @ nl)"

fun PrintInputYAML_n :: "nat \<Rightarrow> bool \<Rightarrow> node_heap \<Rightarrow> ptr \<Rightarrow> string outcome"
  and PrintInputYAML_all :: "nat \<Rightarrow> bool \<Rightarrow> node_heap \<Rightarrow> ptr list \<Rightarrow> string outcome" where
  "PrintInputYAML_n 0 tuning_off h this = Inl (Blocked ''PrintInputYAML'')"
| "PrintInputYAML_n (Suc k) tuning_off h this =
     (let n = h ! this in
      bind_out (GetMedium tuning_off (pn_medium n)) (\<lambda>med.
      bind_out (PrintInputYAML_all k tuning_off h (pn_children n)) (\<lambda>rest.
        Inr (print_phase (pn_level n) (pn_phase n) (pn_label n) (pn_interval n) (pn_errortype n) med @ rest))))"
| "PrintInputYAML_all k tuning_off h [] = Inr []"
| "PrintInputYAML_all k tuning_off h (c # cs) =
     bind_out (PrintInputYAML_n k tuning_off h c) (\<lambda>t.
     bind_out (PrintInputYAML_all k tuning_off h cs) (\<lambda>ts.
       Inr (t @ ts)))"

definition PrintInputYAML :: "bool \<Rightarrow> node_heap \<Rightarrow> ptr \<Rightarrow> string outcome" where
  "PrintInputYAML tuning_off h this = PrintInputYAML_n (length h) tuning_off h this"

section \<open>Configurations as trees\<close>

text \<open>
  A configuration, with the phases of a phase in the order of the file; the events of the file in
  which every phase has its four parameters in the order in which \<open>PrintInputYAML\<close> prints
  them; and what it means that a heap holds the configuration at a node.
\<close>

datatype config_phase =
  Phase uint32 uint32 string "64 word" "64 word" PrvMediumT "config_phase list"

fun cp_size :: "config_phase \<Rightarrow> nat" and cp_sizes :: "config_phase list \<Rightarrow> nat" where
  "cp_size (Phase l p lab iv et m cs) = Suc (cp_sizes cs)"
| "cp_sizes [] = 0"
| "cp_sizes (c # cs) = cp_size c + cp_sizes cs"

text \<open>Phases are numbered in the order of the file.\<close>

fun numbered :: "nat \<Rightarrow> config_phase \<Rightarrow> bool" and numbered_all :: "nat \<Rightarrow> config_phase list \<Rightarrow> bool" where
  "numbered n (Phase l p lab iv et m cs) \<longleftrightarrow> p = of_nat n \<and> numbered_all (Suc n) cs"
| "numbered_all n [] \<longleftrightarrow> True"
| "numbered_all n (c # cs) \<longleftrightarrow> numbered n c \<and> numbered_all (n + cp_size c) cs"

definition label_ok :: "string \<Rightarrow> bool" where
  "label_ok lab \<longleftrightarrow> take 1 lab \<noteq> ''F'' \<and> lab \<notin> {''label'', ''interval'', ''errortype'', ''medium''}"

fun readable :: "config_phase \<Rightarrow> bool" where
  "readable (Phase l p lab iv et m cs) \<longleftrightarrow>
     label_ok lab \<and> m \<noteq> kUndefined \<and> (\<forall>c \<in> set cs. readable c)"

text \<open>\<open>strtol\<close> cannot return an error type with the top bit set: it saturates.\<close>

definition sat :: "64 word \<Rightarrow> 64 word" where
  "sat et = (if unat et < 2 ^ 63 then et else 0x7FFFFFFFFFFFFFFF)"

fun saturated :: "config_phase \<Rightarrow> config_phase" where
  "saturated (Phase l p lab iv et m cs) = Phase l p lab iv (sat et) m (map saturated cs)"

definition medium_name :: "PrvMediumT \<Rightarrow> string" where
  "medium_name m = (case GetMedium False m of Inr s \<Rightarrow> s | Inl _ \<Rightarrow> [])"

fun phase_events :: "config_phase \<Rightarrow> yaml_event list" and phases_events :: "config_phase list \<Rightarrow> yaml_event list" where
  "phase_events (Phase l p lab iv et m cs) =
     [YAML_MAPPING_START_EVENT,
      YAML_SCALAR_EVENT (''CD_'' @ fmt_u (unat l) @ ''_'' @ fmt_u (unat p)),
      YAML_SEQUENCE_START_EVENT, YAML_MAPPING_START_EVENT,
      YAML_SCALAR_EVENT ''label'', YAML_SCALAR_EVENT lab,
      YAML_SCALAR_EVENT ''interval'', YAML_SCALAR_EVENT (fmt_ld (sint iv)),
      YAML_SCALAR_EVENT ''errortype'', YAML_SCALAR_EVENT (''0x'' @ fmt_lX (unat et)),
      YAML_SCALAR_EVENT ''medium'', YAML_SCALAR_EVENT (medium_name m),
      YAML_MAPPING_END_EVENT] @ phases_events cs @ [YAML_SEQUENCE_END_EVENT, YAML_MAPPING_END_EVENT]"
| "phases_events [] = []"
| "phases_events (c # cs) = phase_events c @ phases_events cs"

definition document_events :: "config_phase \<Rightarrow> yaml_event list" where
  "document_events c =
     [YAML_STREAM_START_EVENT, YAML_DOCUMENT_START_EVENT, YAML_SEQUENCE_START_EVENT]
     @ phase_events c @ [YAML_SEQUENCE_END_EVENT, YAML_DOCUMENT_END_EVENT, YAML_STREAM_END_EVENT]"

fun config_text :: "config_phase \<Rightarrow> string" and config_texts :: "config_phase list \<Rightarrow> string" where
  "config_text (Phase l p lab iv et m cs) = print_phase l p lab iv et (medium_name m) @ config_texts cs"
| "config_texts [] = []"
| "config_texts (c # cs) = config_text c @ config_texts cs"

fun holds_config :: "node_heap \<Rightarrow> ptr \<Rightarrow> config_phase \<Rightarrow> bool"
  and holds_configs :: "node_heap \<Rightarrow> ptr list \<Rightarrow> config_phase list \<Rightarrow> bool" where
  "holds_config h i (Phase l p lab iv et m cs) \<longleftrightarrow>
     i < length h \<and> pn_level (h ! i) = l \<and> pn_phase (h ! i) = p \<and> pn_label (h ! i) = lab \<and>
     pn_interval (h ! i) = iv \<and> pn_errortype (h ! i) = et \<and> pn_medium (h ! i) = m \<and>
     holds_configs h (pn_children (h ! i)) cs"
| "holds_configs h [] [] \<longleftrightarrow> True"
| "holds_configs h (i # is) (c # cs) \<longleftrightarrow> holds_config h i c \<and> holds_configs h is cs"
| "holds_configs h _ _ \<longleftrightarrow> False"

section \<open>Loading a document\<close>

fun positions :: "nat \<Rightarrow> config_phase list \<Rightarrow> ptr list" where
  "positions n [] = []"
| "positions n (c # cs) = n # positions (n + cp_size c) cs"

definition cfg_fields :: "PhaseNode \<Rightarrow> _" where
  "cfg_fields n = (pn_level n, pn_phase n, pn_label n, pn_interval n, pn_errortype n, pn_medium n, pn_parent n)"

text \<open>The heap has grown, and the new nodes \<open>ps\<close> are attached to the node \<open>cur\<close>.\<close>

definition grown :: "node_heap \<Rightarrow> ptr option \<Rightarrow> ptr list \<Rightarrow> node_heap \<Rightarrow> bool" where
  "grown h cur ps h' \<longleftrightarrow>
     length h \<le> length h' \<and>
     (\<forall>i < length h. cfg_fields (h' ! i) = cfg_fields (h ! i) \<and>
        pn_children (h' ! i) = pn_children (h ! i) @ (if cur = Some i then ps else []))"

definition steps :: "config_env \<Rightarrow> yaml_event list \<Rightarrow> SystemConfig \<Rightarrow> SystemConfig \<Rightarrow> bool" where
  "steps env es s s' \<longleftrightarrow> (\<forall>rest. load_events env (es @ rest) s = load_events env rest s')"

lemma steps_Nil: "steps env [] s s"
  by (simp add: steps_def)

lemma steps_append: "steps env es s s1 \<Longrightarrow> steps env es' s1 s2 \<Longrightarrow> steps env (es @ es') s s2"
  by (simp add: steps_def)

lemma steps_Cons:
  "on_event env e s = Inr s1 \<Longrightarrow> e \<noteq> YAML_STREAM_END_EVENT \<Longrightarrow> steps env es s1 s2 \<Longrightarrow> steps env (e # es) s s2"
  by (simp add: steps_def)

lemma grown_refl: "grown h cur [] h"
  by (simp add: grown_def)

lemma grown_trans:
  "grown h cur ps h1 \<Longrightarrow> grown h1 cur qs h2 \<Longrightarrow> grown h cur (ps @ qs) h2"
  by (simp add: grown_def)

lemma grown_deeper:
  assumes "grown h cur ps h1" "grown h1 (Some j) qs h2" "length h \<le> j"
  shows "grown h cur ps h2"
  using assms by (auto simp: grown_def)

lemma grown_modify:
  assumes "grown h cur ps h1" "length h \<le> j"
  shows "grown h cur ps (modify_node j f h1)"
  using assms by (auto simp: grown_def modify_node_def nth_list_update_neq)

text \<open>Constructing a node attaches it and keeps the rest.\<close>

lemma PhaseNode_Init_grown:
  assumes cur: "\<And>q. cur = Some q \<Longrightarrow> q < length h \<and> (\<forall>c \<in> set (pn_children (h ! q)). c < length h)"
    and n: "pn_children n = []"
  shows "length (PhaseNode_Init cur n h) = Suc (length h)"
    "grown h cur [length h] (PhaseNode_Init cur n h)"
    "cfg_fields (PhaseNode_Init cur n h ! length h) = cfg_fields (n\<lparr>pn_parent := cur\<rparr>)"
    "pn_children (PhaseNode_Init cur n h ! length h) = []"
proof -
  note d = PhaseNode_Init_def AddChild_def modify_node_def Let_def
  show "length (PhaseNode_Init cur n h) = Suc (length h)"
    by (simp add: d split: option.split)
  show "grown h cur [length h] (PhaseNode_Init cur n h)"
  proof (cases cur)
    case None
    then show ?thesis by (auto simp: d grown_def nth_append)
  next
    case (Some q)
    then have q: "q < length h" and ch: "\<forall>c \<in> set (pn_children (h ! q)). c < length h"
      using cur by auto
    have "last (pn_children (h ! q)) < length h" if "pn_children (h ! q) \<noteq> []"
      using that ch by simp
    then show ?thesis
      using q Some by (auto simp: d grown_def nth_append nth_list_update cfg_fields_def)
  qed
  show "cfg_fields (PhaseNode_Init cur n h ! length h) = cfg_fields (n\<lparr>pn_parent := cur\<rparr>)"
    "pn_children (PhaseNode_Init cur n h ! length h) = []"
    using cur n by (auto simp: d cfg_fields_def nth_append nth_list_update split: option.split)
qed

lemma take2_CD: "take 2 (''CD_'' @ s) = ''CD''" "take 1 (''CD_'' @ s) = ''C''"
  by (simp_all add: numeral_2_eq_2)

lemma UpdateSwitchParams_CD:
  "UpdateSwitchParams (''CD_'' @ fmt_u (unat l) @ ''_'' @ fmt_u (unat p)) s =
     Inr (s\<lparr>sc_level := uint (l :: uint32), sc_phase := uint (p :: uint32)\<rparr>)"
proof -
  have "uint x \<le> LONG_MAX" for x :: uint32
    using uint_bounded [of x] by (simp add: LONG_MAX_def)
  then have "atol (fmt_u (unat x)) = uint x" for x :: uint32
    using atol_fmt_u [of "unat x" "[]"] by (simp add: stops_def)
  then show ?thesis
    using strtok_us_CD [of "unat l" "unat p"] by (simp add: UpdateSwitchParams_def)
qed

lemma ParseParam_keys [simp]:
  "ParseParam env ''label'' s = Inr (s\<lparr>sc_prv := CHR ''l''\<rparr>)"
  "ParseParam env ''interval'' s = Inr (s\<lparr>sc_prv := CHR ''i''\<rparr>)"
  "ParseParam env ''errortype'' s = Inr (s\<lparr>sc_prv := CHR ''e''\<rparr>)"
  "ParseParam env ''medium'' s = Inr (s\<lparr>sc_prv := CHR ''m''\<rparr>)"
  by (simp_all add: ParseParam_def)

lemma ParseParam_label:
  assumes "label_ok lab" "sc_prv s = CHR ''l''"
  shows "ParseParam env lab s = on_current (\<lambda>n. n\<lparr>pn_label := lab\<rparr>) (s\<lparr>sc_label := lab\<rparr>)"
  using assms by (simp add: ParseParam_def param_value_def label_ok_def)

text \<open>Numbers and the names of the media are values, whatever parameter they belong to.\<close>

lemma number_is_value:
  assumes "of_char c \<in> insert 45 {48..57 :: nat}"
  shows "ParseParam env (c # t) s = param_value env (c # t) s"
proof -
  have "c \<noteq> CHR ''C''" "c \<noteq> CHR ''F''" "c \<noteq> CHR ''l''" "c \<noteq> CHR ''i''" "c \<noteq> CHR ''e''" "c \<noteq> CHR ''m''"
    using assms by auto
  then show ?thesis by (simp add: ParseParam_def numeral_2_eq_2)
qed

lemma fmt_ld_value: "ParseParam env (fmt_ld i) s = param_value env (fmt_ld i) s"
proof (cases "i < 0")
  case True
  then show ?thesis
    using number_is_value [of "CHR ''-''" env "show_base 10 (nat (- i))" s] by (simp add: fmt_ld_def)
next
  case False
  obtain d t where "d < 10" "show_base 10 (nat i) = digit_char d # t"
    using show_base_Cons [of 10 "nat i"] by auto
  then show ?thesis
    using False number_is_value [of "digit_char d" env t s] of_digit_char [of d] by (simp add: fmt_ld_def)
qed

lemma fmt_0x_value: "ParseParam env (''0x'' @ t) s = param_value env (''0x'' @ t) s"
  using number_is_value [of "CHR ''0''" env "CHR ''x'' # t" s] by simp

lemma medium_value:
  "m \<noteq> kUndefined \<Longrightarrow> ParseParam env (medium_name m) s = param_value env (medium_name m) s"
  "m \<noteq> kUndefined \<Longrightarrow> GetMedium_key (medium_name m) = Inr m"
  by (cases m; simp add: ParseParam_def GetMedium_key_def medium_name_def numeral_2_eq_2)+

definition new_node :: "nat \<Rightarrow> config_phase \<Rightarrow> ptr option \<Rightarrow> PhaseNode \<Rightarrow> bool" where
  "new_node n c cur nd \<longleftrightarrow>
     (case c of Phase l p lab iv et m cs \<Rightarrow> cfg_fields nd = (l, of_nat n, lab, iv, sat et, m, cur) \<and> pn_children nd = [])"

definition at_node :: "nat \<Rightarrow> ptr option \<Rightarrow> ptr option \<Rightarrow> SystemConfig \<Rightarrow> bool" where
  "at_node n rt cur s \<longleftrightarrow>
     length (pt_heap (sc_tree s)) = n \<and> w_gen (sc_world s) = of_nat n \<and> n < 2 ^ 32 \<and>
     pt_current (sc_tree s) = cur \<and> pt_root (sc_tree s) = rt \<and> sc_prv s \<noteq> CHR ''l'' \<and>
     (\<forall>q. cur = Some q \<longrightarrow> q < n \<and> (\<forall>c \<in> set (pn_children (pt_heap (sc_tree s) ! q)). c < n))"

definition head_events :: "config_phase \<Rightarrow> yaml_event list" where
  "head_events c =
     (case c of Phase l p lab iv et m cs \<Rightarrow>
        [YAML_MAPPING_START_EVENT,
         YAML_SCALAR_EVENT (''CD_'' @ fmt_u (unat l) @ ''_'' @ fmt_u (unat p)),
         YAML_SEQUENCE_START_EVENT, YAML_MAPPING_START_EVENT,
         YAML_SCALAR_EVENT ''label'', YAML_SCALAR_EVENT lab,
         YAML_SCALAR_EVENT ''interval'', YAML_SCALAR_EVENT (fmt_ld (sint iv)),
         YAML_SCALAR_EVENT ''errortype'', YAML_SCALAR_EVENT (''0x'' @ fmt_lX (unat et)),
         YAML_SCALAR_EVENT ''medium'', YAML_SCALAR_EVENT (medium_name m),
         YAML_MAPPING_END_EVENT])"

lemma on_event_CD:
  assumes "at_node n rt cur s" "p = (of_nat n :: uint32)"
  shows "\<exists>s'. on_event env (YAML_SCALAR_EVENT (''CD_'' @ fmt_u (unat l) @ ''_'' @ fmt_u (unat p))) s = Inr s' \<and>
     sc_prv s' = CHR ''C'' \<and> w_gen (sc_world s') = of_nat n + 1 \<and> pt_current (sc_tree s') = Some n \<and>
     pt_root (sc_tree s') = (if rt = None then Some n else rt) \<and>
     pt_heap (sc_tree s') = PhaseNode_Init cur (PhaseNode_fresh l ''Undefined'' kExecution (of_nat n)) (pt_heap (sc_tree s))"
proof -
  have "ParseParam env (''CD_'' @ fmt_u (unat l) @ ''_'' @ fmt_u (unat p)) s =
      new_tuned_phase (s\<lparr>sc_prv := CHR ''C'', sc_level := uint l, sc_phase := uint p\<rparr>)"
    unfolding ParseParam_def take2_CD UpdateSwitchParams_CD using assms(1) by (simp add: at_node_def)
  then have e: "on_event env (YAML_SCALAR_EVENT (''CD_'' @ fmt_u (unat l) @ ''_'' @ fmt_u (unat p))) s =
      new_tuned_phase (s\<lparr>sc_prv := CHR ''C'', sc_level := uint l, sc_phase := uint p\<rparr>)"
    by simp
  show ?thesis
    unfolding e using assms by (simp add: new_tuned_phase_def PhaseNode_ctor_tuned_def at_node_def Let_def)
qed

lemma on_current_at:
  assumes "pt_current (sc_tree s) = Some n"
  shows "\<exists>s'. on_current f s = Inr s' \<and> pt_current (sc_tree s') = Some n \<and> w_gen (sc_world s') = w_gen (sc_world s) \<and>
     pt_root (sc_tree s') = pt_root (sc_tree s) \<and> pt_heap (sc_tree s') = modify_node n f (pt_heap (sc_tree s)) \<and>
     sc_prv s' = sc_prv s"
  using assms by (simp add: on_current_def set_tree_def)

lemma on_mapping_keeps [simp]: "sc_world (on_mapping f s) = sc_world s" "sc_prv (on_mapping f s) = sc_prv s"
  by (simp_all add: on_mapping_def)

text \<open>The values that are read back for the parameters of a phase.\<close>

lemma param_interval:
  "sc_prv s = CHR ''i'' \<Longrightarrow> param_value env (fmt_ld (sint iv)) s =
     on_current (\<lambda>n. n\<lparr>pn_interval := iv\<rparr>) (s\<lparr>sc_interval := sint (iv :: 64 word)\<rparr>)"
  using atol_fmt_ld [of "sint iv"] sint_greater_eq [of iv] sint_less [of iv]
  by (simp add: param_value_def LONG_MIN_def LONG_MAX_def)

lemma strtol_sat: "word_of_int (strtol 16 (''0x'' @ fmt_lX (unat et))) = sat et"
proof (cases "unat et < 2 ^ 63")
  case True
  then have "int (unat et) < int (2 ^ 63)" by (simp only: of_nat_less_iff)
  then have "int (unat et) \<le> LONG_MAX" by (simp add: LONG_MAX_def)
  then show ?thesis using strtol_fmt_lX [of "unat et"] True by (simp add: min_absorb2 sat_def)
next
  case False
  then have "int (2 ^ 63) \<le> int (unat et)" by (simp only: of_nat_le_iff not_less)
  then have "LONG_MAX \<le> int (unat et)" by (simp add: LONG_MAX_def)
  then show ?thesis using strtol_fmt_lX [of "unat et"] False by (simp add: min_absorb1 sat_def LONG_MAX_def)
qed

lemma param_errortype:
  "sc_prv s = CHR ''e'' \<Longrightarrow> pt_current (sc_tree s) = Some n \<Longrightarrow>
   \<exists>s'. param_value env (''0x'' @ fmt_lX (unat et)) s = Inr s' \<and> pt_current (sc_tree s') = Some n \<and>
     w_gen (sc_world s') = w_gen (sc_world s) \<and> pt_root (sc_tree s') = pt_root (sc_tree s) \<and>
     pt_heap (sc_tree s') = modify_node n (\<lambda>n. n\<lparr>pn_errortype := sat et\<rparr>) (pt_heap (sc_tree s))"
  using strtol_sat [of et] by (simp add: param_value_def on_current_def set_tree_def)

lemma param_medium:
  "sc_prv s = CHR ''m'' \<Longrightarrow> m \<noteq> kUndefined \<Longrightarrow> pt_current (sc_tree s) = Some n \<Longrightarrow>
   \<exists>s'. param_value env (medium_name m) s = Inr s' \<and> pt_current (sc_tree s') = Some n \<and>
     w_gen (sc_world s') = w_gen (sc_world s) \<and> pt_root (sc_tree s') = pt_root (sc_tree s) \<and>
     sc_prv s' = CHR ''m'' \<and>
     pt_heap (sc_tree s') = modify_node n (\<lambda>n. n\<lparr>pn_medium := m\<rparr>) (pt_heap (sc_tree s))"
  by (simp add: param_value_def medium_value on_current_def set_tree_def)

lemma phase_head:
  assumes at: "at_node n rt cur s" and c: "c = Phase l p lab iv et m cs"
    and ok: "p = of_nat n" "readable c" "Suc n < 2 ^ 32"
  shows "\<exists>s'. steps env (head_events c) s s' \<and> at_node (Suc n) (if rt = None then Some n else rt) (Some n) s' \<and>
    grown (pt_heap (sc_tree s)) cur [n] (pt_heap (sc_tree s')) \<and>
    new_node n c cur (pt_heap (sc_tree s') ! n)"
proof -
  let ?h = "pt_heap (sc_tree s)"
  let ?n = "PhaseNode_fresh l ''Undefined'' kExecution (of_nat n)"
  have len: "length ?h = n"
    and cur: "\<And>q. cur = Some q \<Longrightarrow> q < length ?h \<and> (\<forall>c \<in> set (pn_children (?h ! q)). c < length ?h)"
    using at by (auto simp: at_node_def)
  have r: "label_ok lab" "m \<noteq> kUndefined" using ok(2) c by simp_all
  note I = PhaseNode_Init_grown [of cur ?h ?n, OF cur, unfolded len]
  obtain s1 where s1: "on_event env (YAML_SCALAR_EVENT (''CD_'' @ fmt_u (unat l) @ ''_'' @ fmt_u (unat p))) s = Inr s1"
    "w_gen (sc_world s1) = of_nat n + 1" "pt_current (sc_tree s1) = Some n"
    "pt_root (sc_tree s1) = (if rt = None then Some n else rt)" "pt_heap (sc_tree s1) = PhaseNode_Init cur ?n ?h"
    using on_event_CD [OF at ok(1), of env l] by blast
  obtain s2 where s2: "ParseParam env lab (s1\<lparr>sc_prv := CHR ''l''\<rparr>) = Inr s2"
    "pt_current (sc_tree s2) = Some n" "w_gen (sc_world s2) = w_gen (sc_world s1)" "pt_root (sc_tree s2) = pt_root (sc_tree s1)"
    "pt_heap (sc_tree s2) = modify_node n (\<lambda>n. n\<lparr>pn_label := lab\<rparr>) (pt_heap (sc_tree s1))"
    using on_current_at [of "s1\<lparr>sc_prv := CHR ''l'', sc_label := lab\<rparr>" n "\<lambda>n. n\<lparr>pn_label := lab\<rparr>"] s1(3)
      ParseParam_label [OF r(1), of "s1\<lparr>sc_prv := CHR ''l''\<rparr>" env] by auto
  obtain s3 where s3: "ParseParam env (fmt_ld (sint iv)) (s2\<lparr>sc_prv := CHR ''i''\<rparr>) = Inr s3"
    "pt_current (sc_tree s3) = Some n" "w_gen (sc_world s3) = w_gen (sc_world s2)" "pt_root (sc_tree s3) = pt_root (sc_tree s2)"
    "pt_heap (sc_tree s3) = modify_node n (\<lambda>n. n\<lparr>pn_interval := iv\<rparr>) (pt_heap (sc_tree s2))"
    using on_current_at [of "s2\<lparr>sc_prv := CHR ''i'', sc_interval := sint iv\<rparr>" n "\<lambda>n. n\<lparr>pn_interval := iv\<rparr>"] s2(2)
      param_interval [of "s2\<lparr>sc_prv := CHR ''i''\<rparr>" env iv] fmt_ld_value by auto
  obtain s4 where s4: "ParseParam env (''0x'' @ fmt_lX (unat et)) (s3\<lparr>sc_prv := CHR ''e''\<rparr>) = Inr s4"
    "pt_current (sc_tree s4) = Some n" "w_gen (sc_world s4) = w_gen (sc_world s3)" "pt_root (sc_tree s4) = pt_root (sc_tree s3)"
    "pt_heap (sc_tree s4) = modify_node n (\<lambda>n. n\<lparr>pn_errortype := sat et\<rparr>) (pt_heap (sc_tree s3))"
    using param_errortype [of "s3\<lparr>sc_prv := CHR ''e''\<rparr>" n env et] s3(2)
    unfolding fmt_0x_value by auto
  obtain s5 where s5: "ParseParam env (medium_name m) (s4\<lparr>sc_prv := CHR ''m''\<rparr>) = Inr s5"
    "pt_current (sc_tree s5) = Some n" "w_gen (sc_world s5) = w_gen (sc_world s4)" "pt_root (sc_tree s5) = pt_root (sc_tree s4)"
    "sc_prv s5 = CHR ''m''" "pt_heap (sc_tree s5) = modify_node n (\<lambda>n. n\<lparr>pn_medium := m\<rparr>) (pt_heap (sc_tree s4))"
    using param_medium [of "s4\<lparr>sc_prv := CHR ''m''\<rparr>" m n env] r(2) s4(2) medium_value(1) [OF r(2)] by auto
  note heap = s5(6) s4(5) s3(5) s2(5) s1(5)
  have "steps env (head_events c) s s5"
    using s1(1) s4(1) by (simp add: c head_events_def steps_def s2(1) s3(1) s5(1))
  moreover have "at_node (Suc n) (if rt = None then Some n else rt) (Some n) s5"
    using s1 s2 s3 s4 s5 ok(3) I(1,4) by (simp add: at_node_def modify_node_def PhaseNode_fresh_def)
  moreover have "grown ?h cur [n] (pt_heap (sc_tree s5))"
    unfolding heap using I(2) len by (intro grown_modify) (simp_all add: PhaseNode_fresh_def)
  moreover have "new_node n c cur (pt_heap (sc_tree s5) ! n)"
    unfolding heap using I(1,3,4) c by (simp add: new_node_def modify_node_def cfg_fields_def PhaseNode_fresh_def)
  ultimately show ?thesis by blast
qed

text \<open>The exact place of a configuration in the heap: the nodes from \<open>n\<close> on, in the order of the file.\<close>

fun laid_out :: "node_heap \<Rightarrow> nat \<Rightarrow> config_phase \<Rightarrow> bool"
  and laid_out_all :: "node_heap \<Rightarrow> nat \<Rightarrow> config_phase list \<Rightarrow> bool" where
  "laid_out h n (Phase l p lab iv et m cs) \<longleftrightarrow>
     n < length h \<and> (\<exists>q. cfg_fields (h ! n) = (l, p, lab, iv, sat et, m, q)) \<and>
     pn_children (h ! n) = positions (Suc n) cs \<and> laid_out_all h (Suc n) cs"
| "laid_out_all h n [] \<longleftrightarrow> True"
| "laid_out_all h n (c # cs) \<longleftrightarrow> laid_out h n c \<and> laid_out_all h (n + cp_size c) cs"

lemma laid_out_grown:
  "laid_out h n c \<Longrightarrow> grown h (Some q) ps h' \<Longrightarrow> q < n \<or> n + cp_size c \<le> q \<Longrightarrow> laid_out h' n c"
  "laid_out_all h n cs \<Longrightarrow> grown h (Some q) ps h' \<Longrightarrow> q < n \<or> n + cp_sizes cs \<le> q \<Longrightarrow> laid_out_all h' n cs"
proof (induction h n c and h n cs rule: laid_out_laid_out_all.induct)
  case (1 h n l p lab iv et m cs)
  then show ?case by (auto simp: grown_def)
qed auto

lemma laid_out_holds:
  "laid_out h n c \<Longrightarrow> holds_config h n (saturated c)"
  "laid_out_all h n cs \<Longrightarrow> holds_configs h (positions n cs) (map saturated cs)"
  by (induction h n c and h n cs rule: laid_out_laid_out_all.induct) (auto simp: cfg_fields_def)

lemma at_node_grown:
  assumes "at_node n rt cur s" "grown (pt_heap (sc_tree s)) cur ps (pt_heap (sc_tree s'))"
    and "length (pt_heap (sc_tree s')) = n'" "w_gen (sc_world s') = of_nat n'" "n' < 2 ^ 32"
    and "pt_current (sc_tree s') = cur" "pt_root (sc_tree s') = rt'" "sc_prv s' \<noteq> CHR ''l''" "\<forall>p \<in> set ps. p < n'"
  shows "at_node n' rt' cur s'"
  using assms by (force simp: at_node_def grown_def)

lemma seq_end:
  assumes "pt_current (sc_tree s) = Some p"
  shows "steps env [YAML_SEQUENCE_END_EVENT, YAML_MAPPING_END_EVENT] s
    (set_tree ((sc_tree s)\<lparr>pt_current := pn_parent (pt_heap (sc_tree s) ! p)\<rparr>) s)"
  using assms by (simp add: steps_def)

lemma phase_events_eq:
  "phase_events (Phase l p lab iv et m cs) =
     head_events (Phase l p lab iv et m cs) @ phases_events cs @ [YAML_SEQUENCE_END_EVENT, YAML_MAPPING_END_EVENT]"
  by (simp add: head_events_def)

lemma phases_load:
  "at_node n rt cur s \<Longrightarrow> numbered n c \<Longrightarrow> readable c \<Longrightarrow> n + cp_size c < 2 ^ 32 \<Longrightarrow>
   \<exists>s'. steps env (phase_events c) s s' \<and> at_node (n + cp_size c) (if rt = None then Some n else rt) cur s' \<and>
     grown (pt_heap (sc_tree s)) cur [n] (pt_heap (sc_tree s')) \<and> laid_out (pt_heap (sc_tree s')) n c"
  "at_node n (Some r) (Some q) s \<Longrightarrow> numbered_all n cs \<Longrightarrow> \<forall>c \<in> set cs. readable c \<Longrightarrow> n + cp_sizes cs < 2 ^ 32 \<Longrightarrow>
   \<exists>s'. steps env (phases_events cs) s s' \<and> at_node (n + cp_sizes cs) (Some r) (Some q) s' \<and>
     grown (pt_heap (sc_tree s)) (Some q) (positions n cs) (pt_heap (sc_tree s')) \<and> laid_out_all (pt_heap (sc_tree s')) n cs"
proof (induction c and cs arbitrary: n rt cur s and n r q s rule: cp_size_cp_sizes.induct)
  case (1 l p lab iv et m cs)
  let ?c = "Phase l p lab iv et m cs" and ?rt = "if rt = None then Some n else rt"
  from 1(3-5) have ok: "p = of_nat n" "numbered_all (Suc n) cs" "\<forall>c \<in> set cs. readable c"
    "Suc n < 2 ^ 32" "Suc n + cp_sizes cs < 2 ^ 32" by simp_all
  obtain s1 where s1: "steps env (head_events ?c) s s1" "at_node (Suc n) ?rt (Some n) s1"
    "grown (pt_heap (sc_tree s)) cur [n] (pt_heap (sc_tree s1))" "new_node n ?c cur (pt_heap (sc_tree s1) ! n)"
    using phase_head [OF 1(2) refl ok(1) 1(4) ok(4)] by blast
  obtain rr where rr: "?rt = Some rr" by (cases rt) auto
  obtain s2 where s2: "steps env (phases_events cs) s1 s2" "at_node (Suc n + cp_sizes cs) (Some rr) (Some n) s2"
    "grown (pt_heap (sc_tree s1)) (Some n) (positions (Suc n) cs) (pt_heap (sc_tree s2))"
    "laid_out_all (pt_heap (sc_tree s2)) (Suc n) cs"
    using 1(1) [OF s1(2) [unfolded rr] ok(2,3,5)] by blast
  let ?h2 = "pt_heap (sc_tree s2)"
  let ?s3 = "set_tree ((sc_tree s2)\<lparr>pt_current := pn_parent (?h2 ! n)\<rparr>) s2"
  have cur2: "pt_current (sc_tree s2) = Some n" and n1: "n < length (pt_heap (sc_tree s1))"
    and len: "length (pt_heap (sc_tree s)) = n" using s1(2) s2(2) 1(2) by (auto simp: at_node_def)
  have node: "cfg_fields (?h2 ! n) = (l, p, lab, iv, sat et, m, cur)" "pn_children (?h2 ! n) = positions (Suc n) cs"
    using s1(4) s2(3) n1 ok(1) by (auto simp: new_node_def grown_def)
  have st: "steps env (phase_events ?c) s ?s3"
    unfolding phase_events_eq by (rule steps_append [OF s1(1) steps_append [OF s2(1) seq_end [OF cur2]]])
  have gr: "grown (pt_heap (sc_tree s)) cur [n] ?h2"
    using grown_deeper [OF s1(3) s2(3)] len by simp
  have "at_node (n + cp_size ?c) ?rt cur ?s3"
    using s2(2) node(1) gr rr
    by (intro at_node_grown [OF 1(2), where ps = "[n]"]) (auto simp: at_node_def set_tree_def cfg_fields_def)
  moreover have "laid_out ?h2 n ?c" using node s2(4) n1 s2(3) by (simp add: grown_def)
  ultimately show ?case using st gr by (intro exI [of _ ?s3]) (simp add: set_tree_def)
next
  case 2
  then show ?case by (intro exI [of _ s]) (simp add: steps_Nil grown_refl)
next
  case (3 c cs)
  then have n: "numbered n c" "numbered_all (n + cp_size c) cs" "readable c" "\<forall>c \<in> set cs. readable c"
    "n + cp_size c < 2 ^ 32" "n + cp_size c + cp_sizes cs < 2 ^ 32" by auto
  obtain s1 where s1: "steps env (phase_events c) s s1" "at_node (n + cp_size c) (Some r) (Some q) s1"
    "grown (pt_heap (sc_tree s)) (Some q) [n] (pt_heap (sc_tree s1))" "laid_out (pt_heap (sc_tree s1)) n c"
    using 3(1) [OF 3(3) n(1,3,5)] by auto
  obtain s2 where s2: "steps env (phases_events cs) s1 s2" "at_node (n + cp_size c + cp_sizes cs) (Some r) (Some q) s2"
    "grown (pt_heap (sc_tree s1)) (Some q) (positions (n + cp_size c) cs) (pt_heap (sc_tree s2))"
    "laid_out_all (pt_heap (sc_tree s2)) (n + cp_size c) cs"
    using 3(2) [OF s1(2) n(2,4,6)] by blast
  have "q < n" using 3(3) by (simp add: at_node_def)
  then show ?case
    using steps_append [OF s1(1) s2(1)] s2(2,4) grown_trans [OF s1(3) s2(3)] laid_out_grown(1) [OF s1(4) s2(3)]
    by (intro exI [of _ s2]) (simp add: add.assoc)
qed

lemma load_events_steps: "steps env es s s' \<Longrightarrow> load_events env (es @ rest) s = load_events env rest s'"
  by (simp add: steps_def)

lemma LoadConfig_document:
  assumes at: "at_node 0 None None s" and c: "numbered 0 c" "readable c" "cp_size c < 2 ^ 32"
  shows "\<exists>s'. LoadConfig env (Some (document_events c)) s = Inr s' \<and> holds_config (pt_heap (sc_tree s')) 0 (saturated c) \<and>
    length (pt_heap (sc_tree s')) = cp_size c \<and> pt_current (sc_tree s') = Some 0 \<and> pt_root (sc_tree s') = Some 0 \<and>
    w_gen (sc_world s') = 0 \<and> w_max_phase (sc_world s') = of_nat (cp_size c)"
proof -
  obtain s1 where s1: "steps env (phase_events c) s s1" "at_node (cp_size c) (Some 0) None s1"
    "laid_out (pt_heap (sc_tree s1)) 0 c"
    using phases_load(1) [OF at c(1,2)] c(3) by auto
  have "pt_current (sc_tree s1) = None" using s1(2) by (simp add: at_node_def)
  then have "load_events env (document_events c) s = Inr s1"
    by (simp add: document_events_def load_events_steps [OF s1(1)])
  then show ?thesis
    using s1(2) laid_out_holds(1) [OF s1(3)] by (auto simp: LoadConfig_def Let_def at_node_def)
qed

text \<open>Printing a heap prints the configuration that it holds.\<close>

lemma GetMedium_name: "m \<noteq> kUndefined \<Longrightarrow> GetMedium tuning_off m = Inr (medium_name m)"
  by (cases m) (simp_all add: medium_name_def)

lemma PrintInputYAML_n_text:
  "heap_wf h \<Longrightarrow> holds_config h i c \<Longrightarrow> readable c \<Longrightarrow> length h \<le> i + k \<Longrightarrow>
     PrintInputYAML_n k tuning_off h i = Inr (config_text c)"
  "heap_wf h \<Longrightarrow> holds_configs h is cs \<Longrightarrow> \<forall>c \<in> set cs. readable c \<Longrightarrow> \<forall>i \<in> set is. length h \<le> i + k \<Longrightarrow>
     PrintInputYAML_all k tuning_off h is = Inr (config_texts cs)"
proof (induction h i c and h "is" cs arbitrary: k and k rule: holds_config_holds_configs.induct)
  case (1 h i l p lab iv et m cs)
  then have i: "i < length h" by simp
  then obtain k' where k: "k = Suc k'" using 1(5) by (cases k) auto
  have "length h \<le> j + k'" if "j \<in> set (pn_children (h ! i))" for j
    using heap_wf_child [OF 1(2) i that] 1(5) k by simp
  then show ?case using 1 k by (simp add: GetMedium_name)
qed auto


definition config_start :: SystemConfig where
  "config_start =
     \<lparr>sc_world = world0, sc_errortype = - 1, sc_interval = - 1, sc_level = - 1, sc_phase = - 1,
      sc_prv = CHR 0x00, sc_label = [], sc_medium = kUndefined, sc_mapping = [], sc_failure_rate = [],
      sc_failure_rate_record = [], sc_error_count = [], sc_ftype_name = ''NoNamed'', sc_is_error_free = False\<rparr>"

lemma config_start_at: "at_node 0 None None config_start"
  by (simp add: at_node_def config_start_def world0_def phase_tree_empty_def)

definition sample_env :: config_env where
  "sample_env = \<lparr>ce_totalTaskSize = 1, ce_KEEP_TOTAL_FAILURE_RATE_SAME = None\<rparr>"

definition sample_config :: config_phase where
  "sample_config =
     Phase 0 0 ''Root'' 1 255 kGlobalDisk
       [Phase 1 1 ''CD_A'' 2 3 kLocalDisk [], Phase 1 2 ''B'' (- 1) 1 kLocalMemory []]"

definition sample_heap :: node_heap where
  "sample_heap =
     (let n = (\<lambda>l p lab iv et m q cs.
                (PhaseNode_fresh l lab kExecution p)\<lparr>pn_interval := iv, pn_errortype := et, pn_medium := m,
                   pn_parent := q, pn_children := cs\<rparr>)
      in [n 0 0 ''Root'' 1 255 kGlobalDisk None [1, 2],
          n 1 1 ''CD_A'' 2 3 kLocalDisk (Some 0) [], n 1 2 ''B'' (- 1) 1 kLocalMemory (Some 0) []])"

lemma sample_heap_ok: "heap_wf sample_heap" "holds_config sample_heap 0 sample_config"
  "numbered 0 sample_config" "readable sample_config" "cp_size sample_config < 2 ^ 32"
proof -
  have "node_wf sample_heap 0" "node_wf sample_heap 1" "node_wf sample_heap 2"
    by (simp_all add: node_wf_def sample_heap_def PhaseNode_fresh_def Let_def)
  moreover have "length sample_heap = 3" by (simp add: sample_heap_def Let_def)
  ultimately show "heap_wf sample_heap" by (auto simp: heap_wf_def less_Suc_eq numeral_3_eq_3 numeral_2_eq_2)
qed (simp_all add: sample_heap_def sample_config_def PhaseNode_fresh_def Let_def label_ok_def)


section \<open>Configurations that are not read back\<close>

definition fails :: "config_env \<Rightarrow> yaml_event list \<Rightarrow> SystemConfig \<Rightarrow> bool" where
  "fails env es s \<longleftrightarrow> (\<forall>rest. \<exists>e. load_events env (es @ rest) s = Inl e)"

lemma fails_append: "fails env es s \<Longrightarrow> fails env (es @ es') s"
  by (simp add: fails_def)

lemma steps_fails: "steps env es s s' \<Longrightarrow> fails env es' s' \<Longrightarrow> fails env (es @ es') s"
  by (simp add: fails_def steps_def)

lemma wrong_number_fails:
  assumes "at_node n rt cur s" "p \<noteq> (of_nat n :: uint32)"
  shows "fails env (head_events (Phase l p lab iv et m cs)) s"
proof -
  have "ParseParam env (''CD_'' @ fmt_u (unat l) @ ''_'' @ fmt_u (unat p)) s =
      new_tuned_phase (s\<lparr>sc_prv := CHR ''C'', sc_level := uint l, sc_phase := uint p\<rparr>)"
    unfolding ParseParam_def take2_CD UpdateSwitchParams_CD using assms(1) by (simp add: at_node_def)
  then have "\<exists>e. ParseParam env (''CD_'' @ fmt_u (unat l) @ ''_'' @ fmt_u (unat p)) s = Inl e"
    using assms by (simp add: new_tuned_phase_def PhaseNode_ctor_tuned_def at_node_def Let_def)
  then show ?thesis by (auto simp: fails_def head_events_def)
qed

lemma phases_fail:
  "at_node n rt cur s \<Longrightarrow> \<not> numbered n c \<Longrightarrow> readable c \<Longrightarrow> n + cp_size c < 2 ^ 32 \<Longrightarrow> fails env (phase_events c) s"
  "at_node n (Some r) (Some q) s \<Longrightarrow> \<not> numbered_all n cs \<Longrightarrow> \<forall>c \<in> set cs. readable c \<Longrightarrow> n + cp_sizes cs < 2 ^ 32 \<Longrightarrow>
   fails env (phases_events cs) s"
proof (induction c and cs arbitrary: n rt cur s and n r q s rule: cp_size_cp_sizes.induct)
  case (1 l p lab iv et m cs)
  show ?case
  proof (cases "p = of_nat n")
    case False
    then show ?thesis unfolding phase_events_eq by (intro fails_append wrong_number_fails [OF 1(2)])
  next
    case True
    obtain r where r: "(if rt = None then Some n else rt) = Some r" by (cases rt) auto
    obtain s1 where "steps env (head_events (Phase l p lab iv et m cs)) s s1" "at_node (Suc n) (Some r) (Some n) s1"
      using phase_head [OF 1(2) refl True 1(4), of env] 1(5) unfolding r by auto
    then show ?thesis
      unfolding phase_events_eq using 1 True by (intro steps_fails fails_append) auto
  qed
next
  case (3 c cs)
  show ?case
  proof (cases "numbered n c")
    case False
    then show ?thesis using 3 by (simp add: fails_append)
  next
    case True
    then obtain s1 where "steps env (phase_events c) s s1" "at_node (n + cp_size c) (Some r) (Some q) s1"
      using phases_load(1) [OF 3(3) True] 3(5,6) by auto
    then show ?thesis using 3 True by (auto intro: steps_fails)
  qed
qed simp

text \<open>
  A printed configuration is loaded exactly when its phases are numbered in the order of the
  file.  The runtime numbers phases in the order in which they begin for the first time, so a
  phase that begins a new subphase after a later sibling has begun is printed before that sibling
  with a larger number, and the assertion in the constructor stops the program that loads the
  file.
\<close>

theorem LoadConfig_needs_order:
  assumes "at_node 0 None None s" and "readable c" and "cp_size c < 2 ^ 32"
  shows "(\<exists>s'. LoadConfig env (Some (document_events c)) s = Inr s') \<longleftrightarrow> numbered 0 c"
proof (cases "numbered 0 c")
  case True
  then show ?thesis using LoadConfig_document [OF assms(1) True assms(2,3), of env] by blast
next
  case False
  then have "fails env (phase_events c) s" using phases_fail(1) [OF assms(1) False assms(2)] assms(3) by simp
  then have "\<exists>e. load_events env (document_events c) s = Inl e"
    by (simp add: fails_def document_events_def)
  then show ?thesis using False by (auto simp: LoadConfig_def)
qed

definition back_to :: "ptr \<Rightarrow> phase_world \<times> uint32 \<Rightarrow> phase_world" where
  "back_to p wp = (fst wp)\<lparr>w_cd := (w_cd (fst wp))\<lparr>pt_current := Some p\<rparr>\<rparr>"

text \<open>A run: \<open>A\<close>, then \<open>B\<close>, then \<open>A\<close> again, which now begins \<open>C\<close>.\<close>

definition late_run :: "(phase_world \<times> uint32) outcome" where
  "late_run =
     (let w = world1\<lparr>w_cd := (w_cd world1)\<lparr>pt_heap := modify_node 0 (\<lambda>n. n\<lparr>pn_medium := kGlobalDisk\<rparr>) (pt_heap (w_cd world1))\<rparr>\<rparr> in
      bind_out (GetPhaseNode True 1 0 1 ''A'' kLocalDisk 3 w) (\<lambda>w.
      bind_out (GetPhaseNode True 1 0 1 ''B'' kLocalDisk 3 (back_to 0 w)) (\<lambda>w.
      bind_out (GetPhaseNode True 1 0 1 ''A'' kLocalDisk 3 (back_to 0 w)) (\<lambda>w.
        GetPhaseNode True 1 1 2 ''C'' kLocalDisk 3 (back_to 1 w)))))"

definition late_config :: config_phase where
  "late_config =
     Phase 0 0 ''Root'' (- 1) (- 1) kGlobalDisk
       [Phase 1 1 ''A'' (- 1) 3 kLocalDisk [Phase 2 3 ''C'' (- 1) 3 kLocalDisk []],
        Phase 1 2 ''B'' (- 1) 3 kLocalDisk []]"

theorem LoadConfig_needs_order_witness:
  "(\<exists>w phase. late_run = Inr (w, phase) \<and> holds_config (pt_heap (w_cd w)) 0 late_config) \<and>
   \<not> (\<exists>s'. LoadConfig sample_env (Some (document_events late_config)) config_start = Inr s')"
proof
  show "\<exists>w phase. late_run = Inr (w, phase) \<and> holds_config (pt_heap (w_cd w)) 0 late_config"
    by (simp add: late_run_def late_config_def back_to_def apply_config_def tree_eval)
  have "readable late_config" "cp_size late_config < 2 ^ 32" "\<not> numbered 0 late_config"
    by (simp_all add: late_config_def label_ok_def)
  then show "\<not> (\<exists>s'. LoadConfig sample_env (Some (document_events late_config)) config_start = Inr s')"
    using LoadConfig_needs_order [OF config_start_at, of late_config sample_env] by simp
qed

text \<open>
  A label that begins with \<open>F\<close> is lost: after the key \<open>label\<close> such a value is
  taken for the key of a failure rate, the tree is not changed, so the phase keeps the label
  \<open>Undefined\<close>, and the next value of the file that is no key is stored as a failure rate.
\<close>

theorem label_F_lost:
  assumes "take 1 lab = ''F''" and "length lab < 32"
  shows "\<exists>s'. steps env [YAML_SCALAR_EVENT ''label'', YAML_SCALAR_EVENT lab] s s' \<and>
    sc_world s' = sc_world s \<and> sc_prv s' = CHR ''F'' \<and> sc_errortype s' = atol (tl lab)"
proof -
  obtain t where t: "lab = CHR ''F'' # t" using assms(1) by (cases lab) auto
  obtain s' where s': "failure_key lab (s\<lparr>sc_prv := CHR ''l''\<rparr>) = Inr s'" "sc_world s' = sc_world s"
    "sc_prv s' = CHR ''F''" "sc_errortype s' = atol (tl lab)"
    using assms(2) by (simp add: failure_key_def Let_def)
  have "on_event env (YAML_SCALAR_EVENT lab) (s\<lparr>sc_prv := CHR ''l''\<rparr>) = Inr s'"
    using s'(1) by (simp add: t ParseParam_def numeral_2_eq_2)
  then have "steps env [YAML_SCALAR_EVENT ''label'', YAML_SCALAR_EVENT lab] s s'"
    by (intro steps_Cons [where s = s] steps_Cons [OF _ _ steps_Nil]) simp_all
  then show ?thesis using s'(2-4) by blast
qed

theorem label_F_lost_witness:
  "\<exists>s'. steps sample_env [YAML_SCALAR_EVENT ''label'', YAML_SCALAR_EVENT ''Force''] config_start s' \<and>
    sc_world s' = sc_world config_start \<and> sc_prv s' = CHR ''F'' \<and> sc_errortype s' = atol ''orce''"
  using label_F_lost [of "''Force''" sample_env config_start] by simp

text \<open>
  A label that is the last parameter of its phase swallows the next phase: the key of the next
  phase becomes the label of this one, and no node is created.
\<close>

theorem label_last_swallows_phase:
  assumes "label_ok lab" and "pt_current (sc_tree s) = Some p" and "p < length (pt_heap (sc_tree s))"
  shows "\<exists>s'. steps env [YAML_SCALAR_EVENT ''label'', YAML_SCALAR_EVENT lab, YAML_SCALAR_EVENT (''CD_'' @ rest)] s s' \<and>
    length (pt_heap (sc_tree s')) = length (pt_heap (sc_tree s)) \<and> pt_current (sc_tree s') = Some p \<and>
    pn_label (pt_heap (sc_tree s') ! p) = ''CD_'' @ rest"
proof -
  let ?s = "s\<lparr>sc_prv := CHR ''l''\<rparr>"
  have CD: "label_ok (''CD_'' @ rest)" by (simp add: label_ok_def)
  obtain s1 where s1: "ParseParam env lab ?s = Inr s1" "pt_current (sc_tree s1) = Some p" "sc_prv s1 = CHR ''l''"
    "pt_heap (sc_tree s1) = modify_node p (\<lambda>n. n\<lparr>pn_label := lab\<rparr>) (pt_heap (sc_tree s))"
    using on_current_at [of "?s\<lparr>sc_label := lab\<rparr>" p] ParseParam_label [OF assms(1), of ?s env] assms(2) by auto
  obtain s2 where s2: "ParseParam env (''CD_'' @ rest) s1 = Inr s2" "pt_current (sc_tree s2) = Some p"
    "pt_heap (sc_tree s2) = modify_node p (\<lambda>n. n\<lparr>pn_label := ''CD_'' @ rest\<rparr>) (pt_heap (sc_tree s1))"
    using on_current_at [of "s1\<lparr>sc_label := ''CD_'' @ rest\<rparr>" p] ParseParam_label [OF CD s1(3), of env] s1(2) by auto
  have "steps env [YAML_SCALAR_EVENT ''label'', YAML_SCALAR_EVENT lab, YAML_SCALAR_EVENT (''CD_'' @ rest)] s s2"
    using s2(1) by (simp add: steps_def s1(1))
  then show ?thesis using s1(4) s2(2,3) assms(3) by (intro exI [of _ s2]) (simp add: modify_node_def)
qed

end
