(* ===== verification/Tuned_Handle.thy ===== *)
theory Tuned_Handle
  imports CD_Core CD_Preserve Config_Load "HOL-Library.Signed_Division"
begin

text \<open>
  The handles of the tuned interface, \<open>tuned::CDHandle\<close> and \<open>tuned::CDPath\<close> of
  \<open>tuned_cd_handle.h\<close> and \<open>tuned_cd_handle.cc\<close>, in the build with the runtime
  (\<open>CD_RUNTIME_ENABLED\<close>).  A tuned handle follows the phases of the configuration in
  \<open>tuned::phaseTree\<close> and forwards a call to the handle of the runtime when the interval of
  the phase says so.  The state is the path of tuned handles and the state of the runtime of
  \<open>CD_Core\<close>, which contains both trees; a call that preserves data takes the state of
  \<open>CD_Preserve\<close> besides.  Intervals and counters are signed 64-bit numbers, and \<open>%\<close> truncates
  (\<open>smod\<close>) and traps on zero.  The collective forms of \<open>Create\<close> and the registration calls
  are left out.
\<close>

section \<open>State\<close>

record tuned_handle =
  th_handle :: handle
  th_level :: uint32
  th_phase :: uint32
  th_name :: string
  th_label :: string
  th_begin :: bool
  th_active :: bool
  th_level_created :: bool

record tuned =
  tu_path :: "tuned_handle list"
  tu_rt :: runtime

definition tuned_CDHandle :: "handle \<Rightarrow> uint32 \<Rightarrow> string \<Rightarrow> tuned_handle" where
  "tuned_CDHandle handle level name =
     \<lparr>th_handle = handle, th_level = level, th_phase = - 1, th_name = name, th_label = [],
      th_begin = False, th_active = False, th_level_created = False\<rparr>"

abbreviation tu_tree :: "tuned \<Rightarrow> phase_tree" where
  "tu_tree t \<equiv> w_tuned (r_world (tu_rt t))"

abbreviation tu_heap :: "tuned \<Rightarrow> node_heap" where
  "tu_heap t \<equiv> pt_heap (tu_tree t)"

abbreviation tu_current :: "tuned \<Rightarrow> ptr option" where
  "tu_current t \<equiv> pt_current (tu_tree t)"

definition set_tuned :: "phase_tree \<Rightarrow> tuned \<Rightarrow> tuned" where
  "set_tuned tr t = t\<lparr>tu_rt := (tu_rt t)\<lparr>r_world := (r_world (tu_rt t))\<lparr>w_tuned := tr\<rparr>\<rparr>\<rparr>"

definition set_tuned_current :: "ptr option \<Rightarrow> tuned \<Rightarrow> tuned" where
  "set_tuned_current p t = set_tuned ((tu_tree t)\<lparr>pt_current := p\<rparr>) t"

definition modify_tuned :: "ptr \<Rightarrow> (PhaseNode \<Rightarrow> PhaseNode) \<Rightarrow> tuned \<Rightarrow> tuned" where
  "modify_tuned p f t = set_tuned ((tu_tree t)\<lparr>pt_heap := modify_node p f (tu_heap t)\<rparr>) t"

definition with_rt :: "(runtime \<Rightarrow> (runtime \<times> 'a) outcome) \<Rightarrow> tuned \<Rightarrow> (tuned \<times> 'a) outcome" where
  "with_rt f t = bind_out (f (tu_rt t)) (\<lambda>(r, x). Inr (t\<lparr>tu_rt := r\<rparr>, x))"

section \<open>The path of tuned handles\<close>

definition tuned_GetLeafCD :: "tuned \<Rightarrow> tuned_handle option" where
  "tuned_GetLeafCD t = (if tu_path t \<noteq> [] then Some (last (tu_path t)) else None)"

definition tuned_GetRootCD :: "tuned \<Rightarrow> tuned_handle option" where
  "tuned_GetRootCD t = (if tu_path t \<noteq> [] then Some (hd (tu_path t)) else None)"

definition tuned_GetParentCD :: "tuned \<Rightarrow> tuned_handle option" where
  "tuned_GetParentCD t = (if length (tu_path t) > 1 then Some (tu_path t ! (length (tu_path t) - 2)) else None)"

definition tuned_GetCDLevel :: "uint32 \<Rightarrow> tuned \<Rightarrow> tuned_handle option" where
  "tuned_GetCDLevel level t = (if unat level < length (tu_path t) then Some (tu_path t ! unat level) else None)"

definition put_leaf :: "tuned_handle \<Rightarrow> tuned \<Rightarrow> tuned" where
  "put_leaf h t = t\<lparr>tu_path := butlast (tu_path t) @ [h]\<rparr>"

definition AddHandle :: "tuned_handle \<Rightarrow> tuned \<Rightarrow> tuned" where
  "AddHandle h t = t\<lparr>tu_path := tu_path t @ [h]\<rparr>"

definition DeleteHandle :: "tuned \<Rightarrow> tuned" where
  "DeleteHandle t = t\<lparr>tu_path := butlast (tu_path t)\<rparr>"

section \<open>Recording\<close>

definition tuned_RecordPreservation :: "uint32 \<Rightarrow> nat \<Rightarrow> RuntimeInfo \<Rightarrow> RuntimeInfo" where
  "tuned_RecordPreservation preserve_mask len p =
     (if CHECK_TYPE preserve_mask (CDPrvType_val kCopy) then p\<lparr>ri_prv_copy := ri_prv_copy p + of_nat len\<rparr>
      else if CHECK_TYPE preserve_mask (CDPrvType_val kRef) then p\<lparr>ri_prv_ref := ri_prv_ref p + of_nat len\<rparr>
      else p)"

definition tuned_RecordBegin :: "real \<Rightarrow> RuntimeInfo \<Rightarrow> RuntimeInfo" where
  "tuned_RecordBegin now p = p\<lparr>ri_exec_cnt := ri_exec_cnt p + 1, ri_exec_clk := now\<rparr>"

definition tuned_RecordComplete :: "real \<Rightarrow> RuntimeInfo \<Rightarrow> RuntimeInfo" where
  "tuned_RecordComplete now p = p\<lparr>ri_total_time := ri_total_time p + (now - ri_exec_clk p)\<rparr>"

definition record_tuned :: "ptr \<Rightarrow> (RuntimeInfo \<Rightarrow> RuntimeInfo) \<Rightarrow> tuned \<Rightarrow> tuned" where
  "record_tuned p f t = modify_tuned p (\<lambda>n. n\<lparr>pn_profile := f (pn_profile n)\<rparr>) t"

section \<open>Creating and destroying\<close>

definition IsNewCD :: "tuned_handle \<Rightarrow> tuned \<Rightarrow> (tuned_handle \<times> bool) outcome" where
  "IsNewCD this t =
     bind_out (deref ''tuned::phaseTree.current_'' (tu_current t)) (\<lambda>p.
       let all_zero = foldl (\<lambda>b c. b \<and> sint (pn_interval (tu_heap t ! c)) < 0) False (pn_children (tu_heap t ! p));
           created = (\<not> all_zero)
       in Inr (this\<lparr>th_level_created := created\<rparr>, created))"

definition tuned_Create :: "real \<Rightarrow> string \<Rightarrow> uint32 \<Rightarrow> uint64 \<Rightarrow> tuned \<Rightarrow> tuned outcome" where
  "tuned_Create now name cd_type sys_vec t =
     bind_out (deref ''GetLeafCD()'' (tuned_GetLeafCD t)) (\<lambda>cur.
     bind_out (assert_out ''cur->begin_ == true'' (th_begin cur)) (\<lambda>_.
     bind_out (IsNewCD (tuned_CDHandle (th_handle cur) (th_level cur + 1) name) t) (\<lambda>(new_handle, is_new).
     bind_out (if is_new then
                 bind_out (with_rt (CDHandle_Create now (th_handle cur) name cd_type sys_vec) t)
                   (\<lambda>(t, c). Inr (t, new_handle\<lparr>th_handle := c\<rparr>))
               else Inr (t, new_handle)) (\<lambda>(t, new_handle).
       Inr (AddHandle new_handle t)))))"

definition tuned_Destroy :: "real \<Rightarrow> tuned \<Rightarrow> tuned outcome" where
  "tuned_Destroy now t =
     bind_out (deref ''GetLeafCD()'' (tuned_GetLeafCD t)) (\<lambda>cur.
     bind_out (if th_level_created cur then bind_out (Destroy now (tu_rt t)) (\<lambda>r. Inr (t\<lparr>tu_rt := r\<rparr>)) else Inr t)
       (\<lambda>t. Inr (DeleteHandle t)))"

section \<open>Beginning and completing\<close>

text \<open>The phase of the runtime that an active \<open>Begin\<close> enters.\<close>

definition begin_real :: "real \<Rightarrow> tuned_handle \<Rightarrow> bool \<Rightarrow> uint64 \<Rightarrow> uint64 \<Rightarrow> runtime \<Rightarrow> (runtime \<times> control) outcome" where
  "begin_real now cur collective sys_err_vec errortype r =
     bind_out
       (case r_current r of
          Some c \<Rightarrow> GetPhaseNode (r_tuning_off r) (r_myTaskID r) c (th_level cur) (th_label cur) kUndefined sys_err_vec (r_world r)
        | None \<Rightarrow> Inr (PhaseTree_Init (th_level cur) (th_label cur) (r_world r)))
       (\<lambda>(w, new_phase).
          CDHandle_Begin now (th_handle cur) (th_label cur) collective errortype
            (r\<lparr>r_world := w, r_new_phase := new_phase\<rparr>))"

definition tuned_Begin :: "real \<Rightarrow> string \<Rightarrow> bool \<Rightarrow> uint64 \<Rightarrow> tuned \<Rightarrow> (tuned \<times> control) outcome" where
  "tuned_Begin now label collective sys_err_vec t =
     bind_out (deref ''GetLeafCD()'' (tuned_GetLeafCD t)) (\<lambda>cur.
     bind_out (assert_out ''cur->begin_ == false'' (\<not> th_begin cur)) (\<lambda>_.
     let cur = cur\<lparr>th_begin := True, th_label := (if label = [] then th_name cur else label)\<rparr> in
     bind_out (deref ''tuned::phaseTree.current_'' (tu_current t)) (\<lambda>p.
     bind_out (GetNextNode (th_label cur) p (tu_heap t)) (\<lambda>q.
     let t = set_tuned_current (Some q) t; n = tu_heap t ! q in
     bind_out (assert_out ''Begin: label'' (th_label cur = pn_label n)) (\<lambda>_.
     let count = sint (pn_count n); interval = sint (pn_interval n);
         cur = cur\<lparr>th_active := False\<rparr> in
     bind_out
       (if interval > 0 then
          let cur = cur\<lparr>th_phase := pn_phase n\<rparr> in
          if count smod interval = 0 then
            let cur = cur\<lparr>th_active := True\<rparr> in
            with_rt (begin_real now cur collective sys_err_vec (pn_errortype n)) (put_leaf cur t)
          else Inr (put_leaf cur t, Return kOK)
        else if interval = 0 then
          bind_out (deref ''GetLeftMostNode'' (GetLeftMostNode q (tu_heap t))) (\<lambda>l.
            Inr (put_leaf (cur\<lparr>th_phase := pn_phase (tu_heap t ! l)\<rparr>) t, Return kOK))
        else Inr (put_leaf (cur\<lparr>th_phase := - 1\<rparr>) t, Return kOK))
       (\<lambda>(t, ctl). case ctl of
            Jump h \<Rightarrow> Inr (t, Jump h)
          | Return _ \<Rightarrow> Inr (record_tuned q (tuned_RecordBegin now) t, Return kOK)))))))"

text \<open>\<open>Complete\<close>; the condition reads \<open>count % interval == interval - 1\<close>.\<close>

definition interval_done :: "PhaseNode \<Rightarrow> bool outcome" where
  "interval_done n =
     (if pn_interval n = 0 then Inl (DivByZero ''count % interval'')
      else Inr (sint (pn_count n) smod sint (pn_interval n) = sint (pn_interval n) - 1))"

definition complete_real :: "real \<Rightarrow> handle \<Rightarrow> runtime \<Rightarrow> (runtime \<times> control) outcome" where
  "complete_real now c r =
     bind_out (CDHandle_Complete now c r) (\<lambda>(r, ctl).
       case ctl of
         Jump h \<Rightarrow> Inr (r, Jump h)
       | Return e \<Rightarrow>
           bind_out (deref ''cd::phaseTree.current_'' (r_current r)) (\<lambda>cd.
             Inr (set_current (pn_parent (r_heap r ! cd)) r, Return e)))"

definition tuned_Complete :: "real \<Rightarrow> bool \<Rightarrow> tuned \<Rightarrow> (tuned \<times> control) outcome" where
  "tuned_Complete now terminate t =
     bind_out (deref ''GetLeafCD()'' (tuned_GetLeafCD t)) (\<lambda>cur.
     let cur = cur\<lparr>th_begin := False\<rparr>; t = put_leaf cur t in
     bind_out (deref ''tuned::phaseTree.current_'' (tu_current t)) (\<lambda>p.
     let t = record_tuned p (tuned_RecordComplete now) t in
     bind_out (deref ''GetLeftMostNode'' (GetLeftMostNode p (tu_heap t))) (\<lambda>merging_node.
     bind_out (deref ''GetRightMostNode'' (GetRightMostNode p (tu_heap t))) (\<lambda>last_merged_node.
     bind_out
       (if p = last_merged_node then
          bind_out (if terminate then Inr True else interval_done (tu_heap t ! merging_node)) (\<lambda>done.
            if done then
              with_rt (complete_real now (th_handle cur)) (modify_tuned merging_node (\<lambda>n. n\<lparr>pn_count := pn_count n + 1\<rparr>) t)
            else Inr (t, Return kOK))
        else Inr (t, Return kOK))
       (\<lambda>(t, ctl). case ctl of
            Jump h \<Rightarrow> Inr (t, Jump h)
          | Return e \<Rightarrow> Inr (set_tuned_current (pn_parent (tu_heap t ! p)) t, Return e))))))"

section \<open>Calls that are forwarded when the handle is active\<close>

definition forward :: "(handle \<Rightarrow> runtime \<Rightarrow> (runtime \<times> 'a) outcome) \<Rightarrow> 'a \<Rightarrow> tuned \<Rightarrow> (tuned \<times> 'a) outcome" where
  "forward f ret t =
     bind_out (deref ''GetLeafCD()'' (tuned_GetLeafCD t)) (\<lambda>cur.
       if th_active cur then with_rt (f (th_handle cur)) t else Inr (t, ret))"

definition tuned_CDAssert :: "real \<Rightarrow> bool \<Rightarrow> tuned \<Rightarrow> (tuned \<times> unit) outcome" where
  "tuned_CDAssert now test_true t =
     forward (\<lambda>c r. bind_out (CDHandle_CDAssert now test_true c r) (\<lambda>r. Inr (r, ()))) () t"

definition tuned_Detect :: "real \<Rightarrow> uint32 option \<Rightarrow> tuned \<Rightarrow> (tuned \<times> CDErrT) outcome" where
  "tuned_Detect now detected t = forward (CDHandle_Detect now detected) kOK t"

definition tuned_Preserve ::
  "(string \<Rightarrow> uint64) \<Rightarrow> uint64 \<Rightarrow> nat \<Rightarrow> uint32 \<Rightarrow> string \<Rightarrow> string \<Rightarrow> uint64 \<Rightarrow>
   tuned \<times> prv_state \<Rightarrow> (tuned \<times> prv_state) outcome" where
  "tuned_Preserve hash data len preserve_mask my_name ref_name ref_offset ts =
     (let (t, s) = ts in
      bind_out (deref ''GetLeafCD()'' (tuned_GetLeafCD t)) (\<lambda>cur.
      bind_out (if th_active cur
                then Preserve hash (unat (o_level (r_objs (tu_rt t) ! th_handle cur))) data len preserve_mask
                       my_name ref_name ref_offset s
                else Inr s) (\<lambda>s.
      bind_out (deref ''tuned::phaseTree.current_'' (tu_current t)) (\<lambda>p.
        Inr (record_tuned p (tuned_RecordPreservation preserve_mask len) t, s)))))"

section \<open>Starting\<close>

definition tuned_CD_Init ::
  "config_env \<Rightarrow> yaml_event list option \<Rightarrow> string \<Rightarrow> PrvMediumT \<Rightarrow> uint64 \<Rightarrow> SystemConfig \<Rightarrow> int \<Rightarrow>
   (SystemConfig \<times> tuned) outcome" where
  "tuned_CD_Init env file exec_label prv_medium root_vec cfg myTask =
     bind_out (LoadConfig env file cfg) (\<lambda>cfg.
     let r = (runtime_init (sc_world cfg) False myTask)\<lparr>r_tuning_enabled := True\<rparr> in
     bind_out (CD_Init exec_label prv_medium root_vec r) (\<lambda>(r, root_handle).
       Inr (cfg, \<lparr>tu_path = [tuned_CDHandle root_handle 0 ''CD_0_0''], tu_rt = r\<rparr>)))"

section \<open>What the calls keep\<close>

text \<open>The runtime without the tuned tree.\<close>

definition real_part :: "runtime \<Rightarrow> runtime" where
  "real_part r = r\<lparr>r_world := (r_world r)\<lparr>w_tuned := phase_tree_empty\<rparr>\<rparr>"

lemma set_tuned_simps [simp]:
  "tu_path (set_tuned x t) = tu_path t" "tu_tree (set_tuned x t) = x"
  "real_part (tu_rt (set_tuned x t)) = real_part (tu_rt t)"
  "r_objs (tu_rt (set_tuned x t)) = r_objs (tu_rt t)" "r_tree (tu_rt (set_tuned x t)) = r_tree (tu_rt t)"
  by (simp_all add: set_tuned_def real_part_def)

lemma set_tuned_current_simps [simp]:
  "tu_path (set_tuned_current p t) = tu_path t" "tu_heap (set_tuned_current p t) = tu_heap t"
  "tu_current (set_tuned_current p t) = p" "r_tree (tu_rt (set_tuned_current p t)) = r_tree (tu_rt t)"
  "real_part (tu_rt (set_tuned_current p t)) = real_part (tu_rt t)" "r_objs (tu_rt (set_tuned_current p t)) = r_objs (tu_rt t)"
  by (simp_all add: set_tuned_current_def)

lemma modify_tuned_simps [simp]:
  "tu_path (modify_tuned p f t) = tu_path t" "tu_heap (modify_tuned p f t) = modify_node p f (tu_heap t)"
  "tu_current (modify_tuned p f t) = tu_current t" "r_tree (tu_rt (modify_tuned p f t)) = r_tree (tu_rt t)"
  "real_part (tu_rt (modify_tuned p f t)) = real_part (tu_rt t)" "r_objs (tu_rt (modify_tuned p f t)) = r_objs (tu_rt t)"
  by (simp_all add: modify_tuned_def)

lemma record_tuned_simps [simp]:
  "tu_path (record_tuned p f t) = tu_path t" "tu_current (record_tuned p f t) = tu_current t"
  "tu_heap (record_tuned p f t) = modify_node p (\<lambda>n. n\<lparr>pn_profile := f (pn_profile n)\<rparr>) (tu_heap t)"
  "real_part (tu_rt (record_tuned p f t)) = real_part (tu_rt t)" "r_objs (tu_rt (record_tuned p f t)) = r_objs (tu_rt t)"
  "r_tree (tu_rt (record_tuned p f t)) = r_tree (tu_rt t)"
  by (simp_all add: record_tuned_def)

lemma put_leaf_simps [simp]:
  "tu_rt (put_leaf h t) = tu_rt t" "tuned_GetLeafCD (put_leaf h t) = Some h" "tu_path (put_leaf h t) = butlast (tu_path t) @ [h]"
  by (simp_all add: put_leaf_def tuned_GetLeafCD_def)

lemma leaf_of_path: "tu_path t' = tu_path t \<Longrightarrow> tuned_GetLeafCD t' = tuned_GetLeafCD t"
  by (simp add: tuned_GetLeafCD_def)

text \<open>
  What the tuned handles read of a node besides the profile: the links, the label, the phase, the
  interval, the counter and the error type.
\<close>

definition tuning :: "PhaseNode \<Rightarrow> _" where
  "tuning n = (pn_parent n, pn_left n, pn_right n, pn_children n, pn_label n, pn_phase n, pn_interval n, pn_errortype n)"

definition same_tuning :: "node_heap \<Rightarrow> node_heap \<Rightarrow> bool" where
  "same_tuning h h' \<longleftrightarrow> map tuning h' = map tuning h"

lemma same_tuning_refl [simp]: "same_tuning h h"
  by (simp add: same_tuning_def)

lemma same_tuning_trans: "same_tuning h h1 \<Longrightarrow> same_tuning h1 h2 \<Longrightarrow> same_tuning h h2"
  by (simp add: same_tuning_def)

lemma same_tuning_length: "same_tuning h h' \<Longrightarrow> length h' = length h"
  unfolding same_tuning_def by (rule map_eq_imp_length_eq)

lemma same_tuning_modify:
  "(\<And>n. tuning (f n) = tuning n) \<Longrightarrow> same_tuning h (modify_node p f h)"
  by (cases "p < length h")
    (simp_all add: same_tuning_def modify_node_def map_update list_update_beyond list_update_same_conv)

lemma same_tuning_record [simp]: "same_tuning h (modify_node p (\<lambda>n. n\<lparr>pn_profile := f (pn_profile n)\<rparr>) h)"
  by (rule same_tuning_modify) (simp add: tuning_def)

lemma same_tuning_nth:
  assumes "same_tuning h h'" "i < length h"
  shows "pn_parent (h' ! i) = pn_parent (h ! i)" "pn_left (h' ! i) = pn_left (h ! i)" "pn_right (h' ! i) = pn_right (h ! i)"
    "pn_children (h' ! i) = pn_children (h ! i)" "pn_label (h' ! i) = pn_label (h ! i)"
    "pn_phase (h' ! i) = pn_phase (h ! i)" "pn_interval (h' ! i) = pn_interval (h ! i)"
    "pn_errortype (h' ! i) = pn_errortype (h ! i)"
proof -
  have "tuning (h' ! i) = tuning (h ! i)"
    using assms same_tuning_length [OF assms(1)] unfolding same_tuning_def by (metis nth_map)
  then show "pn_parent (h' ! i) = pn_parent (h ! i)" "pn_left (h' ! i) = pn_left (h ! i)" "pn_right (h' ! i) = pn_right (h ! i)"
    "pn_children (h' ! i) = pn_children (h ! i)" "pn_label (h' ! i) = pn_label (h ! i)"
    "pn_phase (h' ! i) = pn_phase (h ! i)" "pn_interval (h' ! i) = pn_interval (h ! i)"
    "pn_errortype (h' ! i) = pn_errortype (h ! i)"
    by (simp_all add: tuning_def)
qed

section \<open>Merging\<close>

text \<open>A node that no merged node precedes or follows.\<close>

definition first_merged :: "node_heap \<Rightarrow> ptr \<Rightarrow> bool" where
  "first_merged h p \<longleftrightarrow> (case pn_left (h ! p) of Some l \<Rightarrow> pn_interval (h ! l) \<noteq> 0 | None \<Rightarrow> True)"

definition last_merged :: "node_heap \<Rightarrow> ptr \<Rightarrow> bool" where
  "last_merged h p \<longleftrightarrow> (case pn_right (h ! p) of Some l \<Rightarrow> pn_interval (h ! l) \<noteq> 0 | None \<Rightarrow> True)"

lemma GetLeftMostNode_first: "h \<noteq> [] \<Longrightarrow> first_merged h p \<Longrightarrow> GetLeftMostNode p h = Some p"
  by (cases h) (auto simp: GetLeftMostNode_def first_merged_def split: option.splits)

lemma GetRightMostNode_last: "h \<noteq> [] \<Longrightarrow> last_merged h p \<Longrightarrow> GetRightMostNode p h = Some p"
  by (cases h) (auto simp: GetRightMostNode_def last_merged_def split: option.splits)

lemma GetLeftMostNode_zero:
  "GetLeftMostNode_n k h p = Some l \<Longrightarrow> pn_interval (h ! p) = 0 \<Longrightarrow> pn_interval (h ! l) = 0"
  by (induction k h p rule: GetLeftMostNode_n.induct) (auto split: option.splits if_splits)

lemma smod_negative: "b < 0 \<Longrightarrow> a smod b \<noteq> b - 1" for a b :: int
  using smod_int_range [of b a] by auto

lemma interval_done_neg: "sint (pn_interval n) < 0 \<Longrightarrow> interval_done n = Inr False"
  by (auto simp: interval_done_def smod_negative)

lemma same_tuning_merged:
  assumes "same_tuning h h'" "p < length h" "\<And>l. pn_left (h ! p) = Some l \<Longrightarrow> l < length h"
    "\<And>l. pn_right (h ! p) = Some l \<Longrightarrow> l < length h"
  shows "first_merged h' p = first_merged h p" "last_merged h' p = last_merged h p"
  using assms same_tuning_nth [OF assms(1)] by (auto simp: first_merged_def last_merged_def split: option.splits)

definition siblings_ok :: "node_heap \<Rightarrow> bool" where
  "siblings_ok h \<longleftrightarrow> (\<forall>i < length h. \<forall>l. pn_left (h ! i) = Some l \<or> pn_right (h ! i) = Some l \<longrightarrow> l < length h)"

lemma siblings_okI:
  "list_all (\<lambda>n. pred_option (\<lambda>l. l < length h) (pn_left n) \<and> pred_option (\<lambda>l. l < length h) (pn_right n)) h \<Longrightarrow> siblings_ok h"
  unfolding siblings_ok_def list_all_length by fastforce

lemma siblings_okD:
  "siblings_ok h \<Longrightarrow> i < length h \<Longrightarrow> pn_left (h ! i) = Some l \<Longrightarrow> l < length h"
  "siblings_ok h \<Longrightarrow> i < length h \<Longrightarrow> pn_right (h ! i) = Some l \<Longrightarrow> l < length h"
  unfolding siblings_ok_def by blast+

lemma GetLeftMostNode_n_same:
  "same_tuning h h' \<Longrightarrow> siblings_ok h \<Longrightarrow> p < length h \<Longrightarrow> GetLeftMostNode_n k h' p = GetLeftMostNode_n k h p"
proof (induction k h p rule: GetLeftMostNode_n.induct)
  case (2 k h p)
  note left = same_tuning_nth(2) [OF 2(2,4)]
  show ?case
  proof (cases "pn_left (h ! p)")
    case None
    then show ?thesis using left by simp
  next
    case (Some l)
    note l = siblings_okD(1) [OF 2(3,4) Some]
    have ih: "pn_interval (h ! l) = 0 \<Longrightarrow> l \<noteq> p \<Longrightarrow> GetLeftMostNode_n k h' l = GetLeftMostNode_n k h l"
      using 2(1) [OF Some _ _ 2(2,3) l] by blast
    show ?thesis
      unfolding GetLeftMostNode_n.simps left Some option.case same_tuning_nth(7) [OF 2(2) l]
      using ih by (intro if_cong refl)
  qed
qed simp

lemma GetLeftMostNode_same:
  "siblings_ok h \<Longrightarrow> p < length h \<Longrightarrow>
   GetLeftMostNode p (modify_node q (\<lambda>n. n\<lparr>pn_profile := f (pn_profile n)\<rparr>) h) = GetLeftMostNode p h"
  using GetLeftMostNode_n_same [OF same_tuning_record] same_tuning_length [OF same_tuning_record]
  by (simp only: GetLeftMostNode_def)

definition unmerged :: "node_heap \<Rightarrow> ptr \<Rightarrow> bool" where
  "unmerged h p \<longleftrightarrow> p < length h \<and> first_merged h p \<and> last_merged h p \<and>
     (\<forall>l. pn_left (h ! p) = Some l \<or> pn_right (h ! p) = Some l \<longrightarrow> l < length h)"

lemma unmerged_most:
  "unmerged h p \<Longrightarrow> GetLeftMostNode p h = Some p" "unmerged h p \<Longrightarrow> GetRightMostNode p h = Some p"
  by (auto simp: unmerged_def intro!: GetLeftMostNode_first GetRightMostNode_last)

lemma same_tuning_unmerged: "same_tuning h h' \<Longrightarrow> unmerged h p \<Longrightarrow> unmerged h' p"
  unfolding unmerged_def
  using same_tuning_merged [of h h' p] same_tuning_nth(2,3) [of h h' p] same_tuning_length [of h h'] by auto

text \<open>The handle begins at the node \<open>q\<close> below the current node \<open>p\<close>.\<close>

definition begin_label :: "string \<Rightarrow> tuned_handle \<Rightarrow> string" where
  "begin_label label cur = (if label = [] then th_name cur else label)"

definition enters :: "string \<Rightarrow> tuned_handle \<Rightarrow> ptr \<Rightarrow> ptr \<Rightarrow> tuned \<Rightarrow> bool" where
  "enters label cur p q t \<longleftrightarrow>
     tuned_GetLeafCD t = Some cur \<and> \<not> th_begin cur \<and> tu_current t = Some p \<and>
     GetNextNode (begin_label label cur) p (tu_heap t) = Inr q"

lemma GetNextNode_label: "GetNextNode l p h = Inr q \<Longrightarrow> pn_label (h ! q) = l"
  by (auto simp: GetNextNode_def find_Some_iff split: if_splits option.splits)

lemma GetNextNode_same:
  assumes "same_tuning h h'" "p < length h" "\<forall>c \<in> set (pn_children (h ! p)). c < length h"
  shows "GetNextNode l p h' = GetNextNode l p h"
proof -
  have "find (\<lambda>c. pn_label (h' ! c) = l) (rev (pn_children (h ! p))) = find (\<lambda>c. pn_label (h ! c) = l) (rev (pn_children (h ! p)))"
    using assms(3) same_tuning_nth(5) [OF assms(1)] by (intro find_cong) auto
  then show ?thesis using same_tuning_nth(4,5) [OF assms(1,2)] by (simp add: GetNextNode_def)
qed

definition begun_leaf :: "string \<Rightarrow> tuned_handle \<Rightarrow> tuned_handle" where
  "begun_leaf label cur = cur\<lparr>th_begin := True, th_label := begin_label label cur\<rparr>"

lemma tuned_Begin_off:
  assumes e: "enters label cur p q t" and i: "sint (pn_interval (tu_heap t ! q)) < 0"
  shows "tuned_Begin now label collective vec t =
    Inr (record_tuned q (tuned_RecordBegin now)
          (put_leaf (begun_leaf label cur\<lparr>th_active := False, th_phase := - 1\<rparr>) (set_tuned_current (Some q) t)), Return kOK)"
  using e i GetNextNode_label [of "begin_label label cur" p "tu_heap t" q]
  by (simp add: tuned_Begin_def enters_def begun_leaf_def begin_label_def Let_def)

lemma tuned_Complete_waits:
  assumes "tuned_GetLeafCD t = Some cur" "tu_current t = Some p" "unmerged (tu_heap t) p"
    and "interval_done (tu_heap t ! p) = Inr False"
  shows "tuned_Complete now False t =
    Inr (set_tuned_current (pn_parent (tu_heap t ! p))
          (record_tuned p (tuned_RecordComplete now) (put_leaf (cur\<lparr>th_begin := False\<rparr>) t)), Return kOK)"
proof -
  let ?h = "modify_node p (\<lambda>n. n\<lparr>pn_profile := tuned_RecordComplete now (pn_profile n)\<rparr>) (tu_heap t)"
  have p: "p < length (tu_heap t)" using assms(3) by (simp add: unmerged_def)
  have "unmerged ?h p" by (rule same_tuning_unmerged [OF same_tuning_record assms(3)])
  note m = unmerged_most [OF this]
  have "interval_done (?h ! p) = Inr False" "pn_parent (?h ! p) = pn_parent (tu_heap t ! p)"
    using assms(4) p by (simp_all add: interval_done_def modify_node_def split: if_splits)
  then show ?thesis using assms(1,2) m by (simp add: tuned_Complete_def Let_def)
qed

text \<open>
  A merged phase cannot be completed.  The configuration gives interval zero to the phases
  that are merged into the phase on their left, and the last of them is the one whose
  \<open>Complete\<close> has to complete the merged domain.  But \<open>GetLeftMostNode\<close> stops at the first
  phase of interval zero instead of the phase with the interval, so \<open>Complete\<close> computes a
  remainder by zero and the program is stopped.
\<close>

theorem merged_phase_traps:
  assumes "tuned_GetLeafCD t = Some cur" and "tu_current t = Some p" and "p < length (tu_heap t)"
    and "siblings_ok (tu_heap t)" and "GetLeftMostNode p (tu_heap t) = Some l"
    and "pn_interval (tu_heap t ! p) = 0" and "last_merged (tu_heap t) p"
  shows "tuned_Complete now False t = Inl (DivByZero ''count % interval'')"
proof -
  let ?h = "modify_node p (\<lambda>n. n\<lparr>pn_profile := tuned_RecordComplete now (pn_profile n)\<rparr>) (tu_heap t)"
  have "last_merged ?h p"
    by (rule same_tuning_merged(2) [OF same_tuning_record assms(3), THEN iffD2])
      (use assms(3,4,7) siblings_okD in blast)+
  moreover have "?h \<noteq> []" using assms(3) by (auto simp: modify_node_def)
  ultimately have r: "GetRightMostNode p ?h = Some p" by (simp add: GetRightMostNode_last)
  have l: "GetLeftMostNode p ?h = Some l"
    using assms(3,4,5) by (simp add: GetLeftMostNode_same)
  have "pn_interval (?h ! p) = 0" using assms(3,6) by (simp add: modify_node_def)
  then have "pn_interval (?h ! l) = 0" using GetLeftMostNode_zero l unfolding GetLeftMostNode_def by blast
  then show ?thesis using assms(1,2) r l by (simp add: tuned_Complete_def Let_def interval_done_def)
qed

section \<open>The runtime under tuned handles\<close>

text \<open>
  With tuning enabled \<open>Begin\<close> and \<open>Complete\<close> of the runtime do not move in the tree: the tuned
  handle does.
\<close>

definition same_tree :: "runtime \<Rightarrow> runtime \<Rightarrow> bool" where
  "same_tree r r' \<longleftrightarrow>
     map links (r_heap r') = map links (r_heap r) \<and> map pn_phase (r_heap r') = map pn_phase (r_heap r) \<and>
     r_current r' = r_current r \<and> pt_path (r_tree r') = pt_path (r_tree r) \<and> pt_cache (r_tree r') = pt_cache (r_tree r) \<and>
     w_gen (r_world r') = w_gen (r_world r) \<and> w_tuned (r_world r') = w_tuned (r_world r) \<and>
     r_tuning_enabled r' = r_tuning_enabled r \<and> r_failed_phase r' = r_failed_phase r"

lemma same_tree_refl [simp]: "same_tree r r"
  by (simp add: same_tree_def)

lemma same_tree_trans: "same_tree r r1 \<Longrightarrow> same_tree r1 r2 \<Longrightarrow> same_tree r r2"
  by (simp add: same_tree_def)

lemma same_tree_obj [simp]: "same_tree r (modify_obj c f r') = same_tree r r'"
  by (simp add: same_tree_def)

lemma same_tree_node:
  assumes "same_tree r r'" "\<And>n. links (f n) = links n" "\<And>n. pn_phase (f n) = pn_phase n"
  shows "same_tree r (set_heap (modify_node p f (r_heap r')) r')"
  using assms by (simp add: same_tree_def set_heap_def map_links_modify map_phase_modify)

lemma same_tree_profile:
  assumes "with_profile p f r = Inr r'" "same_tree r0 r"
  shows "same_tree r0 r' \<and> r_objs r' = r_objs r \<and> r_path r' = r_path r"
proof -
  obtain g prof where "r' = set_heap (modify_node p (\<lambda>n. n\<lparr>pn_profile := prof\<rparr>) (r_heap r)) (r\<lparr>r_glob := g\<rparr>)"
    using assms(1) by (auto simp: with_profile_def bind_out_Inr_iff)
  then show ?thesis
    using same_tree_node [of r0 "r\<lparr>r_glob := g\<rparr>" "\<lambda>n. n\<lparr>pn_profile := prof\<rparr>" p] assms(2)
    by (simp add: same_tree_def)
qed

lemma same_tree_rollback_point [simp]:
  "same_tree r (fst (SetRollbackPoint lv r')) = same_tree r r'" "r_objs (fst (SetRollbackPoint lv r)) = r_objs r"
  "r_path (fst (SetRollbackPoint lv r)) = r_path r"
  by (simp_all add: SetRollbackPoint_def same_tree_def)

lemma SetBegin_Inr:
  assumes "SetBegin c r = Inr r'" "c < length (r_objs r)"
  shows "same_tree r r' \<and> r_path r' = r_path r \<and> map o_begin (r_objs r') = (map o_begin (r_objs r))[c := True] \<and>
    \<not> o_begin (r_objs r ! c)"
  using assms by (auto simp: SetBegin_def bind_out_Inr_iff modify_obj_def map_update same_tree_def)

lemma map_begin_modify:
  "(\<And>d. o_begin (f d) = o_begin d) \<Longrightarrow> map o_begin (r_objs (modify_obj c f r)) = map o_begin (r_objs r)"
  by (cases "c < length (r_objs r)") (simp_all add: modify_obj_def map_update list_update_beyond list_update_same_conv)

lemma enter_phase_tuned:
  assumes "enter_phase c label r = Inr r'" "r_tuning_enabled r"
  shows "same_tree r r' \<and> r_path r' = r_path r \<and> map o_begin (r_objs r') = map o_begin (r_objs r)"
  using assms by (auto simp: enter_phase_def Let_def bind_out_Inr_iff map_begin_modify)

lemma mark_seq_same:
  assumes "mark_seq c r = Inr r'"
  shows "same_tree r r' \<and> r_path r' = r_path r \<and> r_objs r' = r_objs r"
proof -
  have 1: "same_tree r (r\<lparr>r_prev_phase := x\<rparr>)" for x by (simp add: same_tree_def)
  have 2: "same_tree r (set_heap (MarkSeqID cur (r_heap r)) r\<lparr>r_prev_phase := x\<rparr>)" for cur x
    by (simp add: MarkSeqID_def same_tree_def set_heap_def map_links_modify map_phase_modify links_def split: option.split)
  show ?thesis
    using assms 1 2 by (auto simp: mark_seq_def Let_def bind_out_Inr_iff split: if_splits)
qed

lemma same_tree_flags [simp]:
  "same_tree r (r'\<lparr>r_need_escalation := x\<rparr>) = same_tree r r'" "same_tree r (r'\<lparr>r_rollback_point := y\<rparr>) = same_tree r r'"
  "same_tree r (r'\<lparr>r_just_reexecuted := x\<rparr>) = same_tree r r'" "same_tree r (r'\<lparr>r_glob := g\<rparr>) = same_tree r r'"
  by (simp_all add: same_tree_def)

lemma CD_Begin_tuned:
  assumes "CD_Begin now c label collective r = Inr (r', Return e)" "r_tuning_enabled r" "c < length (r_objs r)"
  shows "same_tree r r' \<and> r_path r' = r_path r \<and> map o_begin (r_objs r') = (map o_begin (r_objs r))[c := True] \<and>
    \<not> o_begin (r_objs r ! c)"
proof -
  obtain r1 r2 r3 where r1: "SetBegin c r = Inr r1" and r2: "enter_phase c label r1 = Inr r2" and r3: "mark_seq c r2 = Inr r3"
    using assms(1) by (auto simp: CD_Begin_def bind_out_Inr_iff)
  note s1 = SetBegin_Inr [OF r1 assms(3)]
  then have "r_tuning_enabled r1" using assms(2) by (simp add: same_tree_def)
  note s2 = enter_phase_tuned [OF r2 this] and s3 = mark_seq_same [OF r3]
  have t: "same_tree r r3" using s1 s2 s3 same_tree_trans by blast
  have nl: "\<not> INVALID_ROLLBACK_POINT < x" for x by (simp add: not_less le_INVALID)
  have keep: "same_tree r (modify_obj c f x) = same_tree r x" "r_path (modify_obj c f x) = r_path x" for f x by simp_all
  have "same_tree r r' \<and> r_path r' = r_path r3 \<and> map o_begin (r_objs r') = map o_begin (r_objs r3)"
    using assms(1) t by (auto simp: CD_Begin_def r1 r2 r3 Let_def SyncCDs_def nl map_begin_modify)
  then show ?thesis using s1 s2 s3 by simp
qed

lemma CDHandle_Begin_tuned:
  assumes "CDHandle_Begin now c label collective vec r = Inr (r', Return e)" "r_tuning_enabled r" "c < length (r_objs r)"
  shows "same_tree r r' \<and> r_path r' = r_path r \<and> map o_begin (r_objs r') = (map o_begin (r_objs r))[c := True] \<and>
    \<not> o_begin (r_objs r ! c)"
proof -
  let ?r = "r\<lparr>r_glob := (r_glob r)\<lparr>g_begin_clk := now\<rparr>\<rparr>"
  let ?r0 = "if vec \<noteq> 0 then modify_obj c (\<lambda>d. d\<lparr>o_sys_bit_vector := vec\<rparr>) ?r else ?r"
  have r0: "same_tree r ?r0" "r_path ?r0 = r_path r" "map o_begin (r_objs ?r0) = map o_begin (r_objs r)"
    "r_tuning_enabled ?r0" "c < length (r_objs ?r0)"
    using assms(2,3) by (simp_all add: same_tree_def map_begin_modify)
  obtain r1 ctl where r1: "CD_Begin now c label collective ?r0 = Inr (r1, ctl)"
    and rest: "(case ctl of Jump t \<Rightarrow> Inr (r1, Jump t)
       | Return e \<Rightarrow> bind_out (deref ''phaseTree.current_'' (r_current r1)) (\<lambda>cur.
           bind_out (with_profile cur (\<lambda>s. Inr (RecordBegin now (IsFailed r1) (r_just_reexecuted ?r0) s)) r1) (\<lambda>r.
             Inr (r, Return e)))) = Inr (r', Return e)"
    using assms(1) unfolding CDHandle_Begin_def Let_def bind_out_Inr_iff by (auto simp: bind_out_Inr_iff)
  obtain p e' where ctl: "ctl = Return e'"
    and p: "with_profile p (\<lambda>s. Inr (RecordBegin now (IsFailed r1) (r_just_reexecuted ?r0) s)) r1 = Inr r'"
    using rest by (cases ctl) (auto simp: bind_out_Inr_iff)
  note b = CD_Begin_tuned [OF r1 [unfolded ctl] r0(4,5)]
  then have b1: "same_tree r r1" using r0(1) same_tree_trans by blast
  have ob: "\<not> o_begin (r_objs r ! c)"
    using b r0(3) assms(3) r0(5) by (metis nth_map)
  from same_tree_profile [OF p b1] show ?thesis using b r0 ob by simp
qed

lemma begun_cannot_Begin:
  assumes "o_begin (r_objs r ! c)" "c < length (r_objs r)"
  shows "\<exists>e. CDHandle_Begin now c label collective vec r = Inl e"
proof -
  let ?r = "r\<lparr>r_glob := (r_glob r)\<lparr>g_begin_clk := now\<rparr>\<rparr>"
  have "o_begin (r_objs (if vec \<noteq> 0 then modify_obj c (\<lambda>d. d\<lparr>o_sys_bit_vector := vec\<rparr>) ?r else ?r) ! c)"
    using assms by (simp add: nth_modify_obj)
  then show ?thesis by (simp add: CDHandle_Begin_def CD_Begin_def SetBegin_def Let_def)
qed

lemma get_or_new_phase_tuned:
  assumes "get_or_new_phase this level label path w = Inr (w', phase)"
  shows "w_tuned w' = w_tuned w"
proof (cases "sm_find (pt_path (w_cd w)) path")
  case None
  then show ?thesis
    using assms by (auto simp: get_or_new_phase_def Let_def bind_out_Inr_iff split: prod.splits)
next
  case (Some ph)
  obtain cache cur where "cache_at ph (pt_cache (w_cd w)) = (cache, cur)" by (cases "cache_at ph (pt_cache (w_cd w))")
  then show ?thesis using assms Some by (auto simp: get_or_new_phase_def Let_def bind_out_Inr_iff)
qed

lemma apply_config_tuned: "apply_config label med err w = Inr w' \<Longrightarrow> w_tuned w' = w_tuned w"
  by (auto simp: apply_config_def Let_def bind_out_Inr_iff split: prod.splits option.splits)

lemma GetPhaseNode_tuned:
  assumes "GetPhaseNode off task this level label med vec w = Inr (w', phase)"
  shows "w_tuned w' = w_tuned w"
proof -
  obtain path w1 where "get_or_new_phase this level label path w = Inr (w1, phase)"
    "if off then apply_config label med vec w1 = Inr w' else w1 = w'"
    using assms by (auto simp: GetPhaseNode_def bind_out_Inr_iff split: if_splits)
  then show ?thesis using get_or_new_phase_tuned apply_config_tuned by (cases off) fastforce+
qed

lemma begin_real_Return:
  assumes "begin_real now cur collective vec et r = Inr (r', Return e)" "r_tuning_enabled r"
    "th_handle cur < length (r_objs r)"
  shows "w_tuned (r_world r') = w_tuned (r_world r) \<and> r_path r' = r_path r \<and> r_tuning_enabled r' \<and>
    map o_begin (r_objs r') = (map o_begin (r_objs r))[th_handle cur := True]"
proof -
  obtain w ph where w: "(case r_current r of
          Some c \<Rightarrow> GetPhaseNode (r_tuning_off r) (r_myTaskID r) c (th_level cur) (th_label cur) kUndefined vec (r_world r)
        | None \<Rightarrow> Inr (PhaseTree_Init (th_level cur) (th_label cur) (r_world r))) = Inr (w, ph)"
    and b: "CDHandle_Begin now (th_handle cur) (th_label cur) collective et (r\<lparr>r_world := w, r_new_phase := ph\<rparr>) = Inr (r', Return e)"
    using assms(1) by (auto simp: begin_real_def bind_out_Inr_iff)
  have "w_tuned w = w_tuned (r_world r)"
    using w by (auto simp: GetPhaseNode_tuned PhaseTree_Init_def Let_def split: option.splits prod.splits)
  then show ?thesis using CDHandle_Begin_tuned [OF b] assms(2,3) by (simp add: same_tree_def)
qed

lemma begin_real_begun:
  assumes "o_begin (r_objs r ! th_handle cur)" "th_handle cur < length (r_objs r)"
  shows "\<exists>e. begin_real now cur collective vec et r = Inl e"
proof -
  have "\<exists>e. CDHandle_Begin now (th_handle cur) (th_label cur) collective et (r\<lparr>r_world := w, r_new_phase := ph\<rparr>) = Inl e" for w ph
    using begun_cannot_Begin [of "r\<lparr>r_world := w, r_new_phase := ph\<rparr>" "th_handle cur"] assms by simp
  then show ?thesis
    by (auto simp: begin_real_def bind_out_def split: sum.split option.split prod.split)
qed

lemma tuned_Begin_active:
  assumes e: "enters label cur p q t" and i: "0 < sint (pn_interval (tu_heap t ! q))"
    and c: "sint (pn_count (tu_heap t ! q)) smod sint (pn_interval (tu_heap t ! q)) = 0"
  shows "tuned_Begin now label collective vec t =
    (let cur' = begun_leaf label cur\<lparr>th_phase := pn_phase (tu_heap t ! q), th_active := True\<rparr> in
     bind_out (with_rt (begin_real now cur' collective vec (pn_errortype (tu_heap t ! q))) (put_leaf cur' (set_tuned_current (Some q) t)))
       (\<lambda>(t, ctl). case ctl of
            Jump h \<Rightarrow> Inr (t, Jump h)
          | Return _ \<Rightarrow> Inr (record_tuned q (tuned_RecordBegin now) t, Return kOK)))"
  using e i c GetNextNode_label [of "begin_label label cur" p "tu_heap t" q]
  by (simp add: tuned_Begin_def enters_def begun_leaf_def begin_label_def Let_def)

definition active_leaf :: "string \<Rightarrow> tuned_handle \<Rightarrow> PhaseNode \<Rightarrow> tuned_handle" where
  "active_leaf label cur n = begun_leaf label cur\<lparr>th_phase := pn_phase n, th_active := True\<rparr>"

lemma active_leaf_simps [simp]:
  "th_begin (active_leaf label cur n)" "th_name (active_leaf label cur n) = th_name cur"
  "th_handle (active_leaf label cur n) = th_handle cur" "th_active (active_leaf label cur n)"
  "begin_label label (active_leaf label' cur n) = begin_label label cur"
  "th_level (active_leaf label cur n) = th_level cur" "th_label (active_leaf label cur n) = begin_label label cur"
  by (simp_all add: active_leaf_def begun_leaf_def begin_label_def)

lemma tuned_Begin_Return:
  assumes e: "enters label cur p q t" and i: "0 < sint (pn_interval (tu_heap t ! q))"
    and c: "sint (pn_count (tu_heap t ! q)) smod sint (pn_interval (tu_heap t ! q)) = 0"
    and b: "tuned_Begin now label collective vec t = Inr (t1, Return e1)"
  shows "\<exists>r1 e2. begin_real now (active_leaf label cur (tu_heap t ! q)) collective vec (pn_errortype (tu_heap t ! q))
      (tu_rt (set_tuned_current (Some q) t)) = Inr (r1, Return e2) \<and>
    t1 = record_tuned q (tuned_RecordBegin now)
       (put_leaf (active_leaf label cur (tu_heap t ! q)) t\<lparr>tu_rt := r1\<rparr>) \<and> e1 = kOK"
proof -
  let ?b = "begin_real now (active_leaf label cur (tu_heap t ! q)) collective vec (pn_errortype (tu_heap t ! q))
    (tu_rt (set_tuned_current (Some q) t))"
  have put: "put_leaf x (set_tuned_current y t)\<lparr>tu_rt := r1\<rparr> = put_leaf x t\<lparr>tu_rt := r1\<rparr>" for x y r1
    by (simp add: put_leaf_def set_tuned_current_def set_tuned_def)
  note B = b [unfolded tuned_Begin_active [OF e i c] Let_def active_leaf_def [symmetric] with_rt_def]
  obtain r1 ctl where r: "?b = Inr (r1, ctl)" using B by (cases ?b) auto
  then show ?thesis using B by (cases ctl) (simp_all add: put)
qed

text \<open>
  C30.  An interval above one never completes.  The counter of a phase is advanced only inside the
  branch that completes the domain, and that branch is taken only when the counter has reached the
  end of the interval.  So after the first \<open>Begin\<close> of a phase with interval two or more,
  \<open>Complete\<close> leaves the runtime as it is (the domain stays begun), and the next \<open>Begin\<close> of
  the phase, which is active again, stops the program.
\<close>

theorem interval_never_completes:
  assumes e: "enters label cur p q t"
    and tree: "unmerged (tu_heap t) q" "pn_parent (tu_heap t ! q) = Some p" "p < length (tu_heap t)"
      "\<forall>c \<in> set (pn_children (tu_heap t ! p)). c < length (tu_heap t)"
    and i: "1 < sint (pn_interval (tu_heap t ! q))"
    and c: "sint (pn_count (tu_heap t ! q)) smod sint (pn_interval (tu_heap t ! q)) = 0"
    and rt: "r_tuning_enabled (tu_rt t)" "th_handle cur < length (r_objs (tu_rt t))"
    and b: "tuned_Begin now label collective vec t = Inr (t1, Return e1)"
  shows "\<exists>t2 err. tuned_Complete now' False t1 = Inr (t2, Return kOK) \<and> real_part (tu_rt t2) = real_part (tu_rt t1) \<and>
    tuned_Begin now'' label collective vec t2 = Inl err"
proof -
  let ?n = "tu_heap t ! q" and ?q = "Some q"
  let ?cur = "active_leaf label cur ?n"
  have q: "q < length (tu_heap t)" using tree(1) by (simp add: unmerged_def)
  obtain r1 e2 where r1: "begin_real now ?cur collective vec (pn_errortype ?n) (tu_rt (set_tuned_current ?q t)) = Inr (r1, Return e2)"
    and t1: "t1 = record_tuned q (tuned_RecordBegin now) (put_leaf ?cur t\<lparr>tu_rt := r1\<rparr>)"
    using tuned_Begin_Return [OF e _ c b] i by (meson order.strict_trans zero_less_one)
  have t: "r_tuning_enabled (tu_rt (set_tuned_current ?q t))" "r_objs (tu_rt (set_tuned_current ?q t)) = r_objs (tu_rt t)"
    using rt by (simp_all add: set_tuned_current_def set_tuned_def)
  note R = begin_real_Return [OF r1 t(1)]
  have tr: "w_tuned (r_world r1) = (tu_tree t)\<lparr>pt_current := ?q\<rparr>"
    and ob: "map o_begin (r_objs r1) = (map o_begin (r_objs (tu_rt t)))[th_handle cur := True]"
    using R t(2) rt(2) by (simp_all add: set_tuned_current_def)
  have len: "length (r_objs r1) = length (r_objs (tu_rt t))" using ob by (metis length_list_update length_map)
  have beg: "o_begin (r_objs r1 ! th_handle cur)"
    using ob rt(2) len by (metis length_map nth_list_update_eq nth_map)
  let ?h1 = "tu_heap t1"
  have h1: "same_tuning (tu_heap t) ?h1" "pn_count (?h1 ! q) = pn_count ?n" "tu_current t1 = ?q"
    using q by (simp_all add: t1 tr) (simp add: modify_node_def)
  have leaf: "tuned_GetLeafCD t1 = Some ?cur" by (simp add: t1 tuned_GetLeafCD_def)
  note same = same_tuning_nth [OF h1(1)]
  have "interval_done (?h1 ! q) = Inr False"
    using i c h1(2) same(7) [OF q] by (auto simp: interval_done_def)
  note C = tuned_Complete_waits [OF leaf h1(3) same_tuning_unmerged [OF h1(1) tree(1)] this, of now']
  let ?cur2 = "?cur\<lparr>th_begin := False\<rparr>"
  let ?t2 = "set_tuned_current (pn_parent (?h1 ! q)) (record_tuned q (tuned_RecordComplete now') (put_leaf ?cur2 t1))"
  have h2: "same_tuning (tu_heap t) (tu_heap ?t2)" "pn_count (tu_heap ?t2 ! q) = pn_count ?n"
    using h1(2) q same_tuning_length [OF h1(1)] same_tuning_trans [OF h1(1) same_tuning_record]
    by simp_all (simp add: modify_node_def)
  note same2 = same_tuning_nth [OF h2(1)]
  have "begin_label label ?cur2 = begin_label label cur" by (simp add: begin_label_def)
  then have e2: "enters label ?cur2 p q ?t2"
    using e GetNextNode_same [OF h2(1) tree(3,4), of "begin_label label cur"] same(1) [OF q] tree(2)
    by (simp add: enters_def tuned_GetLeafCD_def)
  have objs: "r_objs (tu_rt ?t2) = r_objs r1" by (simp add: t1)
  have "\<exists>err. begin_real now'' (active_leaf label ?cur2 (tu_heap ?t2 ! q)) collective vec (pn_errortype (tu_heap ?t2 ! q))
      (tu_rt (set_tuned_current ?q ?t2)) = Inl err"
    using begin_real_begun [of "tu_rt (set_tuned_current ?q ?t2)" "active_leaf label ?cur2 (tu_heap ?t2 ! q)"] beg rt(2) len
    by (simp add: t1)
  then have "\<exists>err. tuned_Begin now'' label collective vec ?t2 = Inl err"
    using tuned_Begin_active [OF e2, of now'' collective vec] i c h2(2) same2(7) [OF q]
    by (auto simp: active_leaf_def [symmetric] Let_def with_rt_def)
  moreover have "real_part (tu_rt ?t2) = real_part (tu_rt t1)" by simp
  ultimately show ?thesis using C by blast
qed

section \<open>Phases that are switched off\<close>

datatype tuned_call =
    TAssert real bool
  | TDetect real "uint32 option"
  | TPreserve uint64 nat uint32 string string uint64

fun run_tuned_call :: "(string \<Rightarrow> uint64) \<Rightarrow> tuned_call \<Rightarrow> tuned \<times> prv_state \<Rightarrow> (tuned \<times> prv_state) outcome" where
  "run_tuned_call hash (TAssert now b) (t, s) = bind_out (tuned_CDAssert now b t) (\<lambda>(t, _). Inr (t, s))"
| "run_tuned_call hash (TDetect now d) (t, s) = bind_out (tuned_Detect now d t) (\<lambda>(t, _). Inr (t, s))"
| "run_tuned_call hash (TPreserve a n m my ref off) ts = tuned_Preserve hash a n m my ref off ts"

fun run_tuned_calls :: "(string \<Rightarrow> uint64) \<Rightarrow> tuned_call list \<Rightarrow> tuned \<times> prv_state \<Rightarrow> (tuned \<times> prv_state) outcome" where
  "run_tuned_calls hash [] ts = Inr ts"
| "run_tuned_calls hash (c # cs) ts = bind_out (run_tuned_call hash c ts) (run_tuned_calls hash cs)"

lemma inactive_call:
  assumes "tuned_GetLeafCD t = Some cur" "\<not> th_active cur" "tu_current t = Some q"
  shows "\<exists>t'. run_tuned_call hash c (t, s) = Inr (t', s) \<and> tu_path t' = tu_path t \<and> tu_current t' = Some q \<and>
    real_part (tu_rt t') = real_part (tu_rt t) \<and> same_tuning (tu_heap t) (tu_heap t')"
  using assms
  by (cases c) (simp_all add: tuned_CDAssert_def tuned_Detect_def forward_def tuned_Preserve_def)

lemma inactive_calls:
  "tuned_GetLeafCD t = Some cur \<Longrightarrow> \<not> th_active cur \<Longrightarrow> tu_current t = Some q \<Longrightarrow>
   \<exists>t'. run_tuned_calls hash cs (t, s) = Inr (t', s) \<and> tu_path t' = tu_path t \<and> tu_current t' = Some q \<and>
     real_part (tu_rt t') = real_part (tu_rt t) \<and> same_tuning (tu_heap t) (tu_heap t')"
proof (induction cs arbitrary: t)
  case Nil
  then show ?case by simp
next
  case (Cons c cs)
  obtain t1 where t1: "run_tuned_call hash c (t, s) = Inr (t1, s)" "tu_path t1 = tu_path t" "tu_current t1 = Some q"
    "real_part (tu_rt t1) = real_part (tu_rt t)" "same_tuning (tu_heap t) (tu_heap t1)"
    using inactive_call [OF Cons.prems, of hash c s] by blast
  have "tuned_GetLeafCD t1 = Some cur" using leaf_of_path [OF t1(2)] Cons.prems(1) by simp
  from Cons.IH [OF this Cons.prems(2) t1(3)] obtain t2 where "run_tuned_calls hash cs (t1, s) = Inr (t2, s)" "tu_path t2 = tu_path t1"
    "tu_current t2 = Some q" "real_part (tu_rt t2) = real_part (tu_rt t1)" "same_tuning (tu_heap t1) (tu_heap t2)" by blast
  then show ?case using t1 same_tuning_trans [OF t1(5)] by (intro exI [of _ t2]) simp
qed


text \<open>
  A phase that is switched off cannot have children: \<open>IsNewCD\<close> starts from
  \<open>all_zero = false\<close>, so it always asks for a new domain, whatever the intervals of the
  children are, and the runtime refuses to create one under a domain that has not begun.
\<close>

lemma foldl_and_False: "foldl (\<lambda>b c. b \<and> P c) False cs = False"
  by (induction cs) simp_all

theorem switched_off_no_children:
  assumes "tuned_GetLeafCD t = Some cur" and "th_begin cur" and "tu_current t = Some p"
    and "\<not> o_begin (r_objs (tu_rt t) ! th_handle cur)"
  shows "tuned_Create now name cd_type vec t = Inl (AssertFailed ''GetBegin()'')"
  using assms
  by (simp add: tuned_Create_def IsNewCD_def foldl_and_False Let_def with_rt_def CDHandle_Create_def CD_Create_def)

section \<open>The two trees move together\<close>

text \<open>
  With interval one in every phase, a program that runs without failures is in phases of the same
  labels, from the root down, in the configuration and in the runtime.
\<close>

definition same_place :: "phase_tree \<Rightarrow> phase_tree \<Rightarrow> bool" where
  "same_place tr cd \<longleftrightarrow>
     (case pt_current tr of
        None \<Rightarrow> pt_current cd = None
      | Some p \<Rightarrow> p < length (pt_heap tr) \<and>
          (\<exists>c. pt_current cd = Some c \<and> lpath (pt_heap cd) c = lpath (pt_heap tr) p))"

definition every_time :: "node_heap \<Rightarrow> bool" where
  "every_time h \<longleftrightarrow> heap_wf h \<and> siblings_ok h \<and> (\<forall>i < length h. pn_interval (h ! i) = 1)"

definition in_step :: "tuned \<Rightarrow> bool" where
  "in_step t \<longleftrightarrow>
     r_tuning_enabled (tu_rt t) \<and> IsGood (tu_rt t) \<and> tree_wf (r_world (tu_rt t)) \<and> every_time (tu_heap t) \<and>
     same_place (tu_tree t) (r_tree (tu_rt t))"

lemma lpath_links: "map links h' = map links h \<Longrightarrow> i < length h \<Longrightarrow> lpath h' i = lpath h i"
  by (rule lpath_cong) (metis le_less_trans length_map links_eqD nth_map)

lemma tree_wf_same: "same_tree r r' \<Longrightarrow> tree_wf (r_world r) \<Longrightarrow> tree_wf (r_world r')"
  using tree_ok_keeps [of "unat (w_gen (r_world r))" "r_heap r" "pt_path (r_tree r)" "pt_cache (r_tree r)" "r_heap r'"]
    map_eq_imp_length_eq [of links "r_heap r'" links "r_heap r"]
  by (auto simp: same_tree_def tree_wf_def)

lemma same_tuning_links: "same_tuning h h' \<Longrightarrow> map links h' = map links h"
  by (auto simp: list_eq_iff_nth_eq same_tuning_length links_def same_tuning_nth)

lemma same_tuning_heap_wf: "same_tuning h h' \<Longrightarrow> heap_wf h \<Longrightarrow> heap_wf h'"
  by (rule heap_wf_cong [OF same_tuning_links])

lemma same_tuning_siblings: "same_tuning h h' \<Longrightarrow> siblings_ok h \<Longrightarrow> siblings_ok h'"
  using same_tuning_nth(2,3) [of h h'] same_tuning_length [of h h'] unfolding siblings_ok_def by metis

lemma every_time_same: "same_tuning h h' \<Longrightarrow> every_time h \<Longrightarrow> every_time h'"
  by (simp add: every_time_def same_tuning_heap_wf same_tuning_siblings same_tuning_length same_tuning_nth)

lemma same_place_keeps:
  assumes "same_place tr cd" "map links (pt_heap tr') = map links (pt_heap tr)" "map links (pt_heap cd') = map links (pt_heap cd)"
    "pt_current tr' = pt_current tr" "pt_current cd' = pt_current cd" "\<And>c. pt_current cd = Some c \<Longrightarrow> c < length (pt_heap cd)"
  shows "same_place tr' cd'"
proof (cases "pt_current tr")
  case None
  then show ?thesis using assms(1,4,5) by (simp add: same_place_def)
next
  case (Some p)
  then obtain c where c: "p < length (pt_heap tr)" "pt_current cd = Some c" "lpath (pt_heap cd) c = lpath (pt_heap tr) p"
    using assms(1) by (auto simp: same_place_def)
  then show ?thesis
    using Some assms(4,5) lpath_links [OF assms(2) c(1)] lpath_links [OF assms(3) assms(6) [OF c(2)]]
      map_eq_imp_length_eq [OF assms(2)]
    by (simp add: same_place_def)
qed

lemma in_step_keeps:
  assumes "in_step t" "same_tree (tu_rt t) r"
    "same_tuning (tu_heap t) (pt_heap tr)" "pt_current tr = tu_current t"
  shows "in_step (set_tuned tr \<lparr>tu_path = path, tu_rt = r\<rparr>)"
proof -
  let ?t = "set_tuned tr \<lparr>tu_path = path, tu_rt = r\<rparr>"
  have a: "same_place (tu_tree t) (r_tree (tu_rt t))" "tree_wf (r_world (tu_rt t))" using assms(1) by (simp_all add: in_step_def)
  note wf = tree_wf_same [OF assms(2) a(2)]
  have b: "map links (r_heap r) = map links (r_heap (tu_rt t))" "r_current r = r_current (tu_rt t)"
    using assms(2) by (simp_all add: same_tree_def)
  have c: "c < length (r_heap (tu_rt t))" if "r_current (tu_rt t) = Some c" for c
    using a(2) that by (simp add: tree_wf_def)
  have "same_place tr (r_tree r)"
    by (rule same_place_keeps [OF a(1) same_tuning_links [OF assms(3)] b(1) assms(4) b(2) c])
  moreover have "tree_wf (r_world (tu_rt ?t))" using wf by (simp add: set_tuned_def tree_wf_def)
  moreover have "r_tuning_enabled (tu_rt ?t)" "IsGood (tu_rt ?t)"
    using assms(1,2) by (simp_all add: set_tuned_def in_step_def same_tree_def IsGood_def)
  ultimately show ?thesis
    using assms(1) every_time_same [OF assms(3)] by (simp add: in_step_def)
qed

text \<open>Calls that do not move.\<close>

lemma tuned_update_all: "t\<lparr>tu_path := p, tu_rt := r\<rparr> = \<lparr>tu_path = p, tu_rt = r\<rparr>"
  by simp

lemma set_tuned_same: "w_tuned (r_world r) = tr \<Longrightarrow> set_tuned tr \<lparr>tu_path = p, tu_rt = r\<rparr> = \<lparr>tu_path = p, tu_rt = r\<rparr>"
  by (auto simp: set_tuned_def)

lemma in_step_runtime:
  assumes "in_step t" "same_tree (tu_rt t) r"
  shows "in_step \<lparr>tu_path = path, tu_rt = r\<rparr>"
proof -
  have "w_tuned (r_world r) = tu_tree t" using assms(2) by (simp add: same_tree_def)
  then show ?thesis
    using in_step_keeps [OF assms, of "tu_tree t" path] set_tuned_same [of r "tu_tree t" path] by simp
qed

lemma in_step_rt: "in_step t \<Longrightarrow> same_tree (tu_rt t) r \<Longrightarrow> in_step (t\<lparr>tu_rt := r\<rparr>)"
  using in_step_runtime [of t r "tu_path t"] by (simp add: in_step_def)

lemma CDAssert_same: "CDHandle_CDAssert now b c r = Inr r' \<Longrightarrow> same_tree r r' \<and> r_objs r' = r_objs r"
  by (auto simp: CDHandle_CDAssert_def CD_Assert_def bind_out_Inr_iff split: if_splits)

lemma Detect_same: "CDHandle_Detect now d c r = Inr (r', e) \<Longrightarrow> same_tree r r' \<and> r_objs r' = r_objs r"
  by (auto simp: CDHandle_Detect_def Let_def bind_out_Inr_iff split: option.splits)

lemma Destroy_same:
  assumes "Destroy now r = Inr r'"
  shows "same_tree r r' \<and> r_objs r' = r_objs r"
proof -
  let ?r = "r\<lparr>r_path := butlast (r_path r), r_glob := (r_glob r)\<lparr>g_begin_clk := now, g_end_clk := now\<rparr>\<rparr>"
  have s: "same_tree r ?r" by (simp add: same_tree_def)
  obtain cur f where "with_profile cur f ?r = Inr r'"
    using assms by (auto simp: Destroy_def Let_def bind_out_Inr_iff)
  from same_tree_profile [OF this s] show ?thesis by simp
qed

lemma Create_same:
  assumes "CDHandle_Create now c name ty vec r = Inr (r', d)"
  shows "same_tree r r'"
proof -
  let ?r = "r\<lparr>r_glob := (r_glob r)\<lparr>g_begin_clk := now\<rparr>\<rparr>"
  obtain r1 where r1: "InternalCreate (Some c) name (o_level (r_objs r ! c) + 1) ty vec ?r = Inr (r1, d)"
    and rest: "bind_out (deref ''phaseTree.current_'' (r_current r1)) (\<lambda>cur.
      bind_out (with_profile cur (\<lambda>s. Inr (RecordCreate (now - g_begin_clk (r_glob r1)) s))
        (r1\<lparr>r_path := r_path r1 @ [d], r_glob := (r_glob r1)\<lparr>g_end_clk := now\<rparr>\<rparr>)) (\<lambda>r. Inr (r, d))) = Inr (r', d)"
    using assms by (auto simp: CDHandle_Create_def CD_Create_def Let_def bind_out_Inr_iff)
  have s1: "same_tree r r1"
    using r1 by (auto simp: InternalCreate_def Let_def bind_out_Inr_iff same_tree_def split: option.splits)
  obtain cur f where p: "with_profile cur f (r1\<lparr>r_path := r_path r1 @ [d], r_glob := (r_glob r1)\<lparr>g_end_clk := now\<rparr>\<rparr>) = Inr r'"
    using rest by (auto simp: bind_out_Inr_iff)
  have "same_tree r (r1\<lparr>r_path := r_path r1 @ [d], r_glob := (r_glob r1)\<lparr>g_end_clk := now\<rparr>\<rparr>)"
    using s1 by (simp add: same_tree_def)
  from same_tree_profile [OF p this] show ?thesis using s1 by simp
qed

lemma CD_Complete_tuned:
  assumes "CD_Complete now c r = Inr (r', Return e)" "r_tuning_enabled r" "IsGood r"
  shows "same_tree r r'"
proof -
  have no: "\<not> r_rollback_point r \<le> o_level (r_objs r ! c)"
    using assms(1) by (auto simp: CD_Complete_def CheckRollbackPoint_def Let_def bind_out_Inr_iff rollback_not_Return)
  have chk: "check_recovered now c r = Inr r" using assms(3) by (simp add: check_recovered_def IsGood_def IsFailed_def)
  let ?x = "modify_obj c (\<lambda>d. d\<lparr>o_exec_mode := kSuspension\<rparr>) (DeleteEntryDirectory c
    (modify_obj c (\<lambda>d. d\<lparr>o_reported_error := False, o_reexecuted := False, o_sequential_id := o_sequential_id d + 1\<rparr>) r))"
  have x: "same_tree r ?x" "r_tuning_enabled ?x" using assms(2) by (simp_all add: DeleteEntryDirectory_def)
  have "bind_out (CompletePhase False ?x) (\<lambda>r. bind_out (UnsetBegin c r) (\<lambda>r. Inr (r, Return kOK))) = Inr (r', Return e)"
    using assms(1) no chk by (simp add: CD_Complete_def CheckRollbackPoint_def Let_def)
  then obtain r2 where p: "CompletePhase False ?x = Inr r2" and u: "UnsetBegin c r2 = Inr r'"
    by (auto simp: bind_out_Inr_iff)
  obtain b cur where r2: "r2 = set_heap (modify_node cur (IncSeqID_node b) (r_heap ?x)) ?x"
    using p x(2) by (auto simp: CompletePhase_def Let_def IncSeqID_def split: option.splits)
  have "same_tree r r2"
    unfolding r2 by (rule same_tree_node [OF x(1) links_IncSeqID]) (simp add: IncSeqID_node_def Let_def)
  then show ?thesis using u by (auto simp: UnsetBegin_def bind_out_Inr_iff)
qed

lemma CDHandle_Complete_tuned:
  assumes "CDHandle_Complete now c r = Inr (r', Return e)" "r_tuning_enabled r" "IsGood r"
  shows "same_tree r r'"
proof -
  let ?r = "r\<lparr>r_glob := (r_glob r)\<lparr>g_begin_clk := now\<rparr>\<rparr>"
  obtain cur r1 ctl where c: "CD_Complete now c ?r = Inr (r1, ctl)"
    and rest: "(case ctl of Jump t \<Rightarrow> Inr (r1, Jump t)
        | Return e \<Rightarrow> bind_out (with_profile cur (RecordComplete now (IsFailed ?r) (o_level (r_objs r1 ! c) = 1)) r1) (\<lambda>r. Inr (r, Return e)))
      = Inr (r', Return e)"
    using assms(1) unfolding CDHandle_Complete_def Let_def by (auto simp: bind_out_Inr_iff)
  obtain f e' where ctl: "ctl = Return e'" and p: "with_profile cur f r1 = Inr r'"
    using rest by (cases ctl) (auto simp: bind_out_Inr_iff)
  have "same_tree ?r r1" using CD_Complete_tuned [OF c [unfolded ctl]] assms(2,3) by (simp add: IsGood_def)
  then have "same_tree r r1" by (simp add: same_tree_def)
  from same_tree_profile [OF p this] show ?thesis by simp
qed

text \<open>Entering a phase of the runtime keeps the paths of the phases that exist.\<close>

definition keeps_old :: "node_heap \<Rightarrow> node_heap \<Rightarrow> bool" where
  "keeps_old h h' \<longleftrightarrow> length h \<le> length h' \<and>
     (\<forall>i < length h. pn_parent (h' ! i) = pn_parent (h ! i) \<and> pn_label (h' ! i) = pn_label (h ! i))"

lemma keeps_old_lpath: "keeps_old h h' \<Longrightarrow> i < length h \<Longrightarrow> lpath h' i = lpath h i"
  by (rule lpath_cong) (simp add: keeps_old_def)

lemma keeps_old_links: "map links h' = map links h \<Longrightarrow> keeps_old h h'"
  unfolding keeps_old_def by (metis length_map links_eqD nth_map order_refl)

lemma keeps_old_trans: "keeps_old h h1 \<Longrightarrow> keeps_old h1 h2 \<Longrightarrow> keeps_old h h2"
  by (simp add: keeps_old_def)

lemma get_or_new_phase_keeps_old:
  assumes "get_or_new_phase this level label path w = Inr (w', phase)" "pt_current (w_cd w) = Some q" "tree_wf w"
  shows "keeps_old (pt_heap (w_cd w)) (pt_heap (w_cd w'))"
proof (cases "sm_find (pt_path (w_cd w)) path")
  case None
  let ?h = "pt_heap (w_cd w)"
  have q: "q < length ?h" and wf: "heap_wf ?h" using assms(2,3) by (simp_all add: tree_wf_def tree_ok_def)
  let ?n = "PhaseNode_fresh level label (pn_state (?h ! this)) (w_gen w)"
  have n: "pt_heap (w_cd w') = PhaseNode_Init (Some q) ?n ?h"
    using assms(1,2) None
    by (auto simp: get_or_new_phase_def Let_def bind_out_Inr_iff PhaseNode_ctor_def split: prod.splits)
  have "grown ?h (Some q) [length ?h] (PhaseNode_Init (Some q) ?n ?h)"
    using PhaseNode_Init_grown(2) [of "Some q" ?h ?n] q heap_wf_child [OF wf q] by (auto simp: PhaseNode_fresh_def)
  then show ?thesis unfolding n by (simp add: keeps_old_def grown_def cfg_fields_def)
next
  case (Some ph)
  obtain cache cur where "cache_at ph (pt_cache (w_cd w)) = (cache, cur)" by (cases "cache_at ph (pt_cache (w_cd w))")
  then show ?thesis using assms(1) Some
    by (auto simp: get_or_new_phase_def Let_def bind_out_Inr_iff map_links_modify intro!: keeps_old_links split: if_splits)
qed

lemma apply_config_old:
  assumes "apply_config label med err w = Inr w'"
  shows "keeps_old (pt_heap (w_cd w)) (pt_heap (w_cd w'))"
proof -
  obtain p e m where "w' = w\<lparr>w_cd := (w_cd w)\<lparr>pt_heap := modify_node p
      (\<lambda>n. n\<lparr>pn_errortype := e, pn_medium := m\<rparr>) (pt_heap (w_cd w))\<rparr>\<rparr>"
    using assms by (auto simp: apply_config_def Let_def bind_out_Inr_iff split: prod.splits option.splits)
  then show ?thesis by (simp add: keeps_old_links map_links_modify links_def)
qed

lemma GetPhaseNode_old:
  assumes "GetPhaseNode off task this level label med vec w = Inr (w', phase)" "pt_current (w_cd w) = Some q" "tree_wf w"
  shows "keeps_old (pt_heap (w_cd w)) (pt_heap (w_cd w'))"
proof -
  obtain path w1 where g: "get_or_new_phase this level label path w = Inr (w1, phase)"
    "if off then apply_config label med vec w1 = Inr w' else w1 = w'"
    using assms(1) by (auto simp: GetPhaseNode_def bind_out_Inr_iff split: if_splits)
  note k = get_or_new_phase_keeps_old [OF g(1) assms(2,3)]
  show ?thesis using g(2) k keeps_old_trans [OF k apply_config_old [of label med vec w1 w']] by (cases off) simp_all
qed

lemma begin_real_moves:
  assumes b: "begin_real now cur collective vec et r = Inr (r', Return e)" and r: "r_tuning_enabled r" "tree_wf (r_world r)"
    and c: "r_current r = Some c" and l: "plain (th_label cur)" "Suc (length (r_heap r)) < 2 ^ 32" "th_handle cur < length (r_objs r)"
  shows "tree_wf (r_world r') \<and> r_failed_phase r' = r_failed_phase r \<and>
    (\<exists>c'. r_current r' = Some c' \<and> lpath (r_heap r') c' = lpath (r_heap r) c @ [th_label cur])"
proof -
  obtain w ph where w: "GetPhaseNode (r_tuning_off r) (r_myTaskID r) c (th_level cur) (th_label cur) kUndefined vec (r_world r) = Inr (w, ph)"
    and cb: "CDHandle_Begin now (th_handle cur) (th_label cur) collective et (r\<lparr>r_world := w, r_new_phase := ph\<rparr>) = Inr (r', Return e)"
    using b c by (auto simp: begin_real_def bind_out_Inr_iff)
  note K = GetPhaseNode_keeps [OF r(2) c l(1,2) w]
  have s: "same_tree (r\<lparr>r_world := w, r_new_phase := ph\<rparr>) r'" using CDHandle_Begin_tuned [OF cb] r(1) l(3) by simp
  have wf: "tree_wf (r_world r')" using tree_wf_same [OF s] K by simp
  obtain c' where c': "pt_current (w_cd w) = Some c'" "c' < length (pt_heap (w_cd w))" "pn_parent (pt_heap (w_cd w) ! c') = Some c"
    "pn_label (pt_heap (w_cd w) ! c') = th_label cur"
    using K by (auto simp: found_child_def)
  have hw: "heap_wf (pt_heap (w_cd w))" using K by (simp add: tree_wf_def tree_ok_def)
  have "lpath (pt_heap (w_cd w)) c' = lpath (pt_heap (w_cd w)) c @ [th_label cur]"
    using lpath_child [OF c'(3)] heap_wf_parent [OF hw c'(2,3)] c'(4) by simp
  moreover have "lpath (pt_heap (w_cd w)) c = lpath (r_heap r) c"
    using keeps_old_lpath [OF GetPhaseNode_old [OF w c r(2)]] c r(2) by (simp add: tree_wf_def)
  moreover have "map links (r_heap r') = map links (pt_heap (w_cd w))" "r_current r' = Some c'" "r_failed_phase r' = r_failed_phase r"
    using s c'(1) by (simp_all add: same_tree_def)
  ultimately show ?thesis using wf lpath_links c'(2) by metis
qed

inductive tuned_step :: "tuned \<Rightarrow> tuned \<Rightarrow> bool" where
  Begin: "tuned_GetLeafCD t = Some cur \<Longrightarrow> tu_current t = Some p \<Longrightarrow>
    begin_label label cur \<noteq> pn_label (tu_heap t ! p) \<Longrightarrow> plain (begin_label label cur) \<Longrightarrow>
    th_handle cur < length (r_objs (tu_rt t)) \<Longrightarrow> Suc (length (r_heap (tu_rt t))) < 2 ^ 32 \<Longrightarrow>
    tuned_Begin now label collective vec t = Inr (t', Return e) \<Longrightarrow> tuned_step t t'"
| Complete: "tuned_Complete now terminate t = Inr (t', Return e) \<Longrightarrow> tuned_step t t'"
| Create: "tuned_Create now name cd_type vec t = Inr t' \<Longrightarrow> tuned_step t t'"
| Destroy: "tuned_Destroy now t = Inr t' \<Longrightarrow> tuned_step t t'"
| CDAssert: "tuned_CDAssert now b t = Inr (t', u) \<Longrightarrow> tuned_step t t'"
| Detect: "tuned_Detect now d t = Inr (t', err) \<Longrightarrow> tuned_step t t'"

lemma smod_1 [simp]: "x smod 1 = 0" for x :: int
  by (simp add: signed_modulo_int_def signed_divide_int_def sgn_if)

lemma in_step_Begin:
  assumes s: "in_step t" and leaf: "tuned_GetLeafCD t = Some cur" "tu_current t = Some p"
    and l: "begin_label label cur \<noteq> pn_label (tu_heap t ! p)" "plain (begin_label label cur)"
    and r: "th_handle cur < length (r_objs (tu_rt t))" "Suc (length (r_heap (tu_rt t))) < 2 ^ 32"
    and b: "tuned_Begin now label collective vec t = Inr (t', Return e)"
  shows "in_step t'"
proof -
  have ev: "every_time (tu_heap t)" and wf: "heap_wf (tu_heap t)" and sp: "same_place (tu_tree t) (r_tree (tu_rt t))"
    using s by (simp_all add: in_step_def every_time_def)
  obtain c where p: "p < length (tu_heap t)" and c: "r_current (tu_rt t) = Some c" "lpath (r_heap (tu_rt t)) c = lpath (tu_heap t) p"
    using sp leaf(2) by (auto simp: same_place_def)
  obtain q where q: "GetNextNode (begin_label label cur) p (tu_heap t) = Inr q" and nb: "\<not> th_begin cur"
    using b leaf by (auto simp: tuned_Begin_def begin_label_def Let_def bind_out_Inr_iff)
  have qc: "q \<in> set (pn_children (tu_heap t ! p))" and ql: "pn_label (tu_heap t ! q) = begin_label label cur"
    using q l(1) by (auto simp: GetNextNode_def find_Some_iff split: option.splits if_splits)
      (metis length_rev nth_mem set_rev)
  note Q = heap_wf_child [OF wf p qc]
  have en: "enters label cur p q t" using leaf nb q by (simp add: enters_def)
  have i: "pn_interval (tu_heap t ! q) = 1" using ev Q by (simp add: every_time_def)
  let ?cur = "active_leaf label cur (tu_heap t ! q)" and ?t = "set_tuned_current (Some q) t"
  obtain r1 e2 where r1: "begin_real now ?cur collective vec (pn_errortype (tu_heap t ! q)) (tu_rt ?t) = Inr (r1, Return e2)"
    and t': "t' = record_tuned q (tuned_RecordBegin now) (put_leaf ?cur t\<lparr>tu_rt := r1\<rparr>)"
    using tuned_Begin_Return [OF en _ _ b] i by auto
  have rt: "r_tuning_enabled (tu_rt ?t)" "tree_wf (r_world (tu_rt ?t))" "r_tree (tu_rt ?t) = r_tree (tu_rt t)"
    "r_objs (tu_rt ?t) = r_objs (tu_rt t)" "IsGood (tu_rt ?t)" "tu_heap ?t = tu_heap t"
    using s by (simp_all add: in_step_def set_tuned_current_def set_tuned_def tree_wf_def IsGood_def)
  have R: "w_tuned (r_world r1) = (tu_tree t)\<lparr>pt_current := Some q\<rparr>" "r_tuning_enabled r1"
    using begin_real_Return [OF r1 rt(1)] r(1) rt(4) by (simp_all add: set_tuned_current_def)
  have M: "tree_wf (r_world r1)" "r_failed_phase r1 = r_failed_phase (tu_rt ?t)"
    "\<exists>c'. r_current r1 = Some c' \<and> lpath (r_heap r1) c' = lpath (r_heap (tu_rt t)) c @ [begin_label label cur]"
    using begin_real_moves [OF r1 rt(1,2), of c] c(1) l(2) r rt(3,4) by simp_all
  have "lpath (tu_heap t) q = lpath (tu_heap t) p @ [begin_label label cur]"
    using lpath_child [of "tu_heap t" q p] Q ql by simp
  then have "same_place ((tu_tree t)\<lparr>pt_current := Some q\<rparr>) (r_tree r1)"
    using M(3) c(2) Q by (auto simp: same_place_def)
  then have "in_step \<lparr>tu_path = tu_path (put_leaf ?cur t), tu_rt = r1\<rparr>"
    using R M(1,2) ev rt(5) by (simp add: in_step_def IsGood_def)
  from in_step_keeps [OF this same_tree_refl, of "tu_tree t'" "tu_path t'"] show ?thesis
    by (simp add: t' R(1) record_tuned_def modify_tuned_def set_tuned_def put_leaf_def tuned_update_all)
qed

lemma every_time_unmerged:
  assumes "every_time h" "p < length h"
  shows "unmerged h p"
proof -
  have s: "siblings_ok h" and i: "\<And>j. j < length h \<Longrightarrow> pn_interval (h ! j) = 1"
    using assms(1) by (simp_all add: every_time_def)
  note l = siblings_okD(1) [OF s assms(2)] and r = siblings_okD(2) [OF s assms(2)]
  have "first_merged h p" "last_merged h p"
    unfolding first_merged_def last_merged_def using l r i by (auto split: option.split)
  then show ?thesis unfolding unmerged_def using assms(2) l r by blast
qed

lemma lpath_parent:
  assumes "heap_wf h" "i < length h"
  shows "case pn_parent (h ! i) of None \<Rightarrow> length (lpath h i) = 1
    | Some q \<Rightarrow> q < length h \<and> lpath h q = butlast (lpath h i) \<and> 1 < length (lpath h i)"
proof (cases "pn_parent (h ! i)")
  case None
  then show ?thesis by (simp add: lpath_root)
next
  case (Some q)
  have "lpath h q \<noteq> []" by simp
  then show ?thesis using heap_wf_parent [OF assms Some] lpath_child [OF Some] Some by (simp add: Suc_lessI)
qed

text \<open>Going up one phase in both trees keeps the places equal.\<close>

lemma same_place_up:
  assumes s: "same_place tr cd" and w: "heap_wf (pt_heap tr)" "heap_wf (pt_heap cd)"
    and p: "pt_current tr = Some p" and c: "pt_current cd = Some c" "c < length (pt_heap cd)"
  shows "same_place (tr\<lparr>pt_current := pn_parent (pt_heap tr ! p)\<rparr>) (cd\<lparr>pt_current := pn_parent (pt_heap cd ! c)\<rparr>)"
proof -
  have p': "p < length (pt_heap tr)" and eq: "lpath (pt_heap cd) c = lpath (pt_heap tr) p"
    using s p c by (auto simp: same_place_def)
  show ?thesis
    using lpath_parent [OF w(1) p'] lpath_parent [OF w(2) c(2)] eq
    by (cases "pn_parent (pt_heap tr ! p)"; cases "pn_parent (pt_heap cd ! c)") (auto simp: same_place_def)
qed

definition counted :: "real \<Rightarrow> tuned_handle \<Rightarrow> ptr \<Rightarrow> tuned \<Rightarrow> tuned" where
  "counted now cur p t = modify_tuned p (\<lambda>n. n\<lparr>pn_count := pn_count n + 1\<rparr>)
     (record_tuned p (tuned_RecordComplete now) (put_leaf (cur\<lparr>th_begin := False\<rparr>) t))"

lemma counted_same: "same_tuning (tu_heap t) (tu_heap (counted now cur p t))"
  using same_tuning_trans [OF same_tuning_record same_tuning_modify [of "\<lambda>n. n\<lparr>pn_count := pn_count n + 1\<rparr>"]]
  by (simp add: counted_def tuning_def)

lemma counted_simps [simp]:
  "tu_current (counted now cur p t) = tu_current t" "r_tree (tu_rt (counted now cur p t)) = r_tree (tu_rt t)"
  "real_part (tu_rt (counted now cur p t)) = real_part (tu_rt t)"
  by (simp_all add: counted_def)

text \<open>With interval one every \<open>Complete\<close> completes the domain.\<close>

lemma tuned_Complete_one:
  assumes leaf: "tuned_GetLeafCD t = Some cur" "tu_current t = Some p" and ev: "every_time (tu_heap t)" and p: "p < length (tu_heap t)"
  shows "tuned_Complete now terminate t =
    bind_out (with_rt (complete_real now (th_handle cur)) (counted now cur p t)) (\<lambda>(t, ctl).
      case ctl of Jump h \<Rightarrow> Inr (t, Jump h)
      | Return e \<Rightarrow> Inr (set_tuned_current (pn_parent (tu_heap t ! p)) t, Return e))"
proof -
  let ?t1 = "record_tuned p (tuned_RecordComplete now) (put_leaf (cur\<lparr>th_begin := False\<rparr>) t)"
  have h1: "same_tuning (tu_heap t) (tu_heap ?t1)" by simp
  have ev1: "every_time (tu_heap ?t1)" using every_time_same [OF h1 ev] .
  have p1: "p < length (tu_heap ?t1)" using p same_tuning_length [OF h1] by simp
  note um = unmerged_most [OF every_time_unmerged [OF ev1 p1]]
  have "pn_interval (tu_heap ?t1 ! p) = 1" using ev1 p1 by (simp add: every_time_def)
  then have "interval_done (tu_heap ?t1 ! p) = Inr True" by (simp add: interval_done_def)
  then have "(if terminate then Inr True else interval_done (tu_heap ?t1 ! p)) = Inr True" by simp
  then show ?thesis using leaf um by (simp add: tuned_Complete_def Let_def counted_def)
qed

lemma complete_real_Return:
  assumes "complete_real now c r = Inr (r2, Return e)"
  shows "\<exists>r3 cd. CDHandle_Complete now c r = Inr (r3, Return e) \<and> r_current r3 = Some cd \<and>
    r2 = set_current (pn_parent (r_heap r3 ! cd)) r3"
proof -
  obtain r3 ctl where c: "CDHandle_Complete now c r = Inr (r3, ctl)"
    using assms by (cases "CDHandle_Complete now c r") (auto simp: complete_real_def)
  then show ?thesis using assms by (cases ctl) (auto simp: complete_real_def bind_out_Inr_iff)
qed

lemma in_step_Complete:
  assumes s: "in_step t" and r: "tuned_Complete now terminate t = Inr (t', Return e)"
  shows "in_step t'"
proof -
  obtain cur p where leaf: "tuned_GetLeafCD t = Some cur" "tu_current t = Some p"
    using r by (auto simp: tuned_Complete_def Let_def bind_out_Inr_iff)
  have ev: "every_time (tu_heap t)" and sp: "same_place (tu_tree t) (r_tree (tu_rt t))" and p: "p < length (tu_heap t)"
    using s leaf(2) by (auto simp: in_step_def same_place_def)
  let ?t2 = "counted now cur p t"
  have t2: "?t2 = set_tuned (tu_tree ?t2) \<lparr>tu_path = tu_path ?t2, tu_rt = tu_rt t\<rparr>"
    by (simp add: counted_def record_tuned_def modify_tuned_def set_tuned_def put_leaf_def tuned_update_all)
  have s2: "in_step ?t2"
    by (subst t2) (rule in_step_keeps [OF s same_tree_refl counted_same], simp)
  note C = r [unfolded tuned_Complete_one [OF leaf ev p] with_rt_def]
  obtain r2 ctl where c: "complete_real now (th_handle cur) (tu_rt ?t2) = Inr (r2, ctl)"
    using C by (cases "complete_real now (th_handle cur) (tu_rt ?t2)") auto
  then obtain e' where ctl: "ctl = Return e'"
    and t': "t' = set_tuned_current (pn_parent (tu_heap (?t2\<lparr>tu_rt := r2\<rparr>) ! p)) (?t2\<lparr>tu_rt := r2\<rparr>)"
    using C by (cases ctl) auto
  obtain r3 cd where r3: "CDHandle_Complete now (th_handle cur) (tu_rt ?t2) = Inr (r3, Return e')" "r_current r3 = Some cd"
    and r2: "r2 = set_current (pn_parent (r_heap r3 ! cd)) r3"
    using complete_real_Return [OF c [unfolded ctl]] by blast
  have "same_tree (tu_rt ?t2) r3"
    using CDHandle_Complete_tuned [OF r3(1)] s2 by (simp add: in_step_def)
  from in_step_runtime [OF s2 this, of "tu_path ?t2"]
  have s3: "in_step \<lparr>tu_path = tu_path ?t2, tu_rt = r3\<rparr>" (is "in_step ?t3") .
  have tr3: "tu_tree ?t3 = tu_tree ?t2" using \<open>same_tree (tu_rt ?t2) r3\<close> by (simp add: same_tree_def)
  have wf3: "heap_wf (tu_heap ?t3)" "heap_wf (r_heap r3)" "same_place (tu_tree ?t3) (r_tree r3)" "cd < length (r_heap r3)"
    using s3 r3(2) by (simp_all add: in_step_def every_time_def tree_wf_def tree_ok_def)
  have cur3: "tu_current ?t3 = Some p" using tr3 leaf(2) by simp
  note up = same_place_up [OF wf3(3,1,2) cur3 r3(2) wf3(4)]
  have "tu_rt t' = r3\<lparr>r_world := (r_world r3)\<lparr>w_cd := (r_tree r3)\<lparr>pt_current := pn_parent (r_heap r3 ! cd)\<rparr>,
      w_tuned := (tu_tree ?t3)\<lparr>pt_current := pn_parent (tu_heap ?t3 ! p)\<rparr>\<rparr>\<rparr>"
    by (simp add: t' r2 set_current_def set_tuned_current_def set_tuned_def)
  moreover have "pn_parent (r_heap r3 ! cd) = Some q \<Longrightarrow> q < length (r_heap r3)" for q
    using heap_wf_parent [OF wf3(2,4)] by simp
  ultimately show ?thesis
    using s3 up by (simp add: in_step_def tree_wf_def IsGood_def)
qed

lemma in_step_forward:
  assumes "in_step t" "forward f ret t = Inr (t', x)" "\<And>c r r' x. f c r = Inr (r', x) \<Longrightarrow> same_tree r r'"
  shows "in_step t'"
proof -
  obtain cur where c: "tuned_GetLeafCD t = Some cur" using assms(2) by (auto simp: forward_def bind_out_Inr_iff)
  show ?thesis
  proof (cases "th_active cur")
    case True
    then obtain r where "f (th_handle cur) (tu_rt t) = Inr (r, x)" "t' = t\<lparr>tu_rt := r\<rparr>"
      using assms(2) c by (auto simp: forward_def with_rt_def bind_out_Inr_iff)
    then show ?thesis using in_step_rt [OF assms(1) assms(3)] by blast
  next
    case False
    then show ?thesis using assms(1,2) c by (simp add: forward_def)
  qed
qed

lemma in_step_path: "in_step (t\<lparr>tu_path := p\<rparr>) = in_step t"
  by (simp add: in_step_def)

lemma in_step_Create:
  assumes "in_step t" "tuned_Create now name ty vec t = Inr t'"
  shows "in_step t'"
proof -
  have add: "in_step (AddHandle h (t\<lparr>tu_rt := r\<rparr>))"
    if "CDHandle_Create now c name ty vec (tu_rt t) = Inr (r, d)" for c r d h
    using in_step_rt [OF assms(1) Create_same [OF that]] by (simp add: AddHandle_def in_step_path)
  show ?thesis
    using assms(2)
    by (auto simp: tuned_Create_def IsNewCD_def foldl_and_False Let_def with_rt_def bind_out_Inr_iff intro: add)
qed

lemma in_step_Destroy:
  assumes "in_step t" "tuned_Destroy now t = Inr t'"
  shows "in_step t'"
proof -
  have "in_step (DeleteHandle x) = in_step x" for x by (simp add: DeleteHandle_def in_step_path)
  moreover have "in_step (t\<lparr>tu_rt := r\<rparr>)" if "Destroy now (tu_rt t) = Inr r" for r
    using in_step_rt [OF assms(1)] Destroy_same [OF that] by blast
  ultimately show ?thesis
    using assms by (auto simp: tuned_Destroy_def bind_out_Inr_iff split: if_splits)
qed

lemma in_step_step: "tuned_step t t' \<Longrightarrow> in_step t \<Longrightarrow> in_step t'"
proof (induction rule: tuned_step.induct)
  case (CDAssert now b t t' u)
  then show ?case
    unfolding tuned_CDAssert_def by (elim in_step_forward) (auto simp: bind_out_Inr_iff dest: CDAssert_same)
next
  case (Detect now d t t' err)
  from in_step_forward [OF Detect(2) Detect(1) [unfolded tuned_Detect_def]] Detect_same
  show ?case by blast
qed (blast intro: in_step_Begin in_step_Complete in_step_Create in_step_Destroy)+


section \<open>Witnesses\<close>

text \<open>
  A configuration with the root phase and two phases \<open>A\<close> and \<open>B\<close> below it with given intervals;
  the program has begun the root and created a domain.
\<close>

definition tuned_nodes :: "64 word \<Rightarrow> 64 word \<Rightarrow> node_heap" where
  "tuned_nodes i j =
     (let n = (\<lambda>l p lab iv q cs lt rt.
                (PhaseNode_fresh l lab kExecution p)\<lparr>pn_interval := iv, pn_parent := q, pn_children := cs,
                   pn_left := lt, pn_right := rt\<rparr>)
      in [n 0 0 ''Root'' 1 None [1, 2] None None,
          n 1 1 ''A'' i (Some 0) [] None (Some 2), n 1 2 ''B'' j (Some 0) [] (Some 1) None])"

definition tuned_world :: "64 word \<Rightarrow> 64 word \<Rightarrow> phase_world" where
  "tuned_world i j =
     world0\<lparr>w_tuned := phase_tree_empty\<lparr>pt_heap := tuned_nodes i j, pt_root := Some 0, pt_current := Some 0\<rparr>\<rparr>"

definition tuned_start :: "64 word \<Rightarrow> 64 word \<Rightarrow> tuned outcome" where
  "tuned_start i j =
     bind_out (CD_Init ''CD_0_0'' kGlobalDisk 0 ((runtime_init (tuned_world i j) False 1)\<lparr>r_tuning_enabled := True\<rparr>))
       (\<lambda>(r, c).
     bind_out (tuned_Begin 1 ''Root'' True 0 \<lparr>tu_path = [tuned_CDHandle c 0 ''CD_0_0''], tu_rt = r\<rparr>) (\<lambda>(t, _).
       tuned_Create 2 ''child'' 1 0 t))"

lemmas tuned_eval = tuned_start_def tuned_world_def tuned_nodes_def tuned_Begin_def tuned_Create_def IsNewCD_def
  with_rt_def begin_real_def AddHandle_def tuned_CDHandle_def put_leaf_def set_tuned_current_def set_tuned_def
  record_tuned_def modify_tuned_def tuned_GetLeafCD_def GetNextNode_def

lemma tuned_start_ok:
  "\<exists>t cur. tuned_start 2 (- 1) = Inr t \<and> enters ''A'' cur 0 1 t \<and> enters ''B'' cur 0 2 t \<and>
     r_tuning_enabled (tu_rt t) \<and> th_handle cur < length (r_objs (tu_rt t)) \<and> 0 < length (tu_heap t) \<and>
     (\<forall>c \<in> set (pn_children (tu_heap t ! 0)). c < length (tu_heap t)) \<and>
     unmerged (tu_heap t) 1 \<and> pn_parent (tu_heap t ! 1) = Some 0 \<and> pn_interval (tu_heap t ! 1) = 2 \<and> pn_count (tu_heap t ! 1) = 0 \<and>
     unmerged (tu_heap t) 2 \<and> pn_parent (tu_heap t ! 2) = Some 0 \<and> pn_interval (tu_heap t ! 2) = - 1 \<and>
     (\<exists>t1. tuned_Begin 3 ''A'' True 0 t = Inr (t1, Return kOK))"
  by (simp add: tuned_eval core_eval tree_eval prof_eval enters_def begin_label_def unmerged_def first_merged_def last_merged_def)

theorem interval_never_completes_witness:
  "\<exists>t t1 t2 err. tuned_start 2 (- 1) = Inr t \<and> tuned_Begin 3 ''A'' True 0 t = Inr (t1, Return kOK) \<and>
     tuned_Complete 4 False t1 = Inr (t2, Return kOK) \<and> real_part (tu_rt t2) = real_part (tu_rt t1) \<and>
     tuned_Begin 5 ''A'' True 0 t2 = Inl err"
proof -
  obtain t cur t1 where t: "tuned_start 2 (- 1) = Inr t" "enters ''A'' cur 0 1 t" "r_tuning_enabled (tu_rt t)"
    "th_handle cur < length (r_objs (tu_rt t))" "0 < length (tu_heap t)"
    "\<forall>c \<in> set (pn_children (tu_heap t ! 0)). c < length (tu_heap t)" "unmerged (tu_heap t) 1"
    "pn_parent (tu_heap t ! 1) = Some 0" "pn_interval (tu_heap t ! 1) = 2" "pn_count (tu_heap t ! 1) = 0"
    "tuned_Begin 3 ''A'' True 0 t = Inr (t1, Return kOK)"
    using tuned_start_ok by blast
  have "1 < sint (pn_interval (tu_heap t ! 1))" "sint (pn_count (tu_heap t ! 1)) smod sint (pn_interval (tu_heap t ! 1)) = 0"
    using t(9,10) by simp_all
  from interval_never_completes [OF t(2,7,8,5,6) this t(3,4,11), of 4 5] t(1,11) show ?thesis by blast
qed


lemma tuned_start_moves:
  "\<exists>t t1 cur nr nt. tuned_start 1 1 = Inr t \<and> tuned_Begin 3 ''A'' True 0 t = Inr (t1, Return kOK) \<and>
     tuned_GetLeafCD t = Some cur \<and> th_handle cur < length (r_objs (tu_rt t)) \<and> begin_label ''A'' cur = ''A'' \<and>
     r_tuning_enabled (tu_rt t) \<and> IsGood (tu_rt t) \<and> tu_current t = Some 0 \<and> r_current (tu_rt t) = Some 0 \<and>
     w_gen (r_world (tu_rt t)) = 1 \<and> r_heap (tu_rt t) = [nr] \<and> links nr = (None, [], ''Root'') \<and> pn_phase nr = 0 \<and>
     pt_path (r_tree (tu_rt t)) = [] \<and> pt_cache (r_tree (tu_rt t)) = [(0, Some 0)] \<and>
     tu_heap t = nt # tl (tuned_nodes 1 1) \<and> nt\<lparr>pn_profile := pn_profile (tuned_nodes 1 1 ! 0)\<rparr> = tuned_nodes 1 1 ! 0"
  by (simp add: tuned_eval core_eval tree_eval prof_eval begin_label_def links_def IsGood_def)

lemma every_time_nodes:
  assumes "nt\<lparr>pn_profile := pn_profile (tuned_nodes 1 1 ! 0)\<rparr> = tuned_nodes 1 1 ! 0"
  shows "every_time (nt # tl (tuned_nodes 1 1)) \<and> pn_label nt = ''Root'' \<and> pn_parent nt = None"
proof -
  let ?h = "nt # tl (tuned_nodes 1 1)"
  have n: "nt = (tuned_nodes 1 1 ! 0)\<lparr>pn_profile := pn_profile nt\<rparr>"
    using arg_cong [OF assms, of "\<lambda>n. n\<lparr>pn_profile := pn_profile nt\<rparr>"] by simp
  have "siblings_ok ?h"
    by (rule siblings_okI) (subst n, simp add: tuned_nodes_def Let_def PhaseNode_fresh_def)
  moreover have "heap_wf ?h"
    unfolding heap_wf_def node_wf_def
    by (subst (1 2 3 4 5 6 7) n) (auto simp: tuned_nodes_def Let_def PhaseNode_fresh_def less_Suc_eq)
  moreover have "pn_interval (?h ! i) = 1" if "i < length ?h" for i
    using that by (subst n) (auto simp: tuned_nodes_def Let_def PhaseNode_fresh_def less_Suc_eq)
  moreover have "pn_label nt = ''Root''" "pn_parent nt = None"
    by (subst n, simp add: tuned_nodes_def Let_def PhaseNode_fresh_def)+
  ultimately show ?thesis by (simp add: every_time_def)
qed


text \<open>The phase \<open>B\<close> merged into \<open>A\<close>.\<close>

definition merged_state :: tuned where
  "merged_state = \<lparr>tu_path = [tuned_CDHandle 0 1 ''child''],
     tu_rt = (runtime_init ((tuned_world 2 0)\<lparr>w_tuned := (w_tuned (tuned_world 2 0))\<lparr>pt_current := Some 2\<rparr>\<rparr>) False 1)\<rparr>"

theorem merged_phase_traps_witness:
  "tuned_Complete 4 False merged_state = Inl (DivByZero ''count % interval'')"
proof -
  have h: "tu_heap merged_state = tuned_nodes 2 0" "tu_current merged_state = Some 2"
    by (simp_all add: merged_state_def runtime_init_def tuned_world_def)
  have "siblings_ok (tu_heap merged_state)"
    by (rule siblings_okI) (simp add: h tuned_nodes_def Let_def PhaseNode_fresh_def)
  moreover have "GetLeftMostNode 2 (tu_heap merged_state) = Some 2" "pn_interval (tu_heap merged_state ! 2) = 0"
    "last_merged (tu_heap merged_state) 2" "2 < length (tu_heap merged_state)"
    by (simp_all add: h GetLeftMostNode_def last_merged_def tuned_nodes_def Let_def PhaseNode_fresh_def eval_nat_numeral)
  moreover have "tuned_GetLeafCD merged_state = Some (tuned_CDHandle 0 1 ''child'')"
    by (simp add: merged_state_def tuned_GetLeafCD_def)
  ultimately show ?thesis using merged_phase_traps [OF _ h(2)] by blast
qed

end
