(* ===== verification/Mail_Box.thy ===== *)
theory Mail_Box
  imports CD_Core
begin

text \<open>
  The events between the tasks of a domain: mailboxes, the counters of pending events, rollback
  points and the handlers of events (\<open>cd_comm_internal.cc\<close>, \<open>event_handler.h/.cc\<close> and the
  parts of \<open>cd_internal.cc\<close> and \<open>cd_handle.cc\<close> that report an error).

  The state is the job: the list of its tasks, each with its path of domains.  \<open>pendingFlag_\<close> and
  \<open>rollback_point_\<close> of a task are windows of all tasks, and the array \<open>event_flag_\<close> of a domain is
  a window of the tasks of the domain (as many flags as tasks in the head, one flag in every other
  task).  Every access to a window is inside an exclusive lock, so it is one update of the job, and an
  access outside a window is the outcome \<open>OutOfRange\<close>.  A call of one task is one transition of the
  job; calls of different tasks come in any order.  The index of a domain in the path stands for its
  handle; the group of a domain lists the ranks of its tasks in the root.

  No call of the program sends \<open>kEntrySearch\<close> or \<open>kEntrySend\<close> before it has received one, and their
  handlers, which exchange preserved entries, are left out (\<open>Unmodelled\<close>); \<open>mail_ok\<close> shows that
  they are never registered.
\<close>

section \<open>State\<close>

datatype EventHandler =
    HandleAllPause
  | HandleAllReexecute
  | HandleEntrySend
  | HandleErrorOccurred nat
  | HandleEntrySearch nat
  | HandleAllResume

record mail_cd =
  mc_level :: uint32
  mc_exec_mode :: CDExecMode
  mc_task_in_color :: nat
  mc_head :: nat
  mc_group :: "nat list"
  mc_event_flag :: "uint32 list"
  mc_cd_event :: "EventHandler list"
  mc_error_occurred :: bool
  mc_window_reused :: bool

record mail_task =
  mt_pendingFlag :: uint32
  mt_rollback_point :: uint32
  mt_handled_event_count :: nat
  mt_path :: "mail_cd list"

type_synonym job = "mail_task list"

definition task_size :: "mail_cd \<Rightarrow> nat" where
  "task_size c = length (mc_group c)"

definition mail_IsHead :: "mail_cd \<Rightarrow> bool" where
  "mail_IsHead c \<longleftrightarrow> mc_head c = mc_task_in_color c"

abbreviation cd_of :: "job \<Rightarrow> nat \<Rightarrow> handle \<Rightarrow> mail_cd" where
  "cd_of J i h \<equiv> mt_path (J ! i) ! h"

definition on_task :: "nat \<Rightarrow> (mail_task \<Rightarrow> mail_task) \<Rightarrow> job \<Rightarrow> job" where
  "on_task i f J = J[i := f (J ! i)]"

definition on_cd :: "nat \<Rightarrow> handle \<Rightarrow> (mail_cd \<Rightarrow> mail_cd) \<Rightarrow> job \<Rightarrow> job" where
  "on_cd i h f = on_task i (\<lambda>t. t\<lparr>mt_path := (mt_path t)[h := f (mt_path t ! h)]\<rparr>)"

definition path_handles :: "mail_task \<Rightarrow> cd_path" where
  "path_handles t = Some [0..<length (mt_path t)]"

definition current_cd :: "mail_task \<Rightarrow> handle option outcome" where
  "current_cd t = GetCurrentCD (\<lambda>h. mc_exec_mode (mt_path t ! h)) (\<lambda>h. mc_level (mt_path t ! h)) (path_handles t)"

definition coarse_cd :: "mail_task \<Rightarrow> handle \<Rightarrow> handle outcome" where
  "coarse_cd t = GetCoarseCD (\<lambda>h. task_size (mt_path t ! h)) (\<lambda>h. mc_level (mt_path t ! h)) (path_handles t)"

text \<open>The domains from a handle up to the root, as the loops over \<open>GetParentCD(level)\<close> visit them.\<close>

fun up_from :: "nat \<Rightarrow> mail_task \<Rightarrow> handle option \<Rightarrow> handle list outcome" where
  "up_from k t None = Inr []"
| "up_from 0 t (Some h) = Inl (Blocked ''curr_cdh'')"
| "up_from (Suc k) t (Some h) =
     bind_out (GetParentCD_level (uint (mc_level (mt_path t ! h))) (path_handles t)) (\<lambda>p.
     bind_out (up_from k t p) (\<lambda>hs. Inr (h # hs)))"

definition levels_up :: "mail_task \<Rightarrow> handle option \<Rightarrow> handle list outcome" where
  "levels_up t = up_from (length (mt_path t)) t"

fun fold_out :: "('a \<Rightarrow> 's \<Rightarrow> 's outcome) \<Rightarrow> 'a list \<Rightarrow> 's \<Rightarrow> 's outcome" where
  "fold_out f [] s = Inr s"
| "fold_out f (x # xs) s = bind_out (f x s) (fold_out f xs)"

section \<open>Access to windows\<close>

definition global_rank :: "mail_cd \<Rightarrow> nat \<Rightarrow> nat outcome" where
  "global_rank c r =
     (if r < length (mc_group c) then Inr (mc_group c ! r) else Inl (OutOfRange ''PMPI_Group_translate_ranks''))"

definition acc_pending :: "nat \<Rightarrow> job \<Rightarrow> job outcome" where
  "acc_pending g J =
     (if g < length J then Inr (on_task g (\<lambda>t. t\<lparr>mt_pendingFlag := mt_pendingFlag t + 1\<rparr>) J)
      else Inl (OutOfRange ''pendingWindow_''))"

definition on_flag :: "nat \<Rightarrow> handle \<Rightarrow> nat \<Rightarrow> (uint32 \<Rightarrow> uint32) \<Rightarrow> job \<Rightarrow> job outcome" where
  "on_flag i h d f J =
     (if i < length J \<and> h < length (mt_path (J ! i)) \<and> d < length (mc_event_flag (cd_of J i h)) then
        Inr (on_cd i h (\<lambda>c. c\<lparr>mc_event_flag := (mc_event_flag c)[d := f (mc_event_flag c ! d)]\<rparr>) J)
      else Inl (OutOfRange ''mailbox_''))"

definition acc_mailbox :: "nat \<Rightarrow> handle \<Rightarrow> nat \<Rightarrow> CDEventT \<Rightarrow> job \<Rightarrow> job outcome" where
  "acc_mailbox g h d event = on_flag g h d (\<lambda>x. x OR CDEventT_val event)"

definition clear_flag :: "nat \<Rightarrow> handle \<Rightarrow> nat \<Rightarrow> CDEventT \<Rightarrow> job \<Rightarrow> job outcome" where
  "clear_flag i h d event = on_flag i h d (\<lambda>x. x AND NOT (CDEventT_val event))"

definition acc_rollback :: "nat \<Rightarrow> uint32 \<Rightarrow> job \<Rightarrow> job outcome" where
  "acc_rollback g rollback_lv J =
     (if g < length J then Inr (on_task g (\<lambda>t. t\<lparr>mt_rollback_point := min rollback_lv (mt_rollback_point t)\<rparr>) J)
      else Inl (OutOfRange ''rollbackWindow_''))"

definition push_event :: "nat \<Rightarrow> handle \<Rightarrow> EventHandler \<Rightarrow> job \<Rightarrow> job" where
  "push_event i h e = on_cd i h (\<lambda>c. c\<lparr>mc_cd_event := mc_cd_event c @ [e]\<rparr>)"

definition IncHandledEventCounter :: "nat \<Rightarrow> job \<Rightarrow> job" where
  "IncHandledEventCounter i = on_task i (\<lambda>t. t\<lparr>mt_handled_event_count := mt_handled_event_count t + 1\<rparr>)"

definition IncPendingCounter :: "nat \<Rightarrow> job \<Rightarrow> job" where
  "IncPendingCounter i = on_task i (\<lambda>t. t\<lparr>mt_pendingFlag := mt_pendingFlag t + 1\<rparr>)"

definition DecPendingCounter :: "nat \<Rightarrow> job \<Rightarrow> job" where
  "DecPendingCounter i = on_task i (\<lambda>t. t\<lparr>mt_pendingFlag := mt_pendingFlag t - of_nat (mt_handled_event_count t),
     mt_handled_event_count := 0\<rparr>)"

definition UnsetEventFlag :: "nat \<Rightarrow> handle \<Rightarrow> nat \<Rightarrow> CDEventT \<Rightarrow> job \<Rightarrow> job outcome" where
  "UnsetEventFlag i h d event J =
     bind_out (assert_out ''is_window_reused_'' (\<not> mc_window_reused (cd_of J i h))) (\<lambda>_. clear_flag i h d event J)"

definition GetEventFlag :: "nat \<Rightarrow> handle \<Rightarrow> job \<Rightarrow> uint32 outcome" where
  "GetEventFlag i h J =
     bind_out (assert_out ''is_window_reused_'' (\<not> mc_window_reused (cd_of J i h))) (\<lambda>_.
       case mc_event_flag (cd_of J i h) of [] \<Rightarrow> Inl (OutOfRange ''event_flag_'') | x # _ \<Rightarrow> Inr x)"

definition HeadCD_GetEventFlag :: "nat \<Rightarrow> handle \<Rightarrow> job \<Rightarrow> uint32 list outcome" where
  "HeadCD_GetEventFlag i h J =
     (let c = cd_of J i h in
      bind_out (assert_out ''is_window_reused_'' (\<not> mc_window_reused c)) (\<lambda>_.
        if task_size c \<le> length (mc_event_flag c) then Inr (take (task_size c) (mc_event_flag c))
        else Inl (OutOfRange ''event_flag_'')))"

section \<open>Rollback points\<close>

definition set_rollback_coarse :: "nat \<Rightarrow> handle \<Rightarrow> uint32 \<Rightarrow> bool \<Rightarrow> job \<Rightarrow> (job \<times> uint32) outcome" where
  "set_rollback_coarse i h rollback_lv remote J =
     (let c = cd_of J i h; min_rbp = min rollback_lv (mt_rollback_point (J ! i)) in
      if remote then
        bind_out (global_rank c (mc_head c)) (\<lambda>global_head_id.
        bind_out (acc_rollback global_head_id rollback_lv J) (\<lambda>J.
          Inr (J, if global_head_id \<noteq> i then rollback_lv else min_rbp)))
      else bind_out (acc_rollback i rollback_lv J) (\<lambda>J. Inr (J, min_rbp)))"

text \<open>
  The call on the nearest domain with more than one task ends at once: the root of a job with several
  tasks has them all; with a single task in the root it would repeat for ever.
\<close>

definition mail_SetRollbackPoint :: "nat \<Rightarrow> handle \<Rightarrow> uint32 \<Rightarrow> bool \<Rightarrow> job \<Rightarrow> (job \<times> uint32) outcome" where
  "mail_SetRollbackPoint i h rollback_lv remote J =
     (if rollback_lv \<noteq> INVALID_ROLLBACK_POINT then
        if task_size (cd_of J i h) > 1 then set_rollback_coarse i h rollback_lv remote J
        else if length J = 1 then bind_out (acc_rollback i rollback_lv J) (\<lambda>J. Inr (J, rollback_lv))
        else bind_out (coarse_cd (J ! i) h) (\<lambda>c.
               if task_size (cd_of J i c) > 1 then set_rollback_coarse i c rollback_lv remote J
               else Inl (Blocked ''SetRollbackPoint''))
      else Inr (on_task i (\<lambda>t. t\<lparr>mt_rollback_point := INVALID_ROLLBACK_POINT\<rparr>) J, rollback_lv))"

definition check_rollback_coarse :: "nat \<Rightarrow> handle \<Rightarrow> bool \<Rightarrow> job \<Rightarrow> uint32 outcome" where
  "check_rollback_coarse i h remote J =
     (let c = cd_of J i h in
      if remote then
        bind_out (global_rank c (mc_head c)) (\<lambda>global_head_id.
        if global_head_id < length J then
          let rollback_lv = mt_rollback_point (J ! global_head_id) in
          bind_out (assert_out ''level() >= rollback_lv''
              (\<not> (mc_level c < rollback_lv \<and> rollback_lv \<noteq> INVALID_ROLLBACK_POINT))) (\<lambda>_.
            Inr rollback_lv)
        else Inl (OutOfRange ''rollbackWindow_''))
      else Inr (mt_rollback_point (J ! i)))"

definition mail_CheckRollbackPoint :: "nat \<Rightarrow> handle \<Rightarrow> bool \<Rightarrow> job \<Rightarrow> uint32 outcome" where
  "mail_CheckRollbackPoint i h remote J =
     (if task_size (cd_of J i h) > 1 then check_rollback_coarse i h remote J
      else if length J = 1 then Inr (mt_rollback_point (J ! i))
      else bind_out (coarse_cd (J ! i) h) (\<lambda>c.
             if task_size (cd_of J i c) > 1 then check_rollback_coarse i c remote J
             else Inl (Blocked ''CheckRollbackPoint'')))"

section \<open>Sending events\<close>

definition LocalSetMailBox :: "nat \<Rightarrow> handle \<Rightarrow> CDEventT \<Rightarrow> job \<Rightarrow> job outcome" where
  "LocalSetMailBox i h event J =
     (let c = cd_of J i h; v = CDEventT_val event; idx = mc_task_in_color c in
      bind_out (assert_out ''IsHead()'' (mail_IsHead c)) (\<lambda>_.
      if event = kNoEvent then Inr J
      else
        bind_out (if event \<in> {kAllResume, kAllPause, kEntrySearch} then Inl (ErrorMessage ''LocalSetMailBox'') else Inr ()) (\<lambda>_.
        bind_out (if CHECK_EVENT v (CDEventT_val kErrorOccurred) then
                    bind_out (clear_flag i h idx kErrorOccurred (push_event i h (HandleErrorOccurred 0) (IncPendingCounter i J)))
                      (\<lambda>J. Inr (on_cd i h (\<lambda>c. c\<lparr>mc_error_occurred := True\<rparr>) J))
                  else Inr J) (\<lambda>J.
        bind_out (if CHECK_EVENT v (CDEventT_val kAllReexecute) then
                    clear_flag i h idx kAllReexecute (push_event i h HandleAllReexecute (IncPendingCounter i J))
                  else Inr J) (\<lambda>J.
        bind_out (assert_out ''kEntrySend'' (\<not> CHECK_EVENT v (CDEventT_val kEntrySend))) (\<lambda>_.
          Inr J))))))"

definition RemoteSetMailBox :: "nat \<Rightarrow> handle \<Rightarrow> CDEventT \<Rightarrow> job \<Rightarrow> job outcome" where
  "RemoteSetMailBox i h event J =
     (let c = cd_of J i h; head_id = mc_head c in
      bind_out (global_rank c head_id) (\<lambda>global_head_id.
      bind_out (acc_pending global_head_id J) (\<lambda>J.
        if head_id \<noteq> mc_task_in_color c then acc_mailbox global_head_id h (mc_task_in_color c) event J
        else acc_mailbox i h 0 event J)))"

definition SetMailBox :: "nat \<Rightarrow> handle \<Rightarrow> CDEventT \<Rightarrow> job \<Rightarrow> job outcome" where
  "SetMailBox i h event J =
     (if event = kNoEvent then Inr J
      else bind_out (coarse_cd (J ! i) h) (\<lambda>cdp.
             if mail_IsHead (cd_of J i cdp) then LocalSetMailBox i cdp event J
             else RemoteSetMailBox i cdp event J))"

definition HeadCD_SetMailBox :: "nat \<Rightarrow> handle \<Rightarrow> CDEventT \<Rightarrow> nat \<Rightarrow> job \<Rightarrow> job outcome" where
  "HeadCD_SetMailBox i h event task_id J =
     (let c = cd_of J i h in
      if event \<in> {kErrorOccurred, kEntrySearch} \<or> task_size c = 1 then Inl (ErrorMessage ''HeadCD::SetMailBox'')
      else if event = kNoEvent then Inr J
      else if task_id \<noteq> mc_task_in_color c then
        bind_out (global_rank c task_id) (\<lambda>global_task_id.
        bind_out (assert_out ''global_task_id != myTaskID'' (global_task_id \<noteq> i)) (\<lambda>_.
        bind_out (acc_pending global_task_id J) (\<lambda>J.
          acc_mailbox global_task_id h 0 event J)))
      else bind_out (assert_out ''task_size() > 1'' (task_size c > 1)) (\<lambda>_. LocalSetMailBox i h event J))"

section \<open>Handling events\<close>

definition handle_error :: "nat \<Rightarrow> handle \<Rightarrow> job \<Rightarrow> job outcome" where
  "handle_error i h J =
     (let c = cd_of J i h in
      if task_size c = 1 then Inr J
      else
        bind_out (current_cd (J ! i)) (\<lambda>cur.
        bind_out (deref ''GetCurrentCD()'' cur) (\<lambda>cur.
        bind_out (if mc_level c \<le> mc_level (cd_of J i cur)
                  then fold_out (HeadCD_SetMailBox i h kAllReexecute) [0..<task_size c] J
                  else bind_out (mail_SetRollbackPoint i h (mc_level c) False J) (\<lambda>(J, _). Inr J)) (\<lambda>J.
          Inr (on_cd i h (\<lambda>c. c\<lparr>mc_error_occurred := False\<rparr>) (IncHandledEventCounter i J))))))"

definition handle_reexecute :: "nat \<Rightarrow> handle \<Rightarrow> job \<Rightarrow> job outcome" where
  "handle_reexecute i h J =
     (let c = cd_of J i h; rollback_lv = mc_level c in
      bind_out (assert_out ''task_size() != 1'' (task_size c \<noteq> 1)) (\<lambda>_.
      bind_out (current_cd (J ! i)) (\<lambda>cur.
      bind_out (deref ''GetCurrentCD()'' cur) (\<lambda>cur.
      let current_lv = mc_level (cd_of J i cur) in
      bind_out (mail_CheckRollbackPoint i h False J) (\<lambda>rollback_point.
      bind_out (if rollback_lv = current_lv \<or> rollback_lv < current_lv \<and> rollback_lv < rollback_point
                then bind_out (mail_SetRollbackPoint i h rollback_lv False J) (\<lambda>(J, _). Inr J)
                else if rollback_lv < current_lv then Inr J
                else Inl (ErrorMessage ''Invalid rollback level'')) (\<lambda>J.
        Inr (IncHandledEventCounter i J)))))))"

fun HandleEvent :: "nat \<Rightarrow> handle \<Rightarrow> EventHandler \<Rightarrow> job \<Rightarrow> job outcome" where
  "HandleEvent i h (HandleErrorOccurred task_id) J = handle_error i h J"
| "HandleEvent i h HandleAllReexecute J = handle_reexecute i h J"
| "HandleEvent i h HandleAllPause J = Inr (IncHandledEventCounter i J)"
| "HandleEvent i h HandleAllResume J =
     (if task_size (cd_of J i h) = 1 then Inr J else Inr (IncHandledEventCounter i J))"
| "HandleEvent i h HandleEntrySend J = Inl (Unmodelled ''HandleEntrySend'')"
| "HandleEvent i h (HandleEntrySearch task_id) J = Inl (Unmodelled ''HandleEntrySearch'')"

text \<open>
  The loop over the queue.  A handler may put one more handler into the queue; twice the length of
  the queue is enough turns (\<open>invoke_total\<close>).
\<close>

fun invoke_n :: "nat \<Rightarrow> nat \<Rightarrow> handle \<Rightarrow> job \<Rightarrow> job outcome" where
  "invoke_n k i h J =
     (case mc_cd_event (cd_of J i h) of
        [] \<Rightarrow> Inr J
      | e # _ \<Rightarrow>
          (case k of
             0 \<Rightarrow> Inl (Blocked ''InvokeErrorHandler'')
           | Suc k \<Rightarrow>
               bind_out (HandleEvent i h e J) (\<lambda>J.
                 invoke_n k i h (on_cd i h (\<lambda>c. c\<lparr>mc_cd_event := tl (mc_cd_event c)\<rparr>) J))))"

declare invoke_n.simps [simp del]

definition InvokeErrorHandler :: "nat \<Rightarrow> handle \<Rightarrow> job \<Rightarrow> job outcome" where
  "InvokeErrorHandler i h J = invoke_n (2 * length (mc_cd_event (cd_of J i h))) i h J"

definition InvokeAllErrorHandler :: "nat \<Rightarrow> job \<Rightarrow> job outcome" where
  "InvokeAllErrorHandler i J =
     bind_out (current_cd (J ! i)) (\<lambda>cur.
     bind_out (deref ''GetCurrentCD()'' cur) (\<lambda>cur.
     bind_out (coarse_cd (J ! i) cur) (\<lambda>cdp.
     bind_out (levels_up (J ! i) (Some cdp)) (\<lambda>hs.
       fold_out (InvokeErrorHandler i) hs J))))"

section \<open>Reading mailboxes\<close>

definition take_event :: "nat \<Rightarrow> handle \<Rightarrow> uint32 \<Rightarrow> CDEventT \<Rightarrow> EventHandler list \<Rightarrow> job \<Rightarrow> job outcome" where
  "take_event i h event e hs J =
     (if CHECK_EVENT event (CDEventT_val e) then UnsetEventFlag i h 0 e (fold (push_event i h) hs J) else Inr J)"

definition ReadMailBox :: "nat \<Rightarrow> handle \<Rightarrow> uint32 \<Rightarrow> job \<Rightarrow> job outcome" where
  "ReadMailBox i h event J =
     (if event = 0 then Inr J
      else
        bind_out (take_event i h event kEntrySearch [] J) (\<lambda>J.
        bind_out (take_event i h event kErrorOccurred [] J) (\<lambda>J.
        bind_out (take_event i h event kEntrySend [HandleEntrySend] J) (\<lambda>J.
        bind_out (take_event i h event kAllPause [HandleAllPause] J) (\<lambda>J.
          take_event i h event kAllReexecute [HandleAllReexecute] J)))))"

definition head_take :: "nat \<Rightarrow> handle \<Rightarrow> nat \<Rightarrow> uint32 \<Rightarrow> CDEventT \<Rightarrow> EventHandler \<Rightarrow> job \<Rightarrow> job outcome" where
  "head_take i h idx event e handler J =
     (if CHECK_EVENT event (CDEventT_val e) then clear_flag i h idx e (push_event i h handler J) else Inr J)"

definition head_take_error :: "nat \<Rightarrow> handle \<Rightarrow> nat \<Rightarrow> uint32 \<Rightarrow> job \<Rightarrow> job outcome" where
  "head_take_error i h idx event J =
     (if CHECK_EVENT event (CDEventT_val kErrorOccurred) then
        bind_out (assert_out ''task_size() > 1'' (task_size (cd_of J i h) > 1)) (\<lambda>_.
          UnsetEventFlag i h idx kErrorOccurred
            (if mc_error_occurred (cd_of J i h) then IncHandledEventCounter i J
             else on_cd i h (\<lambda>c. c\<lparr>mc_error_occurred := True\<rparr>) (push_event i h (HandleErrorOccurred idx) J)))
      else Inr J)"

definition HeadCD_ReadMailBox :: "nat \<Rightarrow> handle \<Rightarrow> uint32 \<Rightarrow> nat \<Rightarrow> job \<Rightarrow> job outcome" where
  "HeadCD_ReadMailBox i h event idx J =
     bind_out (assert_out ''head() == task_in_color()'' (idx = mc_head (cd_of J i h) \<longrightarrow> mail_IsHead (cd_of J i h))) (\<lambda>_.
     if event = 0 then Inr J
     else
       bind_out (head_take_error i h idx event J) (\<lambda>J.
       bind_out (head_take i h idx event kEntrySearch (HandleEntrySearch idx) J) (\<lambda>J.
       bind_out (head_take i h idx event kAllResume HandleAllResume J) (\<lambda>J.
       bind_out (head_take i h idx event kAllReexecute HandleAllReexecute J) (\<lambda>J.
       bind_out (assert_out ''kEntrySend, kAllPause''
           (\<not> CHECK_EVENT event (CDEventT_val kEntrySend) \<and> \<not> CHECK_EVENT event (CDEventT_val kAllPause))) (\<lambda>_.
         Inr J))))))"

definition InternalCheckMailBox :: "nat \<Rightarrow> handle \<Rightarrow> job \<Rightarrow> job outcome" where
  "InternalCheckMailBox i h J =
     (if mail_IsHead (cd_of J i h) then
        bind_out (HeadCD_GetEventFlag i h J) (\<lambda>event.
          fold_out (\<lambda>k. HeadCD_ReadMailBox i h (event ! k) k) [0..<task_size (cd_of J i h)] J)
      else bind_out (GetEventFlag i h J) (\<lambda>event. ReadMailBox i h event J))"

definition check_level :: "nat \<Rightarrow> handle \<Rightarrow> job \<times> nat \<Rightarrow> (job \<times> nat) outcome" where
  "check_level i h Jn =
     (case Jn of (J, tot_events) \<Rightarrow>
        if task_size (cd_of J i h) > 1 then
          bind_out (InternalCheckMailBox i h J) (\<lambda>J. Inr (J, tot_events + length (mc_cd_event (cd_of J i h))))
        else Inr (J, tot_events))"

definition CheckMailBox :: "nat \<Rightarrow> job \<Rightarrow> job outcome" where
  "CheckMailBox i J =
     bind_out (assert_out ''handled_event_count == 0'' (mt_handled_event_count (J ! i) = 0)) (\<lambda>_.
     bind_out (current_cd (J ! i)) (\<lambda>curr_cdh.
     if mt_pendingFlag (J ! i) = 0 then
       bind_out (deref ''GetCurrentCD()'' curr_cdh) (\<lambda>cur.
       bind_out (coarse_cd (J ! i) cur) (\<lambda>cdp.
       bind_out (levels_up (J ! i) (Some cdp)) (\<lambda>hs.
         if (\<Sum>h\<leftarrow>hs. length (mc_cd_event (cd_of J i h))) > 0 then InvokeAllErrorHandler i J else Inr J)))
     else
       bind_out (levels_up (J ! i) curr_cdh) (\<lambda>hs.
       bind_out (fold_out (check_level i) hs (J, 0)) (\<lambda>(J, tot_events).
         if tot_events > 0 then bind_out (InvokeAllErrorHandler i J) (\<lambda>J. Inr (DecPendingCounter i J))
         else Inr J))))"

section \<open>Reporting errors\<close>

definition drop_ret :: "(job \<times> uint32) outcome \<Rightarrow> job outcome" where
  "drop_ret m = bind_out m (\<lambda>(J, _). Inr J)"

definition mail_Assert :: "nat \<Rightarrow> handle \<Rightarrow> bool \<Rightarrow> job \<Rightarrow> job outcome" where
  "mail_Assert i h test J =
     (let c = cd_of J i h in
      bind_out (current_cd (J ! i)) (\<lambda>cdh.
      bind_out
        (if test then Inr J
         else bind_out (deref ''GetCurrentCD()'' cdh) (\<lambda>cdh.
           let current_lv = mc_level (cd_of J i cdh) in
           if current_lv = mc_level c then
             if task_size c > 1 \<and> \<not> mail_IsHead c then SetMailBox i h kErrorOccurred J
             else drop_ret (mail_SetRollbackPoint i h (mc_level c) False J)
           else if mc_level c < current_lv then
             bind_out (if task_size c > 1 then SetMailBox i h kErrorOccurred J else Inr J) (\<lambda>J.
               drop_ret (mail_SetRollbackPoint i h (mc_level c) False J))
           else Inl (ErrorMessage ''(leaf) < (failed level)''))) (\<lambda>J.
        CheckMailBox i J)))"

text \<open>The report of a detected error in \<open>CDHandle::Detect\<close>, to the level \<open>rollback_point\<close>.\<close>

definition mail_Detect :: "nat \<Rightarrow> handle \<Rightarrow> uint32 option \<Rightarrow> job \<Rightarrow> job outcome" where
  "mail_Detect i h detected J =
     bind_out
       (case detected of
          None \<Rightarrow> Inr J
        | Some rollback_point \<Rightarrow>
            bind_out (GetCDLevel rollback_point (path_handles (J ! i))) (\<lambda>rb.
            bind_out (deref ''rb_cdh'' rb) (\<lambda>rb.
            let c = cd_of J i h; rb_cd = cd_of J i rb in
            if task_size c > 1 then
              bind_out (SetMailBox i rb kErrorOccurred J) (\<lambda>J.
              bind_out (if mail_IsHead c then Inr J else drop_ret (mail_SetRollbackPoint i h rollback_point True J)) (\<lambda>J.
                drop_ret (mail_SetRollbackPoint i h rollback_point False J)))
            else if task_size rb_cd > 1 then
              bind_out (SetMailBox i rb kErrorOccurred J) (\<lambda>J.
                drop_ret (mail_SetRollbackPoint i h (if mail_IsHead rb_cd then rollback_point else mc_level c) False J))
            else drop_ret (mail_SetRollbackPoint i h rollback_point False J))))
       (CheckMailBox i)"

section \<open>Creating, destroying and synchronising\<close>

definition InitializeMailBox :: "nat \<Rightarrow> handle \<Rightarrow> job \<Rightarrow> job" where
  "InitializeMailBox i h J =
     (let J = on_task i (\<lambda>t. t\<lparr>mt_pendingFlag := 0, mt_rollback_point := INVALID_ROLLBACK_POINT\<rparr>) J in
      if mc_window_reused (cd_of J i h) then J
      else on_cd i h (\<lambda>c. c\<lparr>mc_event_flag := (if mail_IsHead c then replicate (task_size c) 0 @ drop (task_size c) (mc_event_flag c)
                                              else (mc_event_flag c)[0 := 0])\<rparr>) J)"

definition flagged_events :: "uint32 \<Rightarrow> nat" where
  "flagged_events event =
     length (filter (\<lambda>e. CHECK_EVENT event (CDEventT_val e))
       [kErrorOccurred, kAllReexecute, kEntrySearch, kEntrySend, kAllPause, kAllResume])"

definition FinalizeMailBox :: "nat \<Rightarrow> handle \<Rightarrow> job \<Rightarrow> job" where
  "FinalizeMailBox i h J =
     (let c = cd_of J i h; n = (if mail_IsHead c then task_size c else 1) in
      if task_size c > 1 \<and> \<not> mc_window_reused c then
        DecPendingCounter i
          (on_cd i h (\<lambda>c. c\<lparr>mc_event_flag := replicate n 0 @ drop n (mc_event_flag c)\<rparr>)
            (on_task i (\<lambda>t. t\<lparr>mt_handled_event_count :=
                mt_handled_event_count t + (\<Sum>x\<leftarrow>take n (mc_event_flag c). flagged_events x)\<rparr>) J))
      else J)"

text \<open>
  \<open>SyncCDs\<close> of the tasks of a domain: every task looks into its mailbox twice, passes the fence, looks
  once more, and all take the minimum of their rollback points.  Before and after the fence the
  calls of the tasks come in the orders \<open>before\<close> and \<open>after\<close>.
\<close>

definition run_checks :: "nat list \<Rightarrow> job \<Rightarrow> job outcome" where
  "run_checks = fold_out CheckMailBox"

definition mail_SyncCDs :: "nat list \<Rightarrow> nat list \<Rightarrow> nat list \<Rightarrow> job \<Rightarrow> (job \<times> uint32) outcome" where
  "mail_SyncCDs grp before after J =
     (if length grp > 1 then
        bind_out (run_checks before J) (\<lambda>J.
        bind_out (run_checks after J) (\<lambda>J.
          Inr (J, Min (set (map (\<lambda>i. mt_rollback_point (J ! i)) grp)))))
      else Inr (J, INVALID_ROLLBACK_POINT))"

text \<open>The part of \<open>Begin\<close> that synchronises the tasks of a domain and resets their rollback points.\<close>

definition begin_one :: "handle \<Rightarrow> uint32 \<Rightarrow> nat \<Rightarrow> job \<Rightarrow> job outcome" where
  "begin_one h new_rollback_point i J =
     bind_out (mail_SetRollbackPoint i h new_rollback_point False J) (\<lambda>(J, _).
       Inr (if new_rollback_point < mc_level (cd_of J i h) then J
            else on_task i (\<lambda>t. t\<lparr>mt_rollback_point := INVALID_ROLLBACK_POINT\<rparr>) J))"

definition mail_Begin :: "handle \<Rightarrow> nat list \<Rightarrow> nat list \<Rightarrow> nat list \<Rightarrow> job \<Rightarrow> (job \<times> uint32) outcome" where
  "mail_Begin h grp before after J =
     bind_out (mail_SyncCDs grp before after J) (\<lambda>(J, new_rollback_point).
     bind_out (fold_out (begin_one h new_rollback_point) grp J) (\<lambda>J.
       Inr (J, new_rollback_point)))"

section \<open>Updates\<close>

lemma length_on_task [simp]: "length (on_task i f J) = length J"
  by (simp add: on_task_def)

lemma length_on_cd [simp]: "length (on_cd i h f J) = length J"
  by (simp add: on_cd_def)

lemma on_task_same [simp]: "i < length J \<Longrightarrow> on_task i f J ! i = f (J ! i)"
  by (simp add: on_task_def)

lemma on_task_other [simp]: "i \<noteq> j \<Longrightarrow> on_task i f J ! j = J ! j"
  by (simp add: on_task_def)

lemma on_cd_other [simp]: "i \<noteq> j \<Longrightarrow> on_cd i h f J ! j = J ! j"
  by (simp add: on_cd_def)

lemma on_cd_same: "i < length J \<Longrightarrow> on_cd i h f J ! i = (J ! i)\<lparr>mt_path := (mt_path (J ! i))[h := f (cd_of J i h)]\<rparr>"
  by (simp add: on_cd_def)

lemma on_cd_fields [simp]:
  "mt_pendingFlag (on_cd i h f J ! j) = mt_pendingFlag (J ! j)"
  "mt_rollback_point (on_cd i h f J ! j) = mt_rollback_point (J ! j)"
  "mt_handled_event_count (on_cd i h f J ! j) = mt_handled_event_count (J ! j)"
  by (cases "j = i"; cases "i < length J"; simp add: on_cd_same; simp add: on_cd_def on_task_def list_update_beyond not_less)+

lemma length_path_on_cd [simp]: "length (mt_path (on_cd i h f J ! j)) = length (mt_path (J ! j))"
  by (cases "j = i"; cases "i < length J"; simp add: on_cd_same; simp add: on_cd_def on_task_def list_update_beyond not_less)

lemma cd_of_on_cd:
  "i < length J \<Longrightarrow> h < length (mt_path (J ! i)) \<Longrightarrow>
   cd_of (on_cd i h f J) j k = (if j = i \<and> k = h then f (cd_of J i h) else cd_of J j k)"
  by (cases "j = i") (simp_all add: on_cd_same nth_list_update)

lemma path_on_task: "(\<And>t. mt_path (f t) = mt_path t) \<Longrightarrow> mt_path (on_task i f J ! j) = mt_path (J ! j)"
  by (cases "j = i"; cases "i < length J"; simp; simp add: on_task_def list_update_beyond not_less)

section \<open>The shape of a job\<close>

text \<open>What no call changes: the domains with their groups, and the sizes of the windows.\<close>

definition frame :: "mail_cd \<Rightarrow> mail_cd" where
  "frame c = c\<lparr>mc_event_flag := replicate (length (mc_event_flag c)) 0, mc_cd_event := [], mc_error_occurred := False\<rparr>"

lemma frame_simps [simp]:
  "mc_level (frame c) = mc_level c" "mc_exec_mode (frame c) = mc_exec_mode c"
  "mc_task_in_color (frame c) = mc_task_in_color c" "mc_head (frame c) = mc_head c" "mc_group (frame c) = mc_group c"
  "length (mc_event_flag (frame c)) = length (mc_event_flag c)" "mc_window_reused (frame c) = mc_window_reused c"
  "task_size (frame c) = task_size c" "mail_IsHead (frame c) = mail_IsHead c"
  by (simp_all add: frame_def task_size_def mail_IsHead_def)

definition frames :: "job \<Rightarrow> mail_cd list list" where
  "frames J = map (\<lambda>t. map frame (mt_path t)) J"

definition cd_shape :: "mail_cd list list \<Rightarrow> nat \<Rightarrow> handle \<Rightarrow> bool" where
  "cd_shape F i h \<longleftrightarrow>
     (let c = F ! i ! h in
      mc_level c = of_nat h \<and> distinct (mc_group c) \<and>
      mc_task_in_color c < length (mc_group c) \<and> mc_group c ! mc_task_in_color c = i \<and> mc_head c < length (mc_group c) \<and>
      (\<forall>g \<in> set (mc_group c). g < length F \<and> h < length (F ! g) \<and>
         mc_group (F ! g ! h) = mc_group c \<and> mc_head (F ! g ! h) = mc_head c) \<and>
      (if task_size c > 1
       then \<not> mc_window_reused c \<and> length (mc_event_flag c) = (if mail_IsHead c then task_size c else 1)
       else mc_window_reused c \<and> mc_event_flag c = []))"

definition shape :: "mail_cd list list \<Rightarrow> bool" where
  "shape F \<longleftrightarrow>
     (\<forall>i < length F. F ! i \<noteq> [] \<and> length (F ! i) < 2 ^ 32 \<and>
        (length (F ! i) > 1 \<or> mc_exec_mode (last (F ! i)) \<noteq> kSuspension) \<and>
        (\<forall>h < length (F ! i). cd_shape F i h))"

definition cur_handle :: "mail_task \<Rightarrow> handle" where
  "cur_handle t = (if mc_exec_mode (last (mt_path t)) \<noteq> kSuspension then length (mt_path t) - 1 else length (mt_path t) - 2)"

lemma length_frames [simp]: "length (frames J) = length J"
  by (simp add: frames_def)

lemma frames_nth [simp]: "i < length J \<Longrightarrow> frames J ! i = map frame (mt_path (J ! i))"
  by (simp add: frames_def)

lemma frames_on_task: "(\<And>t. mt_path (f t) = mt_path t) \<Longrightarrow> frames (on_task i f J) = frames J"
  by (rule nth_equalityI) (simp_all add: path_on_task)

lemma frames_on_cd:
  assumes "\<And>c. frame (f c) = frame c"
  shows "frames (on_cd i h f J) = frames J"
proof (rule nth_equalityI)
  fix j assume "j < length (frames (on_cd i h f J))"
  then show "frames (on_cd i h f J) ! j = frames J ! j"
    using assms by (cases "j = i"; cases "h < length (mt_path (J ! j))")
      (simp_all add: on_cd_same map_update list_update_same_conv list_update_beyond)
qed simp

lemma shape_task:
  assumes "shape (frames J)" "i < length J"
  shows "mt_path (J ! i) \<noteq> []" "length (mt_path (J ! i)) < 2 ^ 32" "cur_handle (J ! i) < length (mt_path (J ! i))"
    "path_ok (\<lambda>h. mc_level (mt_path (J ! i) ! h)) [0..<length (mt_path (J ! i))]"
proof -
  have "mc_level (cd_of J i h) = of_nat h" if "h < length (mt_path (J ! i))" for h
    using assms that by (auto simp: shape_def cd_shape_def Let_def)
  moreover show "mt_path (J ! i) \<noteq> []" "length (mt_path (J ! i)) < 2 ^ 32"
    using assms by (auto simp: shape_def)
  ultimately show "path_ok (\<lambda>h. mc_level (mt_path (J ! i) ! h)) [0..<length (mt_path (J ! i))]"
    by (simp add: path_ok_def)
  show "cur_handle (J ! i) < length (mt_path (J ! i))"
    using assms \<open>mt_path (J ! i) \<noteq> []\<close> by (auto simp: shape_def cur_handle_def last_map)
qed

lemma shape_cd:
  assumes "shape (frames J)" "i < length J" "h < length (mt_path (J ! i))"
  shows "mc_level (cd_of J i h) = of_nat h" "distinct (mc_group (cd_of J i h))"
    "mc_task_in_color (cd_of J i h) < task_size (cd_of J i h)" "mc_group (cd_of J i h) ! mc_task_in_color (cd_of J i h) = i"
    "mc_head (cd_of J i h) < task_size (cd_of J i h)"
    "task_size (cd_of J i h) > 1 \<Longrightarrow> \<not> mc_window_reused (cd_of J i h)"
    "task_size (cd_of J i h) > 1 \<Longrightarrow> length (mc_event_flag (cd_of J i h)) = (if mail_IsHead (cd_of J i h) then task_size (cd_of J i h) else 1)"
    "\<not> task_size (cd_of J i h) > 1 \<Longrightarrow> mc_event_flag (cd_of J i h) = []"
    "\<not> task_size (cd_of J i h) > 1 \<Longrightarrow> mc_window_reused (cd_of J i h)"
proof -
  have e: "frames J ! i ! h = frame (cd_of J i h)" using assms(2,3) by simp
  have "cd_shape (frames J) i h" using assms by (simp add: shape_def)
  then show "mc_level (cd_of J i h) = of_nat h" "distinct (mc_group (cd_of J i h))"
    "mc_task_in_color (cd_of J i h) < task_size (cd_of J i h)" "mc_group (cd_of J i h) ! mc_task_in_color (cd_of J i h) = i"
    "mc_head (cd_of J i h) < task_size (cd_of J i h)"
    "task_size (cd_of J i h) > 1 \<Longrightarrow> \<not> mc_window_reused (cd_of J i h)"
    "task_size (cd_of J i h) > 1 \<Longrightarrow> length (mc_event_flag (cd_of J i h)) = (if mail_IsHead (cd_of J i h) then task_size (cd_of J i h) else 1)"
    "\<not> task_size (cd_of J i h) > 1 \<Longrightarrow> mc_event_flag (cd_of J i h) = []"
    "\<not> task_size (cd_of J i h) > 1 \<Longrightarrow> mc_window_reused (cd_of J i h)"
    unfolding cd_shape_def Let_def e frame_simps by (simp_all add: task_size_def, simp_all add: frame_def)
qed

lemma shape_member:
  assumes "shape (frames J)" "i < length J" "h < length (mt_path (J ! i))" "r < task_size (cd_of J i h)"
    "g = mc_group (cd_of J i h) ! r"
  shows "g < length J" "h < length (mt_path (J ! g))" "mc_group (cd_of J g h) = mc_group (cd_of J i h)"
    "mc_head (cd_of J g h) = mc_head (cd_of J i h)" "mc_task_in_color (cd_of J g h) = r"
proof -
  have m: "g \<in> set (mc_group (cd_of J i h))" using assms(4,5) by (simp add: task_size_def)
  have e: "frames J ! i ! h = frame (cd_of J i h)" using assms(2,3) by simp
  have "cd_shape (frames J) i h" using assms(1-3) by (simp add: shape_def)
  then have a: "g < length (frames J)" "h < length (frames J ! g)" "mc_group (frames J ! g ! h) = mc_group (cd_of J i h)"
    "mc_head (frames J ! g ! h) = mc_head (cd_of J i h)"
    unfolding cd_shape_def Let_def e frame_simps using m by blast+
  show g: "g < length J" "h < length (mt_path (J ! g))" "mc_group (cd_of J g h) = mc_group (cd_of J i h)"
    "mc_head (cd_of J g h) = mc_head (cd_of J i h)"
    using a by auto
  have "mc_group (cd_of J i h) ! mc_task_in_color (cd_of J g h) = g" "mc_task_in_color (cd_of J g h) < task_size (cd_of J i h)"
    using shape_cd(3,4) [OF assms(1) g(1,2)] g(3) by (simp_all add: task_size_def)
  then show "mc_task_in_color (cd_of J g h) = r"
    using nth_eq_iff_index_eq [OF shape_cd(2) [OF assms(1-3)]] assms(4,5) by (simp add: task_size_def)
qed

lemma current_cd_shape:
  assumes "shape (frames J)" "i < length J"
  shows "current_cd (J ! i) = Inr (Some (cur_handle (J ! i)))"
proof -
  let ?t = "J ! i" let ?n = "length (mt_path ?t)"
  note t = shape_task [OF assms]
  have n: "?n > 1 \<or> mc_exec_mode (last (mt_path ?t)) \<noteq> kSuspension"
    using assms t(1) by (auto simp: shape_def last_map)
  have l: "last [0..<?n] = ?n - 1" "mt_path ?t ! (?n - 1) = last (mt_path ?t)" using t(1) by (simp_all add: last_conv_nth)
  show ?thesis
  proof (cases "mc_exec_mode (last (mt_path ?t)) = kSuspension")
    case True
    then have "0 < ?n - 1" "?n - 1 < length [0..<?n]" using n by auto
    from GetParentCD_level_ok [OF t(4) this] True n l t(1) show ?thesis
      by (simp add: current_cd_def GetCurrentCD_def path_handles_def cur_handle_def numeral_2_eq_2)
  next
    case False
    then show ?thesis using l t(1) by (simp add: current_cd_def GetCurrentCD_def path_handles_def cur_handle_def)
  qed
qed

lemma up_from_shape:
  assumes "shape (frames J)" "i < length J"
  shows "h < length (mt_path (J ! i)) \<Longrightarrow> h < k \<Longrightarrow> up_from k (J ! i) (Some h) = Inr (rev [0..<Suc h])"
proof (induction k arbitrary: h)
  case (Suc k)
  note t = shape_task [OF assms]
  show ?case
  proof (cases h)
    case 0
    then have "mc_level (cd_of J i h) = 0" using shape_cd(1) [OF assms Suc.prems(1)] by simp
    then show ?thesis using 0 by (simp add: GetParentCD_level_def path_handles_def)
  next
    case (Suc h')
    have "GetParentCD_level (uint (mc_level (cd_of J i h))) (path_handles (J ! i)) = Inr (Some h')"
      using GetParentCD_level_ok [OF t(4), of h] Suc Suc.prems by (simp add: path_handles_def)
    then show ?thesis using Suc.IH [of h'] Suc Suc.prems by simp
  qed
qed simp

lemma levels_up_shape:
  "shape (frames J) \<Longrightarrow> i < length J \<Longrightarrow> h < length (mt_path (J ! i)) \<Longrightarrow> levels_up (J ! i) (Some h) = Inr (rev [0..<Suc h])"
  by (simp add: levels_up_def up_from_shape)

lemma coarse_cd_shape:
  assumes "shape (frames J)" "i < length J" "h < length (mt_path (J ! i))"
  shows "\<exists>c \<le> h. coarse_cd (J ! i) h = Inr c \<and> (\<forall>k. c < k \<and> k \<le> h \<longrightarrow> task_size (cd_of J i k) = 1) \<and>
    (task_size (cd_of J i c) \<noteq> 1 \<or> c = 0)"
proof -
  let ?n = "length (mt_path (J ! i))"
  note t = shape_task [OF assms(1,2)]
  let ?f = "find (\<lambda>j. task_size (cd_of J i j) \<noteq> 1) (rev [0..<Suc h])"
  have "coarse_cd (J ! i) h = Inr (case find (\<lambda>j. task_size (cd_of J i ([0..<?n] ! j)) \<noteq> 1) (rev [0..<Suc h]) of
      Some j \<Rightarrow> [0..<?n] ! j | None \<Rightarrow> hd [0..<?n])"
    unfolding coarse_cd_def GetCoarseCD_def path_handles_def
    using GetCoarseCD_n_spec [OF t(4), of h ?n "\<lambda>h. task_size (cd_of J i h)"] assms(3) by (simp add: GetCDPath_def)
  moreover have "find (\<lambda>j. task_size (cd_of J i ([0..<?n] ! j)) \<noteq> 1) (rev [0..<Suc h]) = ?f"
    using assms(3) by (intro find_cong) auto
  ultimately have c: "coarse_cd (J ! i) h = Inr (case ?f of Some j \<Rightarrow> [0..<?n] ! j | None \<Rightarrow> 0)"
    using t(1) by (auto simp: hd_upt split: option.split)
  show ?thesis
  proof (cases ?f)
    case None
    then have "\<forall>k \<le> h. task_size (cd_of J i k) = 1" unfolding find_None_iff by (auto simp: le_less)
    then show ?thesis using c None by (intro exI [of _ 0]) simp
  next
    case (Some j)
    then obtain n where n: "n < Suc h" "j = rev [0..<Suc h] ! n" "task_size (cd_of J i j) \<noteq> 1"
      "\<forall>m<n. task_size (cd_of J i (rev [0..<Suc h] ! m)) = 1"
      unfolding find_Some_iff by auto
    have j: "j = h - n" using n(1,2) by (simp add: rev_nth del: upt_Suc)
    have "task_size (cd_of J i k) = 1" if "j < k" "k \<le> h" for k
      using n(4) [rule_format, of "h - k"] that j n(1) by (simp add: rev_nth del: upt_Suc)
    then show ?thesis using Some c n(3) j assms(3) by (intro exI [of _ j]) simp
  qed
qed

section \<open>The invariant\<close>

text \<open>
  The head of a domain is sent \<open>kErrorOccurred\<close> only, the other tasks \<open>kAllReexecute\<close> only.  The
  counter of pending events covers the flags that are set, the handlers in the queues and the events
  that have been handled but not yet taken off the counter, so that a counter of zero means an empty
  mailbox.  Handlers of errors send events in turn: the counters have room for them (\<open>slack\<close> is used
  while a handler is running).
\<close>

abbreviation err :: uint32 where
  "err \<equiv> CDEventT_val kErrorOccurred"

abbreviation re :: uint32 where
  "re \<equiv> CDEventT_val kAllReexecute"

declare CDEventT_val.simps [simp del]

fun is_error :: "EventHandler \<Rightarrow> bool" where
  "is_error (HandleErrorOccurred _) = True"
| "is_error _ = False"

definition flags_set :: "mail_cd \<Rightarrow> nat" where
  "flags_set c = length (filter (\<lambda>x. x \<noteq> 0) (mc_event_flag c))"

definition events :: "mail_cd \<Rightarrow> nat" where
  "events c = flags_set c + length (mc_cd_event c)"

definition reports :: "mail_cd \<Rightarrow> nat" where
  "reports c = (if mail_IsHead c then flags_set c else 0) + length (filter is_error (mc_cd_event c))"

definition events_of :: "mail_task \<Rightarrow> nat" where
  "events_of t = (\<Sum>c\<leftarrow>mt_path t. events c)"

definition reports_of :: "job \<Rightarrow> nat" where
  "reports_of J = (\<Sum>t\<leftarrow>J. \<Sum>c\<leftarrow>mt_path t. reports c)"

definition cd_ok :: "handle \<Rightarrow> handle \<Rightarrow> mail_cd \<Rightarrow> bool" where
  "cd_ok cur h c \<longleftrightarrow>
     (\<forall>x \<in> set (mc_event_flag c). x = 0 \<or> x = (if mail_IsHead c then err else re)) \<and>
     (\<forall>e \<in> set (mc_cd_event c). e = HandleAllReexecute \<or> mail_IsHead c \<and> is_error e) \<and>
     (mc_cd_event c \<noteq> [] \<longrightarrow> task_size c > 1 \<and> h \<le> cur) \<and>
     (mc_error_occurred c \<longrightarrow> (\<exists>e \<in> set (mc_cd_event c). is_error e))"

definition mail_inv :: "(nat \<Rightarrow> nat) \<Rightarrow> job \<Rightarrow> bool" where
  "mail_inv slack J \<longleftrightarrow>
     shape (frames J) \<and>
     (\<forall>i < length J.
        (\<forall>h < length (mt_path (J ! i)). cd_ok (cur_handle (J ! i)) h (cd_of J i h)) \<and>
        events_of (J ! i) + mt_handled_event_count (J ! i) \<le> unat (mt_pendingFlag (J ! i)) \<and>
        unat (mt_pendingFlag (J ! i)) + reports_of J < 2 ^ 32 + slack i)"

definition mail_ok :: "job \<Rightarrow> bool" where
  "mail_ok J \<longleftrightarrow> mail_inv (\<lambda>_. 0) J \<and> (\<forall>i < length J. mt_handled_event_count (J ! i) = 0)"

text \<open>
  What one call keeps: the shape; rollback points only go up the path; an event at a level is
  pursued until the rollback point of the task has reached that level; and a task with no error
  reported to it sends nothing.
\<close>

definition pursued :: "mail_task \<Rightarrow> handle \<Rightarrow> bool" where
  "pursued t h \<longleftrightarrow> events (mt_path t ! h) > 0 \<or> mt_rollback_point t \<le> mc_level (mt_path t ! h)"

definition evolves :: "nat \<Rightarrow> job \<Rightarrow> job \<Rightarrow> bool" where
  "evolves i J J' \<longleftrightarrow>
     frames J' = frames J \<and>
     (\<forall>j < length J.
        mt_rollback_point (J' ! j) \<le> mt_rollback_point (J ! j) \<and>
        (j \<noteq> i \<longrightarrow> mt_rollback_point (J' ! j) = mt_rollback_point (J ! j) \<and>
                  mt_handled_event_count (J' ! j) = mt_handled_event_count (J ! j)) \<and>
        (\<forall>h < length (mt_path (J ! j)).
           (pursued (J ! j) h \<longrightarrow> pursued (J' ! j) h) \<and> reports (cd_of J' j h) \<le> reports (cd_of J j h))) \<and>
     ((\<forall>h < length (mt_path (J ! i)). reports (cd_of J i h) = 0) \<longrightarrow> (\<forall>j. j \<noteq> i \<longrightarrow> J' ! j = J ! j))"

lemma frames_length: "frames J' = frames J \<Longrightarrow> length J' = length J"
  by (metis length_frames)

lemma frames_path: "frames J' = frames J \<Longrightarrow> i < length J \<Longrightarrow> map frame (mt_path (J' ! i)) = map frame (mt_path (J ! i))"
  using frames_length [of J' J] by (metis frames_nth)

lemma frames_cd:
  assumes "frames J' = frames J" "i < length J"
  shows "length (mt_path (J' ! i)) = length (mt_path (J ! i))"
    "h < length (mt_path (J ! i)) \<Longrightarrow> frame (cd_of J' i h) = frame (cd_of J i h)"
proof -
  note p = frames_path [OF assms]
  then show l: "length (mt_path (J' ! i)) = length (mt_path (J ! i))" by (rule map_eq_imp_length_eq)
  show "frame (cd_of J' i h) = frame (cd_of J i h)" if "h < length (mt_path (J ! i))"
    using arg_cong [OF p, of "\<lambda>xs. xs ! h"] that l by simp
qed

lemma frame_eqD:
  assumes "frame c' = frame c"
  shows "mc_level c' = mc_level c" "mc_exec_mode c' = mc_exec_mode c" "mc_task_in_color c' = mc_task_in_color c"
    "mc_head c' = mc_head c" "mc_group c' = mc_group c" "length (mc_event_flag c') = length (mc_event_flag c)"
    "mc_window_reused c' = mc_window_reused c" "task_size c' = task_size c" "mail_IsHead c' = mail_IsHead c"
  using arg_cong [OF assms, of mc_level] arg_cong [OF assms, of mc_exec_mode] arg_cong [OF assms, of mc_task_in_color]
    arg_cong [OF assms, of mc_head] arg_cong [OF assms, of mc_group] arg_cong [OF assms, of "\<lambda>c. length (mc_event_flag c)"]
    arg_cong [OF assms, of mc_window_reused] arg_cong [OF assms, of task_size] arg_cong [OF assms, of mail_IsHead]
  by simp_all

lemma frames_cur: "frames J' = frames J \<Longrightarrow> i < length J \<Longrightarrow> cur_handle (J' ! i) = cur_handle (J ! i)"
proof -
  assume a: "frames J' = frames J" "i < length J"
  note p = frames_path [OF a] and l = frames_cd(1) [OF a]
  have "mc_exec_mode (last (mt_path (J' ! i))) = mc_exec_mode (last (mt_path (J ! i)))"
  proof (cases "mt_path (J ! i) = []")
    case False
    then have "mt_path (J' ! i) \<noteq> []" using l by auto
    then have "frame (last (mt_path (J' ! i))) = frame (last (mt_path (J ! i)))"
      using False arg_cong [OF p, of last] by (simp add: last_map)
    then show ?thesis by (rule frame_eqD(2))
  qed (use l in simp)
  then show ?thesis using l by (simp add: cur_handle_def)
qed

lemma evolves_refl [simp]: "evolves i J J"
  by (simp add: evolves_def)

lemma evolvesD:
  assumes "evolves i J J'"
  shows "frames J' = frames J" "length J' = length J"
    "j < length J \<Longrightarrow> mt_rollback_point (J' ! j) \<le> mt_rollback_point (J ! j)"
    "j < length J \<Longrightarrow> j \<noteq> i \<Longrightarrow> mt_rollback_point (J' ! j) = mt_rollback_point (J ! j)"
    "j < length J \<Longrightarrow> j \<noteq> i \<Longrightarrow> mt_handled_event_count (J' ! j) = mt_handled_event_count (J ! j)"
    "j < length J \<Longrightarrow> length (mt_path (J' ! j)) = length (mt_path (J ! j))"
    "j < length J \<Longrightarrow> h < length (mt_path (J ! j)) \<Longrightarrow> pursued (J ! j) h \<Longrightarrow> pursued (J' ! j) h"
    "j < length J \<Longrightarrow> h < length (mt_path (J ! j)) \<Longrightarrow> reports (cd_of J' j h) \<le> reports (cd_of J j h)"
    "(\<forall>h < length (mt_path (J ! i)). reports (cd_of J i h) = 0) \<Longrightarrow> j \<noteq> i \<Longrightarrow> J' ! j = J ! j"
proof -
  show f: "frames J' = frames J" using assms unfolding evolves_def by blast
  show "length J' = length J" by (rule frames_length [OF f])
  show "j < length J \<Longrightarrow> length (mt_path (J' ! j)) = length (mt_path (J ! j))" by (rule frames_cd(1) [OF f])
qed (use assms in \<open>unfold evolves_def, blast+\<close>)

lemma evolvesI:
  assumes "frames J' = frames J"
    "\<And>j. j < length J \<Longrightarrow> mt_rollback_point (J' ! j) \<le> mt_rollback_point (J ! j)"
    "\<And>j. j < length J \<Longrightarrow> j \<noteq> i \<Longrightarrow> mt_rollback_point (J' ! j) = mt_rollback_point (J ! j)"
    "\<And>j. j < length J \<Longrightarrow> j \<noteq> i \<Longrightarrow> mt_handled_event_count (J' ! j) = mt_handled_event_count (J ! j)"
    "\<And>j h. j < length J \<Longrightarrow> h < length (mt_path (J ! j)) \<Longrightarrow> pursued (J ! j) h \<Longrightarrow> pursued (J' ! j) h"
    "\<And>j h. j < length J \<Longrightarrow> h < length (mt_path (J ! j)) \<Longrightarrow> reports (cd_of J' j h) \<le> reports (cd_of J j h)"
    "\<And>j. \<forall>h < length (mt_path (J ! i)). reports (cd_of J i h) = 0 \<Longrightarrow> j \<noteq> i \<Longrightarrow> J' ! j = J ! j"
  shows "evolves i J J'"
  unfolding evolves_def using assms by blast

lemma evolves_trans:
  assumes a: "evolves i J J'" and b: "evolves i J' J''" and i: "i < length J"
  shows "evolves i J J''"
proof (rule evolvesI)
  note n = evolvesD(2) [OF a] and l = evolvesD(6) [OF a]
  show "frames J'' = frames J" using evolvesD(1) [OF a] evolvesD(1) [OF b] by simp
  fix j assume j: "j < length J"
  then have j': "j < length J'" by (simp add: n)
  show "mt_rollback_point (J'' ! j) \<le> mt_rollback_point (J ! j)"
    using evolvesD(3) [OF b j'] evolvesD(3) [OF a j] by (rule order_trans)
  show "mt_rollback_point (J'' ! j) = mt_rollback_point (J ! j)" if "j \<noteq> i"
    using evolvesD(4) [OF b j' that] evolvesD(4) [OF a j that] by simp
  show "mt_handled_event_count (J'' ! j) = mt_handled_event_count (J ! j)" if "j \<noteq> i"
    using evolvesD(5) [OF b j' that] evolvesD(5) [OF a j that] by simp
  fix h assume h: "h < length (mt_path (J ! j))"
  then have h': "h < length (mt_path (J' ! j))" by (simp add: l [OF j])
  show "pursued (J'' ! j) h" if "pursued (J ! j) h"
    by (rule evolvesD(7) [OF b j' h' evolvesD(7) [OF a j h that]])
  show "reports (cd_of J'' j h) \<le> reports (cd_of J j h)"
    using evolvesD(8) [OF b j' h'] evolvesD(8) [OF a j h] by (rule order_trans)
next
  fix j assume z: "\<forall>h < length (mt_path (J ! i)). reports (cd_of J i h) = 0" and j: "j \<noteq> i"
  then have "\<forall>h < length (mt_path (J' ! i)). reports (cd_of J' i h) = 0"
    using evolvesD(6,8) [OF a i] by (metis le_zero_eq)
  then show "J'' ! j = J ! j" using evolvesD(9) [OF b _ j] evolvesD(9) [OF a z j] by simp
qed

lemma sum_list_update_nat:
  fixes f :: "'a \<Rightarrow> nat"
  assumes "k < length xs"
  shows "(\<Sum>x\<leftarrow>xs[k := y]. f x) + f (xs ! k) = (\<Sum>x\<leftarrow>xs. f x) + f y"
  using assms by (induction xs arbitrary: k) (auto split: nat.splits)

lemma member_le_sum_list_nat: "k < length xs \<Longrightarrow> f (xs ! k) \<le> (\<Sum>x\<leftarrow>xs. f x)" for f :: "'a \<Rightarrow> nat"
  by (induction xs arbitrary: k) (auto simp: nth_Cons trans_le_add2 split: nat.split)

lemma member_ne: "x \<in> set xs \<Longrightarrow> xs \<noteq> []"
  by auto

text \<open>The invariant after an update of one domain of one task.\<close>

lemma frames_update:
  assumes "i < length J" "h < length (mt_path (J ! i))" "mt_path t' = (mt_path (J ! i))[h := c']" "frame c' = frame (cd_of J i h)"
  shows "frames (J[i := t']) = frames J"
proof (rule nth_equalityI)
  fix j assume "j < length (frames (J[i := t']))"
  then show "frames (J[i := t']) ! j = frames J ! j"
    using assms by (cases "j = i") (simp_all add: map_update list_update_same_conv)
qed simp

lemma events_of_update:
  "h < length (mt_path t) \<Longrightarrow> mt_path t' = (mt_path t)[h := c'] \<Longrightarrow> events_of t' + events (mt_path t ! h) = events_of t + events c'"
  using sum_list_update_nat [of h "mt_path t" events c'] by (simp add: events_of_def)

lemma reports_of_update:
  assumes "i < length J" "h < length (mt_path (J ! i))" "mt_path t' = (mt_path (J ! i))[h := c']"
  shows "reports_of (J[i := t']) + reports (cd_of J i h) = reports_of J + reports c'"
  using sum_list_update_nat [OF assms(1), of "\<lambda>t. \<Sum>c\<leftarrow>mt_path t. reports c" t']
    sum_list_update_nat [OF assms(2), of reports c'] assms(3)
  by (simp add: reports_of_def)

lemma mail_invD:
  assumes "mail_inv s J"
  shows "shape (frames J)"
    "i < length J \<Longrightarrow> h < length (mt_path (J ! i)) \<Longrightarrow> cd_ok (cur_handle (J ! i)) h (cd_of J i h)"
    "i < length J \<Longrightarrow> events_of (J ! i) + mt_handled_event_count (J ! i) \<le> unat (mt_pendingFlag (J ! i))"
    "i < length J \<Longrightarrow> unat (mt_pendingFlag (J ! i)) + reports_of J < 2 ^ 32 + s i"
  using assms unfolding mail_inv_def by blast+

lemma mail_inv_update:
  assumes I: "mail_inv s J" and i: "i < length J" and h: "h < length (mt_path (J ! i))"
    and p: "mt_path t' = (mt_path (J ! i))[h := c']" and f: "frame c' = frame (cd_of J i h)"
    and ok: "cd_ok (cur_handle (J ! i)) h c'"
    and ev: "events c' + mt_handled_event_count t' + unat (mt_pendingFlag (J ! i)) \<le>
      events (cd_of J i h) + mt_handled_event_count (J ! i) + unat (mt_pendingFlag t')"
    and room: "unat (mt_pendingFlag t') + reports c' + s i \<le> unat (mt_pendingFlag (J ! i)) + reports (cd_of J i h) + s' i"
    and others: "\<And>j. j \<noteq> i \<Longrightarrow> reports c' + s j \<le> reports (cd_of J i h) + s' j"
  shows "mail_inv s' (J[i := t'])"
proof -
  note fr = frames_update [OF i h p f]
  note D = mail_invD [OF I]
  have cur: "cur_handle t' = cur_handle (J ! i)"
    using frames_cur [OF fr i] i by simp
  note R = reports_of_update [OF i h p] and E = events_of_update [OF h p]
  have "cd_ok (cur_handle (J[i := t'] ! j)) k (cd_of (J[i := t']) j k)" if "j < length J" "k < length (mt_path (J[i := t'] ! j))" for j k
    using that cur D(2) [of j k] ok p by (cases "j = i"; cases "k = h") simp_all
  moreover have "events_of (J[i := t'] ! j) + mt_handled_event_count (J[i := t'] ! j) \<le> unat (mt_pendingFlag (J[i := t'] ! j))"
    if "j < length J" for j
    using that D(3) [OF that] E ev by (cases "j = i") simp_all
  moreover have "unat (mt_pendingFlag (J[i := t'] ! j)) + reports_of (J[i := t']) < 2 ^ 32 + s' j" if "j < length J" for j
  proof (cases "j = i")
    case True
    then show ?thesis using D(4) [OF i] R room i by simp
  next
    case False
    then show ?thesis using D(4) [OF that] R others [OF False] by simp
  qed
  ultimately show ?thesis using fr D(1) by (simp add: mail_inv_def)
qed

lemma evolves_update:
  assumes i: "i < length J" and h: "h < length (mt_path (J ! i))"
    and p: "mt_path t' = (mt_path (J ! i))[h := c']" and f: "frame c' = frame (cd_of J i h)"
    and r: "mt_rollback_point t' \<le> mt_rollback_point (J ! i)"
    and a: "i \<noteq> actor \<Longrightarrow> mt_rollback_point t' = mt_rollback_point (J ! i) \<and> mt_handled_event_count t' = mt_handled_event_count (J ! i)"
    and pu: "events c' > 0 \<or> events (cd_of J i h) = 0 \<or> mt_rollback_point t' \<le> mc_level c'"
    and re: "reports c' \<le> reports (cd_of J i h)"
    and si: "i \<noteq> actor \<Longrightarrow> \<exists>h < length (mt_path (J ! actor)). reports (cd_of J actor h) \<noteq> 0"
  shows "evolves actor J (J[i := t'])"
proof (rule evolvesI)
  show "frames (J[i := t']) = frames J" by (rule frames_update [OF i h p f])
  fix j assume j: "j < length J"
  show "mt_rollback_point (J[i := t'] ! j) \<le> mt_rollback_point (J ! j)"
    using r j by (cases "j = i") simp_all
  show "mt_rollback_point (J[i := t'] ! j) = mt_rollback_point (J ! j)" if "j \<noteq> actor"
    using a j that by (cases "j = i") simp_all
  show "mt_handled_event_count (J[i := t'] ! j) = mt_handled_event_count (J ! j)" if "j \<noteq> actor"
    using a j that by (cases "j = i") simp_all
  fix k assume k: "k < length (mt_path (J ! j))"
  have l: "mc_level c' = mc_level (cd_of J i h)" using frame_eqD(1) [OF f] .
  show "pursued (J[i := t'] ! j) k" if "pursued (J ! j) k"
    using that pu r p i h k l by (cases "j = i"; cases "k = h") (auto simp: pursued_def)
  show "reports (cd_of (J[i := t']) j k) \<le> reports (cd_of J j k)"
    using re p i h k by (cases "j = i"; cases "k = h") simp_all
next
  fix j assume "\<forall>h < length (mt_path (J ! actor)). reports (cd_of J actor h) = 0" "j \<noteq> actor"
  then show "J[i := t'] ! j = J ! j" using si by (cases "i = actor") auto
qed

section \<open>Reading a mailbox\<close>

lemma event_words [simp]:
  "err \<noteq> 0" "re \<noteq> 0" "err \<noteq> re" "err AND NOT err = 0" "re AND NOT re = 0" "err AND NOT re = err" "re OR re = re"
  by (simp_all add: CDEventT_val.simps CD_BIT_def)

lemma event_checks [simp]:
  "CHECK_EVENT err (CDEventT_val kErrorOccurred)" "\<not> CHECK_EVENT err (CDEventT_val kEntrySearch)"
  "\<not> CHECK_EVENT err (CDEventT_val kAllResume)" "\<not> CHECK_EVENT err (CDEventT_val kAllReexecute)"
  "\<not> CHECK_EVENT err (CDEventT_val kEntrySend)" "\<not> CHECK_EVENT err (CDEventT_val kAllPause)"
  "CHECK_EVENT re (CDEventT_val kAllReexecute)" "\<not> CHECK_EVENT re (CDEventT_val kEntrySearch)"
  "\<not> CHECK_EVENT re (CDEventT_val kErrorOccurred)" "\<not> CHECK_EVENT re (CDEventT_val kEntrySend)"
  "\<not> CHECK_EVENT re (CDEventT_val kAllPause)"
  by (simp_all add: CHECK_EVENT_def CDEventT_val.simps CD_BIT_def)

lemma length_filter_sum: "length (filter P xs) = (\<Sum>x\<leftarrow>xs. of_bool (P x))"
  by (induction xs) simp_all

lemma flags_update:
  "k < length xs \<Longrightarrow> length (filter (\<lambda>x. x \<noteq> 0) (xs[k := y])) + of_bool (xs ! k \<noteq> 0) =
     length (filter (\<lambda>x. x \<noteq> 0) xs) + of_bool (y \<noteq> 0)" for xs :: "uint32 list"
  using sum_list_update_nat [of k xs "\<lambda>x. of_bool (x \<noteq> 0)" y] by (simp add: length_filter_sum)

text \<open>
  What reading the mailbox of one domain does to the state of the task: only that domain is touched, a
  queue is not emptied, and an event is counted as handled only when a handler is waiting.
\<close>

definition reads :: "nat \<Rightarrow> handle \<Rightarrow> job \<Rightarrow> job \<Rightarrow> bool" where
  "reads i h J J' \<longleftrightarrow>
     evolves i J J' \<and> (\<forall>k. k \<noteq> h \<longrightarrow> cd_of J' i k = cd_of J i k) \<and>
     (mc_cd_event (cd_of J i h) \<noteq> [] \<longrightarrow> mc_cd_event (cd_of J' i h) \<noteq> []) \<and>
     (mt_handled_event_count (J' ! i) > 0 \<longrightarrow> mt_handled_event_count (J ! i) > 0 \<or> mc_cd_event (cd_of J' i h) \<noteq> []) \<and>
     mt_pendingFlag (J' ! i) = mt_pendingFlag (J ! i)"

lemma reads_refl [simp]: "reads i h J J"
  by (simp add: reads_def)

lemma reads_trans: "i < length J \<Longrightarrow> reads i h J J' \<Longrightarrow> reads i h J' J'' \<Longrightarrow> reads i h J J''"
  unfolding reads_def using evolves_trans [of i J J' J''] by (intro conjI) (simp_all, fastforce?)

lemma cd_okD:
  assumes "cd_ok cur h c"
  shows "x \<in> set (mc_event_flag c) \<Longrightarrow> x = 0 \<or> x = (if mail_IsHead c then err else re)"
    "e \<in> set (mc_cd_event c) \<Longrightarrow> e = HandleAllReexecute \<or> mail_IsHead c \<and> is_error e"
    "mc_cd_event c \<noteq> [] \<Longrightarrow> task_size c > 1 \<and> h \<le> cur"
    "mc_error_occurred c \<Longrightarrow> \<exists>e \<in> set (mc_cd_event c). is_error e"
  using assms unfolding cd_ok_def by blast+

lemma reads_update:
  assumes "evolves i J (J[i := t'])" "i < length J" "h < length (mt_path (J ! i))" "mt_path t' = (mt_path (J ! i))[h := c']"
    "mc_cd_event (cd_of J i h) \<noteq> [] \<Longrightarrow> mc_cd_event c' \<noteq> []"
    "mt_handled_event_count t' > 0 \<Longrightarrow> mt_handled_event_count (J ! i) > 0 \<or> mc_cd_event c' \<noteq> []"
    "mt_pendingFlag t' = mt_pendingFlag (J ! i)"
  shows "reads i h J (J[i := t'])"
  using assms by (simp add: reads_def)

lemma head_read:
  assumes I: "mail_inv s J" and i: "i < length J" and h: "h < length (mt_path (J ! i))"
    and c: "task_size (cd_of J i h) > 1" "mail_IsHead (cd_of J i h)" "h \<le> cur_handle (J ! i)"
    and k: "k < task_size (cd_of J i h)"
  shows "\<exists>J'. HeadCD_ReadMailBox i h (mc_event_flag (cd_of J i h) ! k) k J = Inr J' \<and> mail_inv s J' \<and> reads i h J J' \<and>
    mc_event_flag (cd_of J' i h) = (mc_event_flag (cd_of J i h))[k := 0]"
proof -
  let ?c = "cd_of J i h" let ?t = "J ! i" let ?xs = "mc_event_flag ?c"
  note sh = shape_cd [OF mail_invD(1) [OF I] i h] and ok = mail_invD(2) [OF I i h]
  have len: "length ?xs = task_size ?c" using sh(7) c by simp
  have x: "?xs ! k = 0 \<or> ?xs ! k = err" using cd_okD(1) [OF ok, of "?xs ! k"] k len c(2) by simp
  show ?thesis
  proof (cases "?xs ! k = 0")
    case True
    then have "?xs[k := 0] = ?xs" by (metis list_update_id)
    then show ?thesis using True I c by (simp add: HeadCD_ReadMailBox_def)
  next
    case False
    then have x: "?xs ! k = err" using x by simp
    let ?xs' = "?xs[k := 0]"
    note fl = flags_update [of k ?xs 0, unfolded x]
    show ?thesis
    proof (cases "mc_error_occurred ?c")
      case True
      let ?c' = "?c\<lparr>mc_event_flag := ?xs'\<rparr>"
      let ?t' = "?t\<lparr>mt_handled_event_count := Suc (mt_handled_event_count ?t), mt_path := (mt_path ?t)[h := ?c']\<rparr>"
      have r: "HeadCD_ReadMailBox i h (?xs ! k) k J = Inr (J[i := ?t'])"
        using True x c k len i h sh(6)
        by (simp add: HeadCD_ReadMailBox_def head_take_error_def head_take_def UnsetEventFlag_def clear_flag_def on_flag_def
            IncHandledEventCounter_def on_cd_def on_task_def)
      have p: "mt_path ?t' = (mt_path ?t)[h := ?c']" and f: "frame ?c' = frame ?c" by (simp_all add: frame_def)
      have q: "mc_cd_event ?c \<noteq> []" using cd_okD(4) [OF ok True] by auto
      have e: "events ?c' + 1 = events ?c" "reports ?c' + 1 = reports ?c" "cd_ok (cur_handle ?t) h ?c'"
        using fl k len c(2) ok by (simp_all add: events_def reports_def flags_set_def mail_IsHead_def cd_ok_def task_size_def)
          (auto dest: set_update_subset_insert [THEN subsetD])
      have "mail_inv s (J[i := ?t'])"
        by (rule mail_inv_update [OF I i h p f e(3)]) (use e in simp_all)
      moreover have "evolves i J (J[i := ?t'])"
        by (rule evolves_update [OF i h p f]) (use e q in \<open>simp_all add: events_def\<close>)
      then have "reads i h J (J[i := ?t'])" by (rule reads_update [OF _ i h p]) (use q in simp_all)
      ultimately show ?thesis using r i h by simp
    next
      case False
      let ?c' = "?c\<lparr>mc_cd_event := mc_cd_event ?c @ [HandleErrorOccurred k], mc_error_occurred := True, mc_event_flag := ?xs'\<rparr>"
      let ?t' = "?t\<lparr>mt_path := (mt_path ?t)[h := ?c']\<rparr>"
      have r: "HeadCD_ReadMailBox i h (?xs ! k) k J = Inr (J[i := ?t'])"
        using False x c k len i h sh(6)
        by (simp add: HeadCD_ReadMailBox_def head_take_error_def head_take_def UnsetEventFlag_def clear_flag_def on_flag_def
            push_event_def on_cd_def on_task_def)
      have p: "mt_path ?t' = (mt_path ?t)[h := ?c']" and f: "frame ?c' = frame ?c" by (simp_all add: frame_def)
      have e: "events ?c' = events ?c" "reports ?c' = reports ?c" "cd_ok (cur_handle ?t) h ?c'"
        using fl k len c ok by (simp_all add: events_def reports_def flags_set_def mail_IsHead_def cd_ok_def task_size_def)
          (auto dest: set_update_subset_insert [THEN subsetD])
      have "mail_inv s (J[i := ?t'])"
        by (rule mail_inv_update [OF I i h p f e(3)]) (use e in simp_all)
      moreover have "evolves i J (J[i := ?t'])"
        by (rule evolves_update [OF i h p f]) (use e in \<open>simp_all add: events_def\<close>)
      then have "reads i h J (J[i := ?t'])" by (rule reads_update [OF _ i h p]) simp_all
      ultimately show ?thesis using r i h by simp
    qed
  qed
qed

lemma reads_keeps:
  assumes "reads i h J J'" "i < length J" "h < length (mt_path (J ! i))"
  shows "i < length J'" "h < length (mt_path (J' ! i))" "cur_handle (J' ! i) = cur_handle (J ! i)"
    "task_size (cd_of J' i h) = task_size (cd_of J i h)" "mail_IsHead (cd_of J' i h) = mail_IsHead (cd_of J i h)"
    "length (mc_event_flag (cd_of J' i h)) = length (mc_event_flag (cd_of J i h))"
proof -
  have e: "frames J' = frames J" using assms(1) evolvesD(1) unfolding reads_def by blast
  show "i < length J'" using frames_length [OF e] assms(2) by simp
  show "h < length (mt_path (J' ! i))" using frames_cd(1) [OF e assms(2)] assms(3) by simp
  show "cur_handle (J' ! i) = cur_handle (J ! i)" by (rule frames_cur [OF e assms(2)])
  note f = frame_eqD [OF frames_cd(2) [OF e assms(2,3)]]
  show "task_size (cd_of J' i h) = task_size (cd_of J i h)" "mail_IsHead (cd_of J' i h) = mail_IsHead (cd_of J i h)"
    "length (mc_event_flag (cd_of J' i h)) = length (mc_event_flag (cd_of J i h))"
    using f by simp_all
qed

lemma head_read_all:
  assumes "mail_inv s J" "i < length J" "h < length (mt_path (J ! i))"
    "task_size (cd_of J i h) > 1" "mail_IsHead (cd_of J i h)" "h \<le> cur_handle (J ! i)"
    "n \<le> task_size (cd_of J i h)"
    "\<forall>k \<in> {n..<task_size (cd_of J i h)}. mc_event_flag (cd_of J i h) ! k = ev ! k"
    "\<forall>k < n. mc_event_flag (cd_of J i h) ! k = 0"
  shows "\<exists>J'. fold_out (\<lambda>k. HeadCD_ReadMailBox i h (ev ! k) k) [n..<task_size (cd_of J i h)] J = Inr J' \<and>
    mail_inv s J' \<and> reads i h J J' \<and> (\<forall>k < task_size (cd_of J i h). mc_event_flag (cd_of J' i h) ! k = 0)"
  using assms
proof (induction "task_size (cd_of J i h) - n" arbitrary: n J)
  case 0
  then show ?case by simp
next
  case (Suc m)
  let ?n = "task_size (cd_of J i h)"
  have n: "n < ?n" using Suc.hyps(2) by simp
  obtain J1 where J1: "HeadCD_ReadMailBox i h (ev ! n) n J = Inr J1" "mail_inv s J1" "reads i h J J1"
    "mc_event_flag (cd_of J1 i h) = (mc_event_flag (cd_of J i h))[n := 0]"
    using head_read [OF Suc.prems(1-6) n] Suc.prems(8) n by auto
  note k = reads_keeps [OF J1(3) Suc.prems(2,3)]
  have len: "length (mc_event_flag (cd_of J i h)) = ?n"
    using shape_cd(7) [OF mail_invD(1) [OF Suc.prems(1)] Suc.prems(2,3,4)] Suc.prems(5) by simp
  have m: "m = task_size (cd_of J1 i h) - Suc n" using Suc.hyps(2) k(4) by simp
  have "\<forall>k \<in> {Suc n..<task_size (cd_of J1 i h)}. mc_event_flag (cd_of J1 i h) ! k = ev ! k"
    "\<forall>k < Suc n. mc_event_flag (cd_of J1 i h) ! k = 0"
    using Suc.prems(8,9) J1(4) len n k(4) by (auto simp: nth_list_update less_Suc_eq)
  from Suc.hyps(1) [OF m J1(2) k(1,2) _ _ _ _ this] obtain J2 where
    J2: "fold_out (\<lambda>k. HeadCD_ReadMailBox i h (ev ! k) k) [Suc n..<?n] J1 = Inr J2" "mail_inv s J2" "reads i h J1 J2"
    "\<forall>k < ?n. mc_event_flag (cd_of J2 i h) ! k = 0"
    using Suc.prems(4-6) n k(3-5) by auto
  then show ?case using J1 reads_trans [OF Suc.prems(2) J1(3) J2(3)] n by (simp add: upt_conv_Cons)
qed

lemma other_read:
  assumes I: "mail_inv s J" and i: "i < length J" and h: "h < length (mt_path (J ! i))"
    and c: "task_size (cd_of J i h) > 1" "\<not> mail_IsHead (cd_of J i h)" "h \<le> cur_handle (J ! i)"
    and x: "mc_event_flag (cd_of J i h) = [x]"
  shows "\<exists>J'. ReadMailBox i h x J = Inr J' \<and> mail_inv s J' \<and> reads i h J J' \<and> mc_event_flag (cd_of J' i h) = [0]"
proof -
  let ?c = "cd_of J i h" let ?t = "J ! i"
  note sh = shape_cd [OF mail_invD(1) [OF I] i h] and ok = mail_invD(2) [OF I i h]
  have "x = 0 \<or> x = re" using cd_okD(1) [OF ok, of x] c(2) x by simp
  then consider "x = 0" | "x = re" by blast
  then show ?thesis
  proof cases
    case 1
    then show ?thesis using I x by (simp add: ReadMailBox_def)
  next
    case 2
    let ?c' = "?c\<lparr>mc_cd_event := mc_cd_event ?c @ [HandleAllReexecute], mc_event_flag := [0]\<rparr>"
    let ?t' = "?t\<lparr>mt_path := (mt_path ?t)[h := ?c']\<rparr>"
    have r: "ReadMailBox i h x J = Inr (J[i := ?t'])"
      using 2 x c i h sh(6)
      by (simp add: ReadMailBox_def take_event_def UnsetEventFlag_def clear_flag_def on_flag_def push_event_def on_cd_def on_task_def)
    have p: "mt_path ?t' = (mt_path ?t)[h := ?c']" and f: "frame ?c' = frame ?c" using x by (simp_all add: frame_def)
    have e: "events ?c' = events ?c" "reports ?c' = reports ?c" "cd_ok (cur_handle ?t) h ?c'"
      using 2 x c ok by (simp_all add: events_def reports_def flags_set_def mail_IsHead_def cd_ok_def task_size_def)
    have "mail_inv s (J[i := ?t'])"
      by (rule mail_inv_update [OF I i h p f e(3)]) (use e in simp_all)
    moreover have "evolves i J (J[i := ?t'])"
      by (rule evolves_update [OF i h p f]) (use e in \<open>simp_all add: events_def\<close>)
    then have "reads i h J (J[i := ?t'])" by (rule reads_update [OF _ i h p]) simp_all
    ultimately show ?thesis using r i h by simp
  qed
qed

lemma InternalCheckMailBox_reads:
  assumes I: "mail_inv s J" and i: "i < length J" and h: "h < length (mt_path (J ! i))"
    and c: "task_size (cd_of J i h) > 1" "h \<le> cur_handle (J ! i)"
  shows "\<exists>J'. InternalCheckMailBox i h J = Inr J' \<and> mail_inv s J' \<and> reads i h J J' \<and> flags_set (cd_of J' i h) = 0"
proof (cases "mail_IsHead (cd_of J i h)")
  case True
  let ?n = "task_size (cd_of J i h)" let ?ev = "take ?n (mc_event_flag (cd_of J i h))"
  note sh = shape_cd [OF mail_invD(1) [OF I] i h]
  have len: "length (mc_event_flag (cd_of J i h)) = ?n" using sh(7) c(1) True by simp
  obtain J' where J': "fold_out (\<lambda>k. HeadCD_ReadMailBox i h (?ev ! k) k) [0..<?n] J = Inr J'" "mail_inv s J'" "reads i h J J'"
    "\<forall>k < ?n. mc_event_flag (cd_of J' i h) ! k = 0"
    using head_read_all [OF I i h c(1) True c(2), of 0 ?ev] by auto
  have "flags_set (cd_of J' i h) = 0"
    using J'(4) reads_keeps(6) [OF J'(3) i h] len by (auto simp: flags_set_def filter_empty_conv in_set_conv_nth)
  then show ?thesis using J' True sh(6) c(1) len by (simp add: InternalCheckMailBox_def HeadCD_GetEventFlag_def Let_def)
next
  case False
  note sh = shape_cd [OF mail_invD(1) [OF I] i h]
  obtain x where x: "mc_event_flag (cd_of J i h) = [x]" using sh(7) c(1) False by (auto simp: length_Suc_conv)
  from other_read [OF I i h c(1) False c(2) x] show ?thesis
    using False x sh(6) c(1) by (auto simp: InternalCheckMailBox_def GetEventFlag_def flags_set_def)
qed

lemma all_less_Suc_iff: "(\<forall>k < Suc m. P k) \<longleftrightarrow> P m \<and> (\<forall>k < m. P k)"
  by (auto simp: less_Suc_eq)

lemma scan_levels:
  assumes "mail_inv s J" "i < length J" "m \<le> Suc (cur_handle (J ! i))"
  shows "\<exists>J' n'. fold_out (check_level i) (rev [0..<m]) (J, n) = Inr (J', n') \<and> mail_inv s J' \<and> evolves i J J' \<and>
    mt_pendingFlag (J' ! i) = mt_pendingFlag (J ! i) \<and>
    (\<forall>k < m. flags_set (cd_of J' i k) = 0) \<and> (\<forall>k \<ge> m. cd_of J' i k = cd_of J i k) \<and> n \<le> n' \<and>
    (\<forall>k < m. mc_cd_event (cd_of J' i k) \<noteq> [] \<longrightarrow> n' > 0) \<and>
    (mt_handled_event_count (J' ! i) > 0 \<longrightarrow> mt_handled_event_count (J ! i) > 0 \<or> n' > 0)"
  using assms
proof (induction m arbitrary: J n)
  case (Suc m)
  note sh = shape_task [OF mail_invD(1) [OF Suc.prems(1)] Suc.prems(2)]
  have m: "m < length (mt_path (J ! i))" "m \<le> cur_handle (J ! i)" using Suc.prems(3) sh(3) by simp_all
  have "\<exists>J1 n1. check_level i m (J, n) = Inr (J1, n1) \<and> mail_inv s J1 \<and> reads i m J J1 \<and> flags_set (cd_of J1 i m) = 0 \<and>
      n \<le> n1 \<and> (mc_cd_event (cd_of J1 i m) \<noteq> [] \<longrightarrow> n1 > 0)"
  proof (cases "task_size (cd_of J i m) > 1")
    case True
    from InternalCheckMailBox_reads [OF Suc.prems(1,2) m(1) True m(2)] obtain J1 where
      "InternalCheckMailBox i m J = Inr J1" "mail_inv s J1" "reads i m J J1" "flags_set (cd_of J1 i m) = 0" by blast
    then show ?thesis using True by (simp add: check_level_def)
  next
    case False
    have "mc_event_flag (cd_of J i m) = []" using shape_cd(8) [OF mail_invD(1) [OF Suc.prems(1)] Suc.prems(2) m(1) False] .
    moreover have "mc_cd_event (cd_of J i m) = []"
      using cd_okD(3) [OF mail_invD(2) [OF Suc.prems(1,2) m(1)]] False by blast
    ultimately show ?thesis using False Suc.prems(1) by (simp add: check_level_def flags_set_def)
  qed
  then obtain J1 n1 where J1: "check_level i m (J, n) = Inr (J1, n1)" "mail_inv s J1" "reads i m J J1" "flags_set (cd_of J1 i m) = 0"
    "n \<le> n1" "mc_cd_event (cd_of J1 i m) \<noteq> [] \<longrightarrow> n1 > 0" by blast
  note k = reads_keeps [OF J1(3) Suc.prems(2) m(1)]
  have R: "evolves i J J1" "\<forall>k. k \<noteq> m \<longrightarrow> cd_of J1 i k = cd_of J i k" "mt_pendingFlag (J1 ! i) = mt_pendingFlag (J ! i)"
    "mt_handled_event_count (J1 ! i) > 0 \<longrightarrow> mt_handled_event_count (J ! i) > 0 \<or> mc_cd_event (cd_of J1 i m) \<noteq> []"
    using J1(3) unfolding reads_def by blast+
  have "m \<le> Suc (cur_handle (J1 ! i))" using m(2) k(3) by simp
  from Suc.IH [OF J1(2) k(1) this, of n1] obtain J2 n2 where
    J2: "fold_out (check_level i) (rev [0..<m]) (J1, n1) = Inr (J2, n2)" "mail_inv s J2" "evolves i J1 J2"
    "mt_pendingFlag (J2 ! i) = mt_pendingFlag (J1 ! i)" "\<forall>k < m. flags_set (cd_of J2 i k) = 0" "\<forall>k \<ge> m. cd_of J2 i k = cd_of J1 i k"
    "n1 \<le> n2" "\<forall>k < m. mc_cd_event (cd_of J2 i k) \<noteq> [] \<longrightarrow> n2 > 0"
    "mt_handled_event_count (J2 ! i) > 0 \<longrightarrow> mt_handled_event_count (J1 ! i) > 0 \<or> n2 > 0"
    by (elim exE conjE) (rule that, assumption+)
  have m2: "cd_of J2 i m = cd_of J1 i m" using J2(6) by simp
  have "\<forall>k \<ge> Suc m. cd_of J2 i k = cd_of J i k" using J2(6) R(2) by (metis Suc_le_lessD less_imp_le less_irrefl)
  moreover have "\<forall>k < Suc m. flags_set (cd_of J2 i k) = 0"
    using J2(5) J1(4) by (simp only: all_less_Suc_iff m2 HOL.simp_thms)
  moreover have "\<forall>k < Suc m. mc_cd_event (cd_of J2 i k) \<noteq> [] \<longrightarrow> n2 > 0"
    using J2(7,8) J1(6) by (metis less_Suc_eq less_le_trans m2)
  moreover have "mt_handled_event_count (J2 ! i) > 0 \<longrightarrow> mt_handled_event_count (J ! i) > 0 \<or> n2 > 0"
    using J2(7,9) J1(6) R(4) by (metis less_le_trans)
  ultimately show ?case
    using J1(1,5) J2(1,2,4,7) evolves_trans [OF R(1) J2(3) Suc.prems(2)] R(3) by simp
qed simp

section \<open>Running handlers\<close>

lemma word_level:
  assumes "a < 2 ^ 32 - 1" "b < 2 ^ 32 - 1"
  shows "(of_nat a :: uint32) \<noteq> INVALID_ROLLBACK_POINT" "(of_nat a :: uint32) = of_nat b \<longleftrightarrow> a = b"
    "(of_nat a :: uint32) < of_nat b \<longleftrightarrow> a < b" "(of_nat a :: uint32) \<le> of_nat b \<longleftrightarrow> a \<le> b"
proof -
  have u: "unat (of_nat a :: uint32) = a" "unat (of_nat b :: uint32) = b" using assms by (simp_all add: unat_of_nat)
  have "unat INVALID_ROLLBACK_POINT = 2 ^ 32 - 1" by (simp add: INVALID_ROLLBACK_POINT_def)
  then show "(of_nat a :: uint32) \<noteq> INVALID_ROLLBACK_POINT" using u assms(1) by (metis less_irrefl)
  show "(of_nat a :: uint32) = of_nat b \<longleftrightarrow> a = b" using u by metis
  show "(of_nat a :: uint32) < of_nat b \<longleftrightarrow> a < b" "(of_nat a :: uint32) \<le> of_nat b \<longleftrightarrow> a \<le> b"
    using u by (simp_all add: word_less_nat_alt word_le_nat_alt)
qed

lemma shape_levels:
  assumes "shape (frames J)" "i < length J" "h \<le> cur_handle (J ! i)"
  shows "h < length (mt_path (J ! i))" "mc_level (cd_of J i h) \<noteq> INVALID_ROLLBACK_POINT"
    "mc_level (cd_of J i h) \<le> mc_level (cd_of J i (cur_handle (J ! i)))"
    "mc_level (cd_of J i h) = mc_level (cd_of J i (cur_handle (J ! i))) \<or>
     mc_level (cd_of J i h) < mc_level (cd_of J i (cur_handle (J ! i)))"
proof -
  note t = shape_task [OF assms(1,2)]
  show h: "h < length (mt_path (J ! i))" using assms(3) t(3) by simp
  have b: "h < 2 ^ 32 - 1" "cur_handle (J ! i) < 2 ^ 32 - 1" using t(2,3) h by simp_all
  note w = word_level [OF b] and l = shape_cd(1) [OF assms(1,2) h] shape_cd(1) [OF assms(1,2) t(3)]
  show "mc_level (cd_of J i h) \<noteq> INVALID_ROLLBACK_POINT"
    "mc_level (cd_of J i h) \<le> mc_level (cd_of J i (cur_handle (J ! i)))"
    "mc_level (cd_of J i h) = mc_level (cd_of J i (cur_handle (J ! i))) \<or>
     mc_level (cd_of J i h) < mc_level (cd_of J i (cur_handle (J ! i)))"
    using w assms(3) unfolding l by auto
qed

text \<open>What running handlers of one domain leaves alone.\<close>

definition serves :: "nat \<Rightarrow> handle \<Rightarrow> job \<Rightarrow> job \<Rightarrow> bool" where
  "serves i h J J' \<longleftrightarrow>
     evolves i J J' \<and> (\<forall>k. k \<noteq> h \<longrightarrow> cd_of J' i k = cd_of J i k) \<and>
     mc_event_flag (cd_of J' i h) = mc_event_flag (cd_of J i h)"

lemma serves_refl [simp]: "serves i h J J"
  by (simp add: serves_def)

lemma serves_trans: "i < length J \<Longrightarrow> serves i h J J' \<Longrightarrow> serves i h J' J'' \<Longrightarrow> serves i h J J''"
  unfolding serves_def using evolves_trans [of i J J' J''] by simp

abbreviation pop :: "nat \<Rightarrow> handle \<Rightarrow> job \<Rightarrow> job" where
  "pop i h J \<equiv> on_cd i h (\<lambda>c. c\<lparr>mc_cd_event := tl (mc_cd_event c)\<rparr>) J"

lemma reexecute_step:
  assumes I: "mail_inv s J" and i: "i < length J" and h: "h < length (mt_path (J ! i))"
    and q: "mc_cd_event (cd_of J i h) = HandleAllReexecute # es"
  shows "\<exists>J1. handle_reexecute i h J = Inr J1 \<and> mail_inv s (pop i h J1) \<and> serves i h J (pop i h J1) \<and>
    mc_cd_event (cd_of (pop i h J1) i h) = es"
proof -
  let ?c = "cd_of J i h" let ?t = "J ! i" let ?r = "min (mc_level ?c) (mt_rollback_point ?t)"
  note S = mail_invD(1) [OF I] and ok = mail_invD(2) [OF I i h]
  have z: "task_size ?c > 1" "h \<le> cur_handle ?t" using cd_okD(3) [OF ok] q by simp_all
  note lv = shape_levels [OF S i z(2)]
  let ?t1 = "?t\<lparr>mt_rollback_point := ?r, mt_handled_event_count := Suc (mt_handled_event_count ?t)\<rparr>"
  have r: "handle_reexecute i h J = Inr (J[i := ?t1])"
    using z lv(2) i current_cd_shape [OF S i]
    by (cases "mc_level ?c < mt_rollback_point ?t"; cases "mc_level ?c = mc_level (cd_of J i (cur_handle ?t))")
      (use lv(4) in \<open>simp_all add: handle_reexecute_def Let_def mail_CheckRollbackPoint_def check_rollback_coarse_def
        mail_SetRollbackPoint_def set_rollback_coarse_def acc_rollback_def on_task_def IncHandledEventCounter_def min_def not_less\<close>)
  let ?c' = "?c\<lparr>mc_cd_event := es\<rparr>"
  let ?t' = "?t1\<lparr>mt_path := (mt_path ?t)[h := ?c']\<rparr>"
  have pop: "pop i h (J[i := ?t1]) = J[i := ?t']" using q i by (simp add: on_cd_def on_task_def)
  have p: "mt_path ?t' = (mt_path ?t)[h := ?c']" and f: "frame ?c' = frame ?c" by (simp_all add: frame_def)
  have e: "events ?c' + 1 = events ?c" "reports ?c' = reports ?c" "cd_ok (cur_handle ?t) h ?c'"
    using q ok by (simp_all add: events_def reports_def flags_set_def mail_IsHead_def cd_ok_def task_size_def)
  have "mail_inv s (J[i := ?t'])"
    by (rule mail_inv_update [OF I i h p f e(3)]) (use e in simp_all)
  moreover have "evolves i J (J[i := ?t'])"
    by (rule evolves_update [OF i h p f]) (use e in \<open>simp_all\<close>)
  then have "serves i h J (J[i := ?t'])" using i h by (simp add: serves_def)
  ultimately show ?thesis using r i h by (simp add: pop)
qed

text \<open>
  The handler of an error sends \<open>kAllReexecute\<close> to the tasks in the order of their ranks.  The slack
  says which tasks have been served.
\<close>

definition served :: "nat list \<Rightarrow> nat \<Rightarrow> nat \<Rightarrow> nat" where
  "served grp n j = of_bool (j \<in> set (take n grp))"

lemma served_Suc:
  "distinct grp \<Longrightarrow> n < length grp \<Longrightarrow> served grp (Suc n) = (served grp n)(grp ! n := 1)"
  "distinct grp \<Longrightarrow> n < length grp \<Longrightarrow> served grp n (grp ! n) = 0"
  by (auto simp: served_def fun_eq_iff take_Suc_conv_app_nth distinct_conv_nth in_set_conv_nth)

lemma unat_pending_Suc: "unat (x :: uint32) + 1 < 2 ^ 32 \<Longrightarrow> unat (x + 1) = unat x + 1"
  by (simp add: unat_word_ariths(1))

lemma reports_pos:
  assumes "i < length J" "h < length (mt_path (J ! i))" "\<exists>e \<in> set (mc_cd_event (cd_of J i h)). is_error e"
  shows "0 < reports_of J"
proof -
  have "0 < reports (cd_of J i h)" using assms(3) by (auto simp: reports_def filter_empty_conv)
  also have "\<dots> \<le> (\<Sum>c\<leftarrow>mt_path (J ! i). reports c)" by (rule member_le_sum_list_nat [OF assms(2)])
  also have "\<dots> \<le> reports_of J" unfolding reports_of_def by (rule member_le_sum_list_nat [OF assms(1)])
  finally show ?thesis .
qed

lemma post_one:
  assumes I: "mail_inv (served grp n) J" and i: "i < length J" and h: "h < length (mt_path (J ! i))"
    and c: "task_size (cd_of J i h) > 1" "mail_IsHead (cd_of J i h)" "h \<le> cur_handle (J ! i)" "grp = mc_group (cd_of J i h)"
    and n: "n < length grp" and e: "\<exists>e \<in> set (mc_cd_event (cd_of J i h)). is_error e"
  shows "\<exists>J'. HeadCD_SetMailBox i h kAllReexecute n J = Inr J' \<and> mail_inv (served grp (Suc n)) J' \<and> serves i h J J' \<and>
    mt_handled_event_count (J' ! i) = mt_handled_event_count (J ! i) \<and>
    mc_cd_event (cd_of J' i h) = mc_cd_event (cd_of J i h) @ (if n = mc_task_in_color (cd_of J i h) then [HandleAllReexecute] else [])"
proof -
  let ?c = "cd_of J i h" let ?g = "grp ! n"
  note S = mail_invD(1) [OF I] note sh = shape_cd [OF S i h]
  have n': "n < task_size ?c" using n c(4) by (simp add: task_size_def)
  have g: "?g = mc_group ?c ! n" using c(4) by simp
  note mem = shape_member [OF S i h n' g]
  let ?t = "J ! ?g" let ?d = "cd_of J ?g h"
  have sv: "served grp (Suc n) = (served grp n)(?g := 1)" "served grp n ?g = 0"
    using served_Suc [of grp n] sh(2) n c(4) by simp_all
  have "unat (mt_pendingFlag ?t) + 1 < 2 ^ 32"
    using mail_invD(4) [OF I mem(1)] reports_pos [OF i h e] sv(2) by simp
  note pend = unat_pending_Suc [OF this]
  note okd = mail_invD(2) [OF I mem(1,2)] and shd = shape_cd [OF S mem(1,2)]
  have sz: "task_size ?d = task_size ?c" using mem(3) by (simp add: task_size_def)
  show ?thesis
  proof (cases "n = mc_task_in_color ?c")
    case True
    then have gi: "?g = i" using sh(4) g by simp
    let ?c' = "?c\<lparr>mc_cd_event := mc_cd_event ?c @ [HandleAllReexecute]\<rparr>"
    let ?t' = "(J ! i)\<lparr>mt_pendingFlag := mt_pendingFlag (J ! i) + 1, mt_path := (mt_path (J ! i))[h := ?c']\<rparr>"
    have len: "length (mc_event_flag ?c) = task_size ?c" using sh(7) c(1,2) by simp
    have "mc_event_flag ?c ! n \<in> set (mc_event_flag ?c)" using len n' by simp
    from cd_okD(1) [OF mail_invD(2) [OF I i h] this] have "mc_event_flag ?c ! n AND NOT re = mc_event_flag ?c ! n"
      using c(2) by auto
    then have r: "HeadCD_SetMailBox i h kAllReexecute n J = Inr (J[i := ?t'])"
      using True c n' len i h
      by (simp add: HeadCD_SetMailBox_def LocalSetMailBox_def Let_def clear_flag_def on_flag_def push_event_def on_cd_def on_task_def
          IncPendingCounter_def)
    have p: "mt_path ?t' = (mt_path (J ! i))[h := ?c']" and f: "frame ?c' = frame ?c" by (simp_all add: frame_def)
    have v: "events ?c' = events ?c + 1" "reports ?c' = reports ?c" "cd_ok (cur_handle (J ! i)) h ?c'"
      using mail_invD(2) [OF I i h] c
      by (simp_all add: events_def reports_def flags_set_def mail_IsHead_def cd_ok_def task_size_def)
    have "mail_inv (served grp (Suc n)) (J[i := ?t'])"
      by (rule mail_inv_update [OF I i h p f v(3)]) (use v pend gi sv in simp_all)
    moreover have "evolves i J (J[i := ?t'])"
      by (rule evolves_update [OF i h p f]) (use v in simp_all)
    then have "serves i h J (J[i := ?t'])" using i h by (simp add: serves_def)
    ultimately show ?thesis using r i h True by simp
  next
    case False
    then have gi: "?g \<noteq> i" using sh(2,3,4) g n' by (metis nth_eq_iff_index_eq task_size_def)
    have nh: "\<not> mail_IsHead ?d" using mem(4,5) c(2) False by (simp add: mail_IsHead_def)
    obtain x where x: "mc_event_flag ?d = [x]" using shd(7) c(1) nh sz by (auto simp: length_Suc_conv)
    have xv: "x = 0 \<or> x = re" using cd_okD(1) [OF okd, of x] x nh by simp
    let ?c' = "?d\<lparr>mc_event_flag := [re]\<rparr>"
    let ?t' = "?t\<lparr>mt_pendingFlag := mt_pendingFlag ?t + 1, mt_path := (mt_path ?t)[h := ?c']\<rparr>"
    have r: "HeadCD_SetMailBox i h kAllReexecute n J = Inr (J[?g := ?t'])"
      using False c n' i h g gi mem x xv
      by (auto simp add: HeadCD_SetMailBox_def Let_def global_rank_def task_size_def acc_pending_def acc_mailbox_def on_flag_def
          on_cd_def on_task_def)
    have p: "mt_path ?t' = (mt_path ?t)[h := ?c']" and f: "frame ?c' = frame ?d" using x by (simp_all add: frame_def)
    have v: "events ?c' \<le> events ?d + 1" "0 < events ?c'" "reports ?c' = reports ?d" "cd_ok (cur_handle ?t) h ?c'"
      using okd x xv nh
      by (auto simp add: events_def reports_def flags_set_def mail_IsHead_def cd_ok_def task_size_def)
    have "mail_inv (served grp (Suc n)) (J[?g := ?t'])"
      by (rule mail_inv_update [OF I mem(1,2) p f v(4)]) (use v pend sv in simp_all)
    moreover have "\<exists>k < length (mt_path (J ! i)). reports (cd_of J i k) \<noteq> 0"
      using h e by (intro exI [of _ h]) (auto simp: reports_def filter_empty_conv)
    then have "evolves i J (J[?g := ?t'])"
      by (intro evolves_update [OF mem(1,2) p f]) (use v in simp_all)
    then have "serves i h J (J[?g := ?t'])" using gi by (simp add: serves_def)
    ultimately show ?thesis using r gi False by simp
  qed
qed

lemma serves_keeps:
  assumes "serves i h J J'" "i < length J" "h < length (mt_path (J ! i))"
  shows "i < length J'" "h < length (mt_path (J' ! i))" "cur_handle (J' ! i) = cur_handle (J ! i)"
    "task_size (cd_of J' i h) = task_size (cd_of J i h)" "mail_IsHead (cd_of J' i h) = mail_IsHead (cd_of J i h)"
    "mc_group (cd_of J' i h) = mc_group (cd_of J i h)" "mc_task_in_color (cd_of J' i h) = mc_task_in_color (cd_of J i h)"
proof -
  have e: "frames J' = frames J" using assms(1) evolvesD(1) unfolding serves_def by blast
  show "i < length J'" using frames_length [OF e] assms(2) by simp
  show "h < length (mt_path (J' ! i))" using frames_cd(1) [OF e assms(2)] assms(3) by simp
  show "cur_handle (J' ! i) = cur_handle (J ! i)" by (rule frames_cur [OF e assms(2)])
  note f = frame_eqD [OF frames_cd(2) [OF e assms(2,3)]]
  show "task_size (cd_of J' i h) = task_size (cd_of J i h)" "mail_IsHead (cd_of J' i h) = mail_IsHead (cd_of J i h)"
    "mc_group (cd_of J' i h) = mc_group (cd_of J i h)" "mc_task_in_color (cd_of J' i h) = mc_task_in_color (cd_of J i h)"
    using f by simp_all
qed

lemma post_all:
  assumes "mail_inv (served grp n) J" "i < length J" "h < length (mt_path (J ! i))"
    "task_size (cd_of J i h) > 1" "mail_IsHead (cd_of J i h)" "h \<le> cur_handle (J ! i)" "grp = mc_group (cd_of J i h)"
    "n \<le> length grp" "\<exists>e \<in> set (mc_cd_event (cd_of J i h)). is_error e"
  shows "\<exists>J'. fold_out (HeadCD_SetMailBox i h kAllReexecute) [n..<length grp] J = Inr J' \<and>
    mail_inv (served grp (length grp)) J' \<and> serves i h J J' \<and>
    mt_handled_event_count (J' ! i) = mt_handled_event_count (J ! i) \<and>
    mc_cd_event (cd_of J' i h) = mc_cd_event (cd_of J i h) @
      (if n \<le> mc_task_in_color (cd_of J i h) \<and> mc_task_in_color (cd_of J i h) < length grp then [HandleAllReexecute] else [])"
  using assms
proof (induction "length grp - n" arbitrary: n J)
  case 0
  then show ?case by simp
next
  case (Suc m)
  have n: "n < length grp" using Suc.hyps(2) by simp
  obtain J1 where J1: "HeadCD_SetMailBox i h kAllReexecute n J = Inr J1" "mail_inv (served grp (Suc n)) J1" "serves i h J J1"
    "mt_handled_event_count (J1 ! i) = mt_handled_event_count (J ! i)"
    "mc_cd_event (cd_of J1 i h) = mc_cd_event (cd_of J i h) @ (if n = mc_task_in_color (cd_of J i h) then [HandleAllReexecute] else [])"
    using post_one [OF Suc.prems(1-7) n Suc.prems(9)] by blast
  note k = serves_keeps [OF J1(3) Suc.prems(2,3)]
  have m: "m = length grp - Suc n" using Suc.hyps(2) by simp
  have e: "\<exists>e \<in> set (mc_cd_event (cd_of J1 i h)). is_error e" using Suc.prems(9) J1(5) by auto
  obtain J2 where J2: "fold_out (HeadCD_SetMailBox i h kAllReexecute) [Suc n..<length grp] J1 = Inr J2"
    "mail_inv (served grp (length grp)) J2" "serves i h J1 J2" "mt_handled_event_count (J2 ! i) = mt_handled_event_count (J1 ! i)"
    "mc_cd_event (cd_of J2 i h) = mc_cd_event (cd_of J1 i h) @
      (if Suc n \<le> mc_task_in_color (cd_of J i h) \<and> mc_task_in_color (cd_of J i h) < length grp then [HandleAllReexecute] else [])"
    using Suc.hyps(1) [OF m J1(2) k(1,2) _ _ _ _ _ e] Suc.prems(4-7) n k(3-7) by auto
  have "(if n = mc_task_in_color (cd_of J i h) then [HandleAllReexecute] else []) @
      (if Suc n \<le> mc_task_in_color (cd_of J i h) \<and> mc_task_in_color (cd_of J i h) < length grp then [HandleAllReexecute] else []) =
      (if n \<le> mc_task_in_color (cd_of J i h) \<and> mc_task_in_color (cd_of J i h) < length grp then [HandleAllReexecute] else [])"
    using n by auto
  then show ?case using J1 J2 serves_trans [OF Suc.prems(2) J1(3) J2(3)] n by (simp add: upt_conv_Cons)
qed

lemma error_step:
  assumes I: "mail_inv (\<lambda>_. 0) J" and i: "i < length J" and h: "h < length (mt_path (J ! i))"
    and q: "mc_cd_event (cd_of J i h) = e # es" "is_error e"
  shows "\<exists>J1. handle_error i h J = Inr J1 \<and> mail_inv (\<lambda>_. 0) (pop i h J1) \<and> serves i h J (pop i h J1) \<and>
    mc_cd_event (cd_of (pop i h J1) i h) = es @ [HandleAllReexecute]"
proof -
  let ?c = "cd_of J i h" let ?grp = "mc_group ?c"
  note S = mail_invD(1) [OF I] and ok = mail_invD(2) [OF I i h] note sh = shape_cd [OF S i h]
  have z: "task_size ?c > 1" "h \<le> cur_handle (J ! i)" "mail_IsHead ?c"
    using cd_okD(3) [OF ok] cd_okD(2) [OF ok, of e] q by auto
  have "mail_inv (served ?grp 0) J" using I by (simp add: served_def [abs_def])
  moreover have "\<exists>e \<in> set (mc_cd_event ?c). is_error e" using q by simp
  ultimately obtain J1 where J1: "fold_out (HeadCD_SetMailBox i h kAllReexecute) [0..<length ?grp] J = Inr J1"
    "mail_inv (served ?grp (length ?grp)) J1" "serves i h J J1" "mt_handled_event_count (J1 ! i) = mt_handled_event_count (J ! i)"
    "mc_cd_event (cd_of J1 i h) = e # es @ [HandleAllReexecute]"
    using post_all [of ?grp 0 J i h] i h z q sh(3) by (auto simp: task_size_def)
  note k = serves_keeps [OF J1(3) i h]
  let ?d = "cd_of J1 i h" let ?t = "J1 ! i"
  let ?d1 = "?d\<lparr>mc_error_occurred := False\<rparr>"
  let ?t1 = "?t\<lparr>mt_handled_event_count := Suc (mt_handled_event_count ?t), mt_path := (mt_path ?t)[h := ?d1]\<rparr>"
  have r: "handle_error i h J = Inr (J1[i := ?t1])"
    using J1(1) z current_cd_shape [OF S i] shape_levels(3) [OF S i z(2)] k(1)
    by (simp add: handle_error_def Let_def task_size_def IncHandledEventCounter_def on_cd_def on_task_def)
  let ?d' = "?d\<lparr>mc_error_occurred := False, mc_cd_event := es @ [HandleAllReexecute]\<rparr>"
  let ?t' = "?t\<lparr>mt_handled_event_count := Suc (mt_handled_event_count ?t), mt_path := (mt_path ?t)[h := ?d']\<rparr>"
  have pop: "pop i h (J1[i := ?t1]) = J1[i := ?t']" using J1(5) k(1,2) by (simp add: on_cd_def on_task_def)
  have p: "mt_path ?t' = (mt_path ?t)[h := ?d']" and f: "frame ?d' = frame ?d" by (simp_all add: frame_def)
  have v: "events ?d' + 1 = events ?d" "0 < events ?d'" "reports ?d' + 1 = reports ?d" "cd_ok (cur_handle ?t) h ?d'"
    using mail_invD(2) [OF J1(2) k(1,2)] J1(5) q(2)
    by (auto simp add: events_def reports_def flags_set_def mail_IsHead_def cd_ok_def task_size_def)
  have sv: "reports ?d' + served ?grp (length ?grp) j \<le> reports ?d" for j
  proof -
    have "served ?grp (length ?grp) j \<le> 1" by (simp add: served_def)
    then show ?thesis using v(3) by linarith
  qed
  have "mail_inv (\<lambda>_. 0) (J1[i := ?t'])"
    by (rule mail_inv_update [OF J1(2) k(1,2) p f v(4)]) (use v(1) sv in simp_all)
  moreover have "evolves i J1 (J1[i := ?t'])"
    by (rule evolves_update [OF k(1,2) p f]) (use v in simp_all)
  then have "serves i h J1 (J1[i := ?t'])" using k by (simp add: serves_def)
  then have "serves i h J (J1[i := ?t'])" by (rule serves_trans [OF i J1(3)])
  ultimately show ?thesis using r k(1,2) by (simp add: pop)
qed

fun turns :: "EventHandler list \<Rightarrow> nat" where
  "turns [] = 0"
| "turns (e # es) = (if is_error e then 2 else 1) + turns es"

lemma turns_append: "turns (es @ [HandleAllReexecute]) = Suc (turns es)"
  by (induction es) simp_all

lemma turns_le: "turns es \<le> 2 * length es"
  by (induction es) simp_all

lemma invoke_total:
  assumes "mail_inv (\<lambda>_. 0) J" "i < length J" "h < length (mt_path (J ! i))" "turns (mc_cd_event (cd_of J i h)) \<le> k"
  shows "\<exists>J'. invoke_n k i h J = Inr J' \<and> mail_inv (\<lambda>_. 0) J' \<and> serves i h J J' \<and> mc_cd_event (cd_of J' i h) = []"
  using assms
proof (induction k arbitrary: J)
  case 0
  have "mc_cd_event (cd_of J i h) = []" using "0.prems"(4) by (cases "mc_cd_event (cd_of J i h)") (auto split: if_splits)
  then show ?case using "0.prems"(1) by (simp add: invoke_n.simps)
next
  case (Suc k)
  show ?case
  proof (cases "mc_cd_event (cd_of J i h)")
    case Nil
    then show ?thesis using Suc.prems(1) by (simp add: invoke_n.simps)
  next
    case (Cons e es)
    have e: "e = HandleAllReexecute \<or> is_error e"
      using cd_okD(2) [OF mail_invD(2) [OF Suc.prems(1-3)], of e] Cons by auto
    have "\<exists>J1. HandleEvent i h e J = Inr J1 \<and> mail_inv (\<lambda>_. 0) (pop i h J1) \<and> serves i h J (pop i h J1) \<and>
        turns (mc_cd_event (cd_of (pop i h J1) i h)) \<le> k"
    proof (cases "is_error e")
      case True
      then obtain x where "e = HandleErrorOccurred x" by (cases e) auto
      then show ?thesis using error_step [OF Suc.prems(1-3) Cons True] Suc.prems(4) Cons True by (auto simp: turns_append)
    next
      case False
      then have "e = HandleAllReexecute" using e by simp
      then show ?thesis using reexecute_step [OF Suc.prems(1-3), of es] Suc.prems(4) Cons by auto
    qed
    then obtain J1 where J1: "HandleEvent i h e J = Inr J1" "mail_inv (\<lambda>_. 0) (pop i h J1)" "serves i h J (pop i h J1)"
      "turns (mc_cd_event (cd_of (pop i h J1) i h)) \<le> k" by blast
    note s = serves_keeps [OF J1(3) Suc.prems(2,3)]
    from Suc.IH [OF J1(2) s(1,2) J1(4)] obtain J' where J': "invoke_n k i h (pop i h J1) = Inr J'" "mail_inv (\<lambda>_. 0) J'"
      "serves i h (pop i h J1) J'" "mc_cd_event (cd_of J' i h) = []" by blast
    then show ?thesis using J1(1) Cons serves_trans [OF Suc.prems(2) J1(3) J'(3)] by (subst invoke_n.simps) simp
  qed
qed

lemma InvokeErrorHandler_total:
  assumes "mail_inv (\<lambda>_. 0) J" "i < length J" "h < length (mt_path (J ! i))"
  shows "\<exists>J'. InvokeErrorHandler i h J = Inr J' \<and> mail_inv (\<lambda>_. 0) J' \<and> serves i h J J' \<and> mc_cd_event (cd_of J' i h) = []"
  unfolding InvokeErrorHandler_def by (rule invoke_total [OF assms turns_le])

lemma invoke_levels:
  assumes "mail_inv (\<lambda>_. 0) J" "i < length J" "m \<le> length (mt_path (J ! i))"
  shows "\<exists>J'. fold_out (InvokeErrorHandler i) (rev [0..<m]) J = Inr J' \<and> mail_inv (\<lambda>_. 0) J' \<and> evolves i J J' \<and>
    (\<forall>k. mc_event_flag (cd_of J' i k) = mc_event_flag (cd_of J i k)) \<and>
    (\<forall>k < m. mc_cd_event (cd_of J' i k) = []) \<and> (\<forall>k \<ge> m. cd_of J' i k = cd_of J i k)"
  using assms
proof (induction m arbitrary: J)
  case (Suc m)
  then have m: "m < length (mt_path (J ! i))" by simp
  from InvokeErrorHandler_total [OF Suc.prems(1,2) m] obtain J1 where J1: "InvokeErrorHandler i m J = Inr J1"
    "mail_inv (\<lambda>_. 0) J1" "serves i m J J1" "mc_cd_event (cd_of J1 i m) = []" by blast
  note k = serves_keeps [OF J1(3) Suc.prems(2) m]
  have R: "evolves i J J1" "\<forall>k. k \<noteq> m \<longrightarrow> cd_of J1 i k = cd_of J i k" "mc_event_flag (cd_of J1 i m) = mc_event_flag (cd_of J i m)"
    using J1(3) unfolding serves_def by blast+
  from Suc.IH [OF J1(2) k(1)] k(2) obtain J2 where J2: "fold_out (InvokeErrorHandler i) (rev [0..<m]) J1 = Inr J2"
    "mail_inv (\<lambda>_. 0) J2" "evolves i J1 J2" "\<forall>k. mc_event_flag (cd_of J2 i k) = mc_event_flag (cd_of J1 i k)"
    "\<forall>k < m. mc_cd_event (cd_of J2 i k) = []" "\<forall>k \<ge> m. cd_of J2 i k = cd_of J1 i k"
    by (elim exE conjE impE meta_impE) (simp_all add: less_imp_le, blast?)
  have "mc_event_flag (cd_of J2 i k) = mc_event_flag (cd_of J i k)" for k
    using J2(4) R(2,3) by (cases "k = m") simp_all
  moreover have "\<forall>k < Suc m. mc_cd_event (cd_of J2 i k) = []"
    using J2(5,6) J1(4) by (simp add: all_less_Suc_iff)
  moreover have "\<forall>k \<ge> Suc m. cd_of J2 i k = cd_of J i k" using J2(6) R(2) by (metis Suc_le_lessD less_imp_le less_irrefl)
  ultimately show ?case using J1(1) J2(1,2) evolves_trans [OF R(1) J2(3) Suc.prems(2)] by simp
qed simp

lemma InvokeAll_total:
  assumes I: "mail_inv (\<lambda>_. 0) J" and i: "i < length J"
  shows "\<exists>J'. InvokeAllErrorHandler i J = Inr J' \<and> mail_inv (\<lambda>_. 0) J' \<and> evolves i J J' \<and>
    (\<forall>k. mc_event_flag (cd_of J' i k) = mc_event_flag (cd_of J i k)) \<and>
    (\<forall>k < length (mt_path (J ! i)). mc_cd_event (cd_of J' i k) = [])"
proof -
  note S = mail_invD(1) [OF I]
  let ?cur = "cur_handle (J ! i)"
  have cur: "?cur < length (mt_path (J ! i))" by (rule shape_task(3) [OF S i])
  obtain c where c: "c \<le> ?cur" "coarse_cd (J ! i) ?cur = Inr c" "\<forall>k. c < k \<and> k \<le> ?cur \<longrightarrow> task_size (cd_of J i k) = 1"
    using coarse_cd_shape [OF S i cur] by blast
  have cl: "c < length (mt_path (J ! i))" using c(1) cur by simp
  from invoke_levels [OF I i, of "Suc c"] cl obtain J' where J': "fold_out (InvokeErrorHandler i) (rev [0..<Suc c]) J = Inr J'"
    "mail_inv (\<lambda>_. 0) J'" "evolves i J J'" "\<forall>k. mc_event_flag (cd_of J' i k) = mc_event_flag (cd_of J i k)"
    "\<forall>k < Suc c. mc_cd_event (cd_of J' i k) = []" "\<forall>k \<ge> Suc c. cd_of J' i k = cd_of J i k" by (auto simp del: upt_Suc)
  have "mc_cd_event (cd_of J i k) = []" if "k < length (mt_path (J ! i))" "c < k" for k
    using cd_okD(3) [OF mail_invD(2) [OF I i that(1)]] c(3) that by (cases "k \<le> ?cur") auto
  then have "\<forall>k < length (mt_path (J ! i)). mc_cd_event (cd_of J' i k) = []"
    using J'(5,6) by (metis Suc_leI less_Suc_eq_le not_less)
  then show ?thesis
    using J' c(2) current_cd_shape [OF S i] levels_up_shape [OF S i cl]
    by (simp add: InvokeAllErrorHandler_def del: upt_Suc)
qed

section \<open>A whole check of the mailbox\<close>

lemma mail_okD:
  assumes "mail_ok J"
  shows "mail_inv (\<lambda>_. 0) J" "i < length J \<Longrightarrow> mt_handled_event_count (J ! i) = 0"
  using assms unfolding mail_ok_def by blast+

lemma DecPending_ok:
  assumes I: "mail_inv (\<lambda>_. 0) J" and i: "i < length J"
  shows "mail_inv (\<lambda>_. 0) (DecPendingCounter i J)" "evolves i J (DecPendingCounter i J)"
    "mt_handled_event_count (DecPendingCounter i J ! i) = 0" "cd_of (DecPendingCounter i J) i h = cd_of J i h"
proof -
  let ?t = "J ! i" let ?n = "mt_handled_event_count ?t"
  let ?t' = "?t\<lparr>mt_pendingFlag := mt_pendingFlag ?t - of_nat ?n, mt_handled_event_count := 0\<rparr>"
  have D: "DecPendingCounter i J = J[i := ?t']" by (simp add: DecPendingCounter_def on_task_def)
  have z: "0 < length (mt_path ?t)" using shape_task(1) [OF mail_invD(1) [OF I] i] by simp
  have le: "?n \<le> unat (mt_pendingFlag ?t)" using mail_invD(3) [OF I i] by simp
  then have nb: "?n < 2 ^ 32" using unsigned_less [of "mt_pendingFlag ?t", where ?'a = nat] by simp
  then have "(of_nat ?n :: uint32) \<le> mt_pendingFlag ?t" using le by (simp add: word_le_nat_alt unat_of_nat)
  then have u: "unat (mt_pendingFlag ?t - of_nat ?n) = unat (mt_pendingFlag ?t) - ?n" using nb by (simp add: unat_sub unat_of_nat)
  have p: "mt_path ?t' = (mt_path ?t)[0 := cd_of J i 0]" by simp
  show "mail_inv (\<lambda>_. 0) (DecPendingCounter i J)" unfolding D
    by (rule mail_inv_update [OF I i z p refl mail_invD(2) [OF I i z]]) (use u le in simp_all)
  show "evolves i J (DecPendingCounter i J)" unfolding D
    by (rule evolves_update [OF i z p]) auto
  show "mt_handled_event_count (DecPendingCounter i J ! i) = 0" "cd_of (DecPendingCounter i J) i h = cd_of J i h"
    unfolding D using i by simp_all
qed

lemma pending_zero:
  assumes "mail_ok J" "i < length J" "mt_pendingFlag (J ! i) = 0" "h < length (mt_path (J ! i))"
  shows "events (cd_of J i h) = 0"
  using mail_invD(3) [OF mail_okD(1) [OF assms(1)] assms(2)] assms(3) nth_mem [OF assms(4)]
  by (simp add: events_of_def)

lemma CheckMailBox_total:
  assumes K: "mail_ok J" and i: "i < length J"
  shows "\<exists>J'. CheckMailBox i J = Inr J' \<and> mail_ok J' \<and> evolves i J J' \<and> (\<forall>h \<le> cur_handle (J ! i). events (cd_of J' i h) = 0)"
proof -
  note I = mail_okD(1) [OF K] note S = mail_invD(1) [OF I]
  let ?cur = "cur_handle (J ! i)"
  have cur: "?cur < length (mt_path (J ! i))" by (rule shape_task(3) [OF S i])
  note C = current_cd_shape [OF S i]
  show ?thesis
  proof (cases "mt_pendingFlag (J ! i) = 0")
    case True
    obtain c where c: "c \<le> ?cur" "coarse_cd (J ! i) ?cur = Inr c" using coarse_cd_shape [OF S i cur] by blast
    have z: "events (cd_of J i h) = 0" if "h \<le> ?cur" for h using pending_zero [OF K i True] that cur by simp
    then have "(\<Sum>h\<leftarrow>rev [0..<Suc c]. length (mc_cd_event (cd_of J i h))) = 0"
      using c(1) by (auto simp: events_def)
    then have "CheckMailBox i J = Inr J"
      using True C c levels_up_shape [OF S i, of c] cur mail_okD(2) [OF K i]
      by (simp add: CheckMailBox_def del: upt_Suc sum_list_eq_0_iff)
    then show ?thesis using K z by simp
  next
    case False
    from scan_levels [OF I i, of "Suc ?cur" 0] obtain J1 n1 where
      J1: "fold_out (check_level i) (rev [0..<Suc ?cur]) (J, 0) = Inr (J1, n1)" "mail_inv (\<lambda>_. 0) J1" "evolves i J J1"
      "\<forall>k < Suc ?cur. flags_set (cd_of J1 i k) = 0"
      "\<forall>k < Suc ?cur. mc_cd_event (cd_of J1 i k) \<noteq> [] \<longrightarrow> n1 > 0"
      "mt_handled_event_count (J1 ! i) > 0 \<longrightarrow> mt_handled_event_count (J ! i) > 0 \<or> n1 > 0"
      by (elim exE conjE meta_impE) (simp del: upt_Suc, rule that, assumption+)
    have start: "CheckMailBox i J = (if n1 > 0 then bind_out (InvokeAllErrorHandler i J1) (\<lambda>J. Inr (DecPendingCounter i J)) else Inr J1)"
      using False C J1(1) levels_up_shape [OF S i cur] mail_okD(2) [OF K i] by (simp add: CheckMailBox_def del: upt_Suc)
    have oth: "mt_handled_event_count (J' ! j) = 0" if "evolves i J J'" "j < length J'" "j \<noteq> i" for J' j
      using evolvesD(5) [OF that(1) _ that(3)] evolvesD(2) [OF that(1)] mail_okD(2) [OF K, of j] that(2) by simp
    have i1: "i < length J1" using evolvesD(2) [OF J1(3)] i by simp
    show ?thesis
    proof (cases "n1 > 0")
      case True
      from InvokeAll_total [OF J1(2) i1] obtain J2 where J2: "InvokeAllErrorHandler i J1 = Inr J2" "mail_inv (\<lambda>_. 0) J2"
        "evolves i J1 J2" "\<forall>k. mc_event_flag (cd_of J2 i k) = mc_event_flag (cd_of J1 i k)"
        "\<forall>k < length (mt_path (J1 ! i)). mc_cd_event (cd_of J2 i k) = []" by blast
      have i2: "i < length J2" using evolvesD(2) [OF J2(3)] i1 by simp
      note d = DecPending_ok [OF J2(2) i2]
      have e: "evolves i J (DecPendingCounter i J2)" by (rule evolves_trans [OF J1(3) evolves_trans [OF J2(3) d(2) i1] i])
      then have "mail_ok (DecPendingCounter i J2)" using d(1,3) oth [OF e] unfolding mail_ok_def by metis
      moreover have "events (cd_of (DecPendingCounter i J2) i h) = 0" if "h \<le> ?cur" for h
        using J1(4) J2(4,5) that cur evolvesD(6) [OF J1(3) i] d(4) [of h] by (simp add: events_def flags_set_def)
      ultimately show ?thesis using start True J2(1) e by simp
    next
      case False
      then have "mt_handled_event_count (J1 ! i) = 0" using J1(6) mail_okD(2) [OF K i] by simp
      then have "mail_ok J1" using J1(2) oth [OF J1(3)] unfolding mail_ok_def by metis
      moreover have "events (cd_of J1 i h) = 0" if "h \<le> ?cur" for h
        using J1(4,5) that False by (auto simp: events_def)
      ultimately show ?thesis using start False J1(3) by simp
    qed
  qed
qed

section \<open>Sequences of checks\<close>

definition progresses :: "job \<Rightarrow> job \<Rightarrow> bool" where
  "progresses J J' \<longleftrightarrow>
     frames J' = frames J \<and>
     (\<forall>j < length J. mt_rollback_point (J' ! j) \<le> mt_rollback_point (J ! j) \<and>
        (\<forall>h < length (mt_path (J ! j)).
           (pursued (J ! j) h \<longrightarrow> pursued (J' ! j) h) \<and> reports (cd_of J' j h) \<le> reports (cd_of J j h)))"

lemma progressesD:
  assumes "progresses J J'"
  shows "frames J' = frames J" "length J' = length J"
    "j < length J \<Longrightarrow> mt_rollback_point (J' ! j) \<le> mt_rollback_point (J ! j)"
    "j < length J \<Longrightarrow> length (mt_path (J' ! j)) = length (mt_path (J ! j))"
    "j < length J \<Longrightarrow> cur_handle (J' ! j) = cur_handle (J ! j)"
    "j < length J \<Longrightarrow> h < length (mt_path (J ! j)) \<Longrightarrow> pursued (J ! j) h \<Longrightarrow> pursued (J' ! j) h"
    "j < length J \<Longrightarrow> h < length (mt_path (J ! j)) \<Longrightarrow> reports (cd_of J' j h) \<le> reports (cd_of J j h)"
    "j < length J \<Longrightarrow> h < length (mt_path (J ! j)) \<Longrightarrow> mc_level (cd_of J' j h) = mc_level (cd_of J j h)"
proof -
  show f: "frames J' = frames J" using assms unfolding progresses_def by blast
  show "length J' = length J" by (rule frames_length [OF f])
  show "j < length J \<Longrightarrow> length (mt_path (J' ! j)) = length (mt_path (J ! j))" by (rule frames_cd(1) [OF f])
  show "j < length J \<Longrightarrow> cur_handle (J' ! j) = cur_handle (J ! j)" by (rule frames_cur [OF f])
  show "j < length J \<Longrightarrow> h < length (mt_path (J ! j)) \<Longrightarrow> mc_level (cd_of J' j h) = mc_level (cd_of J j h)"
    by (rule frame_eqD(1) [OF frames_cd(2) [OF f]])
qed (use assms in \<open>unfold progresses_def, blast+\<close>)

lemma progresses_refl [simp]: "progresses J J"
  by (simp add: progresses_def)

lemma evolves_progresses: "evolves i J J' \<Longrightarrow> progresses J J'"
  unfolding evolves_def progresses_def by blast

lemma progresses_trans:
  assumes a: "progresses J J'" and b: "progresses J' J''"
  shows "progresses J J''"
proof -
  have "mt_rollback_point (J'' ! j) \<le> mt_rollback_point (J ! j)"
    "\<forall>h < length (mt_path (J ! j)). (pursued (J ! j) h \<longrightarrow> pursued (J'' ! j) h) \<and> reports (cd_of J'' j h) \<le> reports (cd_of J j h)"
    if j: "j < length J" for j
  proof -
    have j': "j < length J'" using j progressesD(2) [OF a] by simp
    show "mt_rollback_point (J'' ! j) \<le> mt_rollback_point (J ! j)"
      using progressesD(3) [OF b j'] progressesD(3) [OF a j] by (rule order_trans)
    show "\<forall>h < length (mt_path (J ! j)). (pursued (J ! j) h \<longrightarrow> pursued (J'' ! j) h) \<and> reports (cd_of J'' j h) \<le> reports (cd_of J j h)"
    proof (intro allI impI conjI)
      fix h assume h: "h < length (mt_path (J ! j))"
      then have h': "h < length (mt_path (J' ! j))" using progressesD(4) [OF a j] by simp
      show "pursued (J'' ! j) h" if "pursued (J ! j) h" by (rule progressesD(6) [OF b j' h' progressesD(6) [OF a j h that]])
      show "reports (cd_of J'' j h) \<le> reports (cd_of J j h)"
        using progressesD(7) [OF b j' h'] progressesD(7) [OF a j h] by (rule order_trans)
    qed
  qed
  then show ?thesis unfolding progresses_def using progressesD(1) [OF a] progressesD(1) [OF b] by simp
qed

lemma reports_le_events: "reports c \<le> events c"
  by (simp add: reports_def events_def) (meson add_le_mono length_filter_le order_refl trans_le_add2)

lemma run_checks_total:
  assumes "mail_ok J" "set is \<subseteq> {..<length J}"
  shows "\<exists>J'. run_checks is J = Inr J' \<and> mail_ok J' \<and> progresses J J' \<and>
    (\<forall>i \<in> set is. \<forall>h \<le> cur_handle (J ! i). reports (cd_of J' i h) = 0 \<and>
       (pursued (J ! i) h \<longrightarrow> mt_rollback_point (J' ! i) \<le> mc_level (cd_of J i h)))"
  using assms
proof (induction "is" arbitrary: J)
  case Nil
  then show ?case by (simp add: run_checks_def)
next
  case (Cons i "is")
  have i: "i < length J" using Cons.prems(2) by simp
  obtain J1 where J1: "CheckMailBox i J = Inr J1" "mail_ok J1" "evolves i J J1" "\<forall>h \<le> cur_handle (J ! i). events (cd_of J1 i h) = 0"
    using CheckMailBox_total [OF Cons.prems(1) i] by blast
  note p = evolves_progresses [OF J1(3)]
  note P = progressesD [OF p]
  obtain J2 where J2: "run_checks is J1 = Inr J2" "mail_ok J2" "progresses J1 J2"
    "\<forall>j \<in> set is. \<forall>h \<le> cur_handle (J1 ! j). reports (cd_of J2 j h) = 0 \<and>
       (pursued (J1 ! j) h \<longrightarrow> mt_rollback_point (J2 ! j) \<le> mc_level (cd_of J1 j h))"
    using Cons.IH [OF J1(2)] Cons.prems(2) P(2) by auto
  note Q = progressesD [OF J2(3)]
  have cur: "cur_handle (J ! j) < length (mt_path (J ! j))" if "j < length J" for j
    by (rule shape_task(3) [OF mail_invD(1) [OF mail_okD(1) [OF Cons.prems(1)]] that])
  have "reports (cd_of J2 j h) = 0 \<and> (pursued (J ! j) h \<longrightarrow> mt_rollback_point (J2 ! j) \<le> mc_level (cd_of J j h))"
    if j: "j \<in> set (i # is)" and h: "h \<le> cur_handle (J ! j)" for j h
  proof (cases "j \<in> set is")
    case True
    have jl: "j < length J" and hl: "h < length (mt_path (J ! j))" using j Cons.prems(2) cur [of j] h by auto
    show ?thesis
      using J2(4) True h P(5) [OF jl] P(6) [OF jl hl] P(8) [OF jl hl] by metis
  next
    case False
    then have j: "j = i" using j by simp
    then have hl: "h < length (mt_path (J ! i))" using cur [OF i] h by simp
    have e: "events (cd_of J1 i h) = 0" using J1(4) h j by simp
    then have "reports (cd_of J1 i h) = 0" using reports_le_events [of "cd_of J1 i h"] by simp
    then have "reports (cd_of J2 i h) = 0" using Q(7) [of i h] i hl P(2,4) by simp
    moreover have "mt_rollback_point (J2 ! i) \<le> mc_level (cd_of J i h)" if "pursued (J ! i) h"
      using P(6) [OF i hl that] e Q(3) [of i] P(2) P(8) [OF i hl] i by (auto simp: pursued_def intro: order_trans)
    ultimately show ?thesis using j by simp
  qed
  then show ?case using J1(1) J2(1,2) progresses_trans [OF p J2(3)] by (simp add: run_checks_def)
qed

section \<open>Reporting an error\<close>

text \<open>Room for one more report in every counter.\<close>

definition roomy :: "job \<Rightarrow> bool" where
  "roomy J \<longleftrightarrow> (\<forall>j < length J. unat (mt_pendingFlag (J ! j)) + reports_of J + 2 < 2 ^ 32)"

lemma mail_inv_tighten:
  assumes "mail_inv s J" "\<And>j. j < length J \<Longrightarrow> unat (mt_pendingFlag (J ! j)) + reports_of J < 2 ^ 32 + s' j"
  shows "mail_inv s' J"
  using assms unfolding mail_inv_def by blast

lemma mail_ok_report:
  assumes K: "mail_ok J" and R: "roomy J" and g: "g < length J" and h: "h < length (mt_path (J ! g))"
    and p: "mt_path t' = (mt_path (J ! g))[h := c']" and f: "frame c' = frame (cd_of J g h)"
    and n: "mt_pendingFlag t' = mt_pendingFlag (J ! g) + 1" "mt_handled_event_count t' = mt_handled_event_count (J ! g)"
      "mt_rollback_point t' = mt_rollback_point (J ! g)"
    and ok: "cd_ok (cur_handle (J ! g)) h c'" and ev: "events c' \<le> events (cd_of J g h) + 1" "0 < events c'"
    and re: "reports c' \<le> reports (cd_of J g h) + 1"
  shows "mail_ok (J[g := t']) \<and> frames (J[g := t']) = frames J \<and> pursued (J[g := t'] ! g) h \<and>
    (\<forall>j < length J. mt_rollback_point (J[g := t'] ! j) = mt_rollback_point (J ! j))"
proof -
  let ?J = "J[g := t']"
  have "unat (mt_pendingFlag (J ! g)) + 1 < 2 ^ 32" using R g by (force simp: roomy_def)
  note u = unat_pending_Suc [OF this]
  have "mail_inv (\<lambda>_. 2) ?J"
    by (rule mail_inv_update [OF mail_okD(1) [OF K] g h p f ok]) (use n u ev re in simp_all)
  then have "mail_inv (\<lambda>_. 0) ?J"
  proof (rule mail_inv_tighten)
    fix j assume "j < length ?J"
    then have j: "unat (mt_pendingFlag (J ! j)) + reports_of J + 2 < 2 ^ 32" "j < length J" using R by (simp_all add: roomy_def)
    have "reports_of ?J \<le> reports_of J + 1" using reports_of_update [OF g h p] re by simp
    moreover have "unat (mt_pendingFlag (?J ! j)) \<le> unat (mt_pendingFlag (J ! j)) + 1"
      using n(1) u j(2) by (cases "j = g") simp_all
    ultimately show "unat (mt_pendingFlag (?J ! j)) + reports_of ?J < 2 ^ 32 + 0" using j(1) by linarith
  qed
  moreover have "mt_handled_event_count (?J ! j) = 0" if "j < length J" for j
    using mail_okD(2) [OF K that] n(2) that by (cases "j = g") simp_all
  moreover have "mt_rollback_point (?J ! j) = mt_rollback_point (J ! j)" if "j < length J" for j
    using n(3) that by (cases "j = g") simp_all
  ultimately show ?thesis
    using frames_update [OF g h p f] g h p ev(2) by (simp add: mail_ok_def pursued_def)
qed

lemma SetMailBox_report:
  assumes K: "mail_ok J" and R: "roomy J" and i: "i < length J" and h: "h < length (mt_path (J ! i))"
    and z: "task_size (cd_of J i h) > 1" and g: "g = mc_group (cd_of J i h) ! mc_head (cd_of J i h)"
    and cg: "h \<le> cur_handle (J ! g)"
  shows "\<exists>J'. SetMailBox i h kErrorOccurred J = Inr J' \<and> mail_ok J' \<and> frames J' = frames J \<and> pursued (J' ! g) h \<and>
    (\<forall>j < length J. mt_rollback_point (J' ! j) = mt_rollback_point (J ! j))"
proof -
  note I = mail_okD(1) [OF K] note S = mail_invD(1) [OF I]
  let ?c = "cd_of J i h" let ?d = "cd_of J g h" let ?t = "J ! g"
  note sh = shape_cd [OF S i h] note mem = shape_member [OF S i h sh(5) g]
  note ok = mail_invD(2) [OF I mem(1,2)]
  have hd: "mail_IsHead ?d" "task_size ?d > 1" using mem z by (simp_all add: mail_IsHead_def task_size_def)
  have len: "length (mc_event_flag ?d) = task_size ?d" using shape_cd(7) [OF S mem(1,2) hd(2)] hd(1) by simp
  have coarse: "coarse_cd (J ! i) h = Inr h" using coarse_cd_shape [OF S i h] z by (metis less_irrefl le_neq_implies_less order_refl)
  show ?thesis
  proof (cases "mail_IsHead ?c")
    case True
    then have gi: "g = i" using g sh(4) by (simp add: mail_IsHead_def)
    let ?k = "mc_task_in_color ?c"
    let ?c' = "?c\<lparr>mc_cd_event := mc_cd_event ?c @ [HandleErrorOccurred 0], mc_event_flag := (mc_event_flag ?c)[?k := 0], mc_error_occurred := True\<rparr>"
    let ?t' = "(J ! i)\<lparr>mt_pendingFlag := mt_pendingFlag (J ! i) + 1, mt_path := (mt_path (J ! i))[h := ?c']\<rparr>"
    have k: "?k < length (mc_event_flag ?c)" using sh(3) len gi by simp
    have "mc_event_flag ?c ! ?k = 0 \<or> mc_event_flag ?c ! ?k = err" using cd_okD(1) [OF ok, of "mc_event_flag ?c ! ?k"] k hd(1) gi by simp
    then have "mc_event_flag ?c ! ?k AND NOT err = 0" by auto
    then have r: "SetMailBox i h kErrorOccurred J = Inr (J[i := ?t'])"
      using True coarse k i h
      by (simp add: SetMailBox_def LocalSetMailBox_def Let_def clear_flag_def on_flag_def push_event_def on_cd_def on_task_def
          IncPendingCounter_def)
    have p: "mt_path ?t' = (mt_path (J ! i))[h := ?c']" and f: "frame ?c' = frame ?c" by (simp_all add: frame_def)
    have fl: "length (filter (\<lambda>x. x \<noteq> 0) ((mc_event_flag ?c)[?k := 0])) \<le> length (filter (\<lambda>x. x \<noteq> 0) (mc_event_flag ?c))"
      using flags_update [OF k, of 0] by simp
    have v: "events ?c' \<le> events ?c + 1" "0 < events ?c'" "reports ?c' \<le> reports ?c + 1" "cd_ok (cur_handle (J ! i)) h ?c'"
      using fl ok gi z cg True
      by (auto simp add: events_def reports_def flags_set_def mail_IsHead_def cd_ok_def task_size_def dest: set_update_subset_insert [THEN subsetD])
    show ?thesis using mail_ok_report [OF K R i h p f _ _ _ v(4,1,2,3)] r gi by simp
  next
    case False
    let ?k = "mc_task_in_color ?c"
    let ?c' = "?d\<lparr>mc_event_flag := (mc_event_flag ?d)[?k := err]\<rparr>"
    let ?t' = "?t\<lparr>mt_pendingFlag := mt_pendingFlag ?t + 1, mt_path := (mt_path ?t)[h := ?c']\<rparr>"
    have k: "?k < length (mc_event_flag ?d)" using sh(3) len mem(3) by (simp add: task_size_def)
    have "mc_event_flag ?d ! ?k = 0 \<or> mc_event_flag ?d ! ?k = err" using cd_okD(1) [OF ok, of "mc_event_flag ?d ! ?k"] k hd(1) by simp
    then have "mc_event_flag ?d ! ?k OR err = err" by auto
    then have r: "SetMailBox i h kErrorOccurred J = Inr (J[g := ?t'])"
      using False coarse k mem(1,2) g sh(5)
      by (simp add: SetMailBox_def RemoteSetMailBox_def Let_def global_rank_def acc_pending_def acc_mailbox_def on_flag_def on_cd_def
          on_task_def mail_IsHead_def task_size_def)
    have p: "mt_path ?t' = (mt_path ?t)[h := ?c']" and f: "frame ?c' = frame ?d" by (simp_all add: frame_def)
    have fl: "length (filter (\<lambda>x. x \<noteq> 0) ((mc_event_flag ?d)[?k := err])) \<le> length (filter (\<lambda>x. x \<noteq> 0) (mc_event_flag ?d)) + 1"
      using flags_update [OF k, of err] by simp
    have nz: "filter (\<lambda>x. x \<noteq> 0) ((mc_event_flag ?d)[?k := err]) \<noteq> []"
    proof -
      have "err \<in> set (filter (\<lambda>x. x \<noteq> 0) ((mc_event_flag ?d)[?k := err]))"
        using set_update_memI [OF k, of err] event_words(1) by simp
      then show ?thesis by (rule member_ne)
    qed
    have v: "events ?c' \<le> events ?d + 1" "0 < events ?c'" "reports ?c' \<le> reports ?d + 1" "cd_ok (cur_handle ?t) h ?c'"
      using fl ok hd nz
      by (auto simp add: events_def reports_def flags_set_def mail_IsHead_def cd_ok_def task_size_def
          dest: set_update_subset_insert [THEN subsetD])
    show ?thesis using mail_ok_report [OF K R mem(1,2) p f _ _ _ v(4,1,2,3)] r by simp
  qed
qed

lemma mail_ok_rollback:
  assumes "mail_ok J" "i < length J"
  shows "mail_ok (J[i := (J ! i)\<lparr>mt_rollback_point := r\<rparr>])" "frames (J[i := (J ! i)\<lparr>mt_rollback_point := r\<rparr>]) = frames J"
proof -
  let ?t' = "(J ! i)\<lparr>mt_rollback_point := r\<rparr>"
  note I = mail_okD(1) [OF assms(1)]
  have z: "0 < length (mt_path (J ! i))" using shape_task(1) [OF mail_invD(1) [OF I] assms(2)] by simp
  have p: "mt_path ?t' = (mt_path (J ! i))[0 := cd_of J i 0]" by simp
  have "mail_inv (\<lambda>_. 0) (J[i := ?t'])"
    by (rule mail_inv_update [OF I assms(2) z p refl mail_invD(2) [OF I assms(2) z]]) simp_all
  moreover have "mt_handled_event_count (J[i := ?t'] ! j) = 0" if "j < length J" for j
    using mail_okD(2) [OF assms(1) that] that by (cases "j = i") simp_all
  ultimately show "mail_ok (J[i := ?t'])" by (simp add: mail_ok_def)
  show "frames (J[i := ?t']) = frames J" by (rule frames_update [OF assms(2) z p refl])
qed

lemma local_rollback:
  assumes K: "mail_ok J" and i: "i < length J" and h: "h \<le> cur_handle (J ! i)" and z: "task_size (cd_of J i h) > 1"
  shows "drop_ret (mail_SetRollbackPoint i h (mc_level (cd_of J i h)) False J) =
    Inr (J[i := (J ! i)\<lparr>mt_rollback_point := min (mc_level (cd_of J i h)) (mt_rollback_point (J ! i))\<rparr>])"
  using shape_levels(2) [OF mail_invD(1) [OF mail_okD(1) [OF K]] i h] z i
  by (simp add: drop_ret_def mail_SetRollbackPoint_def set_rollback_coarse_def Let_def acc_rollback_def on_task_def)

text \<open>
  A failed assertion of any task of a domain is pursued by the head of the domain, whether the
  domain is the current one or an outer one.
\<close>

lemma failed_Assert:
  assumes K: "mail_ok J" and R: "roomy J" and i: "i < length J" and h: "h \<le> cur_handle (J ! i)"
    and z: "task_size (cd_of J i h) > 1" and g: "g = mc_group (cd_of J i h) ! mc_head (cd_of J i h)"
    and cg: "h \<le> cur_handle (J ! g)"
  shows "\<exists>J'. mail_Assert i h False J = Inr J' \<and> mail_ok J' \<and> frames J' = frames J \<and> pursued (J' ! g) h"
proof -
  note S = mail_invD(1) [OF mail_okD(1) [OF K]]
  note lv = shape_levels [OF S i h] note sh = shape_cd [OF S i lv(1)] note mem = shape_member [OF S i lv(1) sh(5) g]
  have "\<exists>J1. (let c = cd_of J i h; current_lv = mc_level (cd_of J i (cur_handle (J ! i))) in
           if current_lv = mc_level c then
             if task_size c > 1 \<and> \<not> mail_IsHead c then SetMailBox i h kErrorOccurred J
             else drop_ret (mail_SetRollbackPoint i h (mc_level c) False J)
           else if mc_level c < current_lv then
             bind_out (if task_size c > 1 then SetMailBox i h kErrorOccurred J else Inr J) (\<lambda>J.
               drop_ret (mail_SetRollbackPoint i h (mc_level c) False J))
           else Inl (ErrorMessage ''(leaf) < (failed level)'')) = Inr J1 \<and>
       mail_ok J1 \<and> frames J1 = frames J \<and> pursued (J1 ! g) h"
  proof (cases "mc_level (cd_of J i (cur_handle (J ! i))) = mc_level (cd_of J i h)")
    case True
    show ?thesis
    proof (cases "mail_IsHead (cd_of J i h)")
      case hd: True
      then have "g = i" using g sh(4) by (simp add: mail_IsHead_def)
      then show ?thesis
        using True hd local_rollback [OF K i h z] mail_ok_rollback [OF K i] i by (simp add: Let_def pursued_def)
    next
      case False
      then show ?thesis using True z SetMailBox_report [OF K R i lv(1) z g cg] by (auto simp: Let_def)
    qed
  next
    case False
    then have lt: "mc_level (cd_of J i h) < mc_level (cd_of J i (cur_handle (J ! i)))" using lv(4) by auto
    obtain J1 where J1: "SetMailBox i h kErrorOccurred J = Inr J1" "mail_ok J1" "frames J1 = frames J" "pursued (J1 ! g) h"
      using SetMailBox_report [OF K R i lv(1) z g cg] by blast
    have f: "frame (cd_of J1 i h) = frame (cd_of J i h)" by (rule frames_cd(2) [OF J1(3) i lv(1)])
    have i1: "i < length J1" using frames_length [OF J1(3)] i by simp
    have l: "mc_level (cd_of J i h) = mc_level (cd_of J1 i h)" "task_size (cd_of J1 i h) > 1"
      using frame_eqD(1,8) [OF f] z by simp_all
    let ?r = "min (mc_level (cd_of J1 i h)) (mt_rollback_point (J1 ! i))"
    let ?J2 = "J1[i := (J1 ! i)\<lparr>mt_rollback_point := ?r\<rparr>]"
    have "drop_ret (mail_SetRollbackPoint i h (mc_level (cd_of J i h)) False J1) = Inr ?J2"
      unfolding l(1) using local_rollback [OF J1(2) i1 _ l(2)] h frames_cur [OF J1(3) i] by simp
    moreover have "pursued (?J2 ! g) h" using J1(4) i1 by (cases "g = i") (auto simp: pursued_def)
    ultimately show ?thesis
      using False lt z J1(1) mail_ok_rollback [OF J1(2) i1] J1(3) by (simp add: Let_def)
  qed
  then obtain J1 where J1: "mail_Assert i h False J = CheckMailBox i J1" "mail_ok J1" "frames J1 = frames J" "pursued (J1 ! g) h"
    using current_cd_shape [OF S i] by (auto simp: mail_Assert_def Let_def)
  have i1: "i < length J1" "g < length J1" "h < length (mt_path (J1 ! g))"
    using frames_length [OF J1(3)] i mem(1,2) frames_cd(1) [OF J1(3) mem(1)] by simp_all
  obtain J2 where J2: "CheckMailBox i J1 = Inr J2" "mail_ok J2" "evolves i J1 J2" using CheckMailBox_total [OF J1(2) i1(1)] by blast
  then show ?thesis
    using J1 evolvesD(1) [OF J2(3)] evolvesD(7) [OF J2(3) i1(2,3) J1(4)] by simp
qed

text \<open>
  C4.  A failure is agreed upon.  When any task of a domain with several tasks fails an assertion and
  the tasks of the domain then synchronise, every call returns, and whatever the order in
  which the tasks look into their mailboxes before and after the fence, the minimum of the rollback
  points is at most the level of the domain: no task completes the domain unaware of
  the failure.
\<close>

theorem failure_agreed:
  assumes "mail_ok J" and "roomy J" and "i < length J" and "h \<le> cur_handle (J ! i)"
    and "grp = mc_group (cd_of J i h)" and "length grp > 1"
    and "g = grp ! mc_head (cd_of J i h)" and "h \<le> cur_handle (J ! g)"
    and "set before \<subseteq> {..<length J}" and "set after \<subseteq> {..<length J}" and "g \<in> set before \<union> set after"
  shows "\<exists>J1 J2 rollback_point. mail_Assert i h False J = Inr J1 \<and> mail_SyncCDs grp before after J1 = Inr (J2, rollback_point) \<and>
    mail_ok J2 \<and> rollback_point \<le> mc_level (cd_of J i h)"
proof -
  have z: "task_size (cd_of J i h) > 1" using assms(5,6) by (simp add: task_size_def)
  note S = mail_invD(1) [OF mail_okD(1) [OF assms(1)]] note lv = shape_levels [OF S assms(3,4)]
  note sh = shape_cd [OF S assms(3) lv(1)] note mem = shape_member [OF S assms(3) lv(1) sh(5) assms(7) [unfolded assms(5)]]
  obtain J1 where J1: "mail_Assert i h False J = Inr J1" "mail_ok J1" "frames J1 = frames J" "pursued (J1 ! g) h"
    using failed_Assert [OF assms(1-4) z assms(7) [unfolded assms(5)] assms(8)] by blast
  have n: "length J1 = length J" "h \<le> cur_handle (J1 ! g)" "h < length (mt_path (J1 ! g))"
    using frames_length [OF J1(3)] frames_cur [OF J1(3) mem(1)] frames_cd(1) [OF J1(3) mem(1)] assms(8) mem(2) by simp_all
  have l: "mc_level (cd_of J1 g h) = mc_level (cd_of J i h)"
    using frame_eqD(1) [OF frames_cd(2) [OF J1(3) mem(1,2)]] shape_cd(1) [OF S mem(1,2)] sh(1) by simp
  obtain J2 where J2: "run_checks before J1 = Inr J2" "mail_ok J2" "progresses J1 J2"
    "g \<in> set before \<Longrightarrow> mt_rollback_point (J2 ! g) \<le> mc_level (cd_of J1 g h)"
    using run_checks_total [OF J1(2), of before] assms(9) n J1(4) by auto
  note P = progressesD [OF J2(3)]
  have g1: "g < length J1" using mem(1) n(1) by simp
  obtain J3 where J3: "run_checks after J2 = Inr J3" "mail_ok J3" "progresses J2 J3"
    "g \<in> set after \<Longrightarrow> mt_rollback_point (J3 ! g) \<le> mc_level (cd_of J2 g h)"
    using run_checks_total [OF J2(2), of after] assms(10) n P(2) P(5) [OF g1] P(6) [OF g1 n(3) J1(4)] by auto
  have "mt_rollback_point (J3 ! g) \<le> mc_level (cd_of J i h)"
    using assms(11) J2(4) J3(4) progressesD(3) [OF J3(3), of g] P(2) P(8) [OF g1 n(3)] g1 l by (auto intro: order_trans)
  moreover have "g \<in> set grp" using assms(5,7) sh(5) by (simp add: task_size_def)
  then have "Min (set (map (\<lambda>i. mt_rollback_point (J3 ! i)) grp)) \<le> mt_rollback_point (J3 ! g)"
    by (intro Min_le) auto
  ultimately have "Min (set (map (\<lambda>i. mt_rollback_point (J3 ! i)) grp)) \<le> mc_level (cd_of J i h)"
    by (rule order_trans [rotated])
  then show ?thesis using J1(1) J2(1) J3(1,2) assms(6) by (simp add: mail_SyncCDs_def)
qed


text \<open>A job of two tasks in one domain.\<close>

definition two_tasks :: job where
  "two_tasks =
     (let c = \<lparr>mc_level = 0, mc_exec_mode = kExecution, mc_task_in_color = 0, mc_head = 0, mc_group = [0, 1],
                mc_event_flag = [0, 0], mc_cd_event = [], mc_error_occurred = False, mc_window_reused = False\<rparr>;
          t = \<lparr>mt_pendingFlag = 0, mt_rollback_point = INVALID_ROLLBACK_POINT, mt_handled_event_count = 0, mt_path = [c]\<rparr> in
      [t, t\<lparr>mt_path := [c\<lparr>mc_task_in_color := 1, mc_event_flag := [0]\<rparr>]\<rparr>])"

lemma two_tasks_ok: "mail_ok two_tasks" "roomy two_tasks"
  by (simp_all add: mail_ok_def mail_inv_def shape_def cd_shape_def cd_ok_def two_tasks_def frames_def frame_def task_size_def mail_IsHead_def
      events_of_def reports_of_def events_def reports_def flags_set_def roomy_def less_Suc_eq all_conj_distrib)

theorem failure_agreed_witness:
  "\<exists>J1 J2 rollback_point. mail_Assert 1 0 False two_tasks = Inr J1 \<and>
    mail_SyncCDs [0, 1] [0, 1, 0, 1] [1, 0] J1 = Inr (J2, rollback_point) \<and> mail_ok J2 \<and> rollback_point \<le> 0"
  using failure_agreed [of two_tasks 1 0 "[0, 1]" 0 "[0, 1, 0, 1]" "[1, 0]"] two_tasks_ok
  by (simp add: two_tasks_def cur_handle_def)


section \<open>Every call returns\<close>

lemma local_rollback_any:
  assumes K: "mail_ok J" and i: "i < length J" and h: "h \<le> cur_handle (J ! i)" and lv: "lv \<noteq> INVALID_ROLLBACK_POINT"
    and root: "length J = 1 \<or> task_size (cd_of J i 0) > 1"
  shows "mail_SetRollbackPoint i h lv False J =
    Inr (J[i := (J ! i)\<lparr>mt_rollback_point := min lv (mt_rollback_point (J ! i))\<rparr>],
         if task_size (cd_of J i h) > 1 \<or> length J \<noteq> 1 then min lv (mt_rollback_point (J ! i)) else lv)"
proof -
  note S = mail_invD(1) [OF mail_okD(1) [OF K]] note l = shape_levels [OF S i h]
  obtain c where c: "c \<le> h" "coarse_cd (J ! i) h = Inr c" "task_size (cd_of J i c) \<noteq> 1 \<or> c = 0"
    using coarse_cd_shape [OF S i l(1)] by blast
  have "task_size (cd_of J i c) > 1" if "length J \<noteq> 1"
    using c(1,3) root that shape_cd(3) [OF S i, of c] l(1) by (cases "c = 0") auto
  then show ?thesis
    using lv i c(2) by (auto simp: mail_SetRollbackPoint_def set_rollback_coarse_def Let_def acc_rollback_def on_task_def)
qed

text \<open>
  C15.  Assertions and mailboxes are type safe.  In a well-formed job an assertion, whether it holds or
  fails, of a domain with any number of tasks, current or outer, always returns: no
  assertion of the library fires, no window is accessed out of its range, no handler without a
  domain is called, and the job is well-formed again with the same domains and windows.
\<close>

theorem Assert_type:
  assumes "mail_ok J" and "roomy J" and "i < length J" and "h \<le> cur_handle (J ! i)"
    and "length J = 1 \<or> task_size (cd_of J i 0) > 1"
    and "h \<le> cur_handle (J ! (mc_group (cd_of J i h) ! mc_head (cd_of J i h)))"
  shows "\<exists>J'. mail_Assert i h test J = Inr J' \<and> mail_ok J' \<and> frames J' = frames J"
proof (cases "test \<or> task_size (cd_of J i h) \<le> 1")
  case True
  note S = mail_invD(1) [OF mail_okD(1) [OF assms(1)]] note lv = shape_levels [OF S assms(3,4)]
  let ?lv = "mc_level (cd_of J i h)"
  let ?J = "if test then J else J[i := (J ! i)\<lparr>mt_rollback_point := min ?lv (mt_rollback_point (J ! i))\<rparr>]"
  have "mc_level (cd_of J i h) \<le> mc_level (cd_of J i (cur_handle (J ! i)))" using lv(4) by auto
  then have "mail_Assert i h test J = CheckMailBox i ?J"
    using True local_rollback_any [OF assms(1,3,4) lv(2) assms(5)] current_cd_shape [OF S assms(3)]
    by (auto simp: mail_Assert_def Let_def drop_ret_def)
  moreover have "mail_ok ?J" "frames ?J = frames J" "i < length ?J"
    using assms(1,3) mail_ok_rollback [OF assms(1,3)] by simp_all
  ultimately show ?thesis using CheckMailBox_total [of ?J i] evolvesD(1) by (metis (no_types, lifting))
next
  case False
  then show ?thesis using failed_Assert [OF assms(1-4) _ refl assms(6)] by auto
qed

theorem Assert_type_witness: "\<exists>J'. mail_Assert 1 0 False two_tasks = Inr J' \<and> mail_ok J' \<and> frames J' = frames two_tasks"
  using Assert_type [of two_tasks 1 0 False] two_tasks_ok by (simp add: two_tasks_def cur_handle_def task_size_def)

section \<open>Beginning a domain\<close>

lemma quiet_checks:
  assumes "mail_ok J" "set is \<subseteq> {..<length J}"
    "\<forall>j \<in> set is. \<forall>h < length (mt_path (J ! j)). h \<le> cur_handle (J ! j) \<and> reports (cd_of J j h) = 0"
  shows "\<exists>J'. run_checks is J = Inr J' \<and> mail_ok J' \<and> progresses J J' \<and> (\<forall>j. j \<notin> set is \<longrightarrow> J' ! j = J ! j) \<and>
    (\<forall>j \<in> set is. \<forall>h < length (mt_path (J ! j)). events (cd_of J' j h) = 0)"
  using assms
proof (induction "is" arbitrary: J)
  case Nil
  then show ?case by (simp add: run_checks_def progresses_def)
next
  case (Cons x xs)
  have x: "x < length J" using Cons.prems(2) by simp
  obtain J1 where J1: "CheckMailBox x J = Inr J1" "mail_ok J1" "evolves x J J1"
    "\<And>h. h \<le> cur_handle (J ! x) \<Longrightarrow> events (cd_of J1 x h) = 0"
    using CheckMailBox_total [OF Cons.prems(1) x] by blast
  note E = evolvesD [OF J1(3)]
  have o: "J1 ! j = J ! j" if "j \<noteq> x" for j using E(9) Cons.prems(3) [rule_format, of x] that by simp
  have q: "h \<le> cur_handle (J1 ! j) \<and> reports (cd_of J1 j h) = 0" if "j \<in> set xs" "h < length (mt_path (J1 ! j))" for j h
  proof (cases "j = x")
    case True
    then show ?thesis using that(2) E(6) [OF x] Cons.prems(3) [rule_format, of x h] E(8) [OF x, of h] frames_cur [OF E(1) x] by simp
  next
    case False
    then show ?thesis using that o [OF False] Cons.prems(3) [rule_format, of j h] by simp
  qed
  obtain J' where J': "run_checks xs J1 = Inr J'" "mail_ok J'" "progresses J1 J'" "\<And>j. j \<notin> set xs \<Longrightarrow> J' ! j = J1 ! j"
    "\<And>j h. j \<in> set xs \<Longrightarrow> h < length (mt_path (J1 ! j)) \<Longrightarrow> events (cd_of J' j h) = 0"
    using Cons.IH [OF J1(2)] q Cons.prems(2) E(2) by auto
  have "events (cd_of J' j h) = 0" if "j \<in> set (x # xs)" "h < length (mt_path (J ! j))" for j h
  proof (cases "j \<in> set xs")
    case True
    then show ?thesis using J'(5) that(2) E(6) Cons.prems(2) by auto
  next
    case False
    then have "j = x" using that(1) by simp
    then show ?thesis using J'(4) [OF False] J1(4) [of h] Cons.prems(3) [rule_format, of x h] that(2) by simp
  qed
  moreover have "progresses J J'" by (rule progresses_trans [OF evolves_progresses [OF J1(3)] J'(3)])
  moreover have "J' ! j = J ! j" if "j \<notin> set (x # xs)" for j using J'(4) [of j] o [of j] that by simp
  moreover have "run_checks (x # xs) J = Inr J'" using J1(1) J'(1) by (simp add: run_checks_def)
  ultimately show ?case using J'(2) by blast
qed


definition begin_point :: "uint32 \<Rightarrow> uint32 \<Rightarrow> uint32" where
  "begin_point level new_rollback_point = (if new_rollback_point < level then new_rollback_point else INVALID_ROLLBACK_POINT)"

lemma cur_handle_rollback [simp]: "cur_handle (t\<lparr>mt_rollback_point := r\<rparr>) = cur_handle t"
  by (simp add: cur_handle_def)

lemma begin_resets:
  assumes "mail_ok J"
    "\<forall>i \<in> set is. i < length J \<and> h \<le> cur_handle (J ! i) \<and> task_size (cd_of J i h) > 1 \<and> new \<le> mt_rollback_point (J ! i)"
  shows "\<exists>J'. fold_out (begin_one h new) is J = Inr J' \<and> mail_ok J' \<and> length J' = length J \<and>
    (\<forall>i. mt_path (J' ! i) = mt_path (J ! i)) \<and> (\<forall>i. i \<notin> set is \<longrightarrow> J' ! i = J ! i) \<and>
    (\<forall>i \<in> set is. mt_rollback_point (J' ! i) = begin_point (mc_level (cd_of J i h)) new)"
  using assms
proof (induction "is" arbitrary: J)
  case (Cons x xs)
  let ?v = "begin_point (mc_level (cd_of J x h)) new"
  let ?J = "J[x := (J ! x)\<lparr>mt_rollback_point := ?v\<rparr>]"
  have x: "x < length J" "h \<le> cur_handle (J ! x)" "task_size (cd_of J x h) > 1" "new \<le> mt_rollback_point (J ! x)"
    using Cons.prems(2) by simp_all
  have s: "begin_one h new x J = Inr ?J"
    using x by (simp add: begin_one_def mail_SetRollbackPoint_def set_rollback_coarse_def Let_def acc_rollback_def on_task_def
        begin_point_def min_def)
  have p: "mt_path (?J ! i) = mt_path (J ! i)" for i using x(1) by (cases "i = x") simp_all
  have v: "new \<le> ?v" using le_INVALID [of new] by (simp add: begin_point_def)
  have "\<forall>i \<in> set xs. i < length ?J \<and> h \<le> cur_handle (?J ! i) \<and> task_size (cd_of ?J i h) > 1 \<and> new \<le> mt_rollback_point (?J ! i)"
  proof
    fix i assume "i \<in> set xs"
    then show "i < length ?J \<and> h \<le> cur_handle (?J ! i) \<and> task_size (cd_of ?J i h) > 1 \<and> new \<le> mt_rollback_point (?J ! i)"
      using Cons.prems(2) [THEN bspec, of i] x(1) v p [of i] by (cases "i = x") simp_all
  qed
  from Cons.IH [OF mail_ok_rollback(1) [OF Cons.prems(1) x(1)] this]
  obtain J' where J': "fold_out (begin_one h new) xs ?J = Inr J'" "mail_ok J'" "length J' = length ?J"
    "\<forall>i. mt_path (J' ! i) = mt_path (?J ! i)" "\<forall>i. i \<notin> set xs \<longrightarrow> J' ! i = ?J ! i"
    "\<forall>i \<in> set xs. mt_rollback_point (J' ! i) = begin_point (mc_level (cd_of ?J i h)) new"
    by (elim exE conjE) (rule that, assumption+)
  note o = J'(5) [rule_format]
  have "mt_rollback_point (J' ! i) = begin_point (mc_level (cd_of J i h)) new" if "i \<in> set (x # xs)" for i
    using that o [of i] J'(6) [rule_format, of i] x(1) p [of i] by (cases "i \<in> set xs") simp_all
  moreover have "J' ! i = J ! i" if "i \<notin> set (x # xs)" for i using that o [of i] by simp
  moreover have "mt_path (J' ! i) = mt_path (J ! i)" for i using J'(4) p by simp
  moreover have "length J' = length J" using J'(3) by simp
  ultimately show ?case unfolding fold_out.simps s bind_out_simps using J'(1,2) by blast
qed simp

lemma sync_rounds:
  assumes K: "mail_ok J" and G: "\<forall>j \<in> G. j < length J \<and> cur_handle (J ! j) = h \<and> length (mt_path (J ! j)) = Suc h"
    and b: "set before = G" and a: "set after = G"
  shows "\<exists>J'. bind_out (run_checks before J) (run_checks after) = Inr J' \<and> mail_ok J' \<and> frames J' = frames J \<and>
    (\<forall>j \<in> G. \<forall>k \<le> h. events (cd_of J' j k) = 0 \<and> (pursued (J ! j) k \<longrightarrow> mt_rollback_point (J' ! j) \<le> mc_level (cd_of J j k)))"
proof -
  have "set before \<subseteq> {..<length J}" using G b by auto
  from run_checks_total [OF K this]
  obtain J1 where J1: "run_checks before J = Inr J1" "mail_ok J1" "progresses J J1"
    "\<forall>j \<in> set before. \<forall>k \<le> cur_handle (J ! j). reports (cd_of J1 j k) = 0 \<and>
       (pursued (J ! j) k \<longrightarrow> mt_rollback_point (J1 ! j) \<le> mc_level (cd_of J j k))"
    by (elim exE conjE) (rule that, assumption+)
  note P = progressesD [OF J1(3)]
  have c: "cur_handle (J1 ! j) = h" "length (mt_path (J1 ! j)) = Suc h" "j < length J1" if "j \<in> G" for j
    using G [rule_format, OF that] P(2,4,5) by simp_all
  have R: "reports (cd_of J1 j k) = 0" "pursued (J ! j) k \<Longrightarrow> mt_rollback_point (J1 ! j) \<le> mc_level (cd_of J j k)"
    if "j \<in> G" "k \<le> h" for j k
    using J1(4) [rule_format, of j k] G [rule_format, OF that(1)] that b by simp_all
  have s: "set after \<subseteq> {..<length J1}" using c(3) a by auto
  have q: "\<forall>j \<in> set after. \<forall>k < length (mt_path (J1 ! j)). k \<le> cur_handle (J1 ! j) \<and> reports (cd_of J1 j k) = 0"
    using c R(1) a by simp
  from quiet_checks [OF J1(2) s q]
  obtain J2 where J2: "run_checks after J1 = Inr J2" "mail_ok J2" "progresses J1 J2"
    "\<forall>j \<in> set after. \<forall>k < length (mt_path (J1 ! j)). events (cd_of J2 j k) = 0"
    by (elim exE conjE) (rule that, assumption+)
  have "events (cd_of J2 j k) = 0 \<and> (pursued (J ! j) k \<longrightarrow> mt_rollback_point (J2 ! j) \<le> mc_level (cd_of J j k))"
    if j: "j \<in> G" "k \<le> h" for j k
    using J2(4) [rule_format, of j k] c [OF j(1)] a j progressesD(3) [OF J2(3) c(3) [OF j(1)]] R(2) [OF j]
    by (auto intro: order_trans)
  moreover have "frames J2 = frames J" using P(1) progressesD(1) [OF J2(3)] by simp
  ultimately show ?thesis using J1(1) J2(1,2) by simp
qed

text \<open>
  C12.  A domain begins with empty mailboxes and one rollback point.  When the tasks of a domain begin
  it together, each looking into its mailbox before and after the fence in any order,
  the call returns; afterwards no event is left for any of them at any level, they all hold the same
  rollback point, which is the one found if it lies above the domain and none otherwise, and
  it accounts for every event that was in one of their mailboxes.
\<close>

theorem Begin_agrees:
  assumes "mail_ok J" and "i < length J" and "h < length (mt_path (J ! i))" and "grp = mc_group (cd_of J i h)" and "length grp > 1"
    and "\<And>j. j \<in> set grp \<Longrightarrow> cur_handle (J ! j) = h \<and> length (mt_path (J ! j)) = Suc h"
    and "set before = set grp" and "set after = set grp"
  shows "\<exists>J' rollback_point. mail_Begin h grp before after J = Inr (J', rollback_point) \<and> mail_ok J' \<and>
    (\<forall>j \<in> set grp. mt_rollback_point (J' ! j) = (if rollback_point < of_nat h then rollback_point else INVALID_ROLLBACK_POINT) \<and>
       (\<forall>k \<le> h. events (cd_of J' j k) = 0 \<and> (events (cd_of J j k) > 0 \<longrightarrow> rollback_point \<le> of_nat k)))"
proof -
  note S = mail_invD(1) [OF mail_okD(1) [OF assms(1)]]
  have m: "j < length J" "h < length (mt_path (J ! j))" "task_size (cd_of J j h) > 1" if j: "j \<in> set grp" for j
  proof -
    obtain r where r: "r < task_size (cd_of J i h)" "j = mc_group (cd_of J i h) ! r"
      using j assms(4) by (auto simp: in_set_conv_nth task_size_def)
    show "j < length J" "h < length (mt_path (J ! j))" "task_size (cd_of J j h) > 1"
      using shape_member [OF S assms(2,3) r] assms(4,5) by (simp_all add: task_size_def)
  qed
  have "\<forall>j \<in> set grp. j < length J \<and> cur_handle (J ! j) = h \<and> length (mt_path (J ! j)) = Suc h" using m(1) assms(6) by simp
  from sync_rounds [OF assms(1) this assms(7,8)]
  obtain J2 where J2: "bind_out (run_checks before J) (run_checks after) = Inr J2" "mail_ok J2" "frames J2 = frames J"
    "\<forall>j \<in> set grp. \<forall>k \<le> h. events (cd_of J2 j k) = 0 \<and>
       (pursued (J ! j) k \<longrightarrow> mt_rollback_point (J2 ! j) \<le> mc_level (cd_of J j k))"
    by (elim exE conjE) (rule that, assumption+)
  define r where "r = Min (set (map (\<lambda>i. mt_rollback_point (J2 ! i)) grp))"
  have le: "r \<le> mt_rollback_point (J2 ! j)" if "j \<in> set grp" for j unfolding r_def using that by (intro Min_le) auto
  have lv: "mc_level (cd_of J2 j h) = of_nat h" "j < length J2 \<and> h \<le> cur_handle (J2 ! j) \<and> task_size (cd_of J2 j h) > 1"
    if j: "j \<in> set grp" for j
    using frame_eqD(1,8) [OF frames_cd(2) [OF J2(3) m(1,2) [OF j]]] shape_cd(1) [OF S m(1,2) [OF j]] m(1,3) [OF j]
      frames_length [OF J2(3)] frames_cur [OF J2(3) m(1) [OF j]] assms(6) [OF j] by simp_all
  have "\<forall>j \<in> set grp. j < length J2 \<and> h \<le> cur_handle (J2 ! j) \<and> task_size (cd_of J2 j h) > 1 \<and> r \<le> mt_rollback_point (J2 ! j)"
    using lv(2) le by simp
  from begin_resets [OF J2(2) this]
  obtain J3 where J3: "fold_out (begin_one h r) grp J2 = Inr J3" "mail_ok J3" "\<forall>i. mt_path (J3 ! i) = mt_path (J2 ! i)"
    "\<forall>j \<in> set grp. mt_rollback_point (J3 ! j) = begin_point (mc_level (cd_of J2 j h)) r"
    by (elim exE conjE) (rule that, assumption+)
  have "mail_Begin h grp before after J = Inr (J3, r)"
    using J2(1) J3(1) assms(5) by (auto simp: mail_Begin_def mail_SyncCDs_def r_def bind_out_Inr_iff)
  moreover have "mt_rollback_point (J3 ! j) = (if r < of_nat h then r else INVALID_ROLLBACK_POINT)" if "j \<in> set grp" for j
    using J3(4) [rule_format, OF that] lv(1) [OF that] by (simp only: begin_point_def)
  moreover have "events (cd_of J3 j k) = 0" if "j \<in> set grp" "k \<le> h" for j k
    using J2(4) [rule_format, OF that] J3(3) by simp
  moreover have "r \<le> of_nat k" if j: "j \<in> set grp" "k \<le> h" and ev: "events (cd_of J j k) > 0" for j k
    using J2(4) [rule_format, OF j] le [OF j(1)] ev shape_cd(1) [OF S m(1) [OF j(1)], of k] m(2) [OF j(1)] j(2)
    by (auto simp: pursued_def)
  ultimately show ?thesis using J3(2) by blast
qed


text \<open>The same job after the second task has reported an error.\<close>

definition reported :: job where
  "reported = on_task 0 (\<lambda>t. t\<lparr>mt_pendingFlag := 1\<rparr>) (on_cd 0 0 (\<lambda>c. c\<lparr>mc_event_flag := [0, err]\<rparr>) two_tasks)"

lemma reported_ok: "mail_ok reported"
  by (simp add: mail_ok_def mail_inv_def shape_def cd_shape_def cd_ok_def reported_def on_task_def on_cd_def two_tasks_def frames_def
      frame_def task_size_def mail_IsHead_def events_of_def reports_of_def events_def reports_def flags_set_def less_Suc_eq all_conj_distrib)

theorem Begin_agrees_witness:
  "\<exists>J' rollback_point. mail_Begin 0 [0, 1] [0, 1] [1, 0] reported = Inr (J', rollback_point) \<and> mail_ok J' \<and>
    rollback_point = 0 \<and> mt_rollback_point (J' ! 1) = INVALID_ROLLBACK_POINT \<and> events (cd_of J' 1 0) = 0"
proof -
  have "length (mt_path (reported ! j)) = 1 \<and> mc_exec_mode (last (mt_path (reported ! j))) = kExecution" if "j \<in> {0, 1}" for j
    using that by (auto simp: reported_def two_tasks_def on_task_def on_cd_def Let_def)
  then have c: "cur_handle (reported ! j) = 0 \<and> length (mt_path (reported ! j)) = Suc 0" if "j \<in> set [0, 1]" for j
    using that by (simp add: cur_handle_def)
  have e: "events (cd_of reported 0 0) > 0" "length reported = 2" "mc_group (cd_of reported 0 0) = [0, 1]" "length (mt_path (reported ! 0)) = 1"
    by (simp_all add: reported_def two_tasks_def on_task_def on_cd_def Let_def events_def flags_set_def)
  show ?thesis
    using Begin_agrees [OF reported_ok, of 0 0 "[0, 1]" "[0, 1]" "[1, 0]"] c e by auto
qed

section \<open>Reusing a domain\<close>

lemma InitializeMailBox_shape:
  assumes S: "shape (frames J)" and i: "i < length J" and k: "k < length (mt_path (J ! i))"
  shows "frames (InitializeMailBox i k J) = frames J" "length (InitializeMailBox i k J) = length J"
    "mt_pendingFlag (InitializeMailBox i k J ! i) = 0" "mt_rollback_point (InitializeMailBox i k J ! i) = INVALID_ROLLBACK_POINT"
    "mt_handled_event_count (InitializeMailBox i k J ! i) = mt_handled_event_count (J ! i)"
    "mc_cd_event (cd_of (InitializeMailBox i k J) i h) = mc_cd_event (cd_of J i h)"
    "h \<noteq> k \<Longrightarrow> cd_of (InitializeMailBox i k J) i h = cd_of J i h"
proof -
  let ?c = "cd_of J i k"
  let ?c' = "if mc_window_reused ?c then ?c else ?c\<lparr>mc_event_flag := (if mail_IsHead ?c
      then replicate (task_size ?c) 0 @ drop (task_size ?c) (mc_event_flag ?c) else (mc_event_flag ?c)[0 := 0])\<rparr>"
  let ?t' = "(J ! i)\<lparr>mt_pendingFlag := 0, mt_rollback_point := INVALID_ROLLBACK_POINT, mt_path := (mt_path (J ! i))[k := ?c']\<rparr>"
  have r: "InitializeMailBox i k J = J[i := ?t']"
    using i by (simp add: InitializeMailBox_def Let_def on_cd_def on_task_def)
  have "\<not> mc_window_reused ?c \<Longrightarrow> task_size ?c > 1" using shape_cd(9) [OF S i k] by blast
  then have f: "frame ?c' = frame ?c" using shape_cd(7) [OF S i k] by (simp add: frame_def)
  show "frames (InitializeMailBox i k J) = frames J" unfolding r by (rule frames_update [OF i k _ f]) simp
  show "length (InitializeMailBox i k J) = length J" "mt_pendingFlag (InitializeMailBox i k J ! i) = 0"
    "mt_rollback_point (InitializeMailBox i k J ! i) = INVALID_ROLLBACK_POINT"
    "mt_handled_event_count (InitializeMailBox i k J ! i) = mt_handled_event_count (J ! i)"
    "mc_cd_event (cd_of (InitializeMailBox i k J) i h) = mc_cd_event (cd_of J i h)"
    "h \<noteq> k \<Longrightarrow> cd_of (InitializeMailBox i k J) i h = cd_of J i h"
    unfolding r using i k by (simp_all add: nth_list_update)
qed

text \<open>
  C35.  Reusing a domain loses a report.  An event in the mailbox of a task is found by the next call of
  \<open>CheckMailBox\<close>, which moves the rollback point of the task up to the level of the event.  If the
  task first initialises a domain object again, which \<open>Create\<close> does whenever it finds one of the same
  name, the call finds nothing and changes nothing: the counter of pending events
  and the rollback point, shared by all levels of the task, have been reset, while the flag of the
  event is still set.
\<close>

theorem reuse_loses_event:
  assumes "mail_ok J" and "i < length J" and "k < length (mt_path (J ! i))" and "h \<le> cur_handle (J ! i)" and "h \<noteq> k"
    and "events (cd_of J i h) > 0" and "\<forall>l < length (mt_path (J ! i)). mc_cd_event (cd_of J i l) = []"
  shows "(\<exists>J'. CheckMailBox i J = Inr J' \<and> mt_rollback_point (J' ! i) \<le> mc_level (cd_of J i h)) \<and>
    CheckMailBox i (InitializeMailBox i k J) = Inr (InitializeMailBox i k J) \<and>
    events (cd_of (InitializeMailBox i k J) i h) > 0 \<and>
    mt_rollback_point (InitializeMailBox i k J ! i) = INVALID_ROLLBACK_POINT"
proof -
  let ?J = "InitializeMailBox i k J"
  note S = mail_invD(1) [OF mail_okD(1) [OF assms(1)]] note Z = InitializeMailBox_shape [OF S assms(2,3)]
  note lv = shape_levels [OF S assms(2,4)]
  obtain J' where J': "CheckMailBox i J = Inr J'" "evolves i J J'" "\<forall>h \<le> cur_handle (J ! i). events (cd_of J' i h) = 0"
    using CheckMailBox_total [OF assms(1,2)] by blast
  have "pursued (J' ! i) h" using evolvesD(7) [OF J'(2) assms(2) lv(1)] assms(6) by (simp add: pursued_def)
  then have "mt_rollback_point (J' ! i) \<le> mc_level (cd_of J i h)"
    using J'(3) assms(4) frame_eqD(1) [OF frames_cd(2) [OF evolvesD(1) [OF J'(2)] assms(2) lv(1)]] by (simp add: pursued_def)
  moreover have "CheckMailBox i ?J = Inr ?J"
  proof -
    have S': "shape (frames ?J)" and i': "i < length ?J" using S assms(2) Z(1,2) by simp_all
    let ?cur = "cur_handle (?J ! i)"
    have cur: "?cur < length (mt_path (?J ! i))" by (rule shape_task(3) [OF S' i'])
    obtain c where c: "c \<le> ?cur" "coarse_cd (?J ! i) ?cur = Inr c" using coarse_cd_shape [OF S' i' cur] by blast
    have "length (mt_path (?J ! i)) = length (mt_path (J ! i))" by (rule frames_cd(1) [OF Z(1) assms(2)])
    then have "\<forall>l \<in> set (rev [0..<Suc c]). length (mc_cd_event (cd_of ?J i l)) = 0"
      using assms(7) Z(6) c(1) cur by (auto simp del: upt_Suc)
    then have z: "(\<Sum>h\<leftarrow>rev [0..<Suc c]. length (mc_cd_event (cd_of ?J i h))) = 0" by (simp add: sum_list_nonneg_eq_0_iff del: upt_Suc)
    show ?thesis
      using levels_up_shape [OF S' i', of c] c cur current_cd_shape [OF S' i'] Z(3,5) mail_okD(2) [OF assms(1,2)]
      by (simp add: CheckMailBox_def z del: upt_Suc)
  qed
  ultimately show ?thesis using J'(1) Z(4,7) assms(5,6) by auto
qed

text \<open>The job with one more domain of both tasks below.\<close>

definition nested :: job where
  "nested = map (\<lambda>t. t\<lparr>mt_path := mt_path t @ map (\<lambda>c. c\<lparr>mc_level := 1, mc_event_flag := map (\<lambda>_. 0) (mc_event_flag c)\<rparr>) (mt_path t)\<rparr>) reported"

lemma nested_ok: "mail_ok nested"
  by (simp add: mail_ok_def mail_inv_def shape_def cd_shape_def cd_ok_def nested_def reported_def on_task_def on_cd_def two_tasks_def
      frames_def frame_def task_size_def mail_IsHead_def events_of_def reports_of_def events_def reports_def flags_set_def less_Suc_eq
      all_conj_distrib)

theorem reuse_loses_event_witness:
  "CheckMailBox 0 (InitializeMailBox 0 1 nested) = Inr (InitializeMailBox 0 1 nested) \<and>
    events (cd_of (InitializeMailBox 0 1 nested) 0 0) > 0"
proof -
  have "length nested = 2" "length (mt_path (nested ! 0)) = 2" "events (cd_of nested 0 0) > 0"
    "\<forall>l < 2. mc_cd_event (cd_of nested 0 l) = []"
    by (simp_all add: nested_def reported_def two_tasks_def on_task_def on_cd_def Let_def events_def flags_set_def less_Suc_eq numeral_2_eq_2)
  then show ?thesis using reuse_loses_event [OF nested_ok, of 0 1 0] by simp
qed

text \<open>A task that begins a domain of its own forgets any failure noted before.\<close>

lemma single_task_Begin_forgets:
  "mail_Begin h [i] before after J = Inr (on_task i (\<lambda>t. t\<lparr>mt_rollback_point := INVALID_ROLLBACK_POINT\<rparr>) J, INVALID_ROLLBACK_POINT)"
proof -
  have "\<not> INVALID_ROLLBACK_POINT < x" for x using le_INVALID [of x] by simp
  then show ?thesis
    by (cases "i < length J") (simp_all add: mail_Begin_def mail_SyncCDs_def begin_one_def mail_SetRollbackPoint_def on_task_def list_update_beyond)
qed

end
