(* ===== verification/CD_Vector.thy ===== *)
theory CD_Vector
  imports CD_Preserve Comm_Log_Pack
begin

text \<open>
  Objects that preserve themselves: the rest of the packer (\<open>persistence/packer.hpp\<close>,
  \<open>persistence/cd_packer.hpp\<close>), the container \<open>CDVector\<close> (\<open>cd_containers.hpp\<close>) and the branches of
  \<open>PreserveCopy\<close> and \<open>Restore\<close> (\<open>cd_internal.cc\<close>) for the mask \<open>kSerdes\<close>.

  A vector is its pointer, size and capacity in elements; its elements are bytes in the memory of the
  application.  The allocator is a parameter that gives the address and the capacity of the new
  storage.  The packer is the part of a domain that \<open>CD_Preserve\<close> models; the header
  block in front of the data is the value \<open>MagicStore\<close> that is written to it.
\<close>

unbundle bit_operations_syntax

section \<open>The packer\<close>

definition enc_entry :: "CDEntry \<Rightarrow> byte list" where
  "enc_entry e = concat (map (\<lambda>w. le_bytes 8 (unat w)) [e_id e, e_size e, e_offset e, e_src e])"

definition dec_entry :: "byte list \<Rightarrow> CDEntry" where
  "dec_entry bs = \<lparr>e_id = of_nat (nat_at 8 0 bs), e_size = of_nat (nat_at 8 8 bs),
     e_offset = of_nat (nat_at 8 16 bs), e_src = of_nat (nat_at 8 24 bs)\<rparr>"

definition write_data :: "byte list \<Rightarrow> prv_cd \<Rightarrow> (prv_cd \<times> nat) outcome" where
  "write_data bs v =
     (if bs \<noteq> [] then bind_out (Data_Write bs (v_data v)) (\<lambda>(d, off). Inr (v\<lparr>v_data := d\<rparr>, off)) else Inr (v, 0))"

text \<open>The forms of \<open>Packer::Add\<close>: with a length and an identifier, and with an entry.\<close>

definition Packer_Add :: "memory \<Rightarrow> uint64 \<Rightarrow> nat \<Rightarrow> uint64 \<Rightarrow> prv_cd \<Rightarrow> (prv_cd \<times> nat) outcome" where
  "Packer_Add m app_data len ident v =
     bind_out (write_data (read_mem m app_data len) v) (\<lambda>(v, offset).
     bind_out (Insert (SetSrc app_data \<lparr>e_id = ident, e_size = of_nat len, e_offset = of_nat offset, e_src = 0\<rparr>) (v_table v)) (\<lambda>(t, ret).
       Inr (v\<lparr>v_table := t\<rparr>, ret)))"

definition Packer_Add_entry :: "memory \<Rightarrow> uint64 \<Rightarrow> CDEntry \<Rightarrow> prv_cd \<Rightarrow> (prv_cd \<times> nat) outcome" where
  "Packer_Add_entry m src entry v =
     bind_out (write_data (read_mem m src (unat (entry_size entry))) v) (\<lambda>(v, offset).
     bind_out (Insert (SetOffset (of_nat offset) entry) (v_table v)) (\<lambda>(t, ret).
       Inr (v\<lparr>v_table := t\<rparr>, ret)))"

text \<open>\<open>DataStore::Read\<close>; the differences of positions are signed, and the destination moves by them.\<close>

definition FileRead :: "nat \<Rightarrow> nat \<Rightarrow> DataStore \<Rightarrow> byte list outcome" where
  "FileRead chunk_in_file pos d =
     bind_out (assert_out ''buf_used() >= 0'' (buf_used d \<ge> 0)) (\<lambda>_.
     bind_out (deref ''fh_'' (d_fh d)) (\<lambda>f.
     let redundant_len = pos - chunk_down pos;
         len_to_read_aligned = chunk_up (chunk_in_file + redundant_len) in
     bind_out (File_Read (replicate len_to_read_aligned 0) (chunk_down pos) f) (\<lambda>tmp.
       Inr (take chunk_in_file (drop redundant_len tmp)))))"

definition Data_Read :: "uint64 \<Rightarrow> nat \<Rightarrow> nat \<Rightarrow> DataStore \<Rightarrow> memory \<Rightarrow> memory outcome" where
  "Data_Read pto len pos d m =
     (let file_offset = d_written_len d + d_head d;
          chunk_in_file = (if len + pos \<le> file_offset then int len else int file_offset - int pos);
          chunk_in_memory = (if len + pos \<le> file_offset then 0 else int len - chunk_in_file) in
      bind_out
        (if pos < file_offset then
           bind_out (assert_out ''chunk_written_before_len >= 0'' (len \<le> d_tail d)) (\<lambda>_.
           bind_out (FileRead (nat chunk_in_file) pos d) (\<lambda>bs. Inr (write_mem pto bs m)))
         else Inr m)
        (\<lambda>m.
           let pto = pto + of_int chunk_in_file;
               src = (if chunk_in_file \<noteq> 0 then d_head d else pos - file_offset);
               chunk_in_memory = (if chunk_in_file \<noteq> 0 then chunk_in_memory else int len) in
           bind_out (if d_size d = 0 then Inl (DivByZero ''% size_'') else Inr ()) (\<lambda>_.
           if chunk_in_memory = 0 then Inr m
           else
             bind_out (deref ''ptr_'' (d_ptr d)) (\<lambda>ptr.
             bind_out (copy_out (src mod d_size d) (nat chunk_in_memory) ptr) (\<lambda>bs.
               Inr (write_mem pto bs m))))))"

definition Packer_GetAt :: "uint64 \<Rightarrow> uint64 \<Rightarrow> prv_cd \<Rightarrow> memory \<Rightarrow> (memory \<times> nat) outcome" where
  "Packer_GetAt new_char ident v m =
     (case Find_data ident (v_table v) of
        (_, None) \<Rightarrow> Inl (AssertFailed ''0'')
      | (_, Some (ret_size, ret_offset)) \<Rightarrow>
          bind_out (Data_Read new_char (unat ret_size) (unat ret_offset) (v_data v) m) (\<lambda>m. Inr (m, unat ret_size)))"

text \<open>\<open>AppendTable\<close> writes the image of the entries since \<open>advance_point_\<close> behind the data.\<close>

definition AppendTable :: "prv_cd \<Rightarrow> (prv_cd \<times> uint64) outcome" where
  "AppendTable v =
     (let t = v_table v in
      bind_out (tablesize t) (\<lambda>n.
      if n > 0 then
        bind_out (deref ''ptr_'' (t_ptr t)) (\<lambda>xs.
        bind_out (if t_size t = 0 then Inl (DivByZero ''% size_'') else Inr ()) (\<lambda>_.
        let first = t_advance_point t mod t_size t; cnt = t_tail t - t_advance_point t in
        if first + cnt \<le> length xs then
          bind_out (write_data (concat (map enc_entry (take cnt (drop first xs)))) v) (\<lambda>(v, ret). Inr (v, of_nat ret))
        else Inl (OutOfRange ''GetCurrPtr()'')))
      else Inr (v, INVALID_NUM)))"

section \<open>Restoring an entry\<close>

definition Data_Fetch :: "nat \<Rightarrow> nat \<Rightarrow> DataStore \<Rightarrow> DataStore outcome" where
  "Data_Fetch len pos d =
     bind_out (InitReadMode d) (\<lambda>d.
     bind_out (assert_out ''len > 0'' (len > 0)) (\<lambda>_.
     bind_out (FetchInternal len pos d) (\<lambda>(d, consumed, r_tail_next, r_head_next).
       FinReadMode (d\<lparr>d_r_tail := r_tail_next, d_r_head := r_head_next\<rparr>))))"

definition get_into :: "uint64 \<Rightarrow> nat \<Rightarrow> uint64 \<Rightarrow> prv_cd \<times> memory \<Rightarrow> (prv_cd \<times> memory) outcome" where
  "get_into dst len offset vm =
     (case vm of (v, m) \<Rightarrow>
        bind_out (GetData (read_mem m dst len) len (unat offset) (v_data v)) (\<lambda>(d, bs).
          Inr (v\<lparr>v_data := d\<rparr>, write_mem dst bs m)))"

fun repeat_out :: "nat \<Rightarrow> ('s \<Rightarrow> 's outcome) \<Rightarrow> 's \<Rightarrow> 's outcome" where
  "repeat_out 0 f s = Inr s"
| "repeat_out (Suc n) f s = bind_out (f s) (repeat_out n f)"

definition restore_nested :: "uint64 \<Rightarrow> CDEntry \<Rightarrow> prv_cd \<times> memory \<Rightarrow> (prv_cd \<times> memory) outcome" where
  "restore_nested dst entry vm =
     (case vm of (v, m) \<Rightarrow>
        let table_offset = e_src entry;
            data_size = table_offset - e_offset entry;
            table_size = unat (entry_size entry - data_size) in
        bind_out (Data_Fetch table_size (unat table_offset) (v_data v)) (\<lambda>d.
        bind_out (deref ''ptr_'' (d_ptr d)) (\<lambda>ptr.
        bind_out (if d_size d = 0 then Inl (DivByZero ''idx % size_'') else Inr ()) (\<lambda>_.
        bind_out (copy_out ((unat table_offset + d_head d) mod d_size d) table_size ptr) (\<lambda>_.
          repeat_out (table_size div sizeof_CDEntry)
            (get_into dst (unat (entry_size entry)) (e_offset entry)) (v\<lparr>v_data := d\<rparr>, m))))))"

definition CDPacker_Restore :: "uint64 \<Rightarrow> uint64 \<Rightarrow> nat \<Rightarrow> prv_cd \<Rightarrow> memory \<Rightarrow> (prv_cd \<times> memory \<times> CDEntry option) outcome" where
  "CDPacker_Restore tag dst len v m =
     (case Table_Find tag (v_table v) of
        None \<Rightarrow> Inr (v, m, None)
      | Some p \<Rightarrow>
          let entry = entries (v_table v) ! p in
          if e_src entry = 0 \<or> entry_size entry = 0 then Inr (v, m, Some entry)
          else
            let dst = (if dst = 0 then e_src entry else dst);
                rst_size = (if len \<noteq> 0 then len else unat (entry_size entry)) in
            bind_out
              (if \<not> Check (AttrFlag_val knested) (e_size entry) then get_into dst rst_size (e_offset entry) (v, m)
               else restore_nested dst entry (v, m))
              (\<lambda>(v, m). Inr (v, m, Some entry)))"

section \<open>Vectors\<close>

record CDVector =
  cv_elem :: nat
  cv_data :: uint64
  cv_size :: nat
  cv_capacity :: nat
  cv_name :: string
  cv_id :: uint64

definition VECTOR_INIT_NAME :: string where "VECTOR_INIT_NAME = ''V:''"

definition vec_bytes :: "memory \<Rightarrow> CDVector \<Rightarrow> byte list" where
  "vec_bytes m c = read_mem m (cv_data c) (cv_size c * cv_elem c)"

text \<open>\<open>std::vector::resize\<close>: new elements are value-initialised, in new storage when the capacity is exceeded.\<close>

definition vec_resize :: "(nat \<Rightarrow> uint64 \<times> nat) \<Rightarrow> nat \<Rightarrow> CDVector \<times> memory \<Rightarrow> CDVector \<times> memory" where
  "vec_resize alloc n cm =
     (case cm of (c, m) \<Rightarrow>
        let zeros = replicate ((n - cv_size c) * cv_elem c) 0 in
        if n \<le> cv_size c then (c\<lparr>cv_size := n\<rparr>, m)
        else if n \<le> cv_capacity c then
          (c\<lparr>cv_size := n\<rparr>, write_mem (cv_data c + of_nat (cv_size c * cv_elem c)) zeros m)
        else
          (case alloc n of (p, cap) \<Rightarrow>
             (c\<lparr>cv_data := p, cv_size := n, cv_capacity := cap\<rparr>, write_mem p (vec_bytes m c @ zeros) m)))"

text \<open>A new vector has the initial name; a copy has new storage, and no name and no identifier.\<close>

definition CDVector_ctor :: "nat \<Rightarrow> (nat \<Rightarrow> uint64 \<times> nat) \<Rightarrow> nat \<Rightarrow> memory \<Rightarrow> CDVector \<times> memory" where
  "CDVector_ctor elem alloc len m =
     (let c = \<lparr>cv_elem = elem, cv_data = 0, cv_size = 0, cv_capacity = 0, cv_name = VECTOR_INIT_NAME, cv_id = - 1\<rparr>
      in vec_resize alloc len (c, m))"

definition CDVector_copy :: "(nat \<Rightarrow> uint64 \<times> nat) \<Rightarrow> CDVector \<times> memory \<Rightarrow> CDVector \<times> memory" where
  "CDVector_copy alloc cm =
     (case cm of (c, m) \<Rightarrow>
        case if cv_size c = 0 then (0, 0) else alloc (cv_size c) of
          (p, cap) \<Rightarrow> (c\<lparr>cv_data := p, cv_capacity := cap, cv_name := [], cv_id := - 1\<rparr>, write_mem p (vec_bytes m c) m))"

definition CDVector_PreserveObject ::
  "(string \<Rightarrow> uint64) \<Rightarrow> uint32 \<Rightarrow> string option \<Rightarrow> memory \<Rightarrow> CDVector \<Rightarrow> prv_cd \<Rightarrow> (prv_cd \<times> CDVector \<times> nat) outcome" where
  "CDVector_PreserveObject hash prv_type entry_str m c v =
     (let prv_size = cv_size c * cv_elem c;
          name = (case entry_str of Some s \<Rightarrow> if cv_name c = VECTOR_INIT_NAME then cv_name c @ s else cv_name c | None \<Rightarrow> cv_name c);
          c = c\<lparr>cv_name := name, cv_id := hash name\<rparr>;
          attr = (if CHECK_TYPE prv_type (CDPrvType_val kRef) then ucast (AttrFlag_val krefer) else 0);
          entry = CDEntry_of (cv_id c) attr (of_nat prv_size) 0 (cv_data c) in
      bind_out (Packer_Add_entry m (cv_data c) entry v) (\<lambda>(v, _).
        Inr (v, c, prv_size)))"

text \<open>\<open>Deserialize\<close>; the result \<open>None\<close> is the length \<open>-1\<close> of a failed restoration.\<close>

definition CDVector_Deserialize ::
  "(string \<Rightarrow> uint64) \<Rightarrow> (nat \<Rightarrow> uint64 \<times> nat) \<Rightarrow> CDVector \<Rightarrow> prv_cd \<times> memory \<Rightarrow> (prv_cd \<times> memory \<times> CDVector \<times> nat option) outcome" where
  "CDVector_Deserialize hash alloc c vm =
     (case vm of (v, m) \<Rightarrow>
        let rst_size = cv_size c * cv_elem c in
        bind_out (assert_out ''id == id_'' (hash (cv_name c) = cv_id c)) (\<lambda>_.
        bind_out (CDPacker_Restore (cv_id c) (cv_data c) rst_size v m) (\<lambda>(v, m, pentry).
        case pentry of
          None \<Rightarrow> Inr (v, m, c, None)
        | Some entry \<Rightarrow>
            if entry_size entry = 0 then Inr (v, m, c\<lparr>cv_size := 0\<rparr>, Some rst_size)
            else if cv_elem c = 0 then Inl (DivByZero ''sizeof(T)'')
            else
              (case vec_resize alloc (unat (entry_size entry) div cv_elem c) (c, m) of
                 (c, m) \<Rightarrow> Inr (v, m, c, Some rst_size)))))"

section \<open>Preserving and restoring an object in a domain\<close>

record MagicStore =
  ms_total_size :: uint64
  ms_table_offset :: uint64
  ms_entry_type :: uint32
  ms_reserved :: uint32
  ms_reserved2 :: uint64
  ms_pad :: "byte list"

definition enc_magic :: "MagicStore \<Rightarrow> byte list" where
  "enc_magic ms = le_bytes 8 (unat (ms_total_size ms)) @ le_bytes 8 (unat (ms_table_offset ms)) @ le_bytes 4 (unat (ms_entry_type ms)) @
     le_bytes 4 (unat (ms_reserved ms)) @ le_bytes 8 (unat (ms_reserved2 ms)) @ ms_pad ms"

definition FlushMagic :: "MagicStore \<Rightarrow> DataStore \<Rightarrow> DataStore outcome" where
  "FlushMagic magic d = (if d_ftype d \<noteq> kVolatile then with_file (File_Write 0 (enc_magic magic) 0) d else Inr d)"

text \<open>
  The branch of \<open>PreserveCopy\<close> for an object that preserves itself (\<open>object\<close>).  \<open>magic\<close> is the header block in
  front of the data; the result has the position of the new entry and the block as it was written.
\<close>

definition PreserveCopy_serdes ::
  "(prv_cd \<Rightarrow> (prv_cd \<times> 'o \<times> nat) outcome) \<Rightarrow> uint32 \<Rightarrow> uint64 \<Rightarrow> MagicStore \<Rightarrow> prv_cd \<Rightarrow> (prv_cd \<times> 'o \<times> nat \<times> MagicStore) outcome" where
  "PreserveCopy_serdes object prv ident magic v =
     (let attr = (if CHECK_TYPE prv (CDPrvType_val kCoop) then AttrFlag_val kremote else 0);
          attr = (if CHECK_TYPE prv (CDPrvType_val kOutput) then AttrFlag_val koutput OR attr else attr);
          attr = attr OR AttrFlag_val knested;
          packed_offset = Data_used (v_data v) in
      bind_out (object v) (\<lambda>(v, ob, len_in_bytes).
      let table_offset = Data_used (v_data v) in
      bind_out (AppendTable v) (\<lambda>(v, magic_table_offset).
      let magic = magic\<lparr>ms_total_size := of_nat (Data_used (v_data v)), ms_table_offset := magic_table_offset, ms_entry_type := 2,
                    ms_reserved := 0x01234567, ms_reserved2 := 0x12345678\<rparr>;
          packed_total_size = of_nat (Data_used (v_data v) - packed_offset) in
      bind_out (FlushMagic magic (v_data v)) (\<lambda>d.
      let v = v\<lparr>v_data := d\<rparr> in
      bind_out (InsertEntry (CDEntry_of ident (ucast attr) packed_total_size (of_nat packed_offset) (of_nat table_offset)) (v_table v))
        (\<lambda>(t, p).
        let v = v\<lparr>v_table := t\<rparr> in
        bind_out (if v_medium v \<noteq> kDRAM then bind_out (Flush (v_data v)) (\<lambda>d. Inr (v\<lparr>v_data := d\<rparr>)) else Inr v) (\<lambda>v.
          Inr (v, ob, p, magic)))))))"

definition Restore_serdes ::
  "(prv_cd \<times> memory \<Rightarrow> (prv_cd \<times> memory \<times> 'o \<times> nat option) outcome) \<Rightarrow> (string \<Rightarrow> uint64) \<Rightarrow> uint32 \<Rightarrow> string \<Rightarrow> string \<Rightarrow>
   prv_state \<Rightarrow> (prv_state \<times> 'o) outcome" where
  "Restore_serdes object hash prv my_name ref_name s =
     (let is_ref = CHECK_TYPE prv (CDPrvType_val kRef);
          entry_id = hash my_name;
          ref_id = (if ref_name = [] then entry_id else hash ref_name);
          search_tag = (if is_ref then ref_id else entry_id) in
      bind_out (SearchEntry search_tag (AttrFlag_val knoattr) s) (\<lambda>found.
      case found of
        None \<Rightarrow> Inl (AssertFailed ''src != NULL'')
      | Some (lv, p) \<Rightarrow>
          bind_out (object (p_cds s ! lv, p_mem s)) (\<lambda>(v, m, ob, restored_len).
          bind_out (assert_out ''Not deserialized'' (restored_len \<noteq> None)) (\<lambda>_.
            Inr (modify_cd lv (\<lambda>_. v) (s\<lparr>p_mem := m\<rparr>), ob)))))"

text \<open>A domain that preserves one object after the other, the memory being what the application has made of it.\<close>

fun save_all ::
  "(string \<Rightarrow> memory \<Rightarrow> 'o \<Rightarrow> prv_cd \<Rightarrow> (prv_cd \<times> 'o \<times> nat) outcome) \<Rightarrow> (string \<Rightarrow> uint64) \<Rightarrow> uint32 \<Rightarrow>
   (memory \<times> string \<times> 'o) list \<Rightarrow> MagicStore \<Rightarrow> prv_cd \<Rightarrow> (prv_cd \<times> 'o list) outcome" where
  "save_all pres hash prv [] magic v = Inr (v, [])"
| "save_all pres hash prv ((m, name, ob) # calls) magic v =
     bind_out (PreserveCopy_serdes (pres name m ob) prv (hash name) magic v) (\<lambda>(v, ob, _, magic).
     bind_out (save_all pres hash prv calls magic v) (\<lambda>(v, obs). Inr (v, ob # obs)))"

section \<open>Images of entries\<close>

interpretation ent: fixed_codec enc_entry dec_entry sizeof_CDEntry "\<lambda>_. True"
proof
  show "length (enc_entry e) = sizeof_CDEntry" for e by (simp add: enc_entry_def sizeof_CDEntry_def)
  show "dec_entry (enc_entry e @ r) = e" for e r
    by (cases e) (simp add: enc_entry_def dec_entry_def nth_append nat_at_def unle_le_bytes)
qed

section \<open>A packer only grows\<close>

definition extends :: "prv_cd \<Rightarrow> prv_cd \<Rightarrow> bool" where
  "extends v v' \<longleftrightarrow> cd_ok v' \<and> d_written_len (v_data v') = d_written_len (v_data v) \<and>
     (\<exists>es. entries (v_table v') = entries (v_table v) @ es) \<and> (\<exists>bs. content (v_data v') = content (v_data v) @ bs)"

lemma extends_refl: "cd_ok v \<Longrightarrow> extends v v"
  by (simp add: extends_def)

lemma extends_trans: "extends v v' \<Longrightarrow> extends v' v'' \<Longrightarrow> extends v v''"
  by (auto simp: extends_def)

lemma write_data_spec:
  assumes "cd_ok v"
  shows "\<exists>v'. write_data bs v = Inr (v', if bs = [] then 0 else d_written_len (v_data v) + length (content (v_data v))) \<and>
    cd_ok v' \<and> v_table v' = v_table v \<and> content (v_data v') = content (v_data v) @ bs \<and>
    d_written_len (v_data v') = d_written_len (v_data v) \<and> v_exec_mode v' = v_exec_mode v"
proof (cases "bs = []")
  case False
  have "volatile_ok (v_data v)" using assms by (simp add: cd_ok_def)
  from Write_volatile [OF this False] obtain d where
    "Data_Write bs (v_data v) = Inr (d, d_written_len (v_data v) + length (content (v_data v)))" "volatile_ok d"
    "content d = content (v_data v) @ bs" "d_written_len d = d_written_len (v_data v)" by blast
  then show ?thesis using False assms by (auto simp: write_data_def cd_ok_def)
qed (use assms in \<open>simp add: write_data_def\<close>)

lemma insert_extends:
  assumes "cd_ok v"
  shows "\<exists>t n. Insert e (v_table v) = Inr (t, n) \<and> extends v (v\<lparr>v_table := t\<rparr>) \<and> entries t = entries (v_table v) @ [e]"
    "\<exists>t. InsertEntry e (v_table v) = Inr (t, length (entries (v_table v))) \<and> extends v (v\<lparr>v_table := t\<rparr>) \<and>
       entries t = entries (v_table v) @ [e]"
  using assms Insert_spec [of "v_table v" e] InsertEntry_spec [of "v_table v" e] by (auto simp: cd_ok_def extends_def)

lemma Packer_Add_entry_spec:
  assumes "cd_ok v"
  shows "\<exists>v' n off. Packer_Add_entry m src e v = Inr (v', n) \<and> extends v v' \<and>
    entries (v_table v') = entries (v_table v) @ [SetOffset (of_nat off) e] \<and>
    content (v_data v') = content (v_data v) @ read_mem m src (unat (entry_size e)) \<and>
    (entry_size e \<noteq> 0 \<longrightarrow> off = d_written_len (v_data v) + length (content (v_data v)))"
proof -
  let ?bs = "read_mem m src (unat (entry_size e))"
  let ?off = "if ?bs = [] then 0 else d_written_len (v_data v) + length (content (v_data v))"
  obtain v1 where v1: "write_data ?bs v = Inr (v1, ?off)" "cd_ok v1" "v_table v1 = v_table v"
    "content (v_data v1) = content (v_data v) @ ?bs" "d_written_len (v_data v1) = d_written_len (v_data v)"
    "v_exec_mode v1 = v_exec_mode v" using write_data_spec [OF assms] by blast
  obtain t n where t: "Insert (SetOffset (of_nat ?off) e) (v_table v1) = Inr (t, n)" "extends v1 (v1\<lparr>v_table := t\<rparr>)"
    "entries t = entries (v_table v1) @ [SetOffset (of_nat ?off) e]" using insert_extends(1) [OF v1(2)] by blast
  have "extends v v1" using v1 by (simp add: extends_def)
  moreover have "?bs \<noteq> []" if "entry_size e \<noteq> 0"
    using that length_read_mem [of m src "unat (entry_size e)"] by (metis length_0_conv unat_eq_zero)
  ultimately show ?thesis
    using v1 t extends_trans [of v v1 "v1\<lparr>v_table := t\<rparr>"]
    by (intro exI [of _ "v1\<lparr>v_table := t\<rparr>"] exI [of _ n] exI [of _ ?off]) (simp add: Packer_Add_entry_def del: of_nat_add)
qed

lemma AppendTable_extends:
  assumes "cd_ok v"
  shows "\<exists>v' n. AppendTable v = Inr (v', n) \<and> extends v v' \<and> v_table v' = v_table v \<and>
    length (content (v_data v')) \<le> length (content (v_data v)) + sizeof_CDEntry * length (entries (v_table v))"
proof -
  have ok: "tbl_ok (v_table v)" using assms by (simp add: cd_ok_def)
  obtain xs where xs: "t_ptr (v_table v) = Some xs" "t_size (v_table v) = length xs * sizeof_CDEntry"
    "t_tail (v_table v) \<le> length xs" "length (entries (v_table v)) = t_tail (v_table v)" using ok by (rule tbl_ok_Some)
  let ?t = "v_table v"
  have adv: "t_advance_point ?t \<le> t_tail ?t" using ok by (simp add: tbl_ok_def)
  show ?thesis
  proof (cases "t_advance_point ?t = t_tail ?t")
    case True
    then show ?thesis using assms by (simp add: AppendTable_def tablesize_def extends_refl)
  next
    case False
    then have l: "t_advance_point ?t < t_tail ?t" using adv by simp
    then have f: "t_advance_point ?t mod t_size ?t = t_advance_point ?t" "t_size ?t \<noteq> 0"
      using xs by (auto simp: sizeof_CDEntry_def)
    let ?bs = "concat (map enc_entry (take (t_tail ?t - t_advance_point ?t) (drop (t_advance_point ?t) xs)))"
    have "length ?bs \<le> sizeof_CDEntry * t_tail ?t" using xs(3) by (simp add: ent.length_encs)
    moreover obtain v1 n where "write_data ?bs v = Inr (v1, n)" "extends v v1" "v_table v1 = v_table v"
      "content (v_data v1) = content (v_data v) @ ?bs"
      using write_data_spec [OF assms, of ?bs] assms by (auto simp: extends_def)
    ultimately show ?thesis using l f xs by (auto simp: AppendTable_def tablesize_def sizeof_CDEntry_def Let_def)
  qed
qed

section \<open>Finding the first entry\<close>

lemma find_from_append:
  "find_from k i (xs @ ys) = (case find_from k i xs of None \<Rightarrow> find_from k (length xs + i) ys | Some p \<Rightarrow> Some p)"
  by (induction xs arbitrary: i) (auto split: option.splits)

lemma find_from_None: "find_from k i xs = None \<longleftrightarrow> k \<notin> e_id ` set xs"
  by (induction xs arbitrary: i) auto

lemma find_from_bound: "find_from k i xs = Some p \<Longrightarrow> i \<le> p \<and> p < i + length xs"
  by (induction xs arbitrary: i) (fastforce split: if_splits)+

lemma Find_extends:
  assumes "extends v v'" "Table_Find k (v_table v) = Some p"
  shows "Table_Find k (v_table v') = Some p" "entries (v_table v') ! p = entries (v_table v) ! p"
  using assms find_from_bound [of k 0 "entries (v_table v)" p]
  by (auto simp: extends_def Table_Find_def find_from_append nth_append)



section \<open>Memory\<close>

lemma read_mem_append: "read_mem m a (i + j) = read_mem m a i @ read_mem m (a + of_nat i) j"
proof (rule nth_equalityI)
  fix k assume k: "k < length (read_mem m a (i + j))"
  show "read_mem m a (i + j) ! k = (read_mem m a i @ read_mem m (a + of_nat i) j) ! k"
  proof (cases "k < i")
    case False
    then have "a + of_nat i + of_nat (k - i) = a + of_nat k" "k - i < j" using k by (auto simp: of_nat_diff)
    then show ?thesis using k False by (simp add: read_mem_def nth_append)
  qed (use k in \<open>simp add: read_mem_def nth_append\<close>)
qed simp

lemma read_write_below:
  assumes "i + length bs < 2 ^ 64"
  shows "read_mem (write_mem (a + of_nat i) bs m) a i = read_mem m a i"
proof (rule nth_equalityI)
  fix k assume "k < length (read_mem (write_mem (a + of_nat i) bs m) a i)"
  then have k: "k < i" by simp
  let ?w = "of_nat k - of_nat i :: uint64"
  have "\<not> unat ?w < length bs"
  proof
    assume l: "unat ?w < length bs"
    have "(of_nat (i + unat ?w) :: uint64) = of_nat k" by simp
    then have "unat (of_nat (i + unat ?w) :: uint64) = unat (of_nat k :: uint64)" by (rule arg_cong)
    then have "i + unat ?w = k" using l assms k by (simp add: unat_of_nat_small del: of_nat_add)
    then show False using k by simp
  qed
  then show "read_mem (write_mem (a + of_nat i) bs m) a i ! k = read_mem m a i ! k"
    using k by (simp add: read_mem_def write_mem_def)
qed simp

lemma read_write_two:
  assumes "length xs + length ys < 2 ^ 64"
  shows "read_mem (write_mem (a + of_nat (length xs)) ys (write_mem a xs m)) a (length xs + length ys) = xs @ ys"
  using assms read_write_below [OF assms, of a "write_mem a xs m"] read_write_mem [of xs a m]
    read_write_mem [of ys "a + of_nat (length xs)" "write_mem a xs m"]
  by (simp add: read_mem_append)

section \<open>What a packer holds of a vector\<close>

definition vec_ok :: "CDVector \<Rightarrow> bool" where
  "vec_ok c \<longleftrightarrow> cv_data c \<noteq> 0 \<and> 0 < cv_elem c \<and> 0 < cv_size c \<and> cv_size c * cv_elem c < 2 ^ 48"

definition saved :: "(string \<Rightarrow> uint64) \<Rightarrow> CDVector \<Rightarrow> prv_cd \<Rightarrow> byte list \<Rightarrow> bool" where
  "saved hash c v bs \<longleftrightarrow> hash (cv_name c) = cv_id c \<and> bs \<noteq> [] \<and> length bs < 2 ^ 48 \<and>
     (\<exists>p off. Table_Find (cv_id c) (v_table v) = Some p \<and>
       (let e = entries (v_table v) ! p in
        \<not> Check (AttrFlag_val knested) (e_size e) \<and> e_src e \<noteq> 0 \<and> unat (entry_size e) = length bs \<and>
        unat (e_offset e) = d_written_len (v_data v) + off \<and> off + length bs \<le> length (content (v_data v)) \<and>
        take (length bs) (drop off (content (v_data v))) = bs))"

lemma saved_extends:
  assumes "saved hash c v bs" "extends v v'"
  shows "saved hash c v' bs"
proof -
  obtain p off where p: "Table_Find (cv_id c) (v_table v) = Some p" and e: "let e = entries (v_table v) ! p in
      \<not> Check (AttrFlag_val knested) (e_size e) \<and> e_src e \<noteq> 0 \<and> unat (entry_size e) = length bs \<and>
      unat (e_offset e) = d_written_len (v_data v) + off \<and> off + length bs \<le> length (content (v_data v)) \<and>
      take (length bs) (drop off (content (v_data v))) = bs"
    using assms(1) unfolding saved_def by blast
  obtain cs where "content (v_data v') = content (v_data v) @ cs" using assms(2) by (auto simp: extends_def)
  then have "let e = entries (v_table v') ! p in
      \<not> Check (AttrFlag_val knested) (e_size e) \<and> e_src e \<noteq> 0 \<and> unat (entry_size e) = length bs \<and>
      unat (e_offset e) = d_written_len (v_data v') + off \<and> off + length bs \<le> length (content (v_data v')) \<and>
      take (length bs) (drop off (content (v_data v'))) = bs"
    using e Find_extends(2) [OF assms(2) p] assms(2) by (simp add: Let_def extends_def)
  then show ?thesis using assms(1) Find_extends(1) [OF assms(2) p] unfolding saved_def by blast
qed

text \<open>The name and identifier of a vector once it has been preserved under a name.\<close>

definition vec_named :: "(string \<Rightarrow> uint64) \<Rightarrow> string option \<Rightarrow> CDVector \<Rightarrow> CDVector" where
  "vec_named hash entry_str c =
     (let name = (case entry_str of Some s \<Rightarrow> if cv_name c = VECTOR_INIT_NAME then cv_name c @ s else cv_name c | None \<Rightarrow> cv_name c)
      in c\<lparr>cv_name := name, cv_id := hash name\<rparr>)"

lemma vec_named_simps [simp]:
  "cv_data (vec_named hash s c) = cv_data c" "cv_size (vec_named hash s c) = cv_size c" "cv_elem (vec_named hash s c) = cv_elem c"
  "cv_capacity (vec_named hash s c) = cv_capacity c" "hash (cv_name (vec_named hash s c)) = cv_id (vec_named hash s c)"
  by (simp_all add: vec_named_def Let_def)

lemma PreserveObject_spec:
  assumes "cd_ok v" "vec_ok c" "\<not> CHECK_TYPE prv (CDPrvType_val kRef)"
  shows "\<exists>v' off. CDVector_PreserveObject hash prv s m c v = Inr (v', vec_named hash s c, cv_size c * cv_elem c) \<and> extends v v' \<and>
    entries (v_table v') = entries (v_table v) @
      [CDEntry_of (cv_id (vec_named hash s c)) 0 (of_nat (cv_size c * cv_elem c)) (of_nat off) (cv_data c)] \<and>
    content (v_data v') = content (v_data v) @ vec_bytes m c \<and>
    off = d_written_len (v_data v) + length (content (v_data v))"
proof -
  let ?n = "cv_size c * cv_elem c" let ?e = "CDEntry_of (cv_id (vec_named hash s c)) 0 (of_nat ?n) 0 (cv_data c)"
  have n: "0 < ?n" "?n < 2 ^ 48" using assms(2) by (simp_all add: vec_ok_def)
  have sz: "unat (entry_size ?e) = ?n" "entry_size ?e \<noteq> 0"
    using n take_bit_48_small [of "of_nat ?n"] unat_of_nat_small [of ?n] by auto
  obtain v' k off where "Packer_Add_entry m (cv_data c) ?e v = Inr (v', k)" "extends v v'"
    "entries (v_table v') = entries (v_table v) @ [SetOffset (of_nat off) ?e]"
    "content (v_data v') = content (v_data v) @ read_mem m (cv_data c) (unat (entry_size ?e))"
    "off = d_written_len (v_data v) + length (content (v_data v))"
    using Packer_Add_entry_spec [OF assms(1), of m "cv_data c" ?e] sz(2) by blast
  then show ?thesis
    using assms(3) sz(1)
    by (intro exI [of _ v'] exI [of _ off])
      (simp add: CDVector_PreserveObject_def vec_named_def Let_def vec_bytes_def SetOffset_def CDEntry_of_def)
qed


definition room :: "prv_cd \<Rightarrow> bool" where
  "room v \<longleftrightarrow> d_written_len (v_data v) + length (content (v_data v)) < 2 ^ 64"

lemma room_extends: "extends v v' \<Longrightarrow> room v' \<Longrightarrow> room v"
  by (auto simp: extends_def room_def)

lemma PreserveObject_saves:
  assumes "cd_ok v" "vec_ok c" "\<not> CHECK_TYPE prv (CDPrvType_val kRef)"
  shows "\<exists>v'. CDVector_PreserveObject hash prv s m c v = Inr (v', vec_named hash s c, cv_size c * cv_elem c) \<and> extends v v' \<and>
    length (content (v_data v')) = length (content (v_data v)) + cv_size c * cv_elem c \<and>
    (\<exists>e. entries (v_table v') = entries (v_table v) @ [e] \<and> e_id e = cv_id (vec_named hash s c)) \<and>
    (cv_id (vec_named hash s c) \<notin> e_id ` set (entries (v_table v)) \<longrightarrow> room v' \<longrightarrow> saved hash (vec_named hash s c) v' (vec_bytes m c))"
proof -
  let ?n = "cv_size c * cv_elem c" let ?k = "cv_id (vec_named hash s c)"
  obtain v' off where v': "CDVector_PreserveObject hash prv s m c v = Inr (v', vec_named hash s c, ?n)" "extends v v'"
    "entries (v_table v') = entries (v_table v) @ [CDEntry_of ?k 0 (of_nat ?n) (of_nat off) (cv_data c)]"
    "content (v_data v') = content (v_data v) @ vec_bytes m c" "off = d_written_len (v_data v) + length (content (v_data v))"
    using PreserveObject_spec [OF assms] by blast
  let ?e = "CDEntry_of ?k 0 (of_nat ?n) (of_nat off) (cv_data c)"
  have n: "0 < ?n" "?n < 2 ^ 48" "cv_data c \<noteq> 0" using assms(2) by (simp_all add: vec_ok_def)
  have l: "length (vec_bytes m c) = ?n" by (simp add: vec_bytes_def)
  have "saved hash (vec_named hash s c) v' (vec_bytes m c)" if "?k \<notin> e_id ` set (entries (v_table v))" "room v'"
  proof -
    have "Table_Find ?k (v_table v') = Some (length (entries (v_table v)))"
      using that(1) v'(3) find_from_None [of ?k 0 "entries (v_table v)"] by (simp add: Table_Find_def find_from_append)
    moreover have "entries (v_table v') ! length (entries (v_table v)) = ?e" using v'(3) by simp
    moreover have "unat (entry_size ?e) = ?n"
      using n take_bit_48_small [of "of_nat ?n"] unat_of_nat_small [of ?n] by auto
    moreover have "unat (of_nat off :: uint64) = off"
      using that(2) v'(2,4,5) by (intro unat_of_nat_small) (simp add: room_def extends_def)
    moreover have "\<not> Check (AttrFlag_val knested) (e_size ?e)" by (simp add: Check_def CDEntry_of_def)
    moreover have "vec_bytes m c \<noteq> []" using l n(1) by (metis length_0_conv less_irrefl)
    ultimately show ?thesis
      using v'(2,4,5) l n unfolding saved_def extends_def
      by (auto simp: Let_def intro!: exI [of _ "length (content (v_data v))"])
  qed
  then show ?thesis using v'(1-4) l by auto
qed

section \<open>Restoring\<close>

lemma get_into_spec:
  assumes "cd_ok v" "unat offset = d_written_len (v_data v) + off" "off + len \<le> length (content (v_data v))"
  shows "get_into dst len offset (v, m) = Inr (v, write_mem dst (take len (drop off (content (v_data v)))) m)"
  using assms GetData_volatile [of "v_data v" off len "read_mem m dst len"] by (simp add: get_into_def cd_ok_def)

lemma Restore_saved:
  assumes "saved hash c v bs" "cd_ok v" "len \<le> length bs" "0 < len" "dst \<noteq> 0"
  shows "\<exists>e. CDPacker_Restore (cv_id c) dst len v m = Inr (v, write_mem dst (take len bs) m, Some e) \<and>
    unat (entry_size e) = length bs"
proof -
  obtain p off where p: "Table_Find (cv_id c) (v_table v) = Some p" and e: "let e = entries (v_table v) ! p in
      \<not> Check (AttrFlag_val knested) (e_size e) \<and> e_src e \<noteq> 0 \<and> unat (entry_size e) = length bs \<and>
      unat (e_offset e) = d_written_len (v_data v) + off \<and> off + length bs \<le> length (content (v_data v)) \<and>
      take (length bs) (drop off (content (v_data v))) = bs"
    using assms(1) unfolding saved_def by blast
  let ?e = "entries (v_table v) ! p"
  have "entry_size ?e \<noteq> 0" using e assms(3,4) by (auto simp: Let_def unat_eq_zero)
  moreover have "take len (drop off (content (v_data v))) = take len bs"
    using e assms(3) by (metis (no_types, lifting) min.absorb1 take_take)
  ultimately show ?thesis
    using e p assms(3-5) get_into_spec [OF assms(2), of "e_offset ?e" off len dst m]
    by (intro exI [of _ ?e]) (simp add: CDPacker_Restore_def Let_def)
qed

text \<open>
  Restoring a vector that has not grown since it was preserved.  Its present elements are restored; those it has
  lost come back as zeros.
\<close>

lemma Deserialize_saved:
  assumes "saved hash c v bs" "cd_ok v" "vec_ok c" "length bs = n * cv_elem c" "cv_size c \<le> n" "cv_size c = n \<or> n \<le> cv_capacity c"
  shows "\<exists>m'. CDVector_Deserialize hash alloc c (v, m) = Inr (v, m', c\<lparr>cv_size := n\<rparr>, Some (cv_size c * cv_elem c)) \<and>
    vec_bytes m' (c\<lparr>cv_size := n\<rparr>) = take (cv_size c * cv_elem c) bs @ replicate ((n - cv_size c) * cv_elem c) 0"
proof -
  let ?k = "cv_size c * cv_elem c"
  have c: "cv_data c \<noteq> 0" "0 < cv_elem c" "0 < ?k" using assms(3) by (simp_all add: vec_ok_def)
  have k: "?k \<le> length bs" using assms(4,5) by simp
  obtain e where e: "CDPacker_Restore (cv_id c) (cv_data c) ?k v m = Inr (v, write_mem (cv_data c) (take ?k bs) m, Some e)"
    "unat (entry_size e) = length bs" using Restore_saved [OF assms(1,2) k c(3,1)] by blast
  have b: "hash (cv_name c) = cv_id c" "length bs < 2 ^ 48" using assms(1) by (simp_all add: saved_def)
  have ne: "entry_size e \<noteq> 0" using e(2) k c(3) by auto
  let ?m = "write_mem (cv_data c) (take ?k bs) m"
  have d: "CDVector_Deserialize hash alloc c (v, m) =
      (case vec_resize alloc n (c, ?m) of (c, m) \<Rightarrow> Inr (v, m, c, Some ?k))"
    using e b(1) ne c(2) assms(4) by (simp add: CDVector_Deserialize_def Let_def)
  show ?thesis
  proof (cases "cv_size c = n")
    case True
    then have "vec_bytes ?m (c\<lparr>cv_size := n\<rparr>) = bs"
      using assms(4) b(2) read_write_mem [of bs "cv_data c" m] by (simp add: vec_bytes_def)
    then show ?thesis using d True assms(4) by (intro exI [of _ ?m]) (simp add: vec_resize_def)
  next
    case False
    let ?z = "replicate ((n - cv_size c) * cv_elem c) 0 :: byte list"
    let ?m' = "write_mem (cv_data c + of_nat ?k) ?z ?m"
    have l: "length (take ?k bs) = ?k" "?k + length ?z = n * cv_elem c"
      using k assms(5) by (simp_all add: diff_mult_distrib)
    have "read_mem ?m' (cv_data c) (?k + length ?z) = take ?k bs @ ?z"
      using read_write_two [of "take ?k bs" ?z "cv_data c" m] l b(2) assms(4) by simp
    then have "vec_bytes ?m' (c\<lparr>cv_size := n\<rparr>) = take ?k bs @ ?z" unfolding l(2) by (simp add: vec_bytes_def)
    moreover have "vec_resize alloc n (c, ?m) = (c\<lparr>cv_size := n\<rparr>, ?m')"
      using False assms(5,6) by (simp add: vec_resize_def Let_def)
    ultimately show ?thesis using d by (intro exI [of _ ?m']) simp
  qed
qed


section \<open>The interface of objects that preserve themselves\<close>

text \<open>
  What \<open>PreserveCopy\<close> and \<open>Restore\<close> rely on (\<open>PackerSerializable\<close>): preserving an object adds one entry under its key
  and only adds to the packer, an object that the packer holds stays held when the packer grows, and
  an object that is held can be restored.
\<close>

definition serdes_mask :: uint32 where
  "serdes_mask = prv_mask [kCopy, kSerdes]"

lemma serdes_mask: "CHECK_TYPE serdes_mask (CDPrvType_val t) \<longleftrightarrow> t \<in> {kCopy, kSerdes}"
  by (simp add: serdes_mask_def CHECK_TYPE_prv_mask)

definition searchable :: "prv_cd \<Rightarrow> uint64 \<Rightarrow> bool" where
  "searchable v k \<longleftrightarrow> (\<exists>p. FindReverse k 0 (v_table v) = Inr (Some p) \<and> \<not> Check (AttrFlag_val krefer) (e_size (entries (v_table v) ! p)))"

lemma searchable_extends:
  assumes "cd_ok v" "cd_ok v'" "searchable v k" "entries (v_table v') = entries (v_table v) @ es" "k \<notin> e_id ` set es"
  shows "searchable v' k"
proof -
  have ok: "tbl_ok (v_table v)" "tbl_ok (v_table v')" using assms(1,2) by (simp_all add: cd_ok_def)
  obtain p where p: "FindReverse k 0 (v_table v) = Inr (Some p)" "\<not> Check (AttrFlag_val krefer) (e_size (entries (v_table v) ! p))"
    using assms(3) by (auto simp: searchable_def)
  note P = tbl.look_Some [OF ok(1), THEN iffD1, OF p(1)]
  have "e_id (entries (v_table v') ! j) \<noteq> k" if "p < j" "j < length (entries (v_table v'))" for j
  proof (cases "j < length (entries (v_table v))")
    case True
    then show ?thesis using P that(1) assms(4) by (simp add: nth_append)
  next
    case False
    then have "entries (v_table v') ! j \<in> set es" using that(2) assms(4) by (simp add: nth_append)
    then show ?thesis using assms(5) by auto
  qed
  then have "FindReverse k 0 (v_table v') = Inr (Some p)"
    using P assms(4) by (intro tbl.look_Some [OF ok(2), THEN iffD2]) (auto simp: nth_append)
  moreover have "entries (v_table v') ! p = entries (v_table v) ! p" using P assms(4) by (simp add: nth_append)
  ultimately show ?thesis using p(2) by (auto simp: searchable_def)
qed

locale self_preserving =
  fixes pres :: "string \<Rightarrow> memory \<Rightarrow> 'o \<Rightarrow> prv_cd \<Rightarrow> (prv_cd \<times> 'o \<times> nat) outcome"
    and des :: "'o \<Rightarrow> prv_cd \<times> memory \<Rightarrow> (prv_cd \<times> memory \<times> 'o \<times> nat option) outcome"
    and img :: "memory \<Rightarrow> 'o \<Rightarrow> byte list"
    and valid :: "'o \<Rightarrow> bool"
    and key :: "string \<Rightarrow> 'o \<Rightarrow> uint64"
    and held :: "'o \<Rightarrow> prv_cd \<Rightarrow> byte list \<Rightarrow> bool"
  assumes pres_ok: "cd_ok v \<Longrightarrow> valid ob \<Longrightarrow> \<exists>v' ob' n. pres name m ob v = Inr (v', ob', n) \<and> extends v v' \<and>
      length (content (v_data v')) = length (content (v_data v)) + length (img m ob) \<and>
      (\<exists>e. entries (v_table v') = entries (v_table v) @ [e] \<and> e_id e = key name ob) \<and>
      (key name ob \<notin> e_id ` set (entries (v_table v)) \<longrightarrow> room v' \<longrightarrow> held ob' v' (img m ob))"
    and held_extends: "held ob v bs \<Longrightarrow> extends v v' \<Longrightarrow> held ob v' bs"
    and des_ok: "cd_ok v \<Longrightarrow> held ob v bs \<Longrightarrow> \<exists>m' n. des ob (v, m) = Inr (v, m', ob, Some n) \<and> img m' ob = bs"
begin

lemma serdes_step:
  assumes "cd_ok v" "valid ob"
  shows "\<exists>v' ob' p magic' e1 e2. PreserveCopy_serdes (pres name m ob) serdes_mask k magic v = Inr (v', ob', p, magic') \<and> extends v v' \<and>
    entries (v_table v') = entries (v_table v) @ [e1, e2] \<and> e_id e1 = key name ob \<and> e_id e2 = k \<and> searchable v' k \<and>
    length (content (v_data v')) \<le> length (content (v_data v)) + length (img m ob) + sizeof_CDEntry * (length (entries (v_table v)) + 1) \<and>
    (key name ob \<notin> e_id ` set (entries (v_table v)) \<longrightarrow> room v' \<longrightarrow> held ob' v' (img m ob))"
proof -
  obtain v1 ob' n e1 where v1: "pres name m ob v = Inr (v1, ob', n)" "extends v v1"
    "length (content (v_data v1)) = length (content (v_data v)) + length (img m ob)" "entries (v_table v1) = entries (v_table v) @ [e1]"
    "e_id e1 = key name ob" "key name ob \<notin> e_id ` set (entries (v_table v)) \<longrightarrow> room v1 \<longrightarrow> held ob' v1 (img m ob)"
    using pres_ok [OF assms, of name m] by (elim exE conjE) (rule that, assumption+)
  have ok1: "cd_ok v1" using v1(2) by (simp add: extends_def)
  obtain v2 n2 where v2: "AppendTable v1 = Inr (v2, n2)" "extends v1 v2" "v_table v2 = v_table v1"
    "length (content (v_data v2)) \<le> length (content (v_data v1)) + sizeof_CDEntry * length (entries (v_table v1))"
    using AppendTable_extends [OF ok1] by blast
  have ok2: "cd_ok v2" using v2(2) by (simp add: extends_def)
  let ?e = "CDEntry_of k (ucast (AttrFlag_val knested)) (of_nat (Data_used (v_data v2) - Data_used (v_data v)))
      (of_nat (Data_used (v_data v))) (of_nat (Data_used (v_data v1)))"
  obtain t where t: "InsertEntry ?e (v_table v2) = Inr (t, length (entries (v_table v2)))" "extends v2 (v2\<lparr>v_table := t\<rparr>)"
    "entries t = entries (v_table v2) @ [?e]" using insert_extends(2) [OF ok2] by blast
  let ?v = "v2\<lparr>v_table := t\<rparr>"
  have ext: "extends v1 ?v" by (rule extends_trans [OF v2(2) t(2)])
  have "tbl_ok t" using t(2) by (simp add: extends_def cd_ok_def)
  then have "FindReverse k 0 t = Inr (Some (length (entries (v_table v2))))"
    using t(3) tbl.look_last [of t "entries (v_table v2)" ?e] by simp
  moreover have "\<not> Check (AttrFlag_val krefer) (e_size ?e)" by (simp add: Check_def CDEntry_of_def)
  ultimately have "searchable ?v k" using t(3) by (simp add: searchable_def)
  moreover have "\<exists>p magic'. PreserveCopy_serdes (pres name m ob) serdes_mask k magic v = Inr (?v, ob', p, magic')"
    using v1(1) v2(1) t(1) ok2 by (simp add: PreserveCopy_serdes_def FlushMagic_def volatile_ok_def serdes_mask Let_def cd_ok_def)
  moreover have "held ob' ?v (img m ob)" if "key name ob \<notin> e_id ` set (entries (v_table v))" "room ?v"
    using that v1(6) held_extends [OF _ ext] room_extends [OF ext] by blast
  ultimately show ?thesis
    using extends_trans [OF v1(2) ext] v1(3-5) v2(3,4) t(3) by (auto intro!: exI [of _ ?v] exI [of _ e1] exI [of _ ?e])
qed


abbreviation call_keys :: "(string \<Rightarrow> uint64) \<Rightarrow> memory \<times> string \<times> 'o \<Rightarrow> uint64 list" where
  "call_keys hash call \<equiv> (case call of (m, name, ob) \<Rightarrow> [key name ob, hash name])"

lemma save_all_ok:
  assumes "cd_ok v" "\<forall>(m, name, ob) \<in> set calls. valid ob \<and> key name ob \<notin> e_id ` set (entries (v_table v))"
    "distinct (concat (map (call_keys hash) calls))"
  shows "\<exists>v' obs es. save_all pres hash serdes_mask calls magic v = Inr (v', obs) \<and> extends v v' \<and> length obs = length calls \<and>
    entries (v_table v') = entries (v_table v) @ es \<and> e_id ` set es \<subseteq> set (concat (map (call_keys hash) calls)) \<and>
    length (content (v_data v')) \<le> length (content (v_data v)) + (\<Sum>(m, name, ob)\<leftarrow>calls. length (img m ob)) +
      sizeof_CDEntry * length calls * (length (entries (v_table v)) + 2 * length calls) \<and>
    (\<forall>i < length calls. case calls ! i of (m, name, ob) \<Rightarrow>
       searchable v' (hash name) \<and> (room v' \<longrightarrow> held (obs ! i) v' (img m ob)))"
  using assms
proof (induction calls arbitrary: v magic)
  case Nil
  then show ?case by (simp add: extends_refl)
next
  case (Cons call calls)
  obtain m name ob where call: "call = (m, name, ob)" by (cases call)
  have ob: "valid ob" "key name ob \<notin> e_id ` set (entries (v_table v))" using Cons.prems(2) call by auto
  obtain v1 ob' p magic' e1 e2 where v1: "PreserveCopy_serdes (pres name m ob) serdes_mask (hash name) magic v = Inr (v1, ob', p, magic')"
    "extends v v1" "entries (v_table v1) = entries (v_table v) @ [e1, e2]" "e_id e1 = key name ob" "e_id e2 = hash name"
    "searchable v1 (hash name)"
    "length (content (v_data v1)) \<le> length (content (v_data v)) + length (img m ob) + sizeof_CDEntry * (length (entries (v_table v)) + 1)"
    "room v1 \<Longrightarrow> held ob' v1 (img m ob)"
    using serdes_step [OF Cons.prems(1) ob(1), of name m "hash name" magic] ob(2) by (elim exE conjE) (rule that, assumption+, blast)
  have ok1: "cd_ok v1" using v1(2) by (simp add: extends_def)
  have ids: "set [key name ob, hash name] \<inter> set (concat (map (call_keys hash) calls)) = {}"
    "distinct (concat (map (call_keys hash) calls))" using Cons.prems(3) call by auto
  have "valid o' \<and> key name' o' \<notin> e_id ` set (entries (v_table v1))" if c: "(m', name', o') \<in> set calls" for m' name' o'
  proof -
    have "key name' o' \<in> set (concat (map (call_keys hash) calls))" using c by force
    then have "key name' o' \<notin> {key name ob, hash name}" using ids(1) by auto
    then show ?thesis using v1(3-5) Cons.prems(2) c by auto
  qed
  then have "\<forall>(m', name', ob') \<in> set calls. valid ob' \<and> key name' ob' \<notin> e_id ` set (entries (v_table v1))" by auto
  from Cons.IH [OF ok1 this ids(2), of magic'] obtain v' obs es where
    r: "save_all pres hash serdes_mask calls magic' v1 = Inr (v', obs)" "extends v1 v'" "length obs = length calls"
    "entries (v_table v') = entries (v_table v1) @ es" "e_id ` set es \<subseteq> set (concat (map (call_keys hash) calls))"
    "length (content (v_data v')) \<le> length (content (v_data v1)) + (\<Sum>(m, name, ob)\<leftarrow>calls. length (img m ob)) +
      sizeof_CDEntry * length calls * (length (entries (v_table v1)) + 2 * length calls)"
    "\<forall>i < length calls. case calls ! i of (m, name, ob) \<Rightarrow> searchable v' (hash name) \<and> (room v' \<longrightarrow> held (obs ! i) v' (img m ob))"
    by (elim exE conjE) (rule that, assumption+)
  have ok': "cd_ok v'" using r(2) by (simp add: extends_def)
  have "hash name \<in> set [key name ob, hash name]" by simp
  then have "hash name \<notin> e_id ` set es" using r(5) ids(1) by blast
  then have "searchable v' (hash name)" by (rule searchable_extends [OF ok1 ok' v1(6) r(4)])
  moreover have "held ob' v' (img m ob)" if "room v'"
    by (rule held_extends [OF v1(8) [OF room_extends [OF r(2) that]] r(2)])
  ultimately have all: "\<forall>i < length (call # calls). case (call # calls) ! i of (m, name, ob) \<Rightarrow>
      searchable v' (hash name) \<and> (room v' \<longrightarrow> held ((ob' # obs) ! i) v' (img m ob))"
    using r(7) call by (simp add: All_less_Suc2)
  have "save_all pres hash serdes_mask (call # calls) magic v = Inr (v', ob' # obs)" using call v1(1) r(1) by simp
  moreover have "extends v v'" by (rule extends_trans [OF v1(2) r(2)])
  moreover have "entries (v_table v') = entries (v_table v) @ [e1, e2] @ es" using v1(3) r(4) by simp
  moreover have "e_id ` set ([e1, e2] @ es) \<subseteq> set (concat (map (call_keys hash) (call # calls)))"
    using r(5) v1(4,5) call by auto
  moreover have "length (ob' # obs) = length (call # calls)" using r(3) by simp
  moreover have "length (content (v_data v')) \<le> length (content (v_data v)) + (\<Sum>(m, name, ob)\<leftarrow>call # calls. length (img m ob)) +
      sizeof_CDEntry * length (call # calls) * (length (entries (v_table v)) + 2 * length (call # calls))"
    using r(6) v1(3,7) call by (simp add: sizeof_CDEntry_def algebra_simps)
  ultimately show ?case using all by blast
qed

lemma restore_held:
  assumes "p_cds s = cs @ [v]" "cd_ok v" "v_exec_mode v \<noteq> kSuspension" "searchable v (hash name)" "held ob v bs"
  shows "\<exists>s'. Restore_serdes (des ob) hash serdes_mask name [] s = Inr (s', ob) \<and> p_cds s' = p_cds s \<and> img (p_mem s') ob = bs"
proof -
  obtain p where p: "FindReverse (hash name) 0 (v_table v) = Inr (Some p)"
    "\<not> Check (AttrFlag_val krefer) (e_size (entries (v_table v) ! p))" using assms(4) by (auto simp: searchable_def)
  have "v_remote v = Map.empty" using assms(2) by (simp add: cd_ok_def)
  note srch = SearchEntry_leaf [OF assms(1,3) this p]
  obtain m' n where "des ob (v, p_mem s) = Inr (v, m', ob, Some n)" "img m' ob = bs" using des_ok [OF assms(2,5)] by blast
  then show ?thesis using srch assms(1)
    by (intro exI [of _ "s\<lparr>p_mem := m'\<rparr>"]) (simp add: Restore_serdes_def serdes_mask Let_def modify_cd_def)
qed

end

text \<open>Vectors are such objects.\<close>

definition vec_held :: "(string \<Rightarrow> uint64) \<Rightarrow> CDVector \<Rightarrow> prv_cd \<Rightarrow> byte list \<Rightarrow> bool" where
  "vec_held hash c v bs \<longleftrightarrow> vec_ok c \<and> saved hash c v bs \<and> length bs = cv_size c * cv_elem c"

lemma vec_ok_named [simp]: "vec_ok (vec_named hash s c) = vec_ok c"
  by (simp add: vec_ok_def)

interpretation vec: self_preserving "\<lambda>name. CDVector_PreserveObject hash (prv_mask [kCopy]) (Some name)"
  "CDVector_Deserialize hash alloc" vec_bytes vec_ok "\<lambda>name c. cv_id (vec_named hash (Some name) c)" "vec_held hash" for hash alloc
proof
  fix v ob name m
  assume a: "cd_ok v" "vec_ok ob"
  have "\<not> CHECK_TYPE (prv_mask [kCopy]) (CDPrvType_val kRef)" by (simp add: copy_mask)
  from PreserveObject_saves [OF a this, of hash "Some name" m]
  show "\<exists>v' ob' n. CDVector_PreserveObject hash (prv_mask [kCopy]) (Some name) m ob v = Inr (v', ob', n) \<and> extends v v' \<and>
      length (content (v_data v')) = length (content (v_data v)) + length (vec_bytes m ob) \<and>
      (\<exists>e. entries (v_table v') = entries (v_table v) @ [e] \<and> e_id e = cv_id (vec_named hash (Some name) ob)) \<and>
      (cv_id (vec_named hash (Some name) ob) \<notin> e_id ` set (entries (v_table v)) \<longrightarrow> room v' \<longrightarrow> vec_held hash ob' v' (vec_bytes m ob))"
    using a(2) by (elim exE conjE) (auto simp: vec_held_def vec_bytes_def)
next
  fix ob v bs v'
  assume "vec_held hash ob v bs" "extends v v'"
  then show "vec_held hash ob v' bs" unfolding vec_held_def using saved_extends by blast
next
  fix v ob bs m
  assume a: "cd_ok v" "vec_held hash ob v bs"
  then have h: "saved hash ob v bs" "vec_ok ob" "length bs = cv_size ob * cv_elem ob" by (simp_all add: vec_held_def)
  show "\<exists>m' n. CDVector_Deserialize hash alloc ob (v, m) = Inr (v, m', ob, Some n) \<and> vec_bytes m' ob = bs"
    using Deserialize_saved [OF h(1) a(1) h(2,3), of alloc m] h(3) by auto
qed


text \<open>Of two vectors with one identifier the first one is restored.\<close>

lemma first_entry_wins:
  assumes "cd_ok v" "vec_ok a" "vec_ok b" "cv_id (vec_named hash s a) \<notin> e_id ` set (entries (v_table v))"
    "cv_size b * cv_elem b = cv_size a * cv_elem a" "cv_id (vec_named hash t b) = cv_id (vec_named hash s a)"
    "d_written_len (v_data v) + length (content (v_data v)) + 2 * (cv_size a * cv_elem a) < 2 ^ 64"
  shows "\<exists>v1 v2. CDVector_PreserveObject hash (prv_mask [kCopy]) s m1 a v = Inr (v1, vec_named hash s a, cv_size a * cv_elem a) \<and>
    CDVector_PreserveObject hash (prv_mask [kCopy]) t m2 b v1 = Inr (v2, vec_named hash t b, cv_size a * cv_elem a) \<and>
    (\<exists>m'. CDVector_Deserialize hash alloc (vec_named hash t b) (v2, m) = Inr (v2, m', vec_named hash t b, Some (cv_size a * cv_elem a)) \<and>
       vec_bytes m' (vec_named hash t b) = vec_bytes m1 a)"
proof -
  let ?a = "vec_named hash s a" let ?b = "vec_named hash t b"
  have r: "\<not> CHECK_TYPE (prv_mask [kCopy]) (CDPrvType_val kRef)" by (simp add: copy_mask)
  from PreserveObject_saves [OF assms(1,2) r, of hash s m1] assms(4) obtain v1 where
    v1: "CDVector_PreserveObject hash (prv_mask [kCopy]) s m1 a v = Inr (v1, ?a, cv_size a * cv_elem a)" "extends v v1"
    "length (content (v_data v1)) = length (content (v_data v)) + cv_size a * cv_elem a"
    "room v1 \<longrightarrow> saved hash ?a v1 (vec_bytes m1 a)" by (elim exE conjE) (rule that, assumption+, blast)
  have ok: "cd_ok v1" using v1(2) by (simp add: extends_def)
  from PreserveObject_saves [OF ok assms(3) r, of hash t m2] obtain v2 where
    v2: "CDVector_PreserveObject hash (prv_mask [kCopy]) t m2 b v1 = Inr (v2, ?b, cv_size a * cv_elem a)" "extends v1 v2"
    "length (content (v_data v2)) = length (content (v_data v1)) + cv_size a * cv_elem a"
    unfolding assms(5) by (elim exE conjE) (rule that, simp_all)
  have "room v2" using v1(2,3) v2(2,3) assms(7) by (simp add: extends_def room_def)
  then have "saved hash ?a v2 (vec_bytes m1 a)"
    using v1(4) room_extends [OF v2(2)] saved_extends [OF _ v2(2)] by blast
  then have sv: "saved hash ?b v2 (vec_bytes m1 a)" using assms(6) by (simp add: saved_def)
  have ok2: "cd_ok v2" and vb: "vec_ok ?b" using v2(2) assms(3) by (simp_all add: extends_def)
  have u: "?b\<lparr>cv_size := cv_size b\<rparr> = ?b" by (cases b) (simp add: vec_named_def Let_def)
  have "\<exists>m'. CDVector_Deserialize hash alloc ?b (v2, m) = Inr (v2, m', ?b, Some (cv_size a * cv_elem a)) \<and> vec_bytes m' ?b = vec_bytes m1 a"
    using Deserialize_saved [OF sv ok2 vb, of "cv_size b" alloc m] assms(5) unfolding vec_named_simps u by (simp add: vec_bytes_def)
  then show ?thesis using v1(1) v2(1) by blast
qed

section \<open>Properties\<close>


definition len_hash :: "string \<Rightarrow> uint64" where "len_hash name = of_nat (length name)"

definition small_vector :: "uint64 \<Rightarrow> nat \<Rightarrow> CDVector" where
  "small_vector p n = \<lparr>cv_elem = 2, cv_data = p, cv_size = n, cv_capacity = n, cv_name = ''V:'', cv_id = - 1\<rparr>"

definition small_magic :: MagicStore where
  "small_magic = \<lparr>ms_total_size = 0, ms_table_offset = 0, ms_entry_type = 0, ms_reserved = 0, ms_reserved2 = 0, ms_pad = []\<rparr>"

lemma small_facts:
  "entries (v_table fresh_cd) = []" "d_written_len (v_data fresh_cd) = 1048576" "content (v_data fresh_cd) = []"
  by (simp_all add: fresh_cd_def TableStore_ctor_def AllocateTable_def Let_def entries_def small_store_def content_def)

lemma small_vector_ok: "p \<noteq> 0 \<Longrightarrow> 0 < n \<Longrightarrow> n < 100 \<Longrightarrow> vec_ok (small_vector p n)"
  by (simp add: vec_ok_def small_vector_def)

lemma small_vector_key: "cv_id (vec_named len_hash (Some name) (small_vector p n)) = of_nat (length name + 2)"
  by (simp add: vec_named_def small_vector_def VECTOR_INIT_NAME_def len_hash_def Let_def)


text \<open>
  A vector that has shrunk loses its tail.  When a vector is smaller at restoration than when it was
  preserved, only as many bytes are copied as it has at the moment; it is then resized to
  its old size, so that its last elements are zeros and not the preserved ones.
\<close>

theorem shrunk_vector_loses_tail:
  assumes "cd_ok v" and "vec_ok c" and "cv_id (vec_named hash s c) \<notin> e_id ` set (entries (v_table v))"
    and "cv_size c \<le> cv_capacity c" and "0 < k" and "k < cv_size c"
    and "d_written_len (v_data v) + length (content (v_data v)) + cv_size c * cv_elem c < 2 ^ 64"
  shows "\<exists>v' c1. CDVector_PreserveObject hash (prv_mask [kCopy]) s m c v = Inr (v', c1, cv_size c * cv_elem c) \<and>
    (\<exists>m''. CDVector_Deserialize hash alloc (c1\<lparr>cv_size := k\<rparr>) (v', m') = Inr (v', m'', c1, Some (k * cv_elem c)) \<and>
       vec_bytes m'' c1 = take (k * cv_elem c) (vec_bytes m c) @ replicate ((cv_size c - k) * cv_elem c) 0)"
proof -
  let ?c = "vec_named hash s c" let ?k = "?c\<lparr>cv_size := k\<rparr>"
  have "\<not> CHECK_TYPE (prv_mask [kCopy]) (CDPrvType_val kRef)" by (simp add: copy_mask)
  from PreserveObject_saves [OF assms(1,2) this, of hash s m] assms(3) obtain v' where
    v': "CDVector_PreserveObject hash (prv_mask [kCopy]) s m c v = Inr (v', ?c, cv_size c * cv_elem c)" "extends v v'"
    "length (content (v_data v')) = length (content (v_data v)) + cv_size c * cv_elem c"
    "room v' \<longrightarrow> saved hash ?c v' (vec_bytes m c)" by (elim exE conjE) (rule that, assumption+, blast)
  have ok: "cd_ok v'" and rm: "room v'" using v'(2,3) assms(7) by (simp_all add: extends_def room_def)
  have "k * cv_elem c < 2 ^ 48"
    using mult_le_mono1 [of k "cv_size c" "cv_elem c"] assms(2,6) unfolding vec_ok_def by linarith
  then have kk: "vec_ok ?k" using assms(2,5) by (simp add: vec_ok_def)
  have "\<exists>m''. CDVector_Deserialize hash alloc ?k (v', m') = Inr (v', m'', ?c, Some (k * cv_elem c)) \<and>
       vec_bytes m'' ?c = take (k * cv_elem c) (vec_bytes m c) @ replicate ((cv_size c - k) * cv_elem c) 0"
  proof -
    have sv: "saved hash ?k v' (vec_bytes m c)" using v'(4) rm by (simp add: saved_def)
    have u: "?k\<lparr>cv_size := cv_size c\<rparr> = ?c" by (cases c) (simp add: vec_named_def Let_def)
    show ?thesis
      using Deserialize_saved [OF sv ok kk, of "cv_size c" alloc m'] assms(4,6) unfolding u by (simp add: vec_bytes_def)
  qed
  then show ?thesis using v'(1) by blast
qed

theorem shrunk_vector_loses_tail_witness:
  "\<exists>v' c1 m''. CDVector_PreserveObject len_hash (prv_mask [kCopy]) None (\<lambda>_. 9) (small_vector 100 3) fresh_cd = Inr (v', c1, 6) \<and>
    CDVector_Deserialize len_hash (\<lambda>n. (500, n)) (c1\<lparr>cv_size := 1\<rparr>) (v', \<lambda>_. 5) = Inr (v', m'', c1, Some 2) \<and>
    vec_bytes m'' c1 = [9, 9, 0, 0, 0, 0]"
proof -
  let ?c = "small_vector 100 3"
  have c: "vec_bytes (\<lambda>_. 9) ?c = [9, 9, 9, 9, 9, 9]" "cv_size ?c = 3" "cv_elem ?c = 2" "cv_capacity ?c = 3"
    by (simp_all add: vec_bytes_def small_vector_def read_mem_def upt_rec)
  have "cv_id (vec_named len_hash None ?c) \<notin> e_id ` set (entries (v_table fresh_cd))" "cv_size ?c \<le> cv_capacity ?c" "1 < cv_size ?c"
    "d_written_len (v_data fresh_cd) + length (content (v_data fresh_cd)) + cv_size ?c * cv_elem ?c < 2 ^ 64"
    using c by (simp_all add: small_facts)
  note r = shrunk_vector_loses_tail [OF fresh_cd_ok(1) small_vector_ok this(1,2) zero_less_one this(3,4), of "\<lambda>_. 9" "\<lambda>n. (500, n)" "\<lambda>_. 5"]
  have "(3::nat) * 2 = 6" "(1::nat) * 2 = 2" "take (1 * 2) [9, 9, 9, 9, 9, 9] @ replicate ((3 - 1) * 2) 0 = [9, 9, 0, 0, 0, 0 :: byte]"
    by (simp_all add: numeral_eq_Suc)
  then show ?thesis using r unfolding c by simp
qed

text \<open>
  The oldest copy of a vector wins.  A vector that is preserved twice in a domain is restored with the
  elements of the first time, since the packer looks for the first entry of an identifier.
\<close>

theorem second_preservation_ignored:
  assumes "cd_ok v" and "vec_ok c" and "cv_id (vec_named hash s c) \<notin> e_id ` set (entries (v_table v))"
    and "d_written_len (v_data v) + length (content (v_data v)) + 2 * (cv_size c * cv_elem c) < 2 ^ 64"
  shows "\<exists>v1 c1 v2. CDVector_PreserveObject hash (prv_mask [kCopy]) s m1 c v = Inr (v1, c1, cv_size c * cv_elem c) \<and>
    CDVector_PreserveObject hash (prv_mask [kCopy]) s m2 c1 v1 = Inr (v2, c1, cv_size c * cv_elem c) \<and>
    (\<exists>m'. CDVector_Deserialize hash alloc c1 (v2, m) = Inr (v2, m', c1, Some (cv_size c * cv_elem c)) \<and>
       vec_bytes m' c1 = vec_bytes m1 c)"
proof -
  let ?c = "vec_named hash s c"
  have "vec_named hash s ?c = ?c" by (cases s) (auto simp: vec_named_def Let_def VECTOR_INIT_NAME_def)
  then show ?thesis
    using first_entry_wins [OF assms(1,2) _ assms(3), of ?c s m1 m2 alloc m] assms(2,4) by (simp, blast)
qed

theorem second_preservation_ignored_witness:
  "\<exists>v1 c1 v2 m'. CDVector_PreserveObject len_hash (prv_mask [kCopy]) None (\<lambda>_. 1) (small_vector 100 3) fresh_cd = Inr (v1, c1, 6) \<and>
    CDVector_PreserveObject len_hash (prv_mask [kCopy]) None (\<lambda>_. 2) c1 v1 = Inr (v2, c1, 6) \<and>
    CDVector_Deserialize len_hash (\<lambda>n. (500, n)) c1 (v2, \<lambda>_. 3) = Inr (v2, m', c1, Some 6) \<and> vec_bytes m' c1 = [1, 1, 1, 1, 1, 1]"
proof -
  have "vec_bytes (\<lambda>_. 1) (small_vector 100 3) = [1, 1, 1, 1, 1, 1]" "cv_size (small_vector 100 3) * cv_elem (small_vector 100 3) = 6"
    by (simp_all add: vec_bytes_def small_vector_def read_mem_def upt_rec)
  then show ?thesis
    using second_preservation_ignored [OF fresh_cd_ok(1) small_vector_ok [of 100 3], where hash = len_hash and s = None
        and ?m1.0 = "\<lambda>_. 1" and ?m2.0 = "\<lambda>_. 2" and m = "\<lambda>_. 3" and alloc = "\<lambda>n. (500, n)"] by (simp add: small_facts)
qed

text \<open>
  C36.  Copies of vectors collide.  The copy of a vector has no name, and gets none when it is preserved, so that all copies in a
  domain share one identifier: the second copy that is preserved is restored with the elements of the
  first one, under whatever names they are preserved.
\<close>

theorem copies_collide:
  assumes "cd_ok v" and "a = fst (CDVector_copy alloc1 (c1, ma))" and "b = fst (CDVector_copy alloc2 (c2, mb))"
    and "vec_ok a" and "vec_ok b" and "cv_size b * cv_elem b = cv_size a * cv_elem a"
    and "hash [] \<notin> e_id ` set (entries (v_table v))"
    and "d_written_len (v_data v) + length (content (v_data v)) + 2 * (cv_size a * cv_elem a) < 2 ^ 64"
  shows "\<exists>v1 a' v2 b' n. CDVector_PreserveObject hash (prv_mask [kCopy]) (Some s) m1 a v = Inr (v1, a', n) \<and>
    CDVector_PreserveObject hash (prv_mask [kCopy]) (Some t) m2 b v1 = Inr (v2, b', n) \<and>
    (\<exists>m'. CDVector_Deserialize hash alloc b' (v2, m) = Inr (v2, m', b', Some n) \<and> vec_bytes m' b' = vec_bytes m1 a)"
proof -
  have "cv_name a = []" "cv_name b = []" using assms(2,3) by (simp_all add: CDVector_copy_def split: prod.splits)
  then have "cv_id (vec_named hash (Some s) a) = hash []" "cv_id (vec_named hash (Some t) b) = hash []"
    by (simp_all add: vec_named_def VECTOR_INIT_NAME_def Let_def)
  then show ?thesis
    using first_entry_wins [OF assms(1,4,5) _ assms(6), of hash "Some s" "Some t"] assms(7,8) by simp blast
qed

theorem copies_collide_witness:
  "\<exists>a b v1 a' v2 b' n m'. a = fst (CDVector_copy (\<lambda>n. (500, n)) (small_vector 100 3, \<lambda>_. 0)) \<and>
    b = fst (CDVector_copy (\<lambda>n. (600, n)) (small_vector 200 3, \<lambda>_. 0)) \<and>
    CDVector_PreserveObject len_hash (prv_mask [kCopy]) (Some ''x'') (\<lambda>_. 1) a fresh_cd = Inr (v1, a', n) \<and>
    CDVector_PreserveObject len_hash (prv_mask [kCopy]) (Some ''yy'') (\<lambda>_. 2) b v1 = Inr (v2, b', n) \<and>
    CDVector_Deserialize len_hash (\<lambda>n. (700, n)) b' (v2, \<lambda>_. 3) = Inr (v2, m', b', Some n) \<and> vec_bytes m' b' = [1, 1, 1, 1, 1, 1]"
proof -
  let ?a = "fst (CDVector_copy (\<lambda>n. (500, n)) (small_vector 100 3, \<lambda>_. 0))"
  let ?b = "fst (CDVector_copy (\<lambda>n. (600, n)) (small_vector 200 3, \<lambda>_. 0))"
  have ok: "vec_ok ?a" "vec_ok ?b" "cv_size ?b * cv_elem ?b = cv_size ?a * cv_elem ?a" "cv_size ?a * cv_elem ?a = 6"
    "vec_bytes (\<lambda>_. 1) ?a = [1, 1, 1, 1, 1, 1]"
    by (simp_all add: CDVector_copy_def small_vector_def vec_ok_def vec_bytes_def read_mem_def upt_rec)
  have "len_hash [] \<notin> e_id ` set (entries (v_table fresh_cd))"
    "d_written_len (v_data fresh_cd) + length (content (v_data fresh_cd)) + 2 * (cv_size ?a * cv_elem ?a) < 2 ^ 64"
    using ok(4) by (simp_all add: small_facts)
  from copies_collide [where hash = len_hash, OF fresh_cd_ok(1) refl refl ok(1-3) this, of "''x''" "\<lambda>_. 1" "''yy''" "\<lambda>_. 2" "\<lambda>n. (700, n)" "\<lambda>_. 3"]
  show ?thesis unfolding ok(5) by blast
qed

text \<open>
  Reading from memory writes before the buffer.  \<open>DataStore::Read\<close> of data that are still in memory moves the destination
  back by the distance of the data from the beginning of the store and copies everything from there on, so
  that the bytes before the buffer of the caller are overwritten.
\<close>

theorem Read_writes_before_buffer:
  assumes "volatile_ok d" and "0 < off" and "off + len \<le> length (content d)"
  shows "Data_Read pto len (d_written_len d + off) d m = Inr (write_mem (pto - of_nat off) (take (off + len) (content d)) m)"
proof -
  obtain ptr where p: "d_ptr d = Some ptr" "length ptr = d_size d" "0 < d_size d" "d_tail d \<le> d_size d"
    "d_head d = 0" "content d = take (d_tail d) ptr" using assms(1) by (rule volatile_okD)
  have "off + len \<le> d_tail d" using assms(3) length_content [OF assms(1)] by simp
  then have "copy_out 0 (len + off) ptr = Inr (take (off + len) (content d))"
    using p by (simp add: copy_out_def add.commute)
  then show ?thesis using assms(2) p by (simp add: Data_Read_def Let_def nat_add_distrib)
qed

theorem Read_writes_before_buffer_witness:
  "Data_Read 100 1 (1048576 + 2) (small_store\<lparr>d_tail := 3, d_ptr := Some [1, 2, 3, 0]\<rparr>) (\<lambda>_. 7) =
     Inr (write_mem 98 [1, 2, 3] (\<lambda>_. 7)) \<and> write_mem 98 [1, 2, 3] (\<lambda>_. 7) 99 = 2"
proof -
  let ?d = "small_store\<lparr>d_tail := 3, d_ptr := Some [1, 2, 3, 0]\<rparr>"
  have d: "volatile_ok ?d" "content ?d = [1, 2, 3]" "d_written_len ?d = 1048576"
    by (simp_all add: volatile_ok_def content_def small_store_def)
  have "write_mem 98 [1, 2, 3] (\<lambda>_. 7) 99 = 2" by (simp add: write_mem_def)
  then show ?thesis using Read_writes_before_buffer [OF d(1), of 2 1 100 "\<lambda>_. 7"] d(2,3) by simp
qed

end
