(* ===== verification/Error_Inject.thy ===== *)
theory Error_Inject
  imports CD_Core Config_Load
begin

text \<open>
  Injection of errors (\<open>error_injector.h/.cc\<close>) and the calls of \<open>cd_handle.cc\<close> that use it: the
  injector of a domain, the injector of the system with the failure rates of the configuration, and the choice of
  the level that an injected error is rolled back to.

  A random number is a number of \<open>drand48\<close>, whose state is a word of 48 bits; \<open>double\<close> and
  \<open>float\<close> are real numbers.  Only the uniform distribution is built, so the requested
  distribution has no effect and is left out, as is the log file.  The fields of an injector that a constructor leaves
  uninitialised are arguments of its model.
\<close>

unbundle bit_operations_syntax

section \<open>Random numbers\<close>

type_synonym seed48 = "48 word"

definition drand48_next :: "seed48 \<Rightarrow> seed48" where
  "drand48_next x = 0x5DEECE66D * x + 0xB"

definition drand48 :: "seed48 \<Rightarrow> real \<times> seed48" where
  "drand48 x = (real (unat (drand48_next x)) / 2 ^ 48, drand48_next x)"

definition srand48 :: "int \<Rightarrow> seed48" where
  "srand48 seedval = push_bit 16 (of_int seedval) OR 0x330E"

definition RANDOM_SEED :: int where "RANDOM_SEED = 17"

text \<open>\<open>random_seed\<close> is the clock of task 0, which is broadcast.\<close>

definition InitErrorInjection :: "real \<Rightarrow> int \<Rightarrow> seed48" where
  "InitErrorInjection random_seed myTask =
     (let s = random_seed * real_of_int (RANDOM_SEED + myTask) in srand48 (if s \<ge> 0 then \<lfloor>s\<rfloor> else \<lceil>s\<rceil>))"

section \<open>Injectors\<close>

record ErrorInjector =
  ei_enabled :: bool
  ei_error_rate :: real

definition DEFAULT_ERROR_THRESHOLD :: real where "DEFAULT_ERROR_THRESHOLD = 0"

definition ErrorInjector_default :: ErrorInjector where
  "ErrorInjector_default = \<lparr>ei_enabled = False, ei_error_rate = DEFAULT_ERROR_THRESHOLD\<rparr>"

definition ErrorInjector_rate :: "real \<Rightarrow> ErrorInjector" where
  "ErrorInjector_rate error_rate = \<lparr>ei_enabled = False, ei_error_rate = error_rate\<rparr>"

definition ErrorInjector_of :: "bool \<Rightarrow> real \<Rightarrow> ErrorInjector" where
  "ErrorInjector_of enabled error_rate = \<lparr>ei_enabled = enabled, ei_error_rate = error_rate\<rparr>"

definition GenErrorVal :: "seed48 \<Rightarrow> real \<times> seed48" where
  "GenErrorVal x = drand48 x"

definition GetErrorProb :: "real \<Rightarrow> real \<Rightarrow> real" where
  "GetErrorProb error_rate unit_time = exp ((- 1) * error_rate * unit_time)"

definition InjectError :: "real \<Rightarrow> seed48 \<Rightarrow> bool \<times> seed48" where
  "InjectError survival_prob x = (case GenErrorVal x of (rand_var, x) \<Rightarrow> (survival_prob < rand_var, x))"

definition ErrorInjector_Inject :: "ErrorInjector \<Rightarrow> seed48 \<Rightarrow> bool \<times> seed48" where
  "ErrorInjector_Inject e x = InjectError (ei_error_rate e) x"

text \<open>The injector of a domain.\<close>

record CDErrorInjector = ErrorInjector +
  ci_cd_to_fail :: "uint32 list"
  ci_task_to_fail :: "uint32 list"
  ci_rank_in_level :: uint32
  ci_task_in_color :: uint32
  ci_force_to_fail :: bool

definition CDErrorInjector_rate :: "uint32 \<Rightarrow> uint32 \<Rightarrow> real \<Rightarrow> CDErrorInjector" where
  "CDErrorInjector_rate rank0 task0 error_rate =
     ErrorInjector.extend (ErrorInjector_of True error_rate)
       (CDErrorInjector.fields [] [] rank0 task0 False)"

definition CDErrorInjector_lists :: "uint32 \<Rightarrow> uint32 \<Rightarrow> uint32 list \<Rightarrow> uint32 list \<Rightarrow> real \<Rightarrow> CDErrorInjector" where
  "CDErrorInjector_lists rank0 task0 cds tasks error_rate =
     ErrorInjector.extend (ErrorInjector_of True error_rate)
       (CDErrorInjector.fields cds tasks rank0 task0 True)"

definition CDErrorInjector_one :: "uint32 \<Rightarrow> uint32 \<Rightarrow> uint32 \<Rightarrow> uint32 \<Rightarrow> real \<Rightarrow> CDErrorInjector" where
  "CDErrorInjector_one rank0 task0 cd task error_rate = CDErrorInjector_lists rank0 task0 [cd] [task] error_rate"

definition CDErrorInjector_ranked ::
  "uint32 list \<Rightarrow> uint32 list \<Rightarrow> uint32 \<Rightarrow> uint32 \<Rightarrow> real \<Rightarrow> CDErrorInjector" where
  "CDErrorInjector_ranked cds tasks rank_in_level task_in_color error_rate =
     ErrorInjector.extend (ErrorInjector_rate error_rate)
       (CDErrorInjector.fields cds tasks rank_in_level task_in_color True)"

definition RegisterTarget :: "uint32 \<Rightarrow> uint32 \<Rightarrow> CDErrorInjector \<Rightarrow> CDErrorInjector" where
  "RegisterTarget rank_in_level task_in_color e = e\<lparr>ci_rank_in_level := rank_in_level, ci_task_in_color := task_in_color\<rparr>"

definition CDErrorInjector_Inject :: "CDErrorInjector \<Rightarrow> seed48 \<Rightarrow> CDErrorInjector \<times> bool \<times> seed48" where
  "CDErrorInjector_Inject e x =
     (if \<not> ei_enabled e then (e, False, x)
      else if ci_force_to_fail e then
        (e, ci_rank_in_level e \<in> set (ci_cd_to_fail e) \<or> ci_task_in_color e \<in> set (ci_task_to_fail e), x)
      else (case GenErrorVal x of (rand_var, x) \<Rightarrow> (e\<lparr>ei_enabled := False\<rparr>, ei_error_rate e < rand_var, x)))"

text \<open>The injector of the system draws one number per error type, from the largest type down.\<close>

record SystemErrorInjector = ErrorInjector +
  si_sc :: SystemConfig
  si_prev_clk :: real

definition SystemErrorInjector_ctor :: "real \<Rightarrow> SystemConfig \<Rightarrow> SystemErrorInjector" where
  "SystemErrorInjector_ctor clk sc = ErrorInjector.extend ErrorInjector_default (SystemErrorInjector.fields sc clk)"

fun draw_types ::
  "real \<Rightarrow> (int \<times> real) list \<Rightarrow> uint64 \<Rightarrow> (int, uint32) smap \<Rightarrow> seed48 \<Rightarrow> uint64 \<times> (int, uint32) smap \<times> seed48" where
  "draw_types period [] error_vec error_count x = (error_vec, error_count, x)"
| "draw_types period ((t, rate) # rates) error_vec error_count x =
     (case InjectError (GetErrorProb rate period) x of
        (True, x) \<Rightarrow> draw_types period rates (error_vec OR of_int t) (sm_modify 0 t (\<lambda>n. n + 1) error_count) x
      | (False, x) \<Rightarrow> draw_types period rates error_vec error_count x)"

definition NO_ERROR_INJECTED :: uint64 where "NO_ERROR_INJECTED = 0"

definition SystemErrorInjector_Inject ::
  "real \<Rightarrow> SystemErrorInjector \<Rightarrow> seed48 \<Rightarrow> SystemErrorInjector \<times> uint64 \<times> seed48" where
  "SystemErrorInjector_Inject curr_clk e x =
     (let period = curr_clk - si_prev_clk e; sc = si_sc e in
      case draw_types period (rev (sc_failure_rate sc)) NO_ERROR_INJECTED (sc_error_count sc) x of
        (error_vec, error_count, x) \<Rightarrow> (e\<lparr>si_prev_clk := curr_clk, si_sc := sc\<lparr>sc_error_count := error_count\<rparr>\<rparr>, error_vec, x))"

section \<open>Injection in the calls of a domain\<close>

record inject_state =
  ij_cd :: "handle \<Rightarrow> CDErrorInjector option"
  ij_sys :: SystemErrorInjector
  ij_seed :: seed48

text \<open>\<open>RegisterErrorInjector\<close>: an injector that is not taken is deleted.\<close>

definition RegisterErrorInjector ::
  "uint32 \<Rightarrow> uint32 \<Rightarrow> CDErrorInjector \<Rightarrow> handle \<Rightarrow> runtime \<Rightarrow> inject_state \<Rightarrow> inject_state" where
  "RegisterErrorInjector rank_in_level task_in_color e c r i =
     (if ij_cd i c = None \<and> \<not> o_recreated (r_objs r ! c) \<and> \<not> o_reexecuted (r_objs r ! c)
      then i\<lparr>ij_cd := (ij_cd i)(c \<mapsto> e\<lparr>ci_task_in_color := task_in_color, ci_rank_in_level := rank_in_level\<rparr>)\<rparr>
      else i)"

text \<open>\<open>CD::Assert\<close> always returns \<open>kOK\<close>, so the result only tells whether an error was injected.\<close>

definition CDAssert_inject ::
  "real \<Rightarrow> bool \<Rightarrow> handle \<Rightarrow> runtime \<times> inject_state \<Rightarrow> ((runtime \<times> inject_state) \<times> CDErrT) outcome" where
  "CDAssert_inject now test c ri =
     (case ri of (r, i) \<Rightarrow>
        case (case ij_cd i c of
                None \<Rightarrow> (i, False)
              | Some e \<Rightarrow> (case CDErrorInjector_Inject e (ij_seed i) of
                  (e, error, x) \<Rightarrow> (i\<lparr>ij_cd := (ij_cd i)(c \<mapsto> e), ij_seed := x\<rparr>, error))) of
          (i, error) \<Rightarrow>
            bind_out (CDHandle_CDAssert now (test \<and> \<not> error) c r) (\<lambda>r.
              Inr ((r, i), if error then kAppError else kOK)))"

definition CHECK_SYS_ERR_VEC :: "uint64 \<Rightarrow> uint64 \<Rightarrow> bool" where
  "CHECK_SYS_ERR_VEC x y \<longleftrightarrow> x AND y = x"

text \<open>The walk to the level that covers the error; the bound is the length of the path.\<close>

fun find_cover :: "nat \<Rightarrow> runtime \<Rightarrow> uint64 \<Rightarrow> handle option \<Rightarrow> handle option outcome" where
  "find_cover k r vec None = Inr None"
| "find_cover 0 r vec (Some cdh) = Inl (Blocked ''find_cover'')"
| "find_cover (Suc k) r vec (Some cdh) =
     (if CHECK_SYS_ERR_VEC vec (o_sys_bit_vector (r_objs r ! cdh)) then Inr (Some cdh)
      else bind_out (GetParentCD_level (uint (o_level (r_objs r ! cdh))) (Some (r_path r))) (find_cover k r vec))"

definition CheckErrorOccurred ::
  "real \<Rightarrow> handle \<Rightarrow> uint32 \<Rightarrow> runtime \<times> inject_state \<Rightarrow> (inject_state \<times> uint32 option) outcome" where
  "CheckErrorOccurred clk c rollback_point ri =
     (case ri of (r, i) \<Rightarrow>
        case SystemErrorInjector_Inject clk (ij_sys i) (ij_seed i) of (sys, sys_err_vec, x) \<Rightarrow>
          let i = i\<lparr>ij_sys := sys, ij_seed := x\<rparr> in
          if sys_err_vec = NO_ERROR_INJECTED then Inr (i, None)
          else
            bind_out (find_cover (length (r_path r)) r sys_err_vec (Some c)) (\<lambda>cdh.
            let rollback_point = (case cdh of Some h \<Rightarrow> o_level (r_objs r ! h) | None \<Rightarrow> rollback_point) in
            bind_out
              (if rollback_point \<le> o_level (r_objs r ! c) then
                 bind_out (deref ''phaseTree.current_'' (r_current r)) (\<lambda>_. bind_out (deref ''cdh'' cdh) (\<lambda>_. Inr ()))
               else Inr ()) (\<lambda>_.
            bind_out (assert_out ''0'' (cdh \<noteq> None)) (\<lambda>_. Inr (i, Some rollback_point)))))"

definition Detect_inject ::
  "real \<Rightarrow> real \<Rightarrow> handle \<Rightarrow> runtime \<times> inject_state \<Rightarrow> ((runtime \<times> inject_state) \<times> CDErrT) outcome" where
  "Detect_inject now clk c ri =
     (case ri of (r, i) \<Rightarrow>
        bind_out (CheckErrorOccurred clk c INVALID_ROLLBACK_POINT (r, i)) (\<lambda>(i, detected).
        bind_out (CDHandle_Detect now detected c r) (\<lambda>(r, err). Inr ((r, i), err))))"

section \<open>What is drawn\<close>

fun draws :: "nat \<Rightarrow> seed48 \<Rightarrow> real list" where
  "draws 0 x = []"
| "draws (Suc n) x = fst (drand48 x) # draws n (snd (drand48 x))"

text \<open>The error types whose number exceeds the probability to survive the period.\<close>

definition hits :: "real \<Rightarrow> (int \<times> real) list \<Rightarrow> seed48 \<Rightarrow> int list" where
  "hits period rates x =
     map (fst \<circ> fst) (filter (\<lambda>((t, rate), u). exp (- rate * period) < u) (zip rates (draws (length rates) x)))"

lemma drand48_range: "0 \<le> fst (drand48 x)" "fst (drand48 x) < 1"
proof -
  have "unat (drand48_next x) < 2 ^ 48" using unsigned_less [of "drand48_next x", where 'a = nat] by simp
  then have "real (unat (drand48_next x)) < real (2 ^ 48)" by (rule of_nat_less_iff [THEN iffD2])
  moreover have "0 \<le> real (unat (drand48_next x))" by (rule of_nat_0_le_iff)
  ultimately show "0 \<le> fst (drand48 x)" "fst (drand48 x) < 1" by (simp_all add: drand48_def)
qed

text \<open>What an injector relies on of a generator (\<open>ErrorProb\<close>): its numbers are at least zero and below one.\<close>

locale error_prob =
  fixes gen :: "'s \<Rightarrow> real \<times> 's"
  assumes at_least_zero: "0 \<le> fst (gen x)"
    and below_one: "fst (gen x) < 1"
begin

lemma survives: "1 \<le> survival_prob \<Longrightarrow> \<not> survival_prob < fst (gen x)"
  using below_one [of x] by simp

lemma fails_for_certain: "survival_prob < 0 \<Longrightarrow> survival_prob < fst (gen x)"
  using at_least_zero [of x] by simp

end

interpretation uniform: error_prob drand48
  by unfold_locales (rule drand48_range)+

lemma hits_simps:
  "hits period [] x = []"
  "hits period ((t, rate) # rates) x =
     (if exp (- rate * period) < fst (drand48 x) then [t] else []) @ hits period rates (snd (drand48 x))"
  by (simp_all add: hits_def)

lemma hits_types: "set (hits period rates x) \<subseteq> fst ` set rates"
  by (auto simp: hits_def dest!: set_zip_leftD)

lemma distinct_hits: "distinct (map fst rates) \<Longrightarrow> distinct (hits period rates x)"
proof (induction rates arbitrary: x)
  case (Cons p rates)
  then show ?case using hits_types [of period rates] by (cases p) (auto simp: hits_simps)
qed (simp add: hits_simps)

lemma hits_mono:
  assumes "\<forall>(t, rate) \<in> set rates. 0 \<le> rate" "period \<le> period'"
  shows "set (hits period rates x) \<subseteq> set (hits period' rates x)"
  using assms(1)
proof (induction rates arbitrary: x)
  case (Cons p rates)
  obtain t rate where p: "p = (t, rate)" by (cases p)
  have "rate * period \<le> rate * period'" using Cons.prems assms(2) p by (simp add: mult_left_mono)
  then have "exp (- rate * period) < fst (drand48 x) \<longrightarrow> exp (- rate * period') < fst (drand48 x)"
    by (auto elim: le_less_trans [rotated])
  moreover have "set (hits period rates (snd (drand48 x))) \<subseteq> set (hits period' rates (snd (drand48 x)))" using Cons by simp
  ultimately show ?case unfolding p hits_simps by auto
qed (simp add: hits_simps)

lemma hits_now: "hits 0 rates x = []"
proof (induction rates arbitrary: x)
  case (Cons p rates)
  then show ?case using uniform.survives [of 1 x] by (cases p) (simp add: hits_simps)
qed (simp add: hits_simps)

lemma draw_types_spec:
  "draw_types period rates vec cnt x =
     (foldr (\<lambda>t m. of_int t OR m) (hits period rates x) 0 OR vec,
      fold (\<lambda>t. sm_modify 0 t (\<lambda>n. n + 1)) (hits period rates x) cnt, (drand48_next ^^ length rates) x)"
proof (induction rates arbitrary: vec cnt x)
  case (Cons p rates)
  obtain t rate where p: "p = (t, rate)" by (cases p)
  have n: "snd (drand48 x) = drand48_next x" by (simp add: drand48_def)
  show ?case
  proof (cases "exp (- rate * period) < fst (drand48 x)")
    case True
    then have "InjectError (GetErrorProb rate period) x = (True, drand48_next x)"
      using n by (cases "drand48 x") (simp add: InjectError_def GenErrorVal_def GetErrorProb_def)
    then show ?thesis using True p n Cons.IH
      by (simp add: hits_simps funpow_swap1 or.assoc or.commute or.left_commute)
  next
    case False
    then have "InjectError (GetErrorProb rate period) x = (False, drand48_next x)"
      using n by (cases "drand48 x") (simp add: InjectError_def GenErrorVal_def GetErrorProb_def)
    then show ?thesis using False p n Cons.IH by (simp add: hits_simps funpow_swap1)
  qed
qed (simp add: hits_simps)

lemma count_all:
  "sm_sorted m \<Longrightarrow> distinct ts \<Longrightarrow>
   sm_find (fold (\<lambda>t. sm_modify 0 t (\<lambda>n. n + 1)) ts m) j =
     (if j \<in> set ts then Some ((case sm_find m j of Some n \<Rightarrow> n | None \<Rightarrow> 0) + (1 :: uint32)) else sm_find m j)"
  by (induction ts arbitrary: m) (auto simp: sm_find_modify sm_sorted_modify split: option.splits)

lemma Inject_hits:
  "SystemErrorInjector_Inject clk e x =
     (let hs = hits (clk - si_prev_clk e) (rev (sc_failure_rate (si_sc e))) x in
      (e\<lparr>si_prev_clk := clk,
         si_sc := (si_sc e)\<lparr>sc_error_count := fold (\<lambda>t. sm_modify 0 t (\<lambda>n. n + 1)) hs (sc_error_count (si_sc e))\<rparr>\<rparr>,
       foldr (\<lambda>t m. of_int t OR m) hs 0, (drand48_next ^^ length (sc_failure_rate (si_sc e))) x))"
  by (simp add: SystemErrorInjector_Inject_def draw_types_spec Let_def NO_ERROR_INJECTED_def)

section \<open>The level of an error\<close>

abbreviation covers :: "runtime \<Rightarrow> uint64 \<Rightarrow> nat \<Rightarrow> bool" where
  "covers r vec j \<equiv> CHECK_SYS_ERR_VEC vec (o_sys_bit_vector (r_objs r ! (r_path r ! j)))"

lemma find_cover_spec:
  assumes "path_ok (\<lambda>c. o_level (r_objs r ! c)) (r_path r)"
  shows "i < length (r_path r) \<Longrightarrow> i < k \<Longrightarrow>
    find_cover k r vec (Some (r_path r ! i)) = Inr (map_option (\<lambda>j. r_path r ! j) (find (covers r vec) (rev [0..<Suc i])))"
proof (induction i arbitrary: k)
  case 0
  then obtain k' where "k = Suc k'" by (cases k) auto
  moreover have "uint (o_level (r_objs r ! (r_path r ! 0))) = 0"
    using path_ok_unat [OF assms 0(1)] by (simp add: unsigned_eq_0_iff)
  ultimately show ?case by (simp add: GetParentCD_level_def)
next
  case (Suc i)
  then obtain k' where "k = Suc k'" by (cases k) auto
  then show ?case using Suc GetParentCD_level_ok [OF assms, of "Suc i"] by simp
qed

lemma find_covers_bound: "find P (rev [0..<Suc i]) = Some j \<Longrightarrow> j \<le> i \<and> P j"
  by (auto simp: find_Some_iff rev_nth simp del: upt_Suc)

lemma CheckErrorOccurred_spec:
  assumes "path_ok (\<lambda>h. o_level (r_objs r ! h)) (r_path r)" "k < length (r_path r)" "r_path r ! k = c" "r_current r \<noteq> None"
    "SystemErrorInjector_Inject clk (ij_sys i) (ij_seed i) = (sys, vec, x)" "o_level (r_objs r ! c) < INVALID_ROLLBACK_POINT"
  shows "CheckErrorOccurred clk c INVALID_ROLLBACK_POINT (r, i) =
    (if vec = 0 then Inr (i\<lparr>ij_sys := sys, ij_seed := x\<rparr>, None)
     else case find (covers r vec) (rev [0..<Suc k]) of
       Some j \<Rightarrow> Inr (i\<lparr>ij_sys := sys, ij_seed := x\<rparr>, Some (of_nat j))
     | None \<Rightarrow> Inl (AssertFailed ''0''))"
proof (cases "find (covers r vec) (rev [0..<Suc k])")
  case None
  then have "find_cover (length (r_path r)) r vec (Some c) = Inr None"
    using find_cover_spec [OF assms(1,2,2), of vec] assms(3) by (simp del: upt_Suc)
  moreover have "\<not> INVALID_ROLLBACK_POINT \<le> o_level (r_objs r ! c)" using assms(6) by simp
  ultimately show ?thesis using None assms(5) by (simp add: CheckErrorOccurred_def NO_ERROR_INJECTED_def del: upt_Suc)
next
  case (Some j)
  then have "find_cover (length (r_path r)) r vec (Some c) = Inr (Some (r_path r ! j))"
    using find_cover_spec [OF assms(1,2,2), of vec] assms(3) by (simp del: upt_Suc)
  moreover have "o_level (r_objs r ! (r_path r ! j)) = of_nat j"
    using find_covers_bound [OF Some] assms(1,2) by (simp add: path_ok_def)
  ultimately show ?thesis
    using Some assms(4,5) by (auto simp: CheckErrorOccurred_def NO_ERROR_INJECTED_def Let_def simp del: upt_Suc)
qed

lemma Detect_spec:
  assumes "path_ok (\<lambda>h. o_level (r_objs r ! h)) (r_path r)" and "k < length (r_path r)" and "r_path r ! k = c"
    and "r_current r \<noteq> None" and "length (r_path r) < 2 ^ 32 - 1"
    and "SystemErrorInjector_Inject clk (ij_sys i) (ij_seed i) = (sys, vec, x)"
  shows "Detect_inject now clk c (r, i) =
    (let r0 = r\<lparr>r_glob := (r_glob r)\<lparr>g_begin_clk := now\<rparr>\<rparr>; i' = i\<lparr>ij_sys := sys, ij_seed := x\<rparr> in
     if vec = 0 then Inr ((r0, i'), kOK)
     else case find (\<lambda>j. CHECK_SYS_ERR_VEC vec (o_sys_bit_vector (r_objs r ! (r_path r ! j)))) (rev [0..<Suc k]) of
       Some j \<Rightarrow> Inr ((r0\<lparr>r_rollback_point := min (of_nat j) (r_rollback_point r)\<rparr>, i'), kAppError)
     | None \<Rightarrow> Inl (AssertFailed ''0''))"
proof -
  have "unat (o_level (r_objs r ! c)) < 2 ^ 32 - 1" using path_ok_unat [OF assms(1,2)] assms(2,3,5) by simp
  then have lv: "o_level (r_objs r ! c) < INVALID_ROLLBACK_POINT" by (simp add: INVALID_ROLLBACK_POINT_def word_less_nat_alt)
  note spec = CheckErrorOccurred_spec [OF assms(1-4,6) lv]
  have set: "CDHandle_Detect now (Some (of_nat j)) c r =
      Inr (r\<lparr>r_glob := (r_glob r)\<lparr>g_begin_clk := now\<rparr>, r_rollback_point := min (of_nat j) (r_rollback_point r)\<rparr>, kAppError)"
    if "j \<le> k" for j
  proof -
    have "j < 2 ^ 32 - 1" using that assms(2,5) by simp
    then have u: "unat (of_nat j :: uint32) = j" by (simp add: unat_of_nat)
    then have "of_nat j \<noteq> INVALID_ROLLBACK_POINT" using \<open>j < 2 ^ 32 - 1\<close> by (auto simp: INVALID_ROLLBACK_POINT_def)
    then show ?thesis
      using u that assms(2) by (auto simp: CDHandle_Detect_def GetCDLevel_def SetRollbackPoint_def Let_def min_def)
  qed
  show ?thesis
  proof (cases "find (covers r vec) (rev [0..<Suc k])")
    case None
    then show ?thesis using spec by (simp add: Detect_inject_def CDHandle_Detect_def Let_def del: upt_Suc)
  next
    case (Some j)
    then show ?thesis using spec set [of j] find_covers_bound [OF Some]
      by (simp add: Detect_inject_def CDHandle_Detect_def Let_def del: upt_Suc split: if_split)
  qed
qed

section \<open>Properties\<close>

text \<open>
  C24.  An injected error is rolled back to the nearest domain that covers it.  \<open>Detect\<close> without an error
  changes nothing but the clock of the call; with an error it sets the rollback point to the deepest level, from the domain
  upwards, that covers all error types drawn, unless an outer level is already to be rolled back to; the process
  stops when no level covers them.
\<close>

theorem Detect_rolls_to_cover:
  assumes "path_ok (\<lambda>h. o_level (r_objs r ! h)) (r_path r)" and "k < length (r_path r)" and "r_path r ! k = c"
    and "r_current r \<noteq> None" and "length (r_path r) < 2 ^ 32 - 1"
    and "SystemErrorInjector_Inject clk (ij_sys i) (ij_seed i) = (sys, vec, x)"
  shows "Detect_inject now clk c (r, i) =
    (let r0 = r\<lparr>r_glob := (r_glob r)\<lparr>g_begin_clk := now\<rparr>\<rparr>; i' = i\<lparr>ij_sys := sys, ij_seed := x\<rparr> in
     if vec = 0 then Inr ((r0, i'), kOK)
     else case find (\<lambda>j. CHECK_SYS_ERR_VEC vec (o_sys_bit_vector (r_objs r ! (r_path r ! j)))) (rev [0..<Suc k]) of
       Some j \<Rightarrow> Inr ((r0\<lparr>r_rollback_point := min (of_nat j) (r_rollback_point r)\<rparr>, i'), kAppError)
     | None \<Rightarrow> Inl (AssertFailed ''0''))"
  by (rule Detect_spec [OF assms])

definition small_injector :: SystemErrorInjector where
  "small_injector = SystemErrorInjector_ctor 0
     (config_start\<lparr>sc_failure_rate := [(1, 0), (2, 1)], sc_error_count := [(1, 4), (2, 4)]\<rparr>)"

definition small_inject :: inject_state where
  "small_inject = \<lparr>ij_cd = (\<lambda>_. None), ij_sys = small_injector, ij_seed = 1\<rparr>"

lemma small_drawn: "hits (1000000 - si_prev_clk small_injector) (rev (sc_failure_rate (si_sc small_injector))) 1 = [2]"
proof -
  have "fst (drand48 1) = 25214903928 / 2 ^ 48" by (simp add: drand48_def drand48_next_def)
  moreover have "exp (- 1000000 :: real) \<le> 1 / 1000001"
    using exp_ge_add_one_self [of "1000000 :: real"] by (simp add: exp_minus field_simps)
  ultimately have "exp (- 1000000 :: real) < fst (drand48 1)" by simp
  then show ?thesis using uniform.survives [of 1 "snd (drand48 1)"]
    by (simp add: hits_simps small_injector_def SystemErrorInjector_ctor_def ErrorInjector.extend_def SystemErrorInjector.fields_def
        ErrorInjector_default_def)
qed

lemma small_Inject:
  "\<exists>sys x. SystemErrorInjector_Inject 1000000 (ij_sys small_inject) (ij_seed small_inject) = (sys, 2, x)"
  using small_drawn by (simp add: Inject_hits small_inject_def Let_def)

text \<open>The root covers the errors and the child does not.\<close>

definition cover_root :: "runtime \<Rightarrow> runtime" where
  "cover_root r = modify_obj 1 (\<lambda>d. d\<lparr>o_sys_bit_vector := 1\<rparr>) (modify_obj 0 (\<lambda>d. d\<lparr>o_sys_bit_vector := 3\<rparr>) r)"

lemma covered_scenario:
  "\<exists>r. scenario_1 = Inr (r, Return kOK) \<and> stack_ok (cover_root r) [0, 1] \<and>
     IsGood (cover_root r) \<and> r_path (cover_root r) = [0, 1] \<and> r_rollback_point (cover_root r) = INVALID_ROLLBACK_POINT \<and>
     map o_sys_bit_vector (r_objs (cover_root r)) = [3, 1] \<and> o_exec_mode (r_objs (cover_root r) ! 1) = kExecution"
  by (simp add: core_eval tree_eval prof_eval stack_ok_def path_ok_def chain_def less_Suc_eq cover_root_def)

lemma covered_vectors:
  assumes "map o_sys_bit_vector (r_objs r) = [3, 1]"
  shows "o_sys_bit_vector (r_objs r ! 0) = 3" "o_sys_bit_vector (r_objs r ! 1) = 1"
proof -
  have "length (r_objs r) = 2" using assms by (metis length_map length_Cons list.size(3) numeral_2_eq_2)
  then show "o_sys_bit_vector (r_objs r ! 0) = 3" "o_sys_bit_vector (r_objs r ! 1) = 1"
    using arg_cong [OF assms, of "\<lambda>xs. xs ! 0"] arg_cong [OF assms, of "\<lambda>xs. xs ! 1"] by simp_all
qed

theorem Detect_rolls_to_cover_witness:
  "\<exists>r r' i'. scenario_1 = Inr (r, Return kOK) \<and>
     Detect_inject 4 1000000 1 (cover_root r, small_inject) = Inr ((r', i'), kAppError) \<and> r_rollback_point r' = 0"
proof -
  obtain r where r: "scenario_1 = Inr (r, Return kOK)" "stack_ok (cover_root r) [0, 1]" "IsGood (cover_root r)"
    "r_path (cover_root r) = [0, 1]" "r_rollback_point (cover_root r) = INVALID_ROLLBACK_POINT"
    "map o_sys_bit_vector (r_objs (cover_root r)) = [3, 1]" "o_exec_mode (r_objs (cover_root r) ! 1) = kExecution"
    using covered_scenario by (elim exE conjE) (rule that, assumption+)
  obtain sys x where i: "SystemErrorInjector_Inject 1000000 (ij_sys small_inject) (ij_seed small_inject) = (sys, 2, x)"
    using small_Inject by blast
  have a: "path_ok (\<lambda>h. o_level (r_objs (cover_root r) ! h)) (r_path (cover_root r))" "1 < length (r_path (cover_root r))"
    "r_path (cover_root r) ! 1 = 1" "r_current (cover_root r) \<noteq> None" "length (r_path (cover_root r)) < 2 ^ 32 - 1"
    using r(2,4) by (simp_all add: stack_ok_def)
  have "find (\<lambda>j. CHECK_SYS_ERR_VEC 2 (o_sys_bit_vector (r_objs (cover_root r) ! (r_path (cover_root r) ! j)))) (rev [0..<Suc 1]) = Some 0"
    using r(4) covered_vectors [OF r(6)] by (simp add: CHECK_SYS_ERR_VEC_def upt_rec)
  then have "\<exists>r' i'. Detect_inject 4 1000000 1 (cover_root r, small_inject) = Inr ((r', i'), kAppError) \<and> r_rollback_point r' = 0"
    using Detect_rolls_to_cover [OF a i, of 4] by (simp add: Let_def del: upt_Suc)
  then show ?thesis using r(1) by blast
qed

text \<open>
  C5.  An injected error leads to re-execution.  In a healthy process with no rollback pending, an error that \<open>Detect\<close> of the leaf draws makes the
  next \<open>Complete\<close> re-enter at the \<open>Begin\<close> of the deepest domain of the path that covers the error, which is
  then in re-execution mode.
\<close>

theorem injected_error_reexecutes:
  assumes "stack_ok r ns" and "IsGood r" and "r_rollback_point r = INVALID_ROLLBACK_POINT"
    and "o_exec_mode (r_objs r ! last (r_path r)) \<noteq> kSuspension" and "length (r_path r) < 2 ^ 32 - 1"
    and "SystemErrorInjector_Inject clk (ij_sys i) (ij_seed i) = (sys, vec, x)" and "vec \<noteq> 0"
    and "j < length (r_path r)" and "CHECK_SYS_ERR_VEC vec (o_sys_bit_vector (r_objs r ! (r_path r ! j)))"
    and "\<And>h. j < h \<Longrightarrow> h < length (r_path r) \<Longrightarrow> \<not> CHECK_SYS_ERR_VEC vec (o_sys_bit_vector (r_objs r ! (r_path r ! h)))"
  shows "\<exists>r1 i' r2. Detect_inject now clk (last (r_path r)) (r, i) = Inr ((r1, i'), kAppError) \<and>
    CDHandle_Complete now' (last (r_path r)) r1 = Inr (r2, Jump (r_path r ! j)) \<and>
    o_exec_mode (r_objs r2 ! (r_path r ! j)) = kReexecution \<and> IsFailed r2"
proof -
  let ?n = "length (r_path r)" let ?k = "?n - 1"
  have ne: "r_path r \<noteq> []" "path_ok (\<lambda>h. o_level (r_objs r ! h)) (r_path r)" "r_current r \<noteq> None" using assms(1) by (auto simp: stack_ok_def)
  then have k: "?k < ?n" "r_path r ! ?k = last (r_path r)" "Suc ?k = ?n" by (simp_all add: last_conv_nth)
  have "find (covers r vec) (rev [0..<Suc ?k]) = Some j"
    unfolding find_Some_iff k(3) by (rule exI [of _ "?n - Suc j"]) (use assms(8-10) in \<open>auto simp: rev_nth\<close>)
  then have d: "Detect_inject now clk (last (r_path r)) (r, i) =
      Inr ((r\<lparr>r_glob := (r_glob r)\<lparr>g_begin_clk := now\<rparr>, r_rollback_point := min (of_nat j) (r_rollback_point r)\<rparr>,
        i\<lparr>ij_sys := sys, ij_seed := x\<rparr>), kAppError)"
    using Detect_spec [OF ne(2) k(1,2) ne(3) assms(5,6)] assms(7) by (simp add: Let_def del: upt_Suc)
  let ?r = "r\<lparr>r_glob := (r_glob r)\<lparr>g_begin_clk := now\<rparr>, r_rollback_point := min (of_nat j) (r_rollback_point r)\<rparr>"
  have u: "unat (of_nat j :: uint32) = j" using assms(5,8) by (simp add: unat_of_nat)
  have "(of_nat j :: uint32) \<le> INVALID_ROLLBACK_POINT"
    using assms(5,8) u by (simp add: INVALID_ROLLBACK_POINT_def word_le_nat_alt)
  then have "unat (r_rollback_point ?r) = j" using u assms(3) by (simp add: min_def)
  moreover have "stack_ok ?r ns" "\<not> IsFailed ?r" using assms(1,2) by (simp_all add: stack_ok_def IsGood_def IsFailed_def)
  ultimately show ?thesis using CDHandle_Complete_error [of ?r ns j now'] assms(4,8) d by auto
qed

theorem injected_error_reexecutes_witness:
  "\<exists>r r1 i' r2. scenario_1 = Inr (r, Return kOK) \<and>
     Detect_inject 4 1000000 1 (cover_root r, small_inject) = Inr ((r1, i'), kAppError) \<and>
     CDHandle_Complete 5 1 r1 = Inr (r2, Jump 0) \<and> o_exec_mode (r_objs r2 ! 0) = kReexecution \<and> IsFailed r2"
proof -
  obtain r where r: "scenario_1 = Inr (r, Return kOK)" "stack_ok (cover_root r) [0, 1]" "IsGood (cover_root r)"
    "r_path (cover_root r) = [0, 1]" "r_rollback_point (cover_root r) = INVALID_ROLLBACK_POINT"
    "map o_sys_bit_vector (r_objs (cover_root r)) = [3, 1]" "o_exec_mode (r_objs (cover_root r) ! 1) = kExecution"
    using covered_scenario by (elim exE conjE) (rule that, assumption+)
  obtain sys x where i: "SystemErrorInjector_Inject 1000000 (ij_sys small_inject) (ij_seed small_inject) = (sys, 2, x)"
    using small_Inject by blast
  have a: "o_exec_mode (r_objs (cover_root r) ! last (r_path (cover_root r))) \<noteq> kSuspension" "length (r_path (cover_root r)) < 2 ^ 32 - 1"
    using r(4,7) by simp_all
  have b: "(2::uint64) \<noteq> 0" "0 < length (r_path (cover_root r))"
    "CHECK_SYS_ERR_VEC 2 (o_sys_bit_vector (r_objs (cover_root r) ! (r_path (cover_root r) ! 0)))"
    using r(4) covered_vectors [OF r(6)] by (simp_all add: CHECK_SYS_ERR_VEC_def)
  have c: "\<not> CHECK_SYS_ERR_VEC 2 (o_sys_bit_vector (r_objs (cover_root r) ! (r_path (cover_root r) ! h)))"
    if "0 < h" "h < length (r_path (cover_root r))" for h
  proof -
    have "h = 1" using that r(4) by simp
    then show ?thesis using r(4) covered_vectors [OF r(6)] by (simp add: CHECK_SYS_ERR_VEC_def)
  qed
  show ?thesis using injected_error_reexecutes [OF r(2,3,5) a i b c, of 4 5] r(1,4) by simp blast
qed

text \<open>
  C25.  What the system injects.  With the numbers that the generator gives, the error vector has exactly the bits of the error types whose
  number exceeds the probability to survive the time since the last call; the counter of each of these types goes up by
  one, every other counter is unchanged, and one number is drawn per type.
\<close>

theorem injected_types:
  assumes "sm_sorted (sc_failure_rate (si_sc e))" and "sm_sorted (sc_error_count (si_sc e))"
    and "hs = hits (clk - si_prev_clk e) (rev (sc_failure_rate (si_sc e))) x"
  shows "case SystemErrorInjector_Inject clk e x of (e', vec, x') \<Rightarrow>
    (\<forall>b. bit vec b \<longleftrightarrow> (\<exists>t \<in> set hs. bit (of_int t :: uint64) b)) \<and>
    (\<forall>t. sm_find (sc_error_count (si_sc e')) t =
       (if t \<in> set hs then Some ((case sm_find (sc_error_count (si_sc e)) t of Some n \<Rightarrow> n | None \<Rightarrow> 0) + 1)
        else sm_find (sc_error_count (si_sc e)) t)) \<and>
    si_prev_clk e' = clk \<and> x' = (drand48_next ^^ length (sc_failure_rate (si_sc e))) x"
proof -
  have "distinct (map fst (sc_failure_rate (si_sc e)))"
    using assms(1) by (simp add: sm_sorted_def strict_sorted_iff)
  then have "distinct (map fst (rev (sc_failure_rate (si_sc e))))" by (simp flip: rev_map)
  then have "distinct hs" unfolding assms(3) by (rule distinct_hits)
  then show ?thesis using count_all [OF assms(2)] by (simp add: Inject_hits Let_def foldr_or_bit flip: assms(3))
qed

theorem injected_types_witness:
  "\<exists>e' x'. SystemErrorInjector_Inject 1000000 small_injector 1 = (e', 2, x') \<and>
     sm_find (sc_error_count (si_sc e')) 1 = Some 4 \<and> sm_find (sc_error_count (si_sc e')) 2 = Some 5"
proof -
  have s: "sm_sorted (sc_failure_rate (si_sc small_injector))" "sm_sorted (sc_error_count (si_sc small_injector))"
    "sc_error_count (si_sc small_injector) = [(1, 4), (2, 4)]"
    by (simp_all add: small_injector_def SystemErrorInjector_ctor_def ErrorInjector.extend_def SystemErrorInjector.fields_def
        ErrorInjector_default_def)
  obtain e' x' where i: "SystemErrorInjector_Inject 1000000 small_injector 1 = (e', 2, x')"
    using small_Inject by (auto simp: small_inject_def)
  show ?thesis using injected_types [OF s(1,2) refl, of 1000000 1] i s(3) small_drawn by simp
qed

text \<open>
  More time, more errors.  No error is injected when no time has passed, and with the same seed a longer time gives
  every error that a shorter time gives.
\<close>

theorem errors_grow_with_time:
  assumes "\<forall>(t, rate) \<in> set (sc_failure_rate (si_sc e)). 0 \<le> rate" and "clk \<le> clk'"
    and "SystemErrorInjector_Inject clk e x = (e1, vec, x1)" and "SystemErrorInjector_Inject clk' e x = (e2, vec', x2)"
  shows "vec AND vec' = vec \<and> (clk = si_prev_clk e \<longrightarrow> vec = 0)"
proof -
  let ?hits = "\<lambda>clk. hits (clk - si_prev_clk e) (rev (sc_failure_rate (si_sc e))) x"
  have v: "vec = foldr (\<lambda>t m. of_int t OR m) (?hits clk) 0" "vec' = foldr (\<lambda>t m. of_int t OR m) (?hits clk') 0"
    using assms(3,4) by (simp_all add: Inject_hits Let_def)
  have "set (?hits clk) \<subseteq> set (?hits clk')" by (rule hits_mono) (use assms(1,2) in auto)
  then have "bit vec b \<longrightarrow> bit vec' b" for b unfolding v foldr_or_bit by blast
  then have "vec AND vec' = vec" by (intro bit_eqI) (auto simp: bit_and_iff)
  then show ?thesis using v(1) by (auto simp: hits_now)
qed

theorem errors_grow_with_time_witness:
  "\<exists>e1 x1 e2 vec x2. SystemErrorInjector_Inject 0 small_injector 1 = (e1, 0, x1) \<and>
     SystemErrorInjector_Inject 1000000 small_injector 1 = (e2, vec, x2)"
proof -
  obtain e1 v1 x1 e2 v2 x2 where i: "SystemErrorInjector_Inject 0 small_injector 1 = (e1, v1, x1)"
    "SystemErrorInjector_Inject 1000000 small_injector 1 = (e2, v2, x2)" by (meson prod_cases3)
  have "\<forall>(t, rate) \<in> set (sc_failure_rate (si_sc small_injector)). 0 \<le> rate" "si_prev_clk small_injector = 0"
    by (simp_all add: small_injector_def SystemErrorInjector_ctor_def ErrorInjector.extend_def SystemErrorInjector.fields_def
        ErrorInjector_default_def)
  then show ?thesis using errors_grow_with_time [OF _ _ i] i by simp
qed

text \<open>
  C37.  A forced failure never stops.  Once an injector that names a domain has been registered for it, every assertion of that
  domain fails from then on, whatever its test and whether the domain is re-executed or not, and the injector
  stays as it is: the domain fails again each time it is re-executed.
\<close>

theorem forced_failure_repeats:
  assumes "rank \<in> set cds" and "ij_cd i c = None" and "\<not> o_recreated (r_objs r ! c)" and "\<not> o_reexecuted (r_objs r ! c)"
    and "i' = RegisterErrorInjector rank task (CDErrorInjector_lists rank0 task0 cds tasks error_rate) c r i"
    and "CDHandle_CDAssert now False c r1 = Inr r2"
  shows "CDAssert_inject now test c (r1, i') = Inr ((r2, i'), kAppError)"
proof -
  obtain e where e: "ij_cd i' c = Some e" "ei_enabled e" "ci_force_to_fail e" "ci_rank_in_level e \<in> set (ci_cd_to_fail e)"
    using assms(1-5) by (simp add: RegisterErrorInjector_def CDErrorInjector_lists_def ErrorInjector_of_def ErrorInjector.extend_def
        CDErrorInjector.fields_def)
  then have "CDErrorInjector_Inject e (ij_seed i') = (e, True, ij_seed i')" by (simp add: CDErrorInjector_Inject_def)
  moreover have "i'\<lparr>ij_cd := (ij_cd i')(c \<mapsto> e), ij_seed := ij_seed i'\<rparr> = i'" using e(1) by (simp add: fun_upd_idem)
  ultimately show ?thesis using e(1) assms(6) by (simp add: CDAssert_inject_def)
qed

theorem forced_failure_repeats_witness:
  "\<exists>r r' i'. scenario_1 = Inr (r, Return kOK) \<and> i' = RegisterErrorInjector 5 0 (CDErrorInjector_lists 0 0 [5] [] 0) 1 r small_inject \<and>
     CDAssert_inject 4 True 1 (r, i') = Inr ((r', i'), kAppError) \<and> r_rollback_point r' = 1"
proof -
  have "\<exists>r r'. scenario_1 = Inr (r, Return kOK) \<and> \<not> o_recreated (r_objs r ! 1) \<and> \<not> o_reexecuted (r_objs r ! 1) \<and>
      CDHandle_CDAssert 4 False 1 r = Inr r' \<and> r_rollback_point r' = 1"
    by (simp add: core_eval tree_eval prof_eval CDHandle_CDAssert_def CD_Assert_def)
  then obtain r r' where r: "scenario_1 = Inr (r, Return kOK)" "\<not> o_recreated (r_objs r ! 1)" "\<not> o_reexecuted (r_objs r ! 1)"
      "CDHandle_CDAssert 4 False 1 r = Inr r'" "r_rollback_point r' = 1" by blast
  have "(5::uint32) \<in> set [5]" "ij_cd small_inject 1 = None" by (simp_all add: small_inject_def)
  from forced_failure_repeats [OF this r(2,3) refl r(4)] show ?thesis using r(1,5) by blast
qed

text \<open>
  An injector made for a rank injects nothing.  The constructors that take the rank of the domain and of the task leave the injector
  disabled, and registering it does not enable it: assertions go on as if there were no injector, even when the
  domain and the task are among the targets.
\<close>

theorem ranked_injector_disabled:
  assumes "ij_cd i c = None"
    and "i' = RegisterErrorInjector rank task (CDErrorInjector_ranked cds tasks rank1 task1 error_rate) c r i"
  shows "CDAssert_inject now test c (r1, i') = map_sum id (\<lambda>r2. ((r2, i'), kOK)) (CDHandle_CDAssert now test c r1)"
proof (cases "ij_cd i' c")
  case None
  then show ?thesis by (simp add: CDAssert_inject_def bind_out_def split: sum.splits)
next
  case (Some e)
  then have "\<not> ei_enabled e"
    using assms by (auto simp: RegisterErrorInjector_def CDErrorInjector_ranked_def ErrorInjector_rate_def ErrorInjector.extend_def
        CDErrorInjector.fields_def split: if_splits)
  then have "CDErrorInjector_Inject e (ij_seed i') = (e, False, ij_seed i')" by (simp add: CDErrorInjector_Inject_def)
  moreover have "i'\<lparr>ij_cd := (ij_cd i')(c \<mapsto> e), ij_seed := ij_seed i'\<rparr> = i'" using Some by (simp add: fun_upd_idem)
  ultimately show ?thesis using Some by (simp add: CDAssert_inject_def bind_out_def split: sum.splits)
qed

theorem ranked_injector_disabled_witness:
  "\<exists>r i'. scenario_1 = Inr (r, Return kOK) \<and> i' = RegisterErrorInjector 5 6 (CDErrorInjector_ranked [5] [6] 5 6 0) 1 r small_inject \<and>
     CDAssert_inject 4 True 1 (r, i') = Inr ((r\<lparr>r_glob := (r_glob r)\<lparr>g_begin_clk := 4\<rparr>\<rparr>, i'), kOK)"
proof -
  obtain r where r: "scenario_1 = Inr (r, Return kOK)" using covered_scenario by blast
  have "ij_cd small_inject 1 = None" by (simp add: small_inject_def)
  then show ?thesis using ranked_injector_disabled [OF _ refl, of small_inject 1 4 True r 5 6 "[5]" "[6]" 5 6 0 r] r
    by (simp add: CDHandle_CDAssert_def CD_Assert_def) blast
qed

text \<open>
  The rate of an injector is the probability to survive: with the rate one nothing is injected, with the rate zero
  an error is injected unless the number drawn is zero.  It draws once and is disabled then.
\<close>

lemma rate_is_survival:
  assumes "e = CDErrorInjector_rate rank task error_rate"
  shows "fst (CDErrorInjector_Inject e x) = e\<lparr>ei_enabled := False\<rparr>"
    "1 \<le> error_rate \<Longrightarrow> \<not> fst (snd (CDErrorInjector_Inject e x))"
    "error_rate < 0 \<Longrightarrow> fst (snd (CDErrorInjector_Inject e x))"
    "error_rate = 0 \<Longrightarrow> fst (snd (CDErrorInjector_Inject e x)) \<longleftrightarrow> drand48_next x \<noteq> 0"
  using uniform.survives [of error_rate x] uniform.fails_for_certain [of error_rate x] unfolding assms
  by (auto simp: CDErrorInjector_Inject_def CDErrorInjector_rate_def ErrorInjector_of_def ErrorInjector.extend_def
      CDErrorInjector.fields_def GenErrorVal_def drand48_def unat_gt_0 simp del: of_nat_unat)

end
