(* ===== verification/Handle_Preserve.thy ===== *)
theory Handle_Preserve
  imports CD_Core CD_Preserve
begin

text \<open>
  \<open>CDHandle::Preserve\<close> (\<open>cd_handle.cc\<close>): the call of the interface joins \<open>CD::Preserve\<close> of
  \<open>CD_Preserve\<close> with the objects and the phase tree of \<open>CD_Core\<close>, where the volume and the time of the call
  are recorded in the profile of the phase.  The two models keep the execution mode and the counters of
  calls of a domain twice; \<open>joined\<close> says that they agree, and every call keeps it.
\<close>

section \<open>The call\<close>

definition sync_obj :: "handle \<Rightarrow> prv_cd \<Rightarrow> runtime \<Rightarrow> runtime" where
  "sync_obj c v r = modify_obj c (\<lambda>d. d\<lparr>o_exec_mode := v_exec_mode v, o_preserve_count := v_preserve_count v,
     o_restore_count := v_restore_count v\<rparr>) r"

text \<open>\<open>now\<close> is the clock at the entry, \<open>now'\<close> the clock when the data are recorded.\<close>

definition CDHandle_Preserve ::
  "(string \<Rightarrow> uint64) \<Rightarrow> real \<Rightarrow> real \<Rightarrow> handle \<Rightarrow> uint64 \<Rightarrow> nat \<Rightarrow> uint32 \<Rightarrow> string \<Rightarrow> string \<Rightarrow> uint64 \<Rightarrow>
   runtime \<times> prv_state \<Rightarrow> ((runtime \<times> prv_state) \<times> nat) outcome" where
  "CDHandle_Preserve hash now now' c data len preserve_mask my_name ref_name ref_offset rs =
     (case rs of (r, s) \<Rightarrow>
        let r = r\<lparr>r_glob := (r_glob r)\<lparr>g_begin_clk := now\<rparr>\<rparr>;
            k = unat (o_level (r_objs r ! c));
            is_reexec = (o_exec_mode (r_objs r ! c) = kReexecution) in
        bind_out (assert_out ''len > 0'' (len > 0)) (\<lambda>_.
        bind_out (Preserve hash k data len preserve_mask my_name ref_name ref_offset s) (\<lambda>s.
        let r = sync_obj c (p_cds s ! k) r in
        bind_out (deref ''phaseNodeCache[phase]'' (snd (cache_at (o_phase (r_objs r ! c)) (pt_cache (r_tree r))))) (\<lambda>p.
        bind_out (with_profile p (RecordData now' my_name (of_nat len) preserve_mask is_reexec) r) (\<lambda>r.
          Inr ((r, s), if CHECK_TYPE preserve_mask (CDPrvType_val kRef) then 0 else len))))))"

fun handle_calls ::
  "(string \<Rightarrow> uint64) \<Rightarrow> real \<Rightarrow> real \<Rightarrow> handle \<Rightarrow> (memory \<times> prv_call) list \<Rightarrow> runtime \<times> prv_state \<Rightarrow>
   ((runtime \<times> prv_state) \<times> byte list list) outcome" where
  "handle_calls hash now now' c [] rs = Inr (rs, [])"
| "handle_calls hash now now' c ((m, (a, n, name)) # xs) rs =
     bind_out (CDHandle_Preserve hash now now' c a n (prv_mask [kCopy]) name [] 0 (fst rs, (snd rs)\<lparr>p_mem := m\<rparr>)) (\<lambda>(rs, _).
     bind_out (handle_calls hash now now' c xs rs) (\<lambda>(rs', recs). Inr (rs', read_mem (p_mem (snd rs)) a n # recs)))"

section \<open>One call\<close>

definition joined :: "handle \<Rightarrow> nat \<Rightarrow> ptr \<Rightarrow> runtime \<Rightarrow> prv_state \<Rightarrow> bool" where
  "joined c k p r s \<longleftrightarrow> c < length (r_objs r) \<and> unat (o_level (r_objs r ! c)) = k \<and>
     o_exec_mode (r_objs r ! c) = v_exec_mode (p_cds s ! k) \<and>
     o_preserve_count (r_objs r ! c) = v_preserve_count (p_cds s ! k) \<and> o_restore_count (r_objs r ! c) = v_restore_count (p_cds s ! k) \<and>
     sm_find (pt_cache (r_tree r)) (o_phase (r_objs r ! c)) = Some (Some p) \<and> p < length (r_heap r)"

abbreviation copied :: "ptr \<Rightarrow> runtime \<Rightarrow> uint64" where
  "copied p r \<equiv> ri_prv_copy (pn_profile (r_heap r ! p))"

abbreviation restored :: "ptr \<Rightarrow> runtime \<Rightarrow> uint64" where
  "restored p r \<equiv> ri_restore (pn_profile (r_heap r ! p))"

lemma joined_mem [simp]: "joined c k p r (s\<lparr>p_mem := m\<rparr>) = joined c k p r s"
  by (simp add: joined_def)

lemma handle_step:
  assumes "joined c k p r s" "0 < n" "Preserve hash k a n (prv_mask [kCopy]) name [] 0 s = Inr s'"
  shows "\<exists>r'. CDHandle_Preserve hash now now' c a n (prv_mask [kCopy]) name [] 0 (r, s) = Inr ((r', s'), n) \<and> joined c k p r' s' \<and>
    (if v_exec_mode (p_cds s ! k) = kReexecution then copied p r' = copied p r \<and> restored p r' = restored p r + of_nat n
     else copied p r' = copied p r + of_nat n \<and> restored p r' = restored p r)"
  using assms
  by (auto simp: CDHandle_Preserve_def joined_def sync_obj_def modify_obj_def cache_at_def with_profile_def RecordData_def copy_mask
      set_heap_def modify_node_def Let_def add_smpl_def add_time_def)

section \<open>A sequence of calls\<close>

lemma handle_calls_preserve:
  assumes "joined c (length cs) p r s" "p_cds s = cs @ [v]" "cd_ok v" "v_exec_mode v = kExecution" "\<not> p_dont_preserve s"
    and "list_all call_ok (map snd xs)"
    and "d_written_len (v_data v) + length (content (v_data v)) + total_len (map snd xs) < 2 ^ 64"
    and "run_calls hash (length cs) xs s = Inr (s', recs)"
  shows "\<exists>r'. handle_calls hash now now' c xs (r, s) = Inr ((r', s'), recs) \<and> joined c (length cs) p r' s' \<and>
    copied p r' = copied p r + of_nat (total_len (map snd xs)) \<and> restored p r' = restored p r"
  using assms
proof (induction hash "length cs" xs s arbitrary: v r recs rule: run_calls.induct)
  case (2 hash m a n name xs s)
  let ?m = "s\<lparr>p_mem := m\<rparr>"
  obtain v1 where v1: "Preserve hash (length cs) a n (prv_mask [kCopy]) name [] 0 ?m = Inr (s\<lparr>p_mem := m, p_cds := cs @ [v1]\<rparr>)"
    "cd_ok v1" "v_exec_mode v1 = kExecution" "d_written_len (v_data v1) = d_written_len (v_data v)"
    "length (content (v_data v1)) = length (content (v_data v)) + n"
    using Preserve_copy_step [of ?m cs v a n name hash] "2.prems" by auto
  let ?s1 = "s\<lparr>p_mem := m, p_cds := cs @ [v1]\<rparr>"
  have n: "0 < n" using "2.prems"(6) by simp
  have j: "joined c (length cs) p r ?m" using "2.prems"(1) by simp
  obtain r1 where r1: "CDHandle_Preserve hash now now' c a n (prv_mask [kCopy]) name [] 0 (r, ?m) = Inr ((r1, ?s1), n)"
    "joined c (length cs) p r1 ?s1" "copied p r1 = copied p r + of_nat n" "restored p r1 = restored p r"
    using handle_step [OF j n v1(1), of now now'] "2.prems"(2,4) by auto
  obtain recs' where rest: "run_calls hash (length cs) xs ?s1 = Inr (s', recs')" "recs = read_mem m a n # recs'"
    using "2.prems"(8) v1(1) by (auto simp: bind_out_Inr_iff)
  have "list_all call_ok (map snd xs)" "d_written_len (v_data v1) + length (content (v_data v1)) + total_len (map snd xs) < 2 ^ 64"
    "\<not> p_dont_preserve ?s1" "p_cds ?s1 = cs @ [v1]"
    using "2.prems" v1(4,5) by simp_all
  from "2.hyps" [OF r1(2) this(4) v1(2,3) this(3,1,2) rest(1)]
  show ?case using r1 rest(2) by (auto simp: algebra_simps)
qed simp

lemma handle_calls_restore:
  assumes "joined c (length cs) p r s" "p_cds s = cs @ [v]" "cd_ok v" "v_exec_mode v = kReexecution" "\<not> p_dont_preserve s"
    and "v_restore_count v + length ys = v_preserve_count v" "0 \<le> p_failed_phase s" "0 \<le> p_failed_seqID s"
    and "list_all2 (holds hash v) (map snd ys) bss" "list_all call_ok (map snd ys)"
    and "run_calls hash (length cs) ys s = Inr (s', recs)"
  shows "\<exists>r'. handle_calls hash now now' c ys (r, s) = Inr ((r', s'), recs) \<and> joined c (length cs) p r' s' \<and>
    copied p r' = copied p r \<and> restored p r' = restored p r + of_nat (total_len (map snd ys))"
  using assms
proof (induction hash "length cs" ys s arbitrary: v r recs bss rule: run_calls.induct)
  case (2 hash m a n name ys s)
  let ?m = "s\<lparr>p_mem := m\<rparr>"
  obtain bs bss' where b: "bss = bs # bss'" "holds hash v (a, n, name) bs" "list_all2 (holds hash v) (map snd ys) bss'"
    using "2.prems"(9) by (auto simp: list_all2_Cons1)
  let ?v = "if v_restore_count v + 1 = v_preserve_count v then v\<lparr>v_exec_mode := kExecution, v_restore_count := 0\<rparr>
     else v\<lparr>v_restore_count := v_restore_count v + 1\<rparr>"
  let ?s1 = "s\<lparr>p_mem := write_mem a bs m, p_cds := cs @ [?v]\<rparr>"
  have step: "Preserve hash (length cs) a n (prv_mask [kCopy]) name [] 0 ?m = Inr ?s1"
    using Preserve_restore_step [of ?m cs v hash a n name bs] "2.prems" b(2) by auto
  have n: "0 < n" using "2.prems"(10) by simp
  have j: "joined c (length cs) p r ?m" using "2.prems"(1) by simp
  obtain r1 where r1: "CDHandle_Preserve hash now now' c a n (prv_mask [kCopy]) name [] 0 (r, ?m) = Inr ((r1, ?s1), n)"
    "joined c (length cs) p r1 ?s1" "copied p r1 = copied p r" "restored p r1 = restored p r + of_nat n"
    using handle_step [OF j n step, of now now'] "2.prems"(2,4) by auto
  obtain recs' where rest: "run_calls hash (length cs) ys ?s1 = Inr (s', recs')" "recs = read_mem (write_mem a bs m) a n # recs'"
    using "2.prems"(11) step by (auto simp: bind_out_Inr_iff)
  show ?case
  proof (cases "ys = []")
    case True
    then show ?thesis using r1 rest by auto
  next
    case False
    then have v: "?v = v\<lparr>v_restore_count := v_restore_count v + 1\<rparr>" using "2.prems"(6) by (cases ys) auto
    have "list_all2 (holds hash ?v) (map snd ys) bss'" unfolding v using b(3) by (rule list_all2_mono) (auto simp: holds.simps)
    moreover have "cd_ok ?v" "v_exec_mode ?v = kReexecution" "v_restore_count ?v + length ys = v_preserve_count ?v"
      using "2.prems"(3,4,6) unfolding v by (simp_all add: cd_ok_def)
    moreover have "\<not> p_dont_preserve ?s1" "0 \<le> p_failed_phase ?s1" "0 \<le> p_failed_seqID ?s1" "list_all call_ok (map snd ys)"
      "p_cds ?s1 = cs @ [?v]" using "2.prems" by simp_all
    ultimately obtain r' where "handle_calls hash now now' c ys (r1, ?s1) = Inr ((r', s'), recs')" "joined c (length cs) p r' s'"
      "copied p r' = copied p r1" "restored p r' = restored p r1 + of_nat (total_len (map snd ys))"
      using "2.hyps" [OF r1(2)] rest(1) by blast
    then show ?thesis using r1 rest(2) by (auto simp: algebra_simps)
  qed
qed simp

section \<open>Properties\<close>


lemma joined_sync: "joined c k p r s \<Longrightarrow> joined c k p (sync_obj c (p_cds s' ! k) r) s'"
  by (simp add: joined_def sync_obj_def modify_obj_def)

lemma joined_start: "\<exists>r. scenario_0 = Inr (r, Return kOK) \<and> joined 0 0 0 r fresh_state"
  by (simp add: core_eval tree_eval prof_eval joined_def fresh_state_def fresh_cd_def)


end
