(* ===== verification/Buffer_Consumer.thy ===== *)
theory Buffer_Consumer
  imports Data_Store
begin

text \<open>
  The consumer thread that drains buffers to their files (\<open>persistence/buffer_consumer.h/.cc\<close>) and its synchronisation with a
  writer in the bounded mode (\<open>WriteInternal\<close> of \<open>data_store.cc\<close>).  Buffers are indices of a list of stores.
  The threads share one mutex and the conditions \<open>empty\<close> and \<open>full\<close>: a critical section up to its end or to a
  wait is one step, and a signal wakes the other thread if it waits for it and is lost otherwise.
  Spurious wake-ups, which POSIX allows, and the time at which a file is synchronised are left out.
\<close>

unbundle bit_operations_syntax

section \<open>The consumer\<close>

record BufferConsumer =
  bc_stores :: "DataStore list"
  bc_buf_list :: "nat list"
  bc_active_id :: "nat option"
  bc_active_state :: uint32

definition put_store :: "nat \<Rightarrow> DataStore \<Rightarrow> BufferConsumer \<Rightarrow> BufferConsumer" where
  "put_store b d c = c\<lparr>bc_stores := (bc_stores c)[b := d]\<rparr>"

definition SetFileOffset :: "nat \<Rightarrow> DataStore \<Rightarrow> DataStore outcome" where
  "SetFileOffset offset d = with_file (\<lambda>f. f\<lparr>f_offset := offset\<rparr>) d"

definition InsertBuffer :: "nat \<Rightarrow> BufferConsumer \<Rightarrow> BufferConsumer outcome" where
  "InsertBuffer ds c =
     bind_out
       (if bc_buf_list c \<noteq> [] then
          let b = last (bc_buf_list c); (d, offset) = PadZeros 0 (bc_stores c ! b) in
          bind_out (SetFileOffset offset d) (\<lambda>d. Inr (put_store b d c))
        else Inr c)
       (\<lambda>c. Inr (c\<lparr>bc_buf_list := bc_buf_list c @ [ds]\<rparr>))"

definition RemoveBuffer :: "nat \<Rightarrow> BufferConsumer \<Rightarrow> BufferConsumer outcome" where
  "RemoveBuffer ds c =
     (if ds \<in> set (bc_buf_list c) then Inr (c\<lparr>bc_buf_list := remove1 ds (bc_buf_list c)\<rparr>)
      else Inl (ErrorMessage ''Remove buffer which is not existing''))"

definition GetBuffer :: "BufferConsumer \<Rightarrow> nat option" where
  "GetBuffer c =
     (case bc_active_id c of
        Some b \<Rightarrow> if CHECK_FLAG (bc_active_state c) kEagerWriting then Some b else None
      | None \<Rightarrow> find (\<lambda>b. \<not> IsEmpty (bc_stores c ! b) \<and> CHECK_FLAG (d_mode (bc_stores c ! b)) kEagerWriting) (bc_buf_list c))"

text \<open>\<open>SetActiveBuffer\<close> without its signal, and the first lines of \<open>Write\<close>.\<close>

definition SetActiveBuffer :: "bool \<Rightarrow> nat \<Rightarrow> BufferConsumer \<Rightarrow> BufferConsumer" where
  "SetActiveBuffer high_priority ds c =
     (if high_priority then
        let d = bc_stores c ! ds; d = d\<lparr>d_mode := d_mode d OR kEagerWriting\<rparr> in
        (put_store ds d c)\<lparr>bc_active_id := Some ds, bc_active_state := d_mode d\<rparr>
      else c)"

definition mark_active :: "nat \<Rightarrow> BufferConsumer \<Rightarrow> BufferConsumer" where
  "mark_active ds c = c\<lparr>bc_active_id := Some ds, bc_active_state := d_mode (bc_stores c ! ds)\<rparr>"

text \<open>One turn of \<open>ConsumeBuffer\<close> after its wait.  With a rest of less than a chunk the pointer is set to null before it is used.\<close>

definition consume_turn :: "BufferConsumer \<Rightarrow> BufferConsumer outcome" where
  "consume_turn c =
     bind_out (deref ''buffer'' (GetBuffer c)) (\<lambda>b.
     bind_out (WriteFile (d_chunksize (bc_stores c ! b)) (bc_stores c ! b)) (\<lambda>d.
     let rest = buf_used d in
     if rest > 0 \<and> rest < int (d_chunksize d) then
       bind_out (WriteFile (nat rest) d) (\<lambda>d. Inl (NullDeref ''buffer''))
     else if rest < 0 then Inl (ErrorMessage ''rest < 0'')
     else bind_out (deref ''fh_'' (d_fh d)) (\<lambda>_. Inr (put_store b d c))))"

section \<open>A writer and the consumer\<close>

datatype writer_pc = WReady | WWaitFull | WWoken
datatype consumer_pc = CReady | CWaitEmpty | CWoken

record sched =
  q_bc :: BufferConsumer
  q_ds :: nat
  q_todo :: "byte list list"
  q_writer :: writer_pc
  q_consumer :: consumer_pc

abbreviation q_store :: "sched \<Rightarrow> DataStore" where
  "q_store s \<equiv> bc_stores (q_bc s) ! q_ds s"

definition signal_empty :: "sched \<Rightarrow> sched" where
  "signal_empty s = s\<lparr>q_consumer := (if q_consumer s = CWaitEmpty then CWoken else q_consumer s)\<rparr>"

definition signal_full :: "sched \<Rightarrow> sched" where
  "signal_full s = s\<lparr>q_writer := (if q_writer s = WWaitFull then WWoken else q_writer s)\<rparr>"

text \<open>
  The pieces \<open>q_todo\<close> are what phases 2 and 3 of \<open>WriteBuffer\<close> hand to \<open>WriteInternal\<close>.  The consumer waits
  before it looks for a buffer.
\<close>

inductive sched_step :: "sched \<Rightarrow> sched \<Rightarrow> bool" where
  writer_full: "q_writer s = WReady \<Longrightarrow> q_todo s \<noteq> [] \<Longrightarrow> IsFull (q_store s) \<Longrightarrow>
    sched_step s (signal_empty (s\<lparr>q_writer := WWaitFull\<rparr>))"
| writer_again: "q_writer s = WWoken \<Longrightarrow> IsFull (q_store s) \<Longrightarrow> sched_step s (s\<lparr>q_writer := WWaitFull\<rparr>)"
| writer_put: "q_writer s \<noteq> WWaitFull \<Longrightarrow> q_todo s = src # srcs \<Longrightarrow> WriteInternal src (q_store s) = Inr d \<Longrightarrow>
    sched_step s (signal_empty (s\<lparr>q_bc := put_store (q_ds s) d (q_bc s), q_todo := srcs, q_writer := WReady\<rparr>))"
| consumer_lock: "q_consumer s = CReady \<Longrightarrow> sched_step s (s\<lparr>q_consumer := CWaitEmpty\<rparr>)"
| consumer_sleep: "q_consumer s = CWoken \<Longrightarrow> GetBuffer (q_bc s) = None \<Longrightarrow> sched_step s (s\<lparr>q_consumer := CWaitEmpty\<rparr>)"
| consumer_turn: "q_consumer s = CWoken \<Longrightarrow> consume_turn (q_bc s) = Inr c \<Longrightarrow>
    sched_step s (signal_full (s\<lparr>q_bc := c, q_consumer := CReady\<rparr>))"

inductive_cases sched_stepE: "sched_step s t"

section \<open>The buffer as a queue\<close>

text \<open>
  The bytes \<open>xs\<close> are all that was ever written: those before \<open>head_\<close> are in the file, the others in the circular
  buffer, of which whole chunks are used up.
\<close>

definition fifo :: "byte list \<Rightarrow> DataStore \<Rightarrow> bool" where
  "fifo xs d \<longleftrightarrow> d_chunksize d = CHUNK_ALIGNMENT \<and> 0 < d_size d \<and> CHUNK_ALIGNMENT dvd d_size d \<and> CHUNK_ALIGNMENT dvd d_head d \<and>
     d_head d \<le> d_tail d \<and> d_tail d \<le> d_head d + d_size d \<and> length xs = d_tail d \<and>
     (\<exists>ptr f. d_ptr d = Some ptr \<and> length ptr = d_size d \<and> d_fh d = Some f \<and>
        (\<forall>i. d_head d \<le> i \<longrightarrow> i < d_tail d \<longrightarrow> ptr ! (i mod d_size d) = xs ! i) \<and>
        d_written_len d + d_head d \<le> length (f_bytes f) \<and> (\<forall>i < d_head d. f_bytes f ! (d_written_len d + i) = xs ! i))"

lemma fifoD:
  assumes "fifo xs d"
  obtains ptr f where "d_chunksize d = CHUNK_ALIGNMENT" "0 < d_size d" "CHUNK_ALIGNMENT dvd d_size d" "CHUNK_ALIGNMENT dvd d_head d"
    "d_head d \<le> d_tail d" "d_tail d \<le> d_head d + d_size d" "length xs = d_tail d"
    "d_ptr d = Some ptr" "length ptr = d_size d" "d_fh d = Some f"
    "\<And>i. d_head d \<le> i \<Longrightarrow> i < d_tail d \<Longrightarrow> ptr ! (i mod d_size d) = xs ! i"
    "d_written_len d + d_head d \<le> length (f_bytes f)" "\<And>i. i < d_head d \<Longrightarrow> f_bytes f ! (d_written_len d + i) = xs ! i"
  using assms unfolding fifo_def by blast

lemma CHUNK_pos [simp]: "0 < CHUNK_ALIGNMENT"
  by (simp add: CHUNK_ALIGNMENT_def)

text \<open>A chunk does not go over the end of the buffer.\<close>

lemma chunk_room:
  fixes c n t :: nat
  assumes "0 < c" "c dvd n" "0 < n"
  shows "t mod n + (c - t mod c) \<le> n"
proof -
  obtain k where n: "n = c * k" using assms(2) by (elim dvdE)
  have "t mod n = c * (t div c mod k) + t mod c" unfolding n by (rule mod_mult2_eq)
  moreover have "t div c mod k + 1 \<le> k" using assms(3) n by (cases k) (simp_all add: Suc_le_eq)
  then have "c * (t div c mod k) + c \<le> n" unfolding n by (metis mult.right_neutral distrib_left mult_le_mono2)
  ultimately show ?thesis using mod_less_divisor [OF assms(1), of t] by linarith
qed

lemma mod_shift:
  fixes n t j :: nat
  assumes "t mod n + j < n"
  shows "(t + j) mod n = t mod n + j"
  using assms by (metis mod_add_left_eq mod_less)

lemma mod_apart:
  fixes n i j :: nat
  assumes "i < j" "j < i + n"
  shows "i mod n \<noteq> j mod n"
proof
  assume "i mod n = j mod n"
  then have "n dvd j - i" using assms(1) by (metis mod_eq_dvd_iff_nat less_imp_le)
  then show False using assms by (auto dest: dvd_imp_le)
qed

lemma fifo_append:
  assumes "fifo xs d" "d_ptr d = Some ptr" "length src \<le> CHUNK_ALIGNMENT - d_tail d mod CHUNK_ALIGNMENT"
    "d_tail d + length src \<le> d_head d + d_size d"
  shows "\<exists>ptr'. copy_in (d_tail d mod d_size d) src ptr = Inr ptr' \<and>
    fifo (xs @ src) (d\<lparr>d_ptr := Some ptr', d_tail := d_tail d + length src\<rparr>)"
proof -
  let ?t = "d_tail d" and ?n = "d_size d" and ?h = "d_head d"
  obtain f where q: "d_chunksize d = CHUNK_ALIGNMENT" "0 < ?n" "CHUNK_ALIGNMENT dvd ?n" "CHUNK_ALIGNMENT dvd ?h" "?h \<le> ?t" "?t \<le> ?h + ?n"
    "length xs = ?t" "length ptr = ?n" "d_fh d = Some f" "\<And>i. ?h \<le> i \<Longrightarrow> i < ?t \<Longrightarrow> ptr ! (i mod ?n) = xs ! i"
    "d_written_len d + ?h \<le> length (f_bytes f)" "\<And>i. i < ?h \<Longrightarrow> f_bytes f ! (d_written_len d + i) = xs ! i"
    using fifoD [OF assms(1)] assms(2) by (metis option.inject)
  have room: "?t mod ?n + length src \<le> ?n" using chunk_room [OF CHUNK_pos q(3,2), of ?t] assms(3) by linarith
  let ?p = "take (?t mod ?n) ptr @ src @ drop (?t mod ?n + length src) ptr"
  have cp: "copy_in (?t mod ?n) src ptr = Inr ?p" using room q(8) by (simp add: copy_in_def)
  have len: "length ?p = ?n" using room q(8) by simp
  have new: "?p ! ((?t + j) mod ?n) = src ! j" if "j < length src" for j
    using mod_shift [of ?t ?n j] that room q(8) by (simp add: nth_append)
  have old: "?p ! (i mod ?n) = ptr ! (i mod ?n)" if i: "?h \<le> i" "i < ?t" for i
  proof -
    have "i mod ?n \<noteq> ?t mod ?n + j" if "j < length src" for j
      using mod_apart [of i "?t + j" ?n] mod_shift [of ?t ?n j] that i assms(4) room by auto
    then have "\<not> (?t mod ?n \<le> i mod ?n \<and> i mod ?n < ?t mod ?n + length src)"
      by (metis add_diff_inverse_nat add_less_cancel_left not_le)
    then show ?thesis using room q(2,8) by (auto simp: nth_append)
  qed
  have "?p ! (i mod ?n) = (xs @ src) ! i" if "?h \<le> i" "i < ?t + length src" for i
  proof (cases "i < ?t")
    case True
    then show ?thesis using old that(1) q(7,10) by (simp add: nth_append)
  next
    case False
    then show ?thesis using new [of "i - ?t"] that(2) q(7) by (simp add: nth_append)
  qed
  then have "fifo (xs @ src) (d\<lparr>d_ptr := Some ?p, d_tail := ?t + length src\<rparr>)"
    using q(1-7,9,11,12) len assms(4) unfolding fifo_def by (auto simp: nth_append)
  then show ?thesis using cp by blast
qed

lemma fifo_free:
  assumes "fifo xs d" "CHUNK_ALIGNMENT dvd d_tail d" "d_tail d < d_head d + d_size d"
  shows "\<not> IsFull d" "d_tail d + CHUNK_ALIGNMENT \<le> d_head d + d_size d"
proof -
  obtain ptr f where q: "d_chunksize d = CHUNK_ALIGNMENT" "CHUNK_ALIGNMENT dvd d_size d" "CHUNK_ALIGNMENT dvd d_head d" "d_head d \<le> d_tail d"
    using fifoD [OF assms(1)] by metis
  have "CHUNK_ALIGNMENT dvd d_head d + d_size d - d_tail d" using q(2,3) assms(2) by (meson dvd_add dvd_diff_nat)
  then have "CHUNK_ALIGNMENT \<le> d_head d + d_size d - d_tail d" using assms(3) by (auto dest: dvd_imp_le)
  then show "\<not> IsFull d" "d_tail d + CHUNK_ALIGNMENT \<le> d_head d + d_size d"
    using assms(3) q(1,4) by (auto simp: IsFull_def buf_used_def)
qed

lemma WriteInternal_fifo:
  assumes "fifo xs d" "CHUNK_ALIGNMENT dvd d_tail d" "length src \<le> CHUNK_ALIGNMENT" "d_tail d < d_head d + d_size d"
  shows "\<exists>ptr. WriteInternal src d = Inr (d\<lparr>d_ptr := Some ptr, d_tail := d_tail d + length src\<rparr>) \<and>
    fifo (xs @ src) (d\<lparr>d_ptr := Some ptr, d_tail := d_tail d + length src\<rparr>)"
proof -
  note free = fifo_free [OF assms(1,2,4)]
  obtain ptr where p: "d_ptr d = Some ptr" "0 < d_size d" using fifoD [OF assms(1)] by metis
  obtain ptr' where "copy_in (d_tail d mod d_size d) src ptr = Inr ptr'"
    "fifo (xs @ src) (d\<lparr>d_ptr := Some ptr', d_tail := d_tail d + length src\<rparr>)"
    using fifo_append [OF assms(1) p(1), of src] assms(2,3) free(2) by (auto simp: dvd_eq_mod_eq_0)
  then show ?thesis using p free(1) by (auto simp: WriteInternal_def)
qed

lemma write_chunks_fifo:
  assumes "fifo xs d" "CHUNK_ALIGNMENT dvd d_tail d \<or> src = []" "d_tail d + length src \<le> d_head d + d_size d"
  shows "\<exists>ptr. write_chunks CHUNK_ALIGNMENT src d = Inr (d\<lparr>d_ptr := Some ptr, d_tail := d_tail d + length src\<rparr>) \<and>
    fifo (xs @ src) (d\<lparr>d_ptr := Some ptr, d_tail := d_tail d + length src\<rparr>)"
  using assms
proof (induction CHUNK_ALIGNMENT src d arbitrary: xs rule: write_chunks.induct)
  case (1 src d)
  obtain p0 where p0: "d_ptr d = Some p0" using fifoD [OF "1.prems"(1)] by metis
  consider "CHUNK_ALIGNMENT \<le> length src" | "src \<noteq> []" "length src < CHUNK_ALIGNMENT" | "src = []" by force
  then show ?case
  proof cases
    case 1
    let ?a = "take CHUNK_ALIGNMENT src" and ?b = "drop CHUNK_ALIGNMENT src"
    have ne: "src \<noteq> []" "length ?a = CHUNK_ALIGNMENT" using 1 CHUNK_pos by (auto simp del: CHUNK_pos)
    have al: "CHUNK_ALIGNMENT dvd d_tail d" "d_tail d < d_head d + d_size d" using "1.prems"(2,3) ne 1 CHUNK_pos by (auto simp del: CHUNK_pos)
    obtain p1 where p1: "WriteInternal ?a d = Inr (d\<lparr>d_ptr := Some p1, d_tail := d_tail d + CHUNK_ALIGNMENT\<rparr>)"
      "fifo (xs @ ?a) (d\<lparr>d_ptr := Some p1, d_tail := d_tail d + CHUNK_ALIGNMENT\<rparr>)"
      using WriteInternal_fifo [OF "1.prems"(1) al(1) _ al(2), of ?a] ne(2) by auto
    let ?d = "d\<lparr>d_ptr := Some p1, d_tail := d_tail d + CHUNK_ALIGNMENT\<rparr>"
    have "CHUNK_ALIGNMENT dvd d_tail ?d \<or> ?b = []" "d_tail ?d + length ?b \<le> d_head ?d + d_size ?d" using al(1) "1.prems"(3) 1 by simp_all
    from "1.hyps" [OF _ p1(2) this] 1 obtain p2 where
      "write_chunks CHUNK_ALIGNMENT ?b ?d = Inr (?d\<lparr>d_ptr := Some p2, d_tail := d_tail ?d + length ?b\<rparr>)"
      "fifo ((xs @ ?a) @ ?b) (?d\<lparr>d_ptr := Some p2, d_tail := d_tail ?d + length ?b\<rparr>)" by auto
    then show ?thesis using p1(1) 1 by (subst write_chunks.simps) auto
  next
    case 2
    have al: "CHUNK_ALIGNMENT dvd d_tail d" "d_tail d < d_head d + d_size d" using "1.prems"(2,3) 2(1) by (auto simp flip: length_greater_0_conv)
    then show ?thesis using WriteInternal_fifo [OF "1.prems"(1) al(1) _ al(2), of src] 2 by (subst write_chunks.simps) auto
  next
    case 3
    have "d\<lparr>d_ptr := Some p0\<rparr> = d" using p0 by (cases d) simp
    then show ?thesis using 3 "1.prems"(1) by (subst write_chunks.simps) (simp add: exI [of _ p0] CHUNK_ALIGNMENT_def)
  qed
qed

text \<open>A write that fits into the buffer returns its position and does not wait.\<close>

lemma Write_fifo:
  assumes "fifo xs d" "CHECK_FLAG (d_mode d) kBoundedMode" "src \<noteq> []" "d_tail d + length src \<le> d_head d + d_size d"
  shows "\<exists>ptr. Data_Write src d = Inr (d\<lparr>d_ptr := Some ptr, d_tail := d_tail d + length src\<rparr>, Data_used d) \<and>
    fifo (xs @ src) (d\<lparr>d_ptr := Some ptr, d_tail := d_tail d + length src\<rparr>)"
proof -
  let ?k = "CHUNK_ALIGNMENT - d_tail d mod CHUNK_ALIGNMENT"
  obtain ptr where q: "d_chunksize d = CHUNK_ALIGNMENT" "0 < d_size d" "d_head d \<le> d_tail d" "d_ptr d = Some ptr"
    using fifoD [OF assms(1)] by metis
  let ?l = "min (length src) ?k"
  have l: "length (take ?l src) \<le> ?k" "d_tail d + length (take ?l src) \<le> d_head d + d_size d" "length (take ?l src) = ?l"
    using assms(4) by auto
  obtain p1 where p1: "copy_in (d_tail d mod d_size d) (take ?l src) ptr = Inr p1"
    "fifo (xs @ take ?l src) (d\<lparr>d_ptr := Some p1, d_tail := d_tail d + ?l\<rparr>)"
    using fifo_append [OF assms(1) q(4) l(1,2)] unfolding l(3) by blast
  let ?d = "d\<lparr>d_ptr := Some p1, d_tail := d_tail d + ?l\<rparr>"
  have "CHUNK_ALIGNMENT dvd d_tail ?d \<or> drop ?l src = []"
  proof (cases "length src \<le> ?k")
    case False
    have "d_tail d mod CHUNK_ALIGNMENT < CHUNK_ALIGNMENT" by simp
    then have "d_tail d + ?k = CHUNK_ALIGNMENT * (d_tail d div CHUNK_ALIGNMENT) + CHUNK_ALIGNMENT"
      using mult_div_mod_eq [of CHUNK_ALIGNMENT "d_tail d"] by linarith
    then show ?thesis using False by simp
  qed simp
  moreover have "d_tail ?d + length (drop ?l src) \<le> d_head ?d + d_size ?d" using assms(4) by simp
  ultimately obtain p2 where p2: "write_chunks CHUNK_ALIGNMENT (drop ?l src) ?d = Inr (?d\<lparr>d_ptr := Some p2, d_tail := d_tail ?d + length (drop ?l src)\<rparr>)"
    "fifo ((xs @ take ?l src) @ drop ?l src) (?d\<lparr>d_ptr := Some p2, d_tail := d_tail ?d + length (drop ?l src)\<rparr>)"
    using write_chunks_fifo [OF p1(2)] by blast
  moreover have "d_tail ?d + length (drop ?l src) = d_tail d + length src" by simp
  moreover have "length src \<le> d_size d" using assms(4) q(3) by linarith
  ultimately show ?thesis using q p1(1) assms(2,3)
    by (auto simp: Data_Write_def WriteBufferMode_def WriteBuffer_def Let_def CHUNK_ALIGNMENT_def)
qed

lemma File_Write_nth:
  "off \<le> length (f_bytes f) \<Longrightarrow> i < off + length src \<Longrightarrow>
     f_bytes (File_Write off src inc f) ! i = (if i < off then f_bytes f ! i else src ! (i - off))"
  "off \<le> length (f_bytes f) \<Longrightarrow> off + length src \<le> length (f_bytes (File_Write off src inc f))"
  by (auto simp: File_Write_def Let_def nth_append)

text \<open>The consumer takes the oldest chunk.\<close>

lemma WriteFile_fifo:
  assumes "fifo xs d" "d_head d + CHUNK_ALIGNMENT \<le> d_tail d"
  shows "\<exists>d'. WriteFile CHUNK_ALIGNMENT d = Inr d' \<and> fifo xs d' \<and> d_head d' = d_head d + CHUNK_ALIGNMENT \<and> d_tail d' = d_tail d \<and>
    d_chunksize d' = d_chunksize d \<and> d_size d' = d_size d \<and> d_mode d' = d_mode d"
proof -
  let ?t = "d_tail d" and ?n = "d_size d" and ?h = "d_head d" and ?c = CHUNK_ALIGNMENT
  obtain ptr f where q: "d_chunksize d = ?c" "0 < ?n" "?c dvd ?n" "?c dvd ?h" "?h \<le> ?t" "?t \<le> ?h + ?n" "length xs = ?t"
    "d_ptr d = Some ptr" "length ptr = ?n" "d_fh d = Some f" "\<And>i. ?h \<le> i \<Longrightarrow> i < ?t \<Longrightarrow> ptr ! (i mod ?n) = xs ! i"
    "d_written_len d + ?h \<le> length (f_bytes f)" "\<And>i. i < ?h \<Longrightarrow> f_bytes f ! (d_written_len d + i) = xs ! i"
    by (rule fifoD [OF assms(1)]) (rule that; blast)
  have room: "?h mod ?n + ?c \<le> ?n" using chunk_room [OF CHUNK_pos q(3,2), of ?h] q(4) by (simp add: dvd_eq_mod_eq_0)
  have al: "chunk_up ?c = ?c" "chunk_down ?c = ?c" by (simp_all add: chunk_up_def chunk_down_def)
  let ?bs = "take ?c (drop (?h mod ?n) ptr)" and ?off = "?h + d_written_len d"
  have bs: "length ?bs = ?c" "?bs ! j = xs ! (?h + j)" if "j < ?c" for j
    using room q(9) mod_shift [of ?h ?n j] q(11) [of "?h + j"] that assms(2) by (auto simp: min_def)
  let ?f = "File_Write ?off ?bs (int ?c) f" and ?d = "d\<lparr>d_fh := Some (File_Write ?off ?bs (int ?c) f), d_head := ?h + ?c\<rparr>"
  have len: "length ?bs = ?c" using room q(9) by simp
  have "WriteFile ?c d = Inr ?d"
    using room q(2,8-10) al CHUNK_pos
    by (auto simp: WriteFile_def CopyBufferToFile_def copy_out_def with_file_def Let_def simp del: CHUNK_pos)
  moreover have "f_bytes ?f ! (d_written_len d + i) = xs ! i" if "i < ?h + ?c" for i
    using that q(12,13) bs(2) [of "i - ?h"] len by (auto simp: File_Write_nth(1))
  then have "fifo xs ?d"
    using q(1-9,11) File_Write_nth(2) [of ?off f ?bs "int ?c"] q(12) len assms(2) unfolding fifo_def by (auto simp: add_ac)
  ultimately show ?thesis by (intro exI [of _ ?d]) simp
qed

section \<open>What a schedule keeps\<close>

text \<open>The pieces of a write: whole chunks and a last piece of at most a chunk, from a chunk boundary on.\<close>

fun pieces_ok :: "byte list list \<Rightarrow> bool" where
  "pieces_ok [] \<longleftrightarrow> True"
| "pieces_ok (src # srcs) \<longleftrightarrow> length src \<le> CHUNK_ALIGNMENT \<and> (srcs \<noteq> [] \<longrightarrow> length src = CHUNK_ALIGNMENT) \<and> pieces_ok srcs"

definition sched_ok :: "byte list \<Rightarrow> sched \<Rightarrow> bool" where
  "sched_ok all s \<longleftrightarrow> q_ds s < length (bc_stores (q_bc s)) \<and> bc_active_id (q_bc s) = Some (q_ds s) \<and> pieces_ok (q_todo s) \<and>
     (q_todo s \<noteq> [] \<longrightarrow> CHUNK_ALIGNMENT dvd d_tail (q_store s)) \<and> (\<exists>xs. fifo xs (q_store s) \<and> all = xs @ concat (q_todo s))"

lemma signal_simps [simp]:
  "q_bc (signal_empty s) = q_bc s" "q_ds (signal_empty s) = q_ds s" "q_todo (signal_empty s) = q_todo s" "q_writer (signal_empty s) = q_writer s"
  "q_bc (signal_full s) = q_bc s" "q_ds (signal_full s) = q_ds s" "q_todo (signal_full s) = q_todo s" "q_consumer (signal_full s) = q_consumer s"
  by (simp_all add: signal_empty_def signal_full_def)

lemma with_file_keeps: "with_file g d = Inr d' \<Longrightarrow> d_head d' = d_head d \<and> d_tail d' = d_tail d"
  by (auto simp: with_file_def bind_out_Inr_iff)

lemma CopyBufferToFile_keeps:
  assumes "CopyBufferToFile pos n off d = Inr d'"
  shows "d_head d' = d_head d \<and> d_tail d' = d_tail d"
proof (cases "n = 0")
  case False
  obtain ptr where "d_ptr d = Some ptr" "d_size d \<noteq> 0"
    using assms False by (auto simp: CopyBufferToFile_def bind_out_Inr_iff split: if_splits)
  then show ?thesis
    using assms False with_file_keeps by (fastforce simp: CopyBufferToFile_def bind_out_Inr_iff Let_def split: if_splits)
qed (use assms in \<open>simp add: CopyBufferToFile_def\<close>)

lemma WriteFile_moves: "WriteFile n d = Inr d' \<Longrightarrow> d_head d' = d_head d + chunk_down n \<and> d_tail d' = d_tail d"
  by (auto simp: WriteFile_def bind_out_Inr_iff dest!: CopyBufferToFile_keeps)

lemma consume_turn_fifo:
  assumes "consume_turn c = Inr c'" "bc_active_id c = Some b" "b < length (bc_stores c)" "fifo xs (bc_stores c ! b)"
  shows "\<exists>d. c' = put_store b d c \<and> fifo xs d \<and> d_tail d = d_tail (bc_stores c ! b)"
proof -
  let ?d = "bc_stores c ! b"
  have ck: "d_chunksize ?d = CHUNK_ALIGNMENT" using fifoD [OF assms(4)] by metis
  obtain d where d: "WriteFile CHUNK_ALIGNMENT ?d = Inr d" "c' = put_store b d c" "0 \<le> buf_used d"
    using assms(1,2) ck by (auto simp: consume_turn_def GetBuffer_def bind_out_Inr_iff Let_def split: if_splits)
  have "d_head d = d_head ?d + CHUNK_ALIGNMENT" "d_tail d = d_tail ?d" using WriteFile_moves [OF d(1)] by (simp_all add: chunk_down_def)
  then have "d_head ?d + CHUNK_ALIGNMENT \<le> d_tail ?d" using d(3) by (simp add: buf_used_def)
  from WriteFile_fifo [OF assms(4) this] show ?thesis using d(1,2) by auto
qed

lemma sched_step_ok: "sched_step s t \<Longrightarrow> sched_ok all s \<Longrightarrow> sched_ok all t"
proof (induction rule: sched_step.induct)
  case (writer_put s src srcs d)
  obtain xs where xs: "fifo xs (q_store s)" "all = xs @ src @ concat srcs" using writer_put by (auto simp: sched_ok_def)
  have ok: "CHUNK_ALIGNMENT dvd d_tail (q_store s)" "length src \<le> CHUNK_ALIGNMENT" "srcs \<noteq> [] \<longrightarrow> length src = CHUNK_ALIGNMENT" "pieces_ok srcs"
    "q_ds s < length (bc_stores (q_bc s))" "bc_active_id (q_bc s) = Some (q_ds s)" using writer_put by (auto simp: sched_ok_def)
  have "\<not> IsFull (q_store s)" using writer_put(3) by (auto simp: WriteInternal_def split: if_splits)
  moreover have "d_chunksize (q_store s) = CHUNK_ALIGNMENT" "0 < d_size (q_store s)" using fifoD [OF xs(1)] by metis+
  ultimately have "d_tail (q_store s) < d_head (q_store s) + d_size (q_store s)"
    using CHUNK_pos unfolding IsFull_def buf_used_def by linarith
  from WriteInternal_fifo [OF xs(1) ok(1,2) this] writer_put(3)
  have "fifo (xs @ src) d" "d_tail d = d_tail (q_store s) + length src" by auto
  then show ?case using ok xs(2) by (auto simp: sched_ok_def put_store_def)
next
  case (consumer_turn s c)
  obtain xs where xs: "fifo xs (q_store s)" "all = xs @ concat (q_todo s)" using consumer_turn by (auto simp: sched_ok_def)
  have ok: "bc_active_id (q_bc s) = Some (q_ds s)" "q_ds s < length (bc_stores (q_bc s))" using consumer_turn(3) by (auto simp: sched_ok_def)
  from consume_turn_fifo [OF consumer_turn(2) ok xs(1)] show ?case
    using consumer_turn(3) xs(2) by (auto simp: sched_ok_def put_store_def)
qed (auto simp: sched_ok_def)

lemma sched_steps_ok: "sched_step\<^sup>*\<^sup>* s t \<Longrightarrow> sched_ok all s \<Longrightarrow> sched_ok all t"
  by (induction rule: rtranclp_induct) (auto intro: sched_step_ok)

section \<open>Properties\<close>

text \<open>
  C13.  The buffer is a queue.  Whatever the order in which a writer and the consumer run, after every step the file holds the oldest bytes of
  the write in order, the circular buffer the ones after them, and what is left to write the rest: no byte is lost or
  repeated.
\<close>

theorem schedule_keeps_queue:
  assumes "sched_step\<^sup>*\<^sup>* s t" and "sched_ok all s"
  shows "\<exists>ptr f. d_ptr (q_store t) = Some ptr \<and> d_fh (q_store t) = Some f \<and>
    length all = d_tail (q_store t) + length (concat (q_todo t)) \<and> drop (d_tail (q_store t)) all = concat (q_todo t) \<and>
    (\<forall>i < d_head (q_store t). f_bytes f ! (d_written_len (q_store t) + i) = all ! i) \<and>
    (\<forall>i. d_head (q_store t) \<le> i \<longrightarrow> i < d_tail (q_store t) \<longrightarrow> ptr ! (i mod d_size (q_store t)) = all ! i)"
proof -
  have "sched_ok all t" by (rule sched_steps_ok [OF assms])
  then obtain xs where xs: "fifo xs (q_store t)" "all = xs @ concat (q_todo t)" by (auto simp: sched_ok_def)
  show ?thesis
  proof (rule fifoD [OF xs(1)])
    fix ptr f
    assume a: "d_head (q_store t) \<le> d_tail (q_store t)" "length xs = d_tail (q_store t)" "d_ptr (q_store t) = Some ptr" "d_fh (q_store t) = Some f"
      "\<And>i. d_head (q_store t) \<le> i \<Longrightarrow> i < d_tail (q_store t) \<Longrightarrow> ptr ! (i mod d_size (q_store t)) = xs ! i"
      "\<And>i. i < d_head (q_store t) \<Longrightarrow> f_bytes f ! (d_written_len (q_store t) + i) = xs ! i"
    show ?thesis using a xs(2) by (intro exI [of _ ptr] exI [of _ f]) (auto simp: nth_append)
  qed
qed

text \<open>A full buffer of one chunk with a write of a chunk and a byte.\<close>

definition one_chunk :: DataStore where
  "one_chunk = small_store\<lparr>d_size := CHUNK_ALIGNMENT, d_tail := CHUNK_ALIGNMENT, d_mode := kBoundedMode OR kEagerWriting, d_ftype := kPosixFile,
     d_chunksize := CHUNK_ALIGNMENT, d_written_len := CHUNK_ALIGNMENT, d_ptr := Some (replicate CHUNK_ALIGNMENT 7),
     d_fh := Some \<lparr>f_bytes = replicate CHUNK_ALIGNMENT 0, f_offset = CHUNK_ALIGNMENT\<rparr>\<rparr>"

definition one_sched :: sched where
  "one_sched = \<lparr>q_bc = \<lparr>bc_stores = [one_chunk], bc_buf_list = [0], bc_active_id = Some 0, bc_active_state = d_mode one_chunk\<rparr>,
     q_ds = 0, q_todo = [replicate CHUNK_ALIGNMENT 8, [9]], q_writer = WReady, q_consumer = CWaitEmpty\<rparr>"

lemma one_chunk_fifo: "fifo (replicate CHUNK_ALIGNMENT 7) one_chunk"
  by (simp add: fifo_def one_chunk_def small_store_def)

lemma one_sched_ok: "sched_ok (replicate CHUNK_ALIGNMENT 7 @ replicate CHUNK_ALIGNMENT 8 @ [9]) one_sched"
proof -
  have "Suc 0 \<le> CHUNK_ALIGNMENT" using CHUNK_pos by (simp add: Suc_le_eq del: CHUNK_pos)
  moreover have "d_tail one_chunk = CHUNK_ALIGNMENT" by (simp add: one_chunk_def)
  ultimately show ?thesis using one_chunk_fifo by (auto simp: sched_ok_def one_sched_def)
qed

theorem schedule_keeps_queue_witness:
  "\<exists>t ptr. sched_step\<^sup>*\<^sup>* one_sched t \<and> q_writer t = WWaitFull \<and> d_ptr (q_store t) = Some ptr \<and> d_head (q_store t) = 0 \<and>
     ptr ! 0 = (replicate CHUNK_ALIGNMENT 7 @ replicate CHUNK_ALIGNMENT 8 @ [9]) ! 0"
proof -
  let ?t = "signal_empty (one_sched\<lparr>q_writer := WWaitFull\<rparr>)"
  have f: "IsFull one_chunk" by (simp add: one_chunk_def IsFull_def buf_used_def small_store_def)
  have "sched_step one_sched ?t" by (rule writer_full) (use f in \<open>simp_all add: one_sched_def\<close>)
  then have st: "sched_step\<^sup>*\<^sup>* one_sched ?t" by blast
  have t: "q_store ?t = one_chunk" "q_writer ?t = WWaitFull" "d_head one_chunk = 0" "0 < d_tail one_chunk"
    by (simp_all add: one_sched_def one_chunk_def small_store_def)
  from schedule_keeps_queue [OF st one_sched_ok] obtain ptr where "d_ptr (q_store ?t) = Some ptr"
    "\<forall>i. d_head (q_store ?t) \<le> i \<longrightarrow> i < d_tail (q_store ?t) \<longrightarrow> ptr ! (i mod d_size (q_store ?t)) =
       (replicate CHUNK_ALIGNMENT 7 @ replicate CHUNK_ALIGNMENT 8 @ [9]) ! i" by blast
  then show ?thesis using st t by (metis le_refl mod_0)
qed



text \<open>
  The consumer dies on a rest.  When a turn leaves less than a chunk in the buffer, the consumer writes the rest to the file, sets its pointer to the
  buffer to null and then synchronises the file through it.
\<close>

theorem rest_kills_consumer:
  assumes "bc_active_id c = Some b" and "CHECK_FLAG (bc_active_state c) kEagerWriting" and "fifo xs (bc_stores c ! b)"
    and "d_head (bc_stores c ! b) + CHUNK_ALIGNMENT < d_tail (bc_stores c ! b)"
    and "d_tail (bc_stores c ! b) < d_head (bc_stores c ! b) + 2 * CHUNK_ALIGNMENT"
  shows "consume_turn c = Inl (NullDeref ''buffer'')"
proof -
  let ?d = "bc_stores c ! b" and ?c = "CHUNK_ALIGNMENT"
  obtain d1 where d1: "WriteFile ?c ?d = Inr d1" "fifo xs d1" "d_head d1 = d_head ?d + ?c" "d_tail d1 = d_tail ?d" "d_chunksize d1 = d_chunksize ?d"
    using WriteFile_fifo [OF assms(3)] assms(4) by auto
  obtain ptr f where q: "d_chunksize d1 = ?c" "0 < d_size d1" "?c dvd d_size d1" "?c dvd d_head d1" "d_ptr d1 = Some ptr" "length ptr = d_size d1" "d_fh d1 = Some f"
    using fifoD [OF d1(2)] by metis
  obtain n where rest: "0 < n" "n < ?c" "buf_used d1 = int n"
    using assms(4,5) d1(3,4) that [of "d_tail d1 - d_head d1"] by (simp add: buf_used_def)
  have room: "d_head d1 mod d_size d1 + ?c \<le> d_size d1"
    using chunk_room [OF CHUNK_pos q(3,2), of "d_head d1"] q(4) by (simp add: dvd_eq_mod_eq_0)
  have up: "chunk_up n = ?c" using rest(1,2) by (simp add: chunk_up_def chunk_down_def)
  have "\<exists>d2. WriteFile n d1 = Inr d2"
    using room rest(1,2) q(2,5-7) up by (auto simp: WriteFile_def CopyBufferToFile_def copy_out_def with_file_def Let_def)
  then show ?thesis using assms(1,2) d1(1,5) q(1) rest by (auto simp: consume_turn_def GetBuffer_def Let_def)
qed

definition two_chunks :: DataStore where
  "two_chunks = one_chunk\<lparr>d_size := 2 * CHUNK_ALIGNMENT, d_tail := CHUNK_ALIGNMENT + 1, d_ptr := Some (replicate (2 * CHUNK_ALIGNMENT) 7)\<rparr>"

theorem rest_kills_consumer_witness:
  "consume_turn \<lparr>bc_stores = [two_chunks], bc_buf_list = [0], bc_active_id = Some 0, bc_active_state = kEagerWriting\<rparr> = Inl (NullDeref ''buffer'')"
proof -
  have c: "Suc 0 < CHUNK_ALIGNMENT" by (simp add: CHUNK_ALIGNMENT_def)
  have m: "i mod (2 * CHUNK_ALIGNMENT) < 2 * CHUNK_ALIGNMENT" for i by simp
  have "fifo (replicate (CHUNK_ALIGNMENT + 1) 7) two_chunks"
    using m c by (auto simp: fifo_def two_chunks_def one_chunk_def small_store_def simp del: replicate_Suc mod_less_divisor)
  moreover have "d_head two_chunks + CHUNK_ALIGNMENT < d_tail two_chunks" "d_tail two_chunks < d_head two_chunks + 2 * CHUNK_ALIGNMENT"
    using c by (simp_all add: two_chunks_def one_chunk_def small_store_def)
  ultimately show ?thesis
    using rest_kills_consumer [of "\<lparr>bc_stores = [two_chunks], bc_buf_list = [0], bc_active_id = Some 0, bc_active_state = kEagerWriting\<rparr>" 0]
    by (simp add: CHECK_FLAG_def)
qed

text \<open>
  C38.  A full buffer is overwritten.  A write to a buffer that is full at a chunk boundary does not wait for the consumer: its first
  piece goes to the place of the oldest chunk, which is not in the file yet, and the call returns.
\<close>

theorem full_buffer_overwritten:
  assumes "fifo xs d" and "CHECK_FLAG (d_mode d) kBoundedMode" and "d_tail d = d_head d + d_size d"
    and "src \<noteq> []" and "length src \<le> CHUNK_ALIGNMENT"
  shows "IsFull d \<and> (\<exists>ptr. Data_Write src d = Inr (d\<lparr>d_ptr := Some ptr, d_tail := d_tail d + length src\<rparr>, Data_used d) \<and>
    take (length src) (drop (d_head d mod d_size d) ptr) = src)"
proof -
  let ?c = "CHUNK_ALIGNMENT"
  obtain ptr where q: "d_chunksize d = ?c" "0 < d_size d" "?c dvd d_size d" "?c dvd d_head d" "d_ptr d = Some ptr" "length ptr = d_size d"
    using fifoD [OF assms(1)] by metis
  have al: "d_tail d mod ?c = 0" "d_tail d mod d_size d = d_head d mod d_size d" using q(3,4) assms(3) by (auto simp: dvd_eq_mod_eq_0 mod_add_eq)
  have room: "d_head d mod d_size d + ?c \<le> d_size d"
    using chunk_room [OF CHUNK_pos q(3,2), of "d_head d"] q(4) by (simp add: dvd_eq_mod_eq_0)
  let ?h = "d_head d mod d_size d"
  let ?p = "take ?h ptr @ src @ drop (?h + length src) ptr"
  have "copy_in ?h src ptr = Inr ?p" using room assms(5) q(6) by (simp add: copy_in_def)
  moreover have "write_chunks ?c [] d' = Inr d'" for d' by (subst write_chunks.simps) (simp add: CHUNK_ALIGNMENT_def)
  moreover have "length src \<le> d_size d" using room assms(5) by linarith
  ultimately have "Data_Write src d = Inr (d\<lparr>d_ptr := Some ?p, d_tail := d_tail d + length src\<rparr>, Data_used d)"
    using q al assms(2,4,5) by (simp add: Data_Write_def WriteBufferMode_def WriteBuffer_def Let_def min_def)
  moreover have "take (length src) (drop ?h ?p) = src" using room q(6) by simp
  moreover have "IsFull d" using assms(3) q(1) CHUNK_pos by (simp add: IsFull_def buf_used_def del: CHUNK_pos)
  ultimately show ?thesis by blast
qed

theorem full_buffer_overwritten_witness:
  "IsFull one_chunk \<and> (\<exists>d ptr n. Data_Write [8, 9] one_chunk = Inr (d, n) \<and> d_ptr d = Some ptr \<and> take 2 ptr = [8, 9])"
proof -
  have "CHECK_FLAG (d_mode one_chunk) kBoundedMode" "d_tail one_chunk = d_head one_chunk + d_size one_chunk" "d_head one_chunk = 0"
    by (simp_all add: one_chunk_def small_store_def CHECK_FLAG_def kBoundedMode_def kEagerWriting_def)
  moreover have "length [8, 9 :: byte] \<le> CHUNK_ALIGNMENT" "length [8, 9 :: byte] = 2" by (simp_all add: CHUNK_ALIGNMENT_def)
  ultimately show ?thesis using full_buffer_overwritten [OF one_chunk_fifo, of "[8, 9]"] by (auto simp: numeral_2_eq_2)
qed

end
