(* ===== verification/Spec2Isabelle.thy ===== *)
theory Spec2Isabelle
  imports CD_Ident CD_Split Runtime_Info Phase_Tree CD_Path CD_Core
    Attr_Entry Table_Store Data_Store CD_Preserve
    Comm_Log Comm_Log_Pack CD_Logging MPI_Wrapper MPI_Replay MPI_Request
    C_Text Config_Load Tuned_Handle Mail_Box CD_Vector Error_Inject
    Handle_Preserve Buffer_Consumer
begin

text \<open>
  \<^bold>\<open>The Containment Domains runtime.\<close>

  The program is a library for resilient parallel applications (\<open>src/src\<close>).  An application
  nests \<^emph>\<open>containment domains\<close>: \<open>Create\<close> makes a child of the current domain,
  \<open>Begin\<close> enters it, \<open>Preserve\<close> saves (or, in re-execution, restores) a range of memory,
  \<open>Complete\<close> leaves it.  When an error is reported, every domain completes until the level of
  the error is reached; that domain is re-entered by \<open>longjmp\<close> at its \<open>Begin\<close>, its
  \<open>Preserve\<close> calls restore the memory, and when execution passes the point of the failure the
  process is healthy again.  A phase tree indexes the domains by the labels of their \<open>Begin\<close> and
  carries a run-time profile per phase.

  \<^bold>\<open>Parts and theories.\<close>

  \<^item> \<open>CD_Prelude\<close>: machine integers, outcomes of calls (\<open>Inl\<close> is a failed assertion, a null
    pointer, a division by zero, an access out of range, a wait that never ends), shared lemmas.
  \<^item> \<open>CD_Flags\<close>: the enumerations and flag macros of \<open>cd_def_common.h\<close>,
    \<open>cd_def_interface.h\<close>, \<open>cd_def_internal.h\<close>, \<open>cd_global.h\<close>.  The lemmas show that masks
    give back what was put in and that printed medium names are read back.
  \<^item> \<open>CD_Ident\<close>: \<open>cd_name_t\<close>, \<open>node_id\<close>, \<open>cd_id\<close> and message tags; uniqueness of names
    and tags, and what the start-up scan of the tag bound computes.
  \<^item> \<open>CD_Split\<close>: the split methods of \<open>cd_handle.cc\<close>.  The interface \<open>split_method\<close> states
    that a split numbers the tasks without gaps or overlaps; both methods are interpretations.
  \<^item> \<open>Std_Map\<close>: \<open>std::map\<close> as an ordered association list, with the interface
    \<open>std_map\<close>.
  \<^item> \<open>Runtime_Info\<close>: \<open>runtime_info.h/.cc\<close> and the gathered records of \<open>prof_entry.hpp\<close>; the
    recording calls with the timers they update, the conservation of time between phases and
    process, what each timer measures, the copied volume, merging and gathering.
  \<^item> \<open>Phase_Tree\<close>: \<open>phase_tree.h/.cc\<close>; nodes in a heap, the path index, the invariant
    \<open>tree_wf\<close> and its preservation, lookup of phases by label, the reset of a re-executed subtree,
    sequence numbers.
  \<^item> \<open>CD_Path\<close>: \<open>cd_path.h\<close>; the current, parent and nearest coarse domain of a path.
  \<^item> \<open>CD_Core\<close>: \<open>Begin\<close>, \<open>Complete\<close>, \<open>Create\<close>, \<open>Destroy\<close>, recovery and
    escalation of \<open>cd_internal.cc\<close>, with the calls of \<open>cd_handle.cc\<close> around them; completion
    without error, rollback to the level of an error, the end of recovery, and what happens after
    an escalation.
  \<^item> \<open>Attr_Entry\<close>, \<open>Table_Store\<close>: the entries and the table of a preservation store
    (\<open>persistence/base_store.h\<close>, \<open>table_store.hpp\<close>).  The interface \<open>entry_log\<close> states that
    the table is a log searched from its end.
  \<^item> \<open>Data_Store\<close>: the circular buffer with its file (\<open>persistence/data_store.h/.cc\<close>,
    \<open>cd_file_handle.h/.cc\<close>).  The interface \<open>byte_store\<close> states that written bytes are read back
    and that later writes keep them; it is interpreted on the volatile mode.
  \<^item> \<open>CD_Preserve\<close>: \<open>Preserve\<close> and what it calls in \<open>cd_internal.cc\<close>, on the packer of
    \<open>persistence/packer.hpp\<close>, with the memory of the application; re-execution restores the
    preserved bytes, by copy and by reference to a parent.
  \<^item> \<open>Handle_Preserve\<close>: \<open>CDHandle::Preserve\<close> (\<open>cd_handle.cc\<close>), which joins \<open>CD_Preserve\<close> with
    the objects and profiles of \<open>CD_Core\<close>; what re-execution restores is what was recorded as copied.
  \<^item> \<open>Comm_Log\<close>, \<open>Comm_Log_Pack\<close>: the communication log of a relaxed domain
    (\<open>cd_comm_log.h/.cc\<close>), seen as a tape of messages, and the packing of the log of a completed child
    into its parent.  The interface \<open>replay_log\<close> states that a rewound log delivers what was logged;
    \<open>fixed_codec\<close> states that the images of structures are read back.
  \<^item> \<open>CD_Logging\<close>: the logging part of \<open>class CD\<close> (\<open>cd_internal.cc\<close>): the log and the
    incomplete entries of each domain of the path through creation, \<open>Begin\<close>, completion and
    re-execution; which logs survive a rollback.
  \<^item> \<open>MPI_Wrapper\<close>, \<open>MPI_Request\<close>: the wrappers of blocking and of non-blocking MPI calls
    (\<open>cd_mpiwrapper.cc\<close>) and the waiting loops of \<open>cd_comm_internal.cc\<close>, on an MPI library
    that is a record of functions; \<open>MPI_Replay\<close> shows that re-execution delivers the same bytes
    without communicating.  The lemmas on requests show which waits end, and where they go wrong.
  \<^item> \<open>C_Text\<close>: the functions of the C library that read and print numbers and words.
  \<^item> \<open>Config_Load\<close>: the configuration of phases (\<open>sys_err_t.h/.cc\<close>), loaded from the events of
    the yaml library, and its printer in \<open>phase_tree.cc\<close>; a printed configuration is loaded back when
    its phases are numbered in the order of the file, and only then.
  \<^item> \<open>Tuned_Handle\<close>: the handles that follow a configuration (\<open>tuned_cd_handle.h/.cc\<close>), on top of
    \<open>CD_Core\<close> and \<open>CD_Preserve\<close>; the tree of the configuration and the tree of the runtime move
    together (a step relation and its invariant \<open>in_step\<close>), and what other intervals do.
  \<^item> \<open>Mail_Box\<close>: the events between the tasks of a job (\<open>cd_comm_internal.cc\<close>,
    \<open>event_handler.h/.cc\<close>): mailboxes, counters of pending events and rollback points of all tasks, how an
    error is reported, read and handled, and the synchronisation in \<open>SyncCDs\<close> and \<open>Begin\<close>.  The
    invariant \<open>mail_ok\<close> makes every call return; a failed assertion of one task is agreed upon by all.
  \<^item> \<open>CD_Vector\<close>: objects that preserve themselves.  The interface \<open>self_preserving\<close> states what
    \<open>PreserveCopy\<close> and \<open>Restore\<close> rely on (\<open>PackerSerializable\<close> of \<open>serializable.h\<close>); it is interpreted on
    \<open>CDVector\<close> (\<open>cd_containers.hpp\<close>) with the packer of \<open>persistence/packer.hpp\<close> and \<open>cd_packer.hpp\<close>.  Vectors
    of unchanged size come back; shrunk vectors, copies and vectors preserved twice do not.
  \<^item> \<open>Error_Inject\<close>: the injection of errors (\<open>error_injector.h/.cc\<close>) in \<open>CDAssert\<close> and
    \<open>Detect\<close>, with the failure rates of the configuration and the numbers of \<open>drand48\<close>; which errors are
    drawn, which level they are rolled back to, and that the rollback happens.  The interface \<open>error_prob\<close>
    states what is relied on of a generator.
  \<^item> \<open>Buffer_Consumer\<close>: the thread that drains the bounded buffer (\<open>persistence/buffer_consumer.h/.cc\<close>) beside a
    writer of \<open>data_store.cc\<close>, as the step relation \<open>sched_step\<close> over the mutex and the two conditions they
    share.  In every schedule the file, the circular buffer and what is left to write are the bytes of the write in
    order (invariant \<open>fifo\<close>); a wake-up can be lost, the consumer fails on a rest of less than a chunk, and
    the first piece of a write does not respect a full buffer.

  \<^bold>\<open>State.\<close>  A class is a record with the fields of the source; objects that are shared are entries
  of a list indexed by handle or pointer (the heap of phase nodes, the object store of domains).  An
  operation takes the state and gives an outcome with the new state.  \<open>uint32_t\<close> and
  \<open>uint64_t\<close> are words where wrap-around matters; positions in buffers and tables are natural
  numbers, since they count bytes and entries in memory.  A \<open>double\<close> is a real number.

  \<^bold>\<open>Bounds.\<close>  Recursions along the links of the phase tree take the number of nodes as bound, and in a
  well-formed heap they never reach it (\<open>FinishRecovery_resets_subtree\<close>); the recursion of
  \<open>GetCDToRecover\<close> is bounded by the level, which goes down in every step.  The growing loops of the table and the
  buffer are partial functions, and the proofs show that they return for a positive growing unit.
  The loop of \<open>GetData\<close> runs at most once per byte asked for.  The walks over packed logs go from one
  length field to the next and are functions with a measure, a length of zero being the outcome
  \<open>Blocked\<close>.  The waiting loops on requests are partial functions: for a receive they are shown to
  return, for a send not to.

  The queue of event handlers is run for at most two turns per handler, and the walks up a path are bounded by
  its length; both bounds are shown to suffice.

  \<^bold>\<open>Build.\<close>  The MPI build, without logging of C library calls.  The execution of domains is modelled for
  one task and the logging of messages apart from it, joined by the path of domains; the events
  between tasks are modelled on the state of all tasks, a call of one task being one step and an access to a
  window one update, so that races inside a call are not seen.  The exchange of remote entries is not
  modelled; neither are the other printers, profilers,
  MPI files, deprecated code and the example applications.  A class \<open>Serdes\<close> that packs
  members of an object is not modelled, since nothing calls it and its \<open>Deserialize\<close> only fails.

  \<^bold>\<open>Not modelled.\<close>  The exchange of remote entries, the MPI files, the profilers and the logging of C library
  calls forward to MPI, to files or to other tools.  The consumer is scheduled beside one writer in the middle of a write;
  the first piece of a write is copied without the mutex, and its races with the consumer are not modelled.
\<close>

end
